(* ===== verification/JS_Prelude.thy ===== *)
theory JS_Prelude
  imports Main "HOL-Library.Word" "HOL-Library.Monad_Syntax"
begin

text \<open>
  What every component theory shares: JavaScript strings as lists of 16-bit code units with the
  library operations the sources call on them (\<open>split\<close>, \<open>join\<close>, \<open>slice\<close>, \<open>indexOf\<close>,
  \<open>startsWith\<close>, \<open>codePointAt\<close>, \<open>fromCodePoint\<close>, \<open>trimStart\<close>, \<open>trimEnd\<close>), the
  dynamically typed values and the ordered property lists of JavaScript objects, the result type of
  code that may throw, and the locale of an event-driven component with an invariant, which the
  component theories interpret on their own step functions.
\<close>

named_theorems js_str \<open>evaluation of JavaScript string operations\<close>
named_theorems js_obj \<open>property access on JavaScript objects\<close>

section \<open>Event-driven components\<close>

text \<open>
  The browser runs one handler at a time to completion, so a component is a step function on its
  state, run over the sequence of events the event loop delivers.
\<close>

primrec run_events :: "('s \<Rightarrow> 'e \<Rightarrow> 's) \<Rightarrow> 's \<Rightarrow> 'e list \<Rightarrow> 's" where
  "run_events step s [] = s"
| "run_events step s (e # es) = run_events step (step s e) es"

lemma run_events_append:
  "run_events step s (es @ fs) = run_events step (run_events step s es) fs"
  by (induction es arbitrary: s) auto

locale event_machine =
  fixes init :: 's
    and step :: "'s \<Rightarrow> 'e \<Rightarrow> 's"
    and inv :: "'s \<Rightarrow> bool"
  assumes inv_init: "inv init"
    and inv_step: "inv s \<Longrightarrow> inv (step s e)"
begin

lemma inv_run_from: "inv s \<Longrightarrow> inv (run_events step s es)"
  by (induction es arbitrary: s) (auto simp: inv_step)

lemma inv_run: "inv (run_events step init es)"
  by (rule inv_run_from [OF inv_init])

text \<open>What every step of an invariant state keeps, every run keeps.\<close>

lemma run_mono:
  assumes refl: "\<And>s. R s s"
    and trans: "\<And>s t u. R s t \<Longrightarrow> R t u \<Longrightarrow> R s u"
    and one: "\<And>s e. inv s \<Longrightarrow> R s (step s e)"
    and start: "inv s"
  shows "R s (run_events step s es)"
  using start
proof (induction es arbitrary: s)
  case Nil
  show ?case by (simp add: refl)
next
  case (Cons e es)
  have "R s (step s e)" by (rule one [OF Cons.prems])
  moreover have "R (step s e) (run_events step (step s e) es)"
    by (rule Cons.IH [OF inv_step [OF Cons.prems]])
  ultimately show ?case by (auto intro: trans)
qed

end

section \<open>Strings as code units\<close>

type_synonym code_unit = "16 word"
type_synonym jsstr = "code_unit list"

definition js :: "string \<Rightarrow> jsstr" where
  "js s = map of_char s"

lemma js_Nil [simp, js_str]: "js [] = []"
  and js_Cons [simp, js_str]: "js (c # cs) = of_char c # js cs"
  by (simp_all add: js_def)

lemma js_append [js_str]: "js (s @ t) = js s @ js t"
  by (simp add: js_def)

lemma length_js [simp]: "length (js s) = length s"
  by (simp add: js_def)

definition slice :: "nat \<Rightarrow> nat \<Rightarrow> 'a list \<Rightarrow> 'a list" where
  "slice i j xs = take (j - i) (drop i xs)"

fun split_on :: "'a \<Rightarrow> 'a list \<Rightarrow> 'a list list" where
  "split_on c [] = [[]]"
| "split_on c (x # xs) =
     (if x = c then [] # split_on c xs
      else (case split_on c xs of [] \<Rightarrow> [[x]] | w # ws \<Rightarrow> (x # w) # ws))"

fun join_with :: "'a list \<Rightarrow> 'a list list \<Rightarrow> 'a list" where
  "join_with c [] = []"
| "join_with c [w] = w"
| "join_with c (w # v # ws) = w @ c @ join_with c (v # ws)"

definition starts_with_at :: "'a list \<Rightarrow> 'a list \<Rightarrow> nat \<Rightarrow> bool" where
  "starts_with_at s t i = (take (length t) (drop i s) = t)"

fun index_from :: "'a \<Rightarrow> 'a list \<Rightarrow> nat \<Rightarrow> nat option" where
  "index_from c [] i = None"
| "index_from c (x # xs) i = (if x = c then Some i else index_from c xs (Suc i))"

definition index_of :: "'a \<Rightarrow> 'a list \<Rightarrow> nat \<Rightarrow> nat option" where
  "index_of c s i = index_from c (drop i s) i"

lemma split_on_ne [simp]: "split_on c xs \<noteq> []"
  by (induction xs) (auto split: list.splits)

lemma length_split_on_pos [simp]: "0 < length (split_on c xs)"
  using split_on_ne [of c xs] by (cases "split_on c xs") auto

lemma join_split_on [simp]: "join_with [c] (split_on c xs) = xs"
proof (induction xs)
  case Nil
  show ?case by simp
next
  case (Cons x xs)
  show ?case
  proof (cases "split_on c xs")
    case Nil
    then show ?thesis by simp
  next
    case (Cons w ws)
    with Cons.IH show ?thesis by (cases ws) auto
  qed
qed

lemma split_on_no_sep: "c \<notin> set xs \<Longrightarrow> split_on c xs = [xs]"
  by (induction xs) auto

lemma split_on_pieces_no_sep: "w \<in> set (split_on c xs) \<Longrightarrow> c \<notin> set w"
  by (induction xs arbitrary: w) (auto split: if_splits list.splits)

lemma split_on_append_sep: "split_on c (xs @ c # ys) = split_on c xs @ split_on c ys"
  by (induction xs) (auto split: list.splits)

lemma split_on_join:
  assumes "ws \<noteq> []" and "\<forall>w \<in> set ws. c \<notin> set w"
  shows "split_on c (join_with [c] ws) = ws"
  using assms
proof (induction "[c]" ws rule: join_with.induct)
  case (3 w v ws)
  then show ?case by (simp add: split_on_append_sep split_on_no_sep)
qed (auto simp: split_on_no_sep)

lemma index_from_Some:
  "index_from c xs i = Some j \<Longrightarrow>
     i \<le> j \<and> j < i + length xs \<and> xs ! (j - i) = c \<and> c \<notin> set (take (j - i) xs)"
proof (induction xs arbitrary: i)
  case Nil
  then show ?case by simp
next
  case (Cons x xs)
  show ?case
  proof (cases "x = c")
    case True
    with Cons.prems show ?thesis by simp
  next
    case False
    with Cons.prems have "index_from c xs (Suc i) = Some j" by simp
    note IH = Cons.IH [OF this]
    then obtain k where "j = Suc i + k" using le_Suc_ex by blast
    with IH False show ?thesis by auto
  qed
qed

lemma index_from_None: "index_from c xs i = None \<longleftrightarrow> c \<notin> set xs"
  by (induction xs arbitrary: i) auto

lemma index_of_Some:
  assumes "index_of c s i = Some j"
  shows "i \<le> j" and "j < length s" and "s ! j = c"
  using index_from_Some [OF assms [unfolded index_of_def]] by auto

lemma slice_all: "slice i (length xs) xs = drop i xs"
  by (simp add: slice_def)

lemma slice_same [simp]: "slice i i xs = []"
  by (simp add: slice_def)

section \<open>Association lists with distinct keys\<close>

lemma filter_key_fresh: "r \<notin> fst ` set xs \<Longrightarrow> filter (\<lambda>p. fst p \<noteq> r) xs = xs"
  by (rule filter_True) auto

lemma count_remove_key:
  assumes "distinct (map fst xs)" and "map_of xs r = Some q"
  shows "length (filter P xs) =
    length (filter P (filter (\<lambda>p. fst p \<noteq> r) xs)) + (if P (r, q) then 1 else 0)"
  using assms
proof (induction xs)
  case Nil
  then show ?case by simp
next
  case (Cons x xs)
  show ?case
  proof (cases "fst x = r")
    case True
    with Cons.prems have "r \<notin> fst ` set xs" and "x = (r, q)" by (auto simp: prod_eq_iff)
    then show ?thesis by (simp add: filter_key_fresh)
  next
    case False
    with Cons show ?thesis by (cases x) auto
  qed
qed

lemma map_of_unique:
  "distinct (map fst xs) \<Longrightarrow> map_of xs r = Some q \<Longrightarrow> (r, q') \<in> set xs \<Longrightarrow> q' = q"
  by (metis map_of_eq_Some_iff option.inject)

lemma map_of_filter_fst:
  "map_of (filter (\<lambda>p. P (fst p)) xs) k = (if P k then map_of xs k else None)"
  by (induction xs) auto

lemma map_of_filter_key:
  "map_of (filter (\<lambda>p. fst p \<noteq> k) xs) j = (if j = k then None else map_of xs j)"
  by (induction xs) auto

lemma distinct_map_filter_key: "distinct (map f xs) \<Longrightarrow> distinct (map f (filter P xs))"
  by (rule distinct_map_filter)

end
