(* ===== verification/Rbi_Media.thy ===== *)
theory Rbi_Media
  imports JS_Prelude
begin

text \<open>
  The main-world hook of the isolated browser's extension (\<open>rbi-chrome/ext/inject.js\<close>): it
  tracks the media tracks handed to the page, the \<open>getUserMedia\<close> calls in flight and the speech
  recognition sessions, and posts \<open>cam\<close> and \<open>mic\<close> on/off messages to the content script.
  The state is one record: the closure's variables, and the browser's side that its handlers read
  (the tracks, the clock, the pending timers, the promises not yet settled). One event is one run
  of a handler; timers fire at their due time or later, in any order, as the event loop allows.
\<close>

record track_state =
  live :: bool      \<comment> \<open>\<open>readyState === "live"\<close>\<close>
  enabled :: bool

datatype timer_action = Mic_Off | Sr_Off | Retry nat

record timer =
  tid :: nat
  due :: nat
  action :: timer_action

datatype phase = Trying | Backoff

record request =
  wants_video :: bool
  left :: nat
  phase :: phase

type_synonym media_msg = "string \<times> bool"

record media =
  vtracks :: "nat list"
  atracks :: "nat list"
  tracks :: "nat \<Rightarrow> track_state"
  srActive :: bool
  srOffTimer :: "nat option"
  micOffTimer :: "nat option"
  lastV :: "bool option"
  lastA :: "bool option"
  vInflight :: int
  srHooks :: nat
  requests :: "(nat \<times> request) list"
  nextReq :: nat
  now :: nat
  timers :: "timer list"
  nextTimer :: nat
  posted :: "media_msg list"

definition media_init :: "(nat \<Rightarrow> track_state) \<Rightarrow> media" where
  "media_init trk =
     \<lparr>vtracks = [], atracks = [], tracks = trk, srActive = False, srOffTimer = None,
      micOffTimer = None, lastV = None, lastA = None, vInflight = 0, srHooks = 0, requests = [],
      nextReq = 0, now = 0, timers = [], nextTimer = 1, posted = []\<rparr>"

section \<open>The browser's timers\<close>

definition setTimeout :: "nat \<Rightarrow> timer_action \<Rightarrow> media \<Rightarrow> nat \<times> media" where
  "setTimeout d a s =
     (nextTimer s,
      s\<lparr>timers := timers s @ [\<lparr>tid = nextTimer s, due = now s + d, action = a\<rparr>],
        nextTimer := Suc (nextTimer s)\<rparr>)"

definition clearTimeout :: "nat \<Rightarrow> media \<Rightarrow> media" where
  "clearTimeout i s = s\<lparr>timers := filter (\<lambda>t. tid t \<noteq> i) (timers s)\<rparr>"

definition emit :: "string \<Rightarrow> bool \<Rightarrow> media \<Rightarrow> media" where
  "emit k on s = s\<lparr>posted := posted s @ [(k, on)]\<rparr>"

section \<open>The poll\<close>

text \<open>
  \<open>Set.forEach\<close> over the tracks: a live track that is enabled turns the signal on, a track that
  is no longer live is deleted from the set.
\<close>

fun scan :: "(nat \<Rightarrow> track_state) \<Rightarrow> bool \<Rightarrow> nat list \<Rightarrow> bool \<times> nat list" where
  "scan trk on [] = (on, [])"
| "scan trk on (t # ts) =
     (if live (trk t)
      then (let (on', keep) = scan trk (if enabled (trk t) then True else on) ts
            in (on', t # keep))
      else scan trk on ts)"

definition poll_cam :: "bool \<Rightarrow> media \<Rightarrow> media" where
  "poll_cam vOn s =
     (if Some vOn \<noteq> lastV s then emit ''cam'' vOn (s\<lparr>lastV := Some vOn\<rparr>) else s)"

definition poll_mic :: "bool \<Rightarrow> media \<Rightarrow> media" where
  "poll_mic aOn s =
     (if aOn then
        (let s1 = (case micOffTimer s of
                     Some i \<Rightarrow> (clearTimeout i s)\<lparr>micOffTimer := None\<rparr>
                   | None \<Rightarrow> s)
         in if lastA s1 \<noteq> Some True then emit ''mic'' True (s1\<lparr>lastA := Some True\<rparr>) else s1)
      else if lastA s = Some True \<and> micOffTimer s = None then
        (let (i, s1) = setTimeout 30000 Mic_Off s in s1\<lparr>micOffTimer := Some i\<rparr>)
      else s)"

definition poll :: "media \<Rightarrow> media" where
  "poll s =
     (let (vOn, vs) = scan (tracks s) (0 < vInflight s) (vtracks s);
          (aOn, as) = scan (tracks s) (srActive s) (atracks s)
      in poll_mic aOn (poll_cam vOn (s\<lparr>vtracks := vs, atracks := as\<rparr>)))"

section \<open>The \<open>getUserMedia\<close> hook\<close>

text \<open>
  The constraint object: \<open>None\<close> where the argument is absent, otherwise whether its \<open>video\<close>
  member is truthy. The native call is the environment's: it resolves with tracks or rejects with
  an error name, as events.
\<close>

definition wantsVideo :: "bool option \<Rightarrow> bool" where
  "wantsVideo c = (case c of None \<Rightarrow> False | Some v \<Rightarrow> v)"

definition put_request :: "nat \<Rightarrow> request \<Rightarrow> media \<Rightarrow> media" where
  "put_request r q s = s\<lparr>requests := (r, q) # filter (\<lambda>p. fst p \<noteq> r) (requests s)\<rparr>"

definition drop_request :: "nat \<Rightarrow> media \<Rightarrow> media" where
  "drop_request r s = s\<lparr>requests := filter (\<lambda>p. fst p \<noteq> r) (requests s)\<rparr>"

definition attempt :: "nat \<Rightarrow> bool \<Rightarrow> nat \<Rightarrow> media \<Rightarrow> media" where
  "attempt r w k s = put_request r \<lparr>wants_video = w, left = k, phase = Trying\<rparr> s"

definition settle :: "bool \<Rightarrow> media \<Rightarrow> media" where
  "settle w s = (if w then poll (s\<lparr>vInflight := max 0 (vInflight s - 1)\<rparr>) else s)"

definition getUserMedia :: "bool option \<Rightarrow> media \<Rightarrow> media" where
  "getUserMedia c s =
     (let w = wantsVideo c;
          s1 = (if w then poll (s\<lparr>vInflight := vInflight s + 1\<rparr>) else s)
      in (attempt (nextReq s1) w (if w then 9 else 0) s1)\<lparr>nextReq := Suc (nextReq s1)\<rparr>)"

definition set_add :: "'a list \<Rightarrow> 'a \<Rightarrow> 'a list" where
  "set_add xs x = (if x \<in> set xs then xs else xs @ [x])"

definition on_stream :: "nat \<Rightarrow> nat list \<Rightarrow> nat list \<Rightarrow> media \<Rightarrow> media" where
  "on_stream r vs as s =
     (case map_of (requests s) r of
        Some q \<Rightarrow>
          if phase q = Trying then
            poll (settle (wants_video q)
              ((drop_request r s)\<lparr>vtracks := foldl set_add (vtracks s) vs,
                                  atracks := foldl set_add (atracks s) as\<rparr>))
          else s
      | None \<Rightarrow> s)"

text \<open>The regular expression of the retry test: a disjunction of names, anywhere, any case.\<close>

definition ascii_lower :: "char \<Rightarrow> char" where
  "ascii_lower c = (if 65 \<le> (of_char c :: nat) \<and> (of_char c :: nat) \<le> 90
                    then char_of ((of_char c :: nat) + 32) else c)"

fun has_infix :: "'a list \<Rightarrow> 'a list \<Rightarrow> bool" where
  "has_infix p [] = (p = [])"
| "has_infix p (x # xs) = (take (length p) (x # xs) = p \<or> has_infix p xs)"

definition retryable :: "string \<Rightarrow> bool" where
  "retryable name =
     (\<exists>p \<in> set [''NotFound'', ''NotReadable'', ''OverconstrainedError'', ''AbortError'', ''TypeError''].
        has_infix (map ascii_lower p) (map ascii_lower name))"

definition on_reject :: "nat \<Rightarrow> string \<Rightarrow> media \<Rightarrow> media" where
  "on_reject r name s =
     (case map_of (requests s) r of
        Some q \<Rightarrow>
          if phase q = Trying then
            (if wants_video q \<and> 0 < left q \<and> retryable name
             then put_request r (q\<lparr>phase := Backoff\<rparr>) (snd (setTimeout 700 (Retry r) s))
             else settle (wants_video q) (drop_request r s))
          else s
      | None \<Rightarrow> s)"

section \<open>The speech recognition hook\<close>

definition sr_start :: "media \<Rightarrow> media" where
  "sr_start s =
     (let s1 = s\<lparr>srActive := True, srHooks := Suc (srHooks s)\<rparr>;
          s2 = (case srOffTimer s1 of
                  Some i \<Rightarrow> (clearTimeout i s1)\<lparr>srOffTimer := None\<rparr>
                | None \<Rightarrow> s1)
      in poll s2)"

definition sr_off :: "media \<Rightarrow> media" where
  "sr_off s =
     (if srHooks s = 0 then s
      else (let s1 = (case srOffTimer s of Some i \<Rightarrow> clearTimeout i s | None \<Rightarrow> s);
                (i, s2) = setTimeout 4000 Sr_Off s1
            in s2\<lparr>srOffTimer := Some i\<rparr>))"

section \<open>The event loop\<close>

definition run_action :: "timer_action \<Rightarrow> media \<Rightarrow> media" where
  "run_action a s =
     (case a of
        Mic_Off \<Rightarrow> emit ''mic'' False (s\<lparr>micOffTimer := None, lastA := Some False\<rparr>)
      | Sr_Off \<Rightarrow> poll (s\<lparr>srActive := False, srOffTimer := None\<rparr>)
      | Retry r \<Rightarrow>
          (case map_of (requests s) r of
             Some q \<Rightarrow> attempt r (wants_video q) (left q - 1) s
           | None \<Rightarrow> s))"

definition fire :: "nat \<Rightarrow> media \<Rightarrow> media" where
  "fire i s =
     (case find (\<lambda>t. tid t = i \<and> due t \<le> now s) (timers s) of
        Some t \<Rightarrow> run_action (action t) (clearTimeout i s)
      | None \<Rightarrow> s)"

datatype media_event =
    Tick
  | Advance nat
  | Track nat track_state
  | Gum "bool option"
  | Gum_Ok nat "nat list" "nat list"
  | Gum_Err nat string
  | Sr_Start
  | Sr_End
  | Fire nat

fun media_step :: "media \<Rightarrow> media_event \<Rightarrow> media" where
  "media_step s Tick = poll s"
| "media_step s (Advance d) = s\<lparr>now := now s + d\<rparr>"
| "media_step s (Track t st) = s\<lparr>tracks := (tracks s)(t := st)\<rparr>"
| "media_step s (Gum c) = getUserMedia c s"
| "media_step s (Gum_Ok r vs as) = on_stream r vs as s"
| "media_step s (Gum_Err r name) = on_reject r name s"
| "media_step s Sr_Start = sr_start s"
| "media_step s Sr_End = sr_off s"
| "media_step s (Fire i) = fire i s"

section \<open>What the messages say\<close>

definition of_kind :: "string \<Rightarrow> media_msg list \<Rightarrow> bool list" where
  "of_kind k ms = map snd (filter (\<lambda>m. fst m = k) ms)"

definition last_on :: "string \<Rightarrow> media_msg list \<Rightarrow> bool option" where
  "last_on k ms = (if of_kind k ms = [] then None else Some (last (of_kind k ms)))"

definition cam_wanted :: "media \<Rightarrow> bool" where
  "cam_wanted s = (0 < vInflight s \<or> (\<exists>t \<in> set (vtracks s). live (tracks s t) \<and> enabled (tracks s t)))"

definition mic_wanted :: "media \<Rightarrow> bool" where
  "mic_wanted s = (srActive s \<or> (\<exists>t \<in> set (atracks s). live (tracks s t) \<and> enabled (tracks s t)))"

lemma of_kind_append [simp]: "of_kind k (ms @ ns) = of_kind k ms @ of_kind k ns"
  by (simp add: of_kind_def)

lemma of_kind_simps [simp]:
  "of_kind k [] = []" "of_kind k ((k', on) # ms) = (if k' = k then [on] else []) @ of_kind k ms"
  by (simp_all add: of_kind_def)

lemma last_on_snoc [simp]:
  "last_on k (ms @ [(k', on)]) = (if k' = k then Some on else last_on k ms)"
  by (simp add: last_on_def)

lemma scan_fst: "fst (scan trk on ts) = (on \<or> (\<exists>t \<in> set ts. live (trk t) \<and> enabled (trk t)))"
  by (induction trk on ts rule: scan.induct) (auto simp: case_prod_beta Let_def)

lemma scan_snd: "snd (scan trk on ts) = filter (\<lambda>t. live (trk t)) ts"
  by (induction trk on ts rule: scan.induct) (auto simp: case_prod_beta Let_def)

lemma poll_eq:
  "poll s = poll_mic (mic_wanted s) (poll_cam (cam_wanted s)
     (s\<lparr>vtracks := filter (\<lambda>t. live (tracks s t)) (vtracks s),
        atracks := filter (\<lambda>t. live (tracks s t)) (atracks s)\<rparr>))"
  by (simp add: poll_def case_prod_beta Let_def scan_fst scan_snd cam_wanted_def mic_wanted_def)

lemmas media_ops = setTimeout_def clearTimeout_def emit_def put_request_def drop_request_def
  attempt_def Let_def case_prod_beta

lemma poll_frame [simp]:
  "vInflight (poll s) = vInflight s" "requests (poll s) = requests s" "nextReq (poll s) = nextReq s"
  "now (poll s) = now s" "tracks (poll s) = tracks s" "srActive (poll s) = srActive s"
  "srOffTimer (poll s) = srOffTimer s" "srHooks (poll s) = srHooks s"
  by (simp_all add: poll_eq poll_mic_def poll_cam_def media_ops split: option.splits)

lemma poll_lastV [simp]: "lastV (poll s) = Some (cam_wanted s)"
  by (simp add: poll_eq poll_mic_def poll_cam_def media_ops split: option.splits)

lemma poll_micOffTimer:
  "micOffTimer (poll s) =
     (if mic_wanted s then None
      else if lastA s = Some True \<and> micOffTimer s = None then Some (nextTimer s)
      else micOffTimer s)"
  by (simp add: poll_eq poll_mic_def poll_cam_def media_ops split: option.splits)

lemma poll_micOffTimer_wanted: "mic_wanted s \<Longrightarrow> micOffTimer (poll s) = None"
  by (simp add: poll_eq poll_mic_def poll_cam_def media_ops split: option.splits)

section \<open>The invariant\<close>

definition inv_posted :: "media \<Rightarrow> bool" where
  "inv_posted s \<longleftrightarrow>
     lastV s = last_on ''cam'' (posted s) \<and> lastA s = last_on ''mic'' (posted s) \<and>
     distinct_adj (of_kind ''cam'' (posted s)) \<and> distinct_adj (of_kind ''mic'' (posted s)) \<and>
     (of_kind ''mic'' (posted s) \<noteq> [] \<longrightarrow> hd (of_kind ''mic'' (posted s)))"

definition inv_timers :: "media \<Rightarrow> bool" where
  "inv_timers s \<longleftrightarrow>
     distinct (map tid (timers s)) \<and> distinct (map action (timers s)) \<and>
     (\<forall>t \<in> set (timers s). tid t < nextTimer s \<and>
        (action t = Mic_Off \<longleftrightarrow> micOffTimer s = Some (tid t)) \<and>
        (action t = Sr_Off \<longleftrightarrow> srOffTimer s = Some (tid t))) \<and>
     (\<forall>i. micOffTimer s = Some i \<longrightarrow> i \<in> tid ` set (timers s) \<and> lastA s = Some True) \<and>
     (\<forall>i. srOffTimer s = Some i \<longrightarrow> i \<in> tid ` set (timers s))"

definition inv_requests :: "media \<Rightarrow> bool" where
  "inv_requests s \<longleftrightarrow>
     distinct (map fst (requests s)) \<and>
     (\<forall>(r, q) \<in> set (requests s). r < nextReq s \<and> left q \<le> 9) \<and>
     (\<forall>r. Retry r \<in> action ` set (timers s) \<longleftrightarrow>
        (\<exists>q. (r, q) \<in> set (requests s) \<and> phase q = Backoff)) \<and>
     (\<forall>(r, q) \<in> set (requests s). phase q = Backoff \<longrightarrow> 0 < left q \<and> wants_video q)"

definition inv_inflight :: "media \<Rightarrow> bool" where
  "inv_inflight s \<longleftrightarrow>
     vInflight s = int (length (filter (\<lambda>p. wants_video (snd p)) (requests s)))"

definition inv_cam :: "media \<Rightarrow> bool" where
  "inv_cam s \<longleftrightarrow> (0 < vInflight s \<longrightarrow> lastV s = Some True)"

definition media_inv :: "media \<Rightarrow> bool" where
  "media_inv s \<longleftrightarrow> inv_posted s \<and> inv_timers s \<and> inv_requests s \<and> inv_inflight s \<and> inv_cam s"

text \<open>Each part of the invariant reads only some of the fields.\<close>

lemma inv_posted_frame [simp]:
  "inv_posted (s\<lparr>vInflight := n\<rparr>) = inv_posted s" "inv_posted (s\<lparr>now := m\<rparr>) = inv_posted s"
  "inv_posted (s\<lparr>tracks := f\<rparr>) = inv_posted s" "inv_posted (s\<lparr>srActive := b\<rparr>) = inv_posted s"
  "inv_posted (s\<lparr>srHooks := m\<rparr>) = inv_posted s" "inv_posted (s\<lparr>srOffTimer := u\<rparr>) = inv_posted s"
  "inv_posted (s\<lparr>micOffTimer := u\<rparr>) = inv_posted s" "inv_posted (s\<lparr>timers := ts\<rparr>) = inv_posted s"
  "inv_posted (s\<lparr>nextTimer := m\<rparr>) = inv_posted s" "inv_posted (s\<lparr>requests := rs\<rparr>) = inv_posted s"
  "inv_posted (s\<lparr>nextReq := m\<rparr>) = inv_posted s"
  by (simp_all add: inv_posted_def)

lemma inv_timers_frame [simp]:
  "inv_timers (s\<lparr>vInflight := n\<rparr>) = inv_timers s" "inv_timers (s\<lparr>now := m\<rparr>) = inv_timers s"
  "inv_timers (s\<lparr>tracks := f\<rparr>) = inv_timers s" "inv_timers (s\<lparr>srActive := b\<rparr>) = inv_timers s"
  "inv_timers (s\<lparr>srHooks := m\<rparr>) = inv_timers s" "inv_timers (s\<lparr>requests := rs\<rparr>) = inv_timers s"
  "inv_timers (s\<lparr>nextReq := m\<rparr>) = inv_timers s"
  by (simp_all add: inv_timers_def)

lemma inv_requests_frame [simp]:
  "inv_requests (s\<lparr>vInflight := n\<rparr>) = inv_requests s" "inv_requests (s\<lparr>now := m\<rparr>) = inv_requests s"
  "inv_requests (s\<lparr>tracks := f\<rparr>) = inv_requests s" "inv_requests (s\<lparr>srActive := b\<rparr>) = inv_requests s"
  "inv_requests (s\<lparr>srHooks := m\<rparr>) = inv_requests s" "inv_requests (s\<lparr>srOffTimer := u\<rparr>) = inv_requests s"
  "inv_requests (s\<lparr>micOffTimer := u\<rparr>) = inv_requests s" "inv_requests (s\<lparr>lastA := v\<rparr>) = inv_requests s"
  "inv_requests (s\<lparr>nextTimer := m\<rparr>) = inv_requests s" "inv_requests (s\<lparr>posted := ms\<rparr>) = inv_requests s"
  by (simp_all add: inv_requests_def)

lemma inv_inflight_frame [simp]:
  "inv_inflight (s\<lparr>now := m\<rparr>) = inv_inflight s" "inv_inflight (s\<lparr>tracks := f\<rparr>) = inv_inflight s"
  "inv_inflight (s\<lparr>srActive := b\<rparr>) = inv_inflight s" "inv_inflight (s\<lparr>srHooks := m\<rparr>) = inv_inflight s"
  "inv_inflight (s\<lparr>srOffTimer := u\<rparr>) = inv_inflight s" "inv_inflight (s\<lparr>micOffTimer := u\<rparr>) = inv_inflight s"
  "inv_inflight (s\<lparr>timers := ts\<rparr>) = inv_inflight s" "inv_inflight (s\<lparr>nextTimer := m\<rparr>) = inv_inflight s"
  "inv_inflight (s\<lparr>lastA := v\<rparr>) = inv_inflight s" "inv_inflight (s\<lparr>posted := ms\<rparr>) = inv_inflight s"
  by (simp_all add: inv_inflight_def)

lemma inv_cam_frame [simp]:
  "inv_cam (s\<lparr>now := m\<rparr>) = inv_cam s" "inv_cam (s\<lparr>tracks := f\<rparr>) = inv_cam s"
  "inv_cam (s\<lparr>srOffTimer := u\<rparr>) = inv_cam s" "inv_cam (s\<lparr>micOffTimer := u\<rparr>) = inv_cam s"
  "inv_cam (s\<lparr>timers := ts\<rparr>) = inv_cam s" "inv_cam (s\<lparr>nextTimer := m\<rparr>) = inv_cam s"
  "inv_cam (s\<lparr>lastA := v\<rparr>) = inv_cam s" "inv_cam (s\<lparr>posted := ms\<rparr>) = inv_cam s"
  by (simp_all add: inv_cam_def)

lemma inv_cam_poll [simp]: "inv_cam (poll s)"
  by (simp add: inv_cam_def cam_wanted_def)

lemma distinct_adj_snoc_last:
  "distinct_adj xs \<Longrightarrow> (xs \<noteq> [] \<Longrightarrow> last xs \<noteq> x) \<Longrightarrow> distinct_adj (xs @ [x])"
  by (auto simp: distinct_adj_append_iff)

lemma inv_posted_emit_cam:
  assumes "inv_posted s" and "Some on \<noteq> lastV s"
  shows "inv_posted (emit ''cam'' on (s\<lparr>lastV := Some on\<rparr>))"
  using assms
  by (auto simp: inv_posted_def emit_def last_on_def intro!: distinct_adj_snoc_last)

lemma inv_posted_emit_mic:
  assumes "inv_posted s" and "Some on \<noteq> lastA s" and "on \<or> lastA s = Some True"
  shows "inv_posted (emit ''mic'' on (s\<lparr>lastA := Some on\<rparr>))"
  using assms
  by (auto simp: inv_posted_def emit_def last_on_def hd_append intro!: distinct_adj_snoc_last
      split: if_splits)

lemma inv_posted_poll_cam: "inv_posted s \<Longrightarrow> inv_posted (poll_cam on s)"
  by (simp add: poll_cam_def inv_posted_emit_cam)

lemma inv_posted_poll_mic: "inv_posted s \<Longrightarrow> inv_posted (poll_mic on s)"
proof -
  assume inv: "inv_posted s"
  let ?s1 = "case micOffTimer s of Some i \<Rightarrow> (clearTimeout i s)\<lparr>micOffTimer := None\<rparr> | None \<Rightarrow> s"
  have s1: "inv_posted ?s1"
    using inv by (auto simp: inv_posted_def clearTimeout_def split: option.splits)
  show ?thesis
  proof (cases on)
    case True
    with s1 inv_posted_emit_mic [OF s1, of True] show ?thesis
      by (auto simp: poll_mic_def Let_def)
  next
    case False
    with inv show ?thesis by (simp add: poll_mic_def inv_posted_def setTimeout_def)
  qed
qed

lemma inv_posted_poll: "inv_posted s \<Longrightarrow> inv_posted (poll s)"
  unfolding poll_eq
  by (intro inv_posted_poll_mic inv_posted_poll_cam) (simp add: inv_posted_def)

text \<open>Setting and clearing a timer, for the timer invariant.\<close>

lemma inv_timers_clear_mic:
  assumes "inv_timers s"
  shows "inv_timers
    (case micOffTimer s of Some i \<Rightarrow> (clearTimeout i s)\<lparr>micOffTimer := None\<rparr> | None \<Rightarrow> s)"
proof (cases "micOffTimer s")
  case None
  with assms show ?thesis by simp
next
  case (Some i)
  have "srOffTimer s \<noteq> Some i"
  proof
    assume sr: "srOffTimer s = Some i"
    with assms obtain t where "t \<in> set (timers s)" and "i = tid t"
      by (auto simp: inv_timers_def)
    with assms Some sr show False by (auto simp: inv_timers_def)
  qed
  with assms Some show ?thesis
    by (auto simp: inv_timers_def clearTimeout_def distinct_map_filter)
qed

lemma inv_timers_clear_sr:
  assumes "inv_timers s"
  shows "inv_timers
    (case srOffTimer s of Some i \<Rightarrow> (clearTimeout i s)\<lparr>srOffTimer := None\<rparr> | None \<Rightarrow> s)"
proof (cases "srOffTimer s")
  case None
  with assms show ?thesis by simp
next
  case (Some i)
  have "micOffTimer s \<noteq> Some i"
  proof
    assume mic: "micOffTimer s = Some i"
    with assms obtain t where "t \<in> set (timers s)" and "i = tid t"
      by (auto simp: inv_timers_def)
    with assms Some mic show False by (auto simp: inv_timers_def)
  qed
  with assms Some show ?thesis
    by (auto simp: inv_timers_def clearTimeout_def distinct_map_filter)
qed

lemma inv_timers_set:
  assumes "inv_timers s" and "a \<notin> action ` set (timers s)"
    and "a = Mic_Off \<Longrightarrow> lastA s = Some True"
  shows "inv_timers ((snd (setTimeout d a s))
    \<lparr>micOffTimer := if a = Mic_Off then Some (fst (setTimeout d a s)) else micOffTimer s,
     srOffTimer := if a = Sr_Off then Some (fst (setTimeout d a s)) else srOffTimer s\<rparr>)"
proof -
  let ?n = "nextTimer s"
  have new: "tid t \<noteq> ?n" if "t \<in> set (timers s)" for t
    using assms(1) that by (auto simp: inv_timers_def)
  have mic: "micOffTimer s \<noteq> Some ?n" and sr: "srOffTimer s \<noteq> Some ?n"
    using assms(1) new by (fastforce simp: inv_timers_def)+
  have acts: "\<forall>t \<in> set (timers s). action t \<noteq> a"
    using assms(2) by auto
  show ?thesis
    using assms(1,3) new mic sr acts unfolding inv_timers_def setTimeout_def
    by (cases a) (auto simp: less_Suc_eq image_iff)
qed

lemma inv_timers_poll_cam: "inv_timers s \<Longrightarrow> inv_timers (poll_cam on s)"
  by (simp add: inv_timers_def poll_cam_def emit_def)

lemma inv_timers_poll_mic:
  assumes inv: "inv_timers s"
  shows "inv_timers (poll_mic on s)"
proof (cases on)
  case True
  let ?s1 = "case micOffTimer s of Some i \<Rightarrow> (clearTimeout i s)\<lparr>micOffTimer := None\<rparr> | None \<Rightarrow> s"
  have "inv_timers ?s1" by (rule inv_timers_clear_mic [OF inv])
  moreover have "micOffTimer ?s1 = None" by (simp split: option.splits)
  ultimately show ?thesis using True
    by (auto simp: poll_mic_def Let_def emit_def inv_timers_def)
next
  case False
  show ?thesis
  proof (cases "lastA s = Some True \<and> micOffTimer s = None")
    case True
    with inv have "Mic_Off \<notin> action ` set (timers s)" by (auto simp: inv_timers_def)
    from inv_timers_set [OF inv this] True False show ?thesis
      by (simp add: poll_mic_def case_prod_beta setTimeout_def)
  next
    case False
    with inv \<open>\<not> on\<close> show ?thesis by (auto simp: poll_mic_def)
  qed
qed

lemma inv_timers_poll: "inv_timers s \<Longrightarrow> inv_timers (poll s)"
  unfolding poll_eq
  by (intro inv_timers_poll_mic inv_timers_poll_cam) (simp add: inv_timers_def)

lemma timers_poll:
  "timers (poll s) =
     (if mic_wanted s
      then (case micOffTimer s of Some i \<Rightarrow> filter (\<lambda>t. tid t \<noteq> i) (timers s) | None \<Rightarrow> timers s)
      else if lastA s = Some True \<and> micOffTimer s = None
      then timers s @ [\<lparr>tid = nextTimer s, due = now s + 30000, action = Mic_Off\<rparr>]
      else timers s)"
  by (simp add: poll_eq poll_mic_def poll_cam_def media_ops split: option.splits)

text \<open>A poll changes no retry timer, so the requests keep theirs.\<close>

lemma retry_timers_poll [simp]:
  assumes "inv_timers s"
  shows "Retry r \<in> action ` set (timers (poll s)) \<longleftrightarrow> Retry r \<in> action ` set (timers s)"
proof -
  have "\<forall>t \<in> set (timers s). action t = Retry r \<longrightarrow> micOffTimer s \<noteq> Some (tid t)"
    using assms by (auto simp: inv_timers_def)
  then show ?thesis
    by (auto simp: timers_poll image_iff split: option.splits)
qed

lemma inv_requests_poll: "inv_timers s \<Longrightarrow> inv_requests s \<Longrightarrow> inv_requests (poll s)"
  by (simp add: inv_requests_def)

section \<open>Every handler keeps the invariant\<close>

lemma trying_no_retry:
  assumes "inv_requests s" and "map_of (requests s) r = Some q" and "phase q = Trying"
  shows "Retry r \<notin> action ` set (timers s)"
proof
  assume "Retry r \<in> action ` set (timers s)"
  with assms(1) obtain q' where "(r, q') \<in> set (requests s)" and "phase q' = Backoff"
    unfolding inv_requests_def by blast
  moreover from this assms(1,2) have "q' = q"
    by (intro map_of_unique [of "requests s" r q q']) (auto simp: inv_requests_def)
  ultimately show False using assms(3) by simp
qed

lemma inv_requests_drop:
  assumes inv: "inv_requests s" and q: "map_of (requests s) r = Some q" "phase q = Trying"
    and same: "timers s' = timers s" "nextReq s' = nextReq s"
      "requests s' = filter (\<lambda>p. fst p \<noteq> r) (requests s)"
  shows "inv_requests s'"
proof -
  have uniq: "phase q' = Trying" if "(r, q') \<in> set (requests s)" for q'
    using inv q that map_of_unique [of "requests s" r q q'] by (auto simp: inv_requests_def)
  have dist: "distinct (map fst (requests s'))"
    using inv same by (simp add: inv_requests_def distinct_map_filter)
  have retry: "Retry i \<in> action ` set (timers s') \<longleftrightarrow>
      (\<exists>q. (i, q) \<in> set (requests s') \<and> phase q = Backoff)" for i
  proof -
    have "Retry i \<in> action ` set (timers s) \<longleftrightarrow>
        (\<exists>q. (i, q) \<in> set (requests s) \<and> phase q = Backoff)"
      using inv by (simp add: inv_requests_def)
    also have "\<dots> \<longleftrightarrow> (\<exists>q. (i, q) \<in> set (requests s') \<and> phase q = Backoff)"
      using uniq same by (cases "i = r") (auto dest: uniq)
    finally show ?thesis by (simp add: same)
  qed
  show ?thesis
    using dist retry inv same by (auto simp: inv_requests_def)
qed

lemma inv_requests_put:
  assumes inv: "inv_requests s"
    and req: "requests s' = (r, q') # filter (\<lambda>p. fst p \<noteq> r) (requests s)"
    and next_req: "r < nextReq s'" "nextReq s \<le> nextReq s'"
    and q': "left q' \<le> 9" "phase q' = Backoff \<Longrightarrow> 0 < left q' \<and> wants_video q'"
    and retry: "\<And>i. Retry i \<in> action ` set (timers s') \<longleftrightarrow>
      (if i = r then phase q' = Backoff else Retry i \<in> action ` set (timers s))"
  shows "inv_requests s'"
proof -
  have dist: "distinct (map fst (requests s'))"
    using inv by (auto simp: req inv_requests_def distinct_map_filter)
  have *: "Retry i \<in> action ` set (timers s') \<longleftrightarrow>
      (\<exists>q. (i, q) \<in> set (requests s') \<and> phase q = Backoff)" for i
    using inv retry [of i] by (auto simp: req inv_requests_def)
  show ?thesis
    using dist * inv next_req q' by (auto simp: inv_requests_def req)
qed

lemma inv_inflight_put:
  assumes "inv_requests s" and "inv_inflight s" and "map_of (requests s) r = Some q"
    and "wants_video q' = wants_video q" and "vInflight s' = vInflight s"
    and "requests s' = (r, q') # filter (\<lambda>p. fst p \<noteq> r) (requests s)"
  shows "inv_inflight s'"
  using assms count_remove_key [of "requests s" r q "\<lambda>p. wants_video (snd p)"]
  by (auto simp: inv_inflight_def inv_requests_def)

lemma inv_inflight_drop:
  assumes "inv_requests s" and "inv_inflight s" and "map_of (requests s) r = Some q"
    and "requests s' = filter (\<lambda>p. fst p \<noteq> r) (requests s)"
    and "vInflight s' = (if wants_video q then max 0 (vInflight s - 1) else vInflight s)"
  shows "inv_inflight s'"
  using assms count_remove_key [of "requests s" r q "\<lambda>p. wants_video (snd p)"]
  by (auto simp: inv_inflight_def inv_requests_def)

lemma media_inv_poll: "media_inv s \<Longrightarrow> media_inv (poll s)"
  by (simp add: media_inv_def inv_posted_poll inv_timers_poll inv_requests_poll)
    (simp add: inv_inflight_def)

lemma media_inv_poll_weak:
  "inv_posted s \<Longrightarrow> inv_timers s \<Longrightarrow> inv_requests s \<Longrightarrow> inv_inflight s \<Longrightarrow> media_inv (poll s)"
  by (simp add: media_inv_def inv_posted_poll inv_timers_poll inv_requests_poll inv_inflight_def)

lemma media_inv_on_stream:
  assumes inv: "media_inv s"
  shows "media_inv (on_stream r vs as s)"
proof (cases "map_of (requests s) r")
  case None
  with inv show ?thesis by (simp add: on_stream_def)
next
  case (Some q)
  show ?thesis
  proof (cases "phase q = Trying")
    case False
    with inv Some show ?thesis by (simp add: on_stream_def)
  next
    case True
    define e where "e = (drop_request r s)\<lparr>vtracks := foldl set_add (vtracks s) vs,
      atracks := foldl set_add (atracks s) as,
      vInflight := if wants_video q then max 0 (vInflight s - 1) else vInflight s\<rparr>"
    have p: "inv_posted e" and t: "inv_timers e"
      using inv by (auto simp: e_def media_inv_def inv_posted_def inv_timers_def drop_request_def)
    have r: "inv_requests e"
      by (rule inv_requests_drop [of s r q])
        (use inv Some True in \<open>auto simp: e_def media_inv_def drop_request_def\<close>)
    have f: "inv_inflight e"
      by (rule inv_inflight_drop [of s r q])
        (use inv Some in \<open>auto simp: e_def media_inv_def drop_request_def\<close>)
    have "on_stream r vs as s = (if wants_video q then poll (poll e) else poll e)"
      using Some True by (simp add: e_def on_stream_def settle_def drop_request_def)
    moreover have "media_inv (poll e)"
      using p t r f by (simp add: media_inv_poll_weak)
    ultimately show ?thesis by (simp add: media_inv_poll)
  qed
qed

lemma media_inv_on_reject:
  assumes inv: "media_inv s"
  shows "media_inv (on_reject r name s)"
proof (cases "map_of (requests s) r")
  case None
  with inv show ?thesis by (simp add: on_reject_def)
next
  case (Some q)
  consider (idle) "phase q \<noteq> Trying"
    | (retry) "phase q = Trying" "wants_video q" "0 < left q" "retryable name"
    | (final) "phase q = Trying" "\<not> (wants_video q \<and> 0 < left q \<and> retryable name)"
    by metis
  then show ?thesis
  proof cases
    case idle
    with inv Some show ?thesis by (simp add: on_reject_def)
  next
    case final
    define e where "e = (drop_request r s)
      \<lparr>vInflight := if wants_video q then max 0 (vInflight s - 1) else vInflight s\<rparr>"
    have p: "inv_posted e" and t: "inv_timers e"
      using inv by (auto simp: e_def media_inv_def inv_posted_def inv_timers_def drop_request_def)
    have r: "inv_requests e"
      by (rule inv_requests_drop [of s r q])
        (use inv Some final in \<open>auto simp: e_def media_inv_def drop_request_def\<close>)
    have f: "inv_inflight e"
      by (rule inv_inflight_drop [of s r q])
        (use inv Some in \<open>auto simp: e_def media_inv_def drop_request_def\<close>)
    have eq: "on_reject r name s = (if wants_video q then poll e else e)"
      using Some final by (auto simp: e_def on_reject_def settle_def drop_request_def)
    have "inv_cam e" if "\<not> wants_video q"
      using that inv by (simp add: e_def media_inv_def inv_cam_def drop_request_def)
    with p t r f show ?thesis by (simp add: eq media_inv_poll_weak) (simp add: media_inv_def)
  next
    case retry
    have "Retry r \<notin> action ` set (timers s)"
      by (rule trying_no_retry [OF _ Some retry(1)]) (use inv in \<open>simp add: media_inv_def\<close>)
    with inv have t: "inv_timers (snd (setTimeout 700 (Retry r) s))"
      using inv_timers_set [of s "Retry r" 700] by (simp add: media_inv_def setTimeout_def)
    define e where "e = put_request r (q\<lparr>phase := Backoff\<rparr>) (snd (setTimeout 700 (Retry r) s))"
    have "(r, q) \<in> set (requests s)" by (rule map_of_SomeD [OF Some])
    then have q: "r < nextReq s" "left q \<le> 9"
      using inv by (auto simp: media_inv_def inv_requests_def)
    have r: "inv_requests e"
      by (rule inv_requests_put [of s e r "q\<lparr>phase := Backoff\<rparr>"])
        (use inv q retry in \<open>auto simp: e_def media_ops media_inv_def\<close>)
    have f: "inv_inflight e"
      by (rule inv_inflight_put [of s r q "q\<lparr>phase := Backoff\<rparr>"])
        (use inv Some in \<open>auto simp: e_def media_ops media_inv_def\<close>)
    have "inv_timers e" using t by (simp add: e_def put_request_def inv_timers_def)
    moreover have "inv_posted e" "inv_cam e"
      using inv by (auto simp: e_def media_ops media_inv_def inv_posted_def inv_cam_def)
    moreover have "on_reject r name s = e" using Some retry by (simp add: on_reject_def e_def)
    ultimately show ?thesis using r f by (simp add: media_inv_def)
  qed
qed

lemma media_inv_getUserMedia:
  assumes inv: "media_inv s"
  shows "media_inv (getUserMedia c s)"
proof -
  define w where "w = wantsVideo c"
  define s1 where "s1 = (if w then poll (s\<lparr>vInflight := vInflight s + 1\<rparr>) else s)"
  let ?q = "\<lparr>wants_video = w, left = if w then 9 else 0, phase = Trying\<rparr>"
  define e where "e = (put_request (nextReq s1) ?q s1)\<lparr>nextReq := Suc (nextReq s1)\<rparr>"
  have keep: "requests s1 = requests s" "nextReq s1 = nextReq s" "inv_posted s1" "inv_timers s1"
    "inv_requests s1" "vInflight s1 = vInflight s + (if w then 1 else 0)"
    using inv
    by (simp_all add: s1_def media_inv_def inv_posted_poll inv_timers_poll inv_requests_poll)
  have new: "nextReq s \<notin> fst ` set (requests s)"
    using inv by (auto simp: media_inv_def inv_requests_def)
  then have "Retry (nextReq s) \<notin> action ` set (timers s1)"
    using keep by (force simp: inv_requests_def)
  then have r: "inv_requests e"
    by (intro inv_requests_put [of s1 e "nextReq s1" ?q])
      (use keep in \<open>auto simp: e_def put_request_def\<close>)
  have f: "inv_inflight e"
    using inv keep(1,2,6) filter_key_fresh [OF new]
    by (simp add: e_def put_request_def inv_inflight_def media_inv_def)
  have c: "inv_cam e"
    using inv
    by (auto simp: e_def s1_def put_request_def inv_cam_def cam_wanted_def media_inv_def inv_inflight_def)
  have "inv_posted e" "inv_timers e"
    using keep(3,4) by (auto simp: e_def put_request_def inv_posted_def inv_timers_def)
  with r f c have "media_inv e" by (simp add: media_inv_def)
  then show ?thesis by (simp add: getUserMedia_def attempt_def e_def s1_def w_def Let_def)
qed

text \<open>Clearing a timer that is no retry leaves the requests' timers alone.\<close>

lemma inv_requests_clear:
  assumes "inv_requests s" and "\<forall>t \<in> set (timers s). tid t = i \<longrightarrow> (\<forall>r. action t \<noteq> Retry r)"
  shows "inv_requests (clearTimeout i s)"
proof -
  have "Retry r \<in> action ` set (timers (clearTimeout i s)) \<longleftrightarrow> Retry r \<in> action ` set (timers s)" for r
    using assms(2) unfolding clearTimeout_def image_iff by simp metis
  then show ?thesis
    using assms(1) unfolding inv_requests_def by (simp add: clearTimeout_def)
qed

lemma media_inv_sr_start:
  assumes inv: "media_inv s"
  shows "media_inv (sr_start s)"
proof -
  define s1 where "s1 = s\<lparr>srActive := True, srHooks := Suc (srHooks s)\<rparr>"
  define s2 where
    "s2 = (case srOffTimer s1 of Some i \<Rightarrow> (clearTimeout i s1)\<lparr>srOffTimer := None\<rparr> | None \<Rightarrow> s1)"
  have s1: "inv_timers s1" "inv_requests s1" "inv_posted s1" "inv_inflight s1"
    using inv by (simp_all add: s1_def media_inv_def)
  have t: "inv_timers s2"
    unfolding s2_def by (rule inv_timers_clear_sr [OF s1(1)])
  have "\<forall>t \<in> set (timers s1). srOffTimer s1 = Some (tid t) \<longrightarrow> (\<forall>r. action t \<noteq> Retry r)"
    using s1(1) by (fastforce simp: inv_timers_def)
  then have "inv_requests s2"
    using s1(2) inv_requests_clear [of s1] by (auto simp: s2_def split: option.splits)
  moreover have "inv_posted s2" "inv_inflight s2"
    using s1 by (auto simp: s2_def clearTimeout_def split: option.splits)
  ultimately have "media_inv (poll s2)"
    using t by (simp add: media_inv_poll_weak)
  then show ?thesis
    unfolding sr_start_def Let_def s2_def s1_def .
qed

lemma media_inv_sr_off:
  assumes inv: "media_inv s"
  shows "media_inv (sr_off s)"
proof -
  define s1 where "s1 = (case srOffTimer s of Some i \<Rightarrow> (clearTimeout i s)\<lparr>srOffTimer := None\<rparr> | None \<Rightarrow> s)"
  define s2 where "s2 = (snd (setTimeout 4000 Sr_Off s1))\<lparr>srOffTimer := Some (nextTimer s)\<rparr>"
  have t1: "inv_timers s1"
    unfolding s1_def by (rule inv_timers_clear_sr) (use inv in \<open>simp add: media_inv_def\<close>)
  have none: "srOffTimer s1 = None" by (simp add: s1_def split: option.splits)
  with t1 have "Sr_Off \<notin> action ` set (timers s1)" by (auto simp: inv_timers_def)
  moreover have "nextTimer s1 = nextTimer s"
    by (simp add: s1_def clearTimeout_def split: option.splits)
  ultimately have t: "inv_timers s2"
    using inv_timers_set [OF t1, of Sr_Off 4000] by (simp add: s2_def setTimeout_def)
  have "\<forall>t \<in> set (timers s). srOffTimer s = Some (tid t) \<longrightarrow> (\<forall>r. action t \<noteq> Retry r)"
    using inv by (fastforce simp: media_inv_def inv_timers_def)
  then have "inv_requests s1"
    using inv inv_requests_clear [of s] by (auto simp: s1_def media_inv_def split: option.splits)
  then have "inv_requests s2"
    by (simp add: s2_def setTimeout_def inv_requests_def)
  moreover have "inv_posted s2" "inv_inflight s2" "inv_cam s2"
    using inv by (auto simp: s2_def s1_def media_ops media_inv_def split: option.splits)
  ultimately have "media_inv s2" using t by (simp add: media_inv_def)
  moreover have "sr_off s = (if srHooks s = 0 then s else s2)"
    by (simp add: sr_off_def s2_def s1_def media_ops split: option.splits)
  ultimately show ?thesis using inv by simp
qed

lemma find_due_SomeD:
  assumes "find (\<lambda>t. tid t = i \<and> due t \<le> now s) (timers s) = Some t"
  shows "t \<in> set (timers s)" and "tid t = i" and "due t \<le> now s"
  using assms by (auto simp: find_Some_iff)

lemma media_inv_fire_mic:
  assumes inv: "media_inv s" and t: "t \<in> set (timers s)" "action t = Mic_Off"
  shows "media_inv (run_action Mic_Off (clearTimeout (tid t) s))"
proof -
  from inv t have mic: "micOffTimer s = Some (tid t)" "lastA s = Some True"
    by (auto simp: media_inv_def inv_timers_def)
  define s1 where "s1 = (clearTimeout (tid t) s)\<lparr>micOffTimer := None\<rparr>"
  have t1: "inv_timers s1"
    using inv_timers_clear_mic [of s] inv mic by (simp add: media_inv_def s1_def)
  have "\<forall>u \<in> set (timers s). tid u = tid t \<longrightarrow> (\<forall>r. action u \<noteq> Retry r)"
    using inv mic by (fastforce simp: media_inv_def inv_timers_def)
  then have r1: "inv_requests s1"
    using inv inv_requests_clear [of s "tid t"] by (simp add: s1_def media_inv_def)
  have s1: "inv_posted s1" "inv_inflight s1" "inv_cam s1" "lastA s1 = Some True" "micOffTimer s1 = None"
    using inv mic by (simp_all add: s1_def clearTimeout_def media_inv_def)
  have eq: "run_action Mic_Off (clearTimeout (tid t) s) = emit ''mic'' False (s1\<lparr>lastA := Some False\<rparr>)"
    by (simp add: run_action_def s1_def)
  have "inv_posted (emit ''mic'' False (s1\<lparr>lastA := Some False\<rparr>))"
    using s1 by (intro inv_posted_emit_mic) auto
  moreover have "inv_timers (emit ''mic'' False (s1\<lparr>lastA := Some False\<rparr>))"
    using t1 s1(5) by (simp add: inv_timers_def emit_def)
  ultimately show ?thesis
    using s1 r1 by (simp add: eq media_inv_def emit_def)
qed

lemma media_inv_fire_sr:
  assumes inv: "media_inv s" and t: "t \<in> set (timers s)" "action t = Sr_Off"
  shows "media_inv (run_action Sr_Off (clearTimeout (tid t) s))"
proof -
  from inv t have sr: "srOffTimer s = Some (tid t)"
    by (auto simp: media_inv_def inv_timers_def)
  define s1 where "s1 = (clearTimeout (tid t) s)\<lparr>srActive := False, srOffTimer := None\<rparr>"
  have "inv_timers ((clearTimeout (tid t) s)\<lparr>srOffTimer := None\<rparr>)"
    using inv_timers_clear_sr [of s] inv sr by (simp add: media_inv_def)
  then have t1: "inv_timers s1" by (simp add: s1_def inv_timers_def)
  have "\<forall>u \<in> set (timers s). tid u = tid t \<longrightarrow> (\<forall>r. action u \<noteq> Retry r)"
    using inv sr by (fastforce simp: media_inv_def inv_timers_def)
  then have r1: "inv_requests s1"
    using inv inv_requests_clear [of s "tid t"] by (simp add: s1_def media_inv_def)
  have "inv_posted s1" "inv_inflight s1"
    using inv by (simp_all add: s1_def clearTimeout_def media_inv_def)
  with t1 r1 have "media_inv (poll s1)"
    by (simp add: media_inv_poll_weak)
  then show ?thesis by (simp add: run_action_def s1_def)
qed

lemma inv_timers_clear_other:
  assumes inv: "inv_timers s"
    and other: "\<forall>u \<in> set (timers s). tid u = i \<longrightarrow> action u \<noteq> Mic_Off \<and> action u \<noteq> Sr_Off"
  shows "inv_timers (clearTimeout i s)"
proof -
  have "micOffTimer s \<noteq> Some i" "srOffTimer s \<noteq> Some i"
    using inv other unfolding inv_timers_def by fastforce+
  with inv show ?thesis
    by (auto simp: inv_timers_def clearTimeout_def distinct_map_filter)
qed

lemma media_inv_fire_retry:
  assumes inv: "media_inv s" and t: "t \<in> set (timers s)" "action t = Retry r"
  shows "media_inv (run_action (Retry r) (clearTimeout (tid t) s))"
proof -
  from inv t obtain q where q: "(r, q) \<in> set (requests s)" "phase q = Backoff"
    unfolding media_inv_def inv_requests_def by (metis image_eqI)
  then have look: "map_of (requests s) r = Some q"
    using inv by (simp add: media_inv_def inv_requests_def)
  from q inv have bounds: "r < nextReq s" "left q \<le> 9"
    by (auto simp: media_inv_def inv_requests_def)
  let ?q' = "\<lparr>wants_video = wants_video q, left = left q - 1, phase = Trying\<rparr>"
  define e where "e = put_request r ?q' (clearTimeout (tid t) s)"
  have only: "u = t" if "u \<in> set (timers s)" "tid u = tid t \<or> action u = action t" for u
    using inv t(1) that by (auto simp: media_inv_def inv_timers_def distinct_map inj_on_eq_iff)
  have "action u = Retry r" if "u \<in> set (timers s)" "tid u = tid t" for u
    using only [OF that(1)] that(2) t(2) by simp
  then have "inv_timers (clearTimeout (tid t) s)"
    using inv by (intro inv_timers_clear_other) (auto simp: media_inv_def)
  then have tm: "inv_timers e" by (simp add: e_def put_request_def)
  have "inv_requests e"
  proof (rule inv_requests_put [of s e r ?q'])
    fix i
    have "set (timers e) = set (timers s) - {t}"
      using t only by (auto simp: e_def media_ops)
    moreover have "Retry r \<notin> action ` (set (timers s) - {t})"
      using t(2) only by (metis Diff_iff image_iff singletonI)
    ultimately show "Retry i \<in> action ` set (timers e) \<longleftrightarrow>
        (if i = r then phase ?q' = Backoff else Retry i \<in> action ` set (timers s))"
      using t(2) by auto
  qed (use inv bounds in \<open>auto simp: e_def media_ops media_inv_def\<close>)
  moreover have "inv_inflight e"
    by (rule inv_inflight_put [of s r q ?q'])
      (use inv look in \<open>auto simp: e_def media_ops media_inv_def\<close>)
  moreover have "inv_posted e" "inv_cam e"
    using inv by (auto simp: e_def media_ops media_inv_def inv_cam_def)
  ultimately have "media_inv e" using tm by (simp add: media_inv_def)
  moreover have "run_action (Retry r) (clearTimeout (tid t) s) = e"
    using look by (simp add: run_action_def e_def attempt_def clearTimeout_def)
  ultimately show ?thesis by simp
qed

lemma media_inv_fire: "media_inv s \<Longrightarrow> media_inv (fire i s)"
proof -
  assume inv: "media_inv s"
  show ?thesis
  proof (cases "find (\<lambda>t. tid t = i \<and> due t \<le> now s) (timers s)")
    case None
    with inv show ?thesis by (simp add: fire_def)
  next
    case (Some t)
    from find_due_SomeD [OF Some] inv show ?thesis
      unfolding fire_def Some
      by (cases "action t")
        (auto intro: media_inv_fire_mic media_inv_fire_sr media_inv_fire_retry)
  qed
qed

lemma media_inv_init: "media_inv (media_init trk)"
  by (simp add: media_inv_def media_init_def inv_posted_def inv_timers_def inv_requests_def
      inv_inflight_def inv_cam_def last_on_def)

lemma media_inv_step: "media_inv s \<Longrightarrow> media_inv (media_step s e)"
proof (cases e)
  case (Advance d)
  assume "media_inv s"
  with Advance show ?thesis by (simp add: media_inv_def)
next
  case (Track t st)
  assume "media_inv s"
  with Track show ?thesis by (simp add: media_inv_def)
qed (auto intro: media_inv_poll media_inv_getUserMedia media_inv_on_stream media_inv_on_reject
    media_inv_sr_start media_inv_sr_off media_inv_fire)

interpretation media: event_machine "media_init trk" media_step media_inv for trk
  by unfold_locales (rule media_inv_init, rule media_inv_step)

section \<open>The mic-off debounce\<close>

definition mic_offs :: "media \<Rightarrow> nat" where
  "mic_offs s = count_list (posted s) (''mic'', False)"

definition quiet_until :: "nat \<Rightarrow> media \<Rightarrow> bool" where
  "quiet_until d s \<longleftrightarrow> (\<forall>t \<in> set (timers s). action t = Mic_Off \<longrightarrow> d \<le> due t)"

definition due_soon :: "media \<Rightarrow> bool" where
  "due_soon s \<longleftrightarrow> (\<forall>t \<in> set (timers s). due t \<le> now s + 30000)"

lemma mic_offs_poll [simp]: "mic_offs (poll s) = mic_offs s"
  by (simp add: mic_offs_def poll_eq poll_mic_def poll_cam_def media_ops split: option.splits)

lemma quiet_until_poll:
  "quiet_until d s \<Longrightarrow> d \<le> now s + 30000 \<Longrightarrow> quiet_until d (poll s)"
  by (auto simp: quiet_until_def timers_poll split: option.splits)

lemma due_soon_poll: "due_soon s \<Longrightarrow> due_soon (poll s)"
  by (auto simp: due_soon_def timers_poll split: option.splits)

lemma now_handlers [simp]:
  "now (getUserMedia c s) = now s" "now (on_stream r vs as s) = now s"
  "now (on_reject r name s) = now s" "now (sr_start s) = now s" "now (sr_off s) = now s"
  "now (fire i s) = now s"
  by (auto simp: getUserMedia_def on_stream_def on_reject_def sr_start_def sr_off_def fire_def
      run_action_def settle_def media_ops split: option.splits timer_action.splits)

lemma now_step: "now s \<le> now (media_step s e)"
  by (cases e) auto

lemma now_run: "now s \<le> now (run_events media_step s es)"
  by (induction es arbitrary: s) (auto intro: le_trans [OF now_step])

text \<open>
  What a handler run before \<open>d\<close> leaves: no mic-off timer due before \<open>d\<close>, and no mic-off
  message more than in the state \<open>s\<close> it started from.
\<close>

definition calm :: "nat \<Rightarrow> media \<Rightarrow> media \<Rightarrow> bool" where
  "calm d s u \<longleftrightarrow> quiet_until d u \<and> mic_offs u = mic_offs s \<and> now u = now s"

lemma calm_frame [simp]:
  "calm d s (u\<lparr>vInflight := n\<rparr>) = calm d s u" "calm d s (u\<lparr>tracks := f\<rparr>) = calm d s u"
  "calm d s (u\<lparr>srActive := b\<rparr>) = calm d s u" "calm d s (u\<lparr>srHooks := m\<rparr>) = calm d s u"
  "calm d s (u\<lparr>srOffTimer := v\<rparr>) = calm d s u" "calm d s (u\<lparr>requests := rs\<rparr>) = calm d s u"
  "calm d s (u\<lparr>nextReq := m\<rparr>) = calm d s u" "calm d s (u\<lparr>vtracks := ts\<rparr>) = calm d s u"
  "calm d s (u\<lparr>atracks := ts\<rparr>) = calm d s u"
  by (simp_all add: calm_def quiet_until_def mic_offs_def)

lemma calm_request [simp]:
  "calm d s (put_request r q u) = calm d s u" "calm d s (drop_request r u) = calm d s u"
  "calm d s (attempt r w k u) = calm d s u"
  by (simp_all add: put_request_def drop_request_def attempt_def)

lemma calm_clear: "calm d s u \<Longrightarrow> calm d s (clearTimeout i u)"
  by (auto simp: calm_def quiet_until_def mic_offs_def clearTimeout_def)

lemma calm_set: "calm d s u \<Longrightarrow> a \<noteq> Mic_Off \<Longrightarrow> calm d s (snd (setTimeout n a u))"
  by (auto simp: calm_def quiet_until_def mic_offs_def setTimeout_def)

lemma calm_poll: "d \<le> now s + 30000 \<Longrightarrow> calm d s u \<Longrightarrow> calm d s (poll u)"
  by (simp add: calm_def quiet_until_poll)

lemma calm_settle: "d \<le> now s + 30000 \<Longrightarrow> calm d s u \<Longrightarrow> calm d s (settle w u)"
  by (simp add: settle_def calm_poll)

lemmas calm_intros = calm_clear calm_set calm_poll calm_settle

lemma calm_fire:
  assumes "calm d s s" and "d \<le> now s + 30000" and "now s < d"
  shows "calm d s (fire i s)"
proof (cases "find (\<lambda>t. tid t = i \<and> due t \<le> now s) (timers s)")
  case None
  with assms show ?thesis by (simp add: fire_def)
next
  case (Some t)
  from find_due_SomeD [OF Some] assms have "action t \<noteq> Mic_Off"
    by (fastforce simp: calm_def quiet_until_def)
  with Some assms show ?thesis
    by (cases "action t")
      (auto simp: fire_def run_action_def intro!: calm_intros split: option.splits)
qed

lemma calm_handler:
  assumes "calm d s s" and "d \<le> now s + 30000"
  shows "calm d s (getUserMedia c s)" and "calm d s (on_stream r vs as s)"
    and "calm d s (on_reject r name s)" and "calm d s (sr_start s)" and "calm d s (sr_off s)"
  using assms
  by (auto simp: getUserMedia_def on_stream_def on_reject_def sr_start_def sr_off_def Let_def
      case_prod_beta intro!: calm_intros split: option.splits)

lemma quiet_step:
  assumes q: "quiet_until d s" and d: "d \<le> now s + 30000" and early: "now s < d"
  shows "quiet_until d (media_step s e) \<and> mic_offs (media_step s e) = mic_offs s"
proof (cases "\<exists>n. e = Advance n")
  case True
  with q show ?thesis by (auto simp: quiet_until_def mic_offs_def)
next
  case False
  have c: "calm d s s" using q by (simp add: calm_def)
  have "calm d s (media_step s e)"
    using False c calm_handler [OF c d] calm_poll [OF d c] calm_fire [OF c d early]
    by (cases e) simp_all
  then show ?thesis by (simp add: calm_def)
qed

lemma quiet_run:
  assumes "quiet_until d s" and "d \<le> now s + 30000" and "now (run_events media_step s es) < d"
  shows "mic_offs (run_events media_step s es) = mic_offs s"
  using assms
proof (induction es arbitrary: s)
  case Nil
  show ?case by simp
next
  case (Cons e es)
  have "now s < d"
    using Cons.prems(3) now_run [of s "e # es"] by simp
  note st = quiet_step [OF Cons.prems(1,2) this, of e]
  have "mic_offs (run_events media_step (media_step s e) es) = mic_offs (media_step s e)"
    by (rule Cons.IH) (use st Cons.prems(2,3) now_step [of s e] in auto)
  with st show ?case by simp
qed

lemma quiet_after_use:
  assumes "media_inv s" and "mic_wanted s"
  shows "quiet_until (now s + 30000) (poll s)"
proof -
  have "micOffTimer (poll s) = None" by (rule poll_micOffTimer_wanted [OF assms(2)])
  moreover have "inv_timers (poll s)"
    using assms(1) by (simp add: media_inv_def inv_timers_poll)
  ultimately show ?thesis by (auto simp: quiet_until_def inv_timers_def)
qed

lemma due_soon_clear: "due_soon s \<Longrightarrow> due_soon (clearTimeout i s)"
  by (simp add: due_soon_def clearTimeout_def)

lemma due_soon_set: "due_soon s \<Longrightarrow> n \<le> 30000 \<Longrightarrow> due_soon (snd (setTimeout n a s))"
  by (auto simp: due_soon_def setTimeout_def)

lemma due_soon_frame [simp]:
  "due_soon (s\<lparr>vInflight := n\<rparr>) = due_soon s" "due_soon (s\<lparr>tracks := f\<rparr>) = due_soon s"
  "due_soon (s\<lparr>srActive := b\<rparr>) = due_soon s" "due_soon (s\<lparr>srHooks := m\<rparr>) = due_soon s"
  "due_soon (s\<lparr>srOffTimer := v\<rparr>) = due_soon s" "due_soon (s\<lparr>requests := rs\<rparr>) = due_soon s"
  "due_soon (s\<lparr>nextReq := m\<rparr>) = due_soon s" "due_soon (s\<lparr>vtracks := ts\<rparr>) = due_soon s"
  "due_soon (s\<lparr>atracks := ts\<rparr>) = due_soon s" "due_soon (s\<lparr>micOffTimer := v\<rparr>) = due_soon s"
  "due_soon (s\<lparr>lastA := w\<rparr>) = due_soon s" "due_soon (s\<lparr>posted := ms\<rparr>) = due_soon s"
  by (simp_all add: due_soon_def)

lemma due_soon_request [simp]:
  "due_soon (put_request r q s) = due_soon s" "due_soon (drop_request r s) = due_soon s"
  "due_soon (attempt r w k s) = due_soon s" "due_soon (emit m on s) = due_soon s"
  by (simp_all add: put_request_def drop_request_def attempt_def emit_def)

lemma due_soon_settle: "due_soon s \<Longrightarrow> due_soon (settle w s)"
  by (simp add: settle_def due_soon_poll)

lemmas due_soon_intros = due_soon_clear due_soon_set due_soon_poll due_soon_settle

lemma due_soon_step: "due_soon s \<Longrightarrow> due_soon (media_step s e)"
proof -
  assume s: "due_soon s"
  have "due_soon (getUserMedia c s)" "due_soon (on_stream r vs as s)" "due_soon (on_reject r name s)"
    "due_soon (sr_start s)" "due_soon (sr_off s)" "due_soon (fire i s)" for c r vs as name i
    using s
    by (auto simp: getUserMedia_def on_stream_def on_reject_def sr_start_def sr_off_def fire_def
        run_action_def Let_def case_prod_beta intro!: due_soon_intros
        split: option.splits timer_action.splits)
  moreover have "due_soon (s\<lparr>now := now s + d\<rparr>)" for d
    using s by (auto simp: due_soon_def)
  ultimately show ?thesis using s due_soon_poll by (cases e) simp_all
qed

interpretation media_due: event_machine "media_init trk" media_step due_soon for trk
  by unfold_locales (simp add: due_soon_def media_init_def, rule due_soon_step)

section \<open>Properties of the hook\<close>

text \<open>
  Claim C5: in every state the browser's events can lead to, the in-flight counter is the number
  of video \<open>getUserMedia\<close> calls that have not settled, and while one is in flight the last
  \<open>cam\<close> message posted is "on": the host is told to feed the camera on the attempt, so the
  retry cannot deadlock on a device that is not there yet.
\<close>

theorem cam_on_while_in_flight:
  fixes trk es
  defines "s \<equiv> run_events media_step (media_init trk) es"
  shows "vInflight s = int (length (filter (\<lambda>p. wants_video (snd p)) (requests s))) \<and>
    (\<forall>(r, q) \<in> set (requests s). wants_video q \<longrightarrow> last_on ''cam'' (posted s) = Some True)"
proof -
  have inv: "media_inv s" unfolding s_def by (rule media.inv_run)
  then have n: "vInflight s = int (length (filter (\<lambda>p. wants_video (snd p)) (requests s)))"
    by (simp add: media_inv_def inv_inflight_def)
  have "last_on ''cam'' (posted s) = Some True" if "(r, q) \<in> set (requests s)" "wants_video q" for r q
  proof -
    have "(r, q) \<in> set (filter (\<lambda>p. wants_video (snd p)) (requests s))" using that by simp
    then have "0 < length (filter (\<lambda>p. wants_video (snd p)) (requests s))"
      by (rule length_pos_if_in_set)
    then have "0 < vInflight s" unfolding n by linarith
    with inv show ?thesis by (auto simp: media_inv_def inv_cam_def inv_posted_def)
  qed
  with n show ?thesis by auto
qed

theorem cam_on_while_in_flight_witness:
  "last_on ''cam'' (posted (run_events media_step (media_init (\<lambda>_. \<lparr>live = True, enabled = True\<rparr>))
     [Gum (Some True), Gum_Err 0 ''NotFoundError''])) = Some True"
proof -
  let ?s = "run_events media_step (media_init (\<lambda>_. \<lparr>live = True, enabled = True\<rparr>))
     [Gum (Some True), Gum_Err 0 ''NotFoundError'']"
  have "(0, \<lparr>wants_video = True, left = 9, phase = Backoff\<rparr>) \<in> set (requests ?s)"
    by code_simp
  then show ?thesis
    using cam_on_while_in_flight [of "\<lambda>_. \<lparr>live = True, enabled = True\<rparr>"
      "[Gum (Some True), Gum_Err 0 ''NotFoundError'']"] by fastforce
qed

text \<open>
  Claim C35: the messages posted never repeat: \<open>cam\<close> messages alternate between on and off, so
  do \<open>mic\<close> messages, the first \<open>mic\<close> message is "on", and the variables \<open>lastV\<close> and
  \<open>lastA\<close> hold the last value posted of each kind.
\<close>

theorem media_messages_alternate:
  fixes trk es
  defines "s \<equiv> run_events media_step (media_init trk) es"
  shows "distinct_adj (of_kind ''cam'' (posted s)) \<and> distinct_adj (of_kind ''mic'' (posted s)) \<and>
    take 1 (of_kind ''mic'' (posted s)) \<in> {[], [True]} \<and>
    lastV s = last_on ''cam'' (posted s) \<and> lastA s = last_on ''mic'' (posted s)"
proof -
  have "media_inv s" unfolding s_def by (rule media.inv_run)
  then have "inv_posted s" by (simp add: media_inv_def)
  then show ?thesis
    by (cases "of_kind ''mic'' (posted s)") (auto simp: inv_posted_def)
qed

text \<open>
  Claim C7: the mic-off debounce. Once a poll has seen the microphone in use (a live enabled audio
  track or a recognition session), no \<open>mic\<close> off message is posted before 30 seconds have
  passed, whatever events the page and the browser deliver meanwhile.
\<close>

theorem mic_off_debounced:
  fixes trk es es'
  defines "s \<equiv> run_events media_step (media_init trk) es"
  defines "s' \<equiv> run_events media_step (media_step s Tick) es'"
  assumes used: "mic_wanted s" and within: "now s' < now s + 30000"
  shows "count_list (posted s') (''mic'', False) = count_list (posted s) (''mic'', False)"
proof -
  have "media_inv s" unfolding s_def by (rule media.inv_run)
  then have "quiet_until (now s + 30000) (poll s)" using used by (rule quiet_after_use)
  moreover have "now (run_events media_step (poll s) es') < now s + 30000"
    using within by (simp add: s'_def)
  ultimately have "mic_offs (run_events media_step (poll s) es') = mic_offs (poll s)"
    by (intro quiet_run [of "now s + 30000"]) simp_all
  then have "mic_offs s' = mic_offs s" by (simp add: s'_def)
  then show ?thesis by (simp add: mic_offs_def)
qed

theorem mic_off_debounced_witness:
  "count_list (posted (run_events media_step (media_step
       (run_events media_step (media_init (\<lambda>_. \<lparr>live = True, enabled = True\<rparr>))
         [Sr_Start]) Tick)
     [Sr_End, Advance 4000, Fire 1, Tick, Advance 25999, Fire 2])) (''mic'', False) = 0"
proof -
  let ?trk = "\<lambda>_. \<lparr>live = True, enabled = True\<rparr>"
  let ?es' = "[Sr_End, Advance 4000, Fire 1, Tick, Advance 25999, Fire 2]"
  let ?s = "run_events media_step (media_init ?trk) [Sr_Start]"
  have "mic_wanted ?s" by code_simp
  moreover have "now (run_events media_step (media_step ?s Tick) ?es') < now ?s + 30000"
    by simp
  ultimately have "count_list (posted (run_events media_step (media_step ?s Tick) ?es')) (''mic'', False)
      = count_list (posted ?s) (''mic'', False)"
    by (rule mic_off_debounced)
  moreover have "count_list (posted ?s) (''mic'', False) = 0" by code_simp
  ultimately show ?thesis by simp
qed

text \<open>
  Claim C36: the microphone signal does go off. When the last \<open>mic\<close> message is "on" and the
  microphone is no longer in use, the next poll, 30 seconds and one timer later the last message
  posted is \<open>mic\<close> off.
\<close>

theorem mic_off_after_idle:
  fixes trk es
  defines "s \<equiv> run_events media_step (media_init trk) es"
  assumes on: "lastA s = Some True" and idle: "\<not> mic_wanted s"
  shows "\<exists>i. posted (run_events media_step s [Tick, Advance 30000, Fire i]) =
      posted (media_step s Tick) @ [(''mic'', False)]"
proof -
  have inv: "media_inv s" unfolding s_def by (rule media.inv_run)
  have due: "due_soon s" unfolding s_def by (rule media_due.inv_run)
  obtain i where i: "micOffTimer (poll s) = Some i"
    using on idle by (cases "micOffTimer s") (auto simp: poll_micOffTimer)
  have tm: "inv_timers (poll s)" using inv by (simp add: media_inv_def inv_timers_poll)
  then obtain t where t: "t \<in> set (timers (poll s))" "tid t = i"
    using i by (auto simp: inv_timers_def)
  with tm i have "action t = Mic_Off" by (auto simp: inv_timers_def)
  have "due t \<le> now s + 30000"
    using due_soon_poll [OF due] t by (auto simp: due_soon_def)
  then have "find (\<lambda>u. tid u = i \<and> due u \<le> now s + 30000) (timers (poll s)) \<noteq> None"
    using t by (auto simp: find_None_iff)
  then obtain u where u: "find (\<lambda>u. tid u = i \<and> due u \<le> now s + 30000) (timers (poll s)) = Some u"
    by auto
  then have "u \<in> set (timers (poll s))" "tid u = i" by (auto simp: find_Some_iff)
  with tm i have "action u = Mic_Off" by (auto simp: inv_timers_def)
  with u have "posted (run_events media_step s [Tick, Advance 30000, Fire i]) =
      posted (poll s) @ [(''mic'', False)]"
    by (simp add: fire_def run_action_def emit_def clearTimeout_def)
  then show ?thesis by auto
qed

theorem mic_off_after_idle_witness:
  "\<exists>i. posted (run_events media_step (run_events media_step
        (media_init (\<lambda>_. \<lparr>live = True, enabled = True\<rparr>)) [Gum (Some False), Gum_Ok 0 [] [7], Track 7 \<lparr>live = False, enabled = True\<rparr>])
      [Tick, Advance 30000, Fire i]) =
    posted (media_step (run_events media_step
        (media_init (\<lambda>_. \<lparr>live = True, enabled = True\<rparr>)) [Gum (Some False), Gum_Ok 0 [] [7], Track 7 \<lparr>live = False, enabled = True\<rparr>]) Tick)
      @ [(''mic'', False)]"
proof -
  let ?trk = "\<lambda>_. \<lparr>live = True, enabled = True\<rparr>"
  let ?es = "[Gum (Some False), Gum_Ok 0 [] [7], Track 7 \<lparr>live = False, enabled = True\<rparr>]"
  have on: "lastA (run_events media_step (media_init ?trk) ?es) = Some True" by code_simp
  have idle: "\<not> mic_wanted (run_events media_step (media_init ?trk) ?es)" by code_simp
  show ?thesis by (rule mic_off_after_idle [OF on idle])
qed

end
