(* ===== verification/Rbi_Control.thy ===== *)
theory Rbi_Control
  imports JS_Prelude
begin

text \<open>
  The content script of the isolated browser's extension (\<open>rbi-chrome/ext/content.js\<close>): it
  forwards the media messages of the page to the relay's control channel over a WebSocket that it
  reopens two seconds after a failure, and queues what arrives while no connection is open.
  The sockets are numbered in the order of their creation; \<open>ws\<close> is the script's variable, which
  every handler reads, whichever socket the handler was installed on. A network event is one run of
  the browser's task: it changes the socket's ready state and runs the script's handler. The text
  sent is the JSON of the pair of kind and state, so a message is that pair.
\<close>

datatype ready_state = CONNECTING | OPEN | CLOSING | CLOSED

type_synonym control_msg = "string \<times> bool"

record page_event =
  from_window :: bool                       \<comment> \<open>\<open>e.source === window\<close>\<close>
  marked :: bool                            \<comment> \<open>\<open>e.data\<close> is truthy and \<open>e.data.__rbi_media === 1\<close>\<close>
  payload :: control_msg

record control =
  ws :: "nat option"
  queue :: "control_msg list"
  ready :: "nat \<Rightarrow> ready_state"
  created :: nat
  reconnects :: "nat list"                  \<comment> \<open>due times of the pending \<open>setTimeout(connect, 2000)\<close>\<close>
  clock :: nat
  sent :: "control_msg list"                \<comment> \<open>handed to an open socket, in order\<close>
  accepted :: "control_msg list"            \<comment> \<open>past the handler's filter, in order\<close>

definition control_url :: "string \<Rightarrow> string" where
  "control_url tmpl =
     (if take 5 tmpl = ''__RBI'' then ''wss://172.29.11.239:8443/control?role=pub'' else tmpl)"

section \<open>The WebSocket\<close>

text \<open>
  \<open>send\<close> throws while the socket is connecting (\<open>None\<close>), transmits on an open socket, and
  discards on a closing or closed one. A message counts as sent when an open socket has taken it;
  whether it arrives when the connection drops later is the business of the network.
\<close>

definition ws_send :: "nat \<Rightarrow> control_msg \<Rightarrow> control \<Rightarrow> control option" where
  "ws_send i m s =
     (case ready s i of
        CONNECTING \<Rightarrow> None
      | OPEN \<Rightarrow> Some (s\<lparr>sent := sent s @ [m]\<rparr>)
      | _ \<Rightarrow> Some s)"

definition ws_close :: "nat \<Rightarrow> control \<Rightarrow> control" where
  "ws_close i s =
     (if ready s i = CONNECTING \<or> ready s i = OPEN
      then s\<lparr>ready := (ready s)(i := CLOSING)\<rparr> else s)"

text \<open>\<open>connect\<close>: the constructor throws (\<open>ok\<close> false) or creates a connecting socket.\<close>

definition connect :: "bool \<Rightarrow> control \<Rightarrow> control" where
  "connect ok s =
     (if ok
      then s\<lparr>ws := Some (created s), ready := (ready s)(created s := CONNECTING),
             created := Suc (created s)\<rparr>
      else s\<lparr>ws := None, reconnects := reconnects s @ [clock s + 2000]\<rparr>)"

text \<open>The loop of \<open>onopen\<close>: an exception ends it with the queue as it then is.\<close>

fun drain :: "control_msg list \<Rightarrow> control \<Rightarrow> control" where
  "drain [] s = s\<lparr>queue := []\<rparr>"
| "drain (m # ms) s =
     (case ws s of
        None \<Rightarrow> s\<lparr>queue := m # ms\<rparr>
      | Some i \<Rightarrow>
          (case ws_send i m s of
             None \<Rightarrow> s\<lparr>queue := ms\<rparr>
           | Some s' \<Rightarrow> drain ms s'))"

definition onopen :: "control \<Rightarrow> control" where
  "onopen s = drain (queue s) s"

definition onclose :: "control \<Rightarrow> control" where
  "onclose s = s\<lparr>ws := None, reconnects := reconnects s @ [clock s + 2000]\<rparr>"

definition onerror :: "control \<Rightarrow> control" where
  "onerror s = (case ws s of Some i \<Rightarrow> ws_close i s | None \<Rightarrow> s)"

definition onmessage :: "page_event \<Rightarrow> control \<Rightarrow> control" where
  "onmessage e s =
     (if \<not> from_window e \<or> \<not> marked e then s
      else (let m = payload e; s1 = s\<lparr>accepted := accepted s @ [m]\<rparr>
            in (case ws s1 of
                  Some i \<Rightarrow>
                    if ready s1 i = OPEN
                    then (case ws_send i m s1 of Some s2 \<Rightarrow> s2 | None \<Rightarrow> s1)
                    else s1\<lparr>queue := queue s1 @ [m]\<rparr>
                | None \<Rightarrow> s1\<lparr>queue := queue s1 @ [m]\<rparr>)))"

section \<open>The event loop\<close>

datatype control_event =
    Page page_event
  | Opened nat
  | Closing nat
  | Errored nat
  | Closed nat
  | Reconnect bool
  | Pass nat

fun control_step :: "control \<Rightarrow> control_event \<Rightarrow> control" where
  "control_step s (Page e) = onmessage e s"
| "control_step s (Opened i) =
     (if i < created s \<and> ready s i = CONNECTING
      then onopen (s\<lparr>ready := (ready s)(i := OPEN)\<rparr>) else s)"
| "control_step s (Closing i) = (if i < created s then ws_close i s else s)"
| "control_step s (Errored i) =
     (if i < created s \<and> ready s i \<noteq> CLOSED then onerror s else s)"
| "control_step s (Closed i) =
     (if i < created s \<and> ready s i \<noteq> CLOSED
      then onclose (s\<lparr>ready := (ready s)(i := CLOSED)\<rparr>) else s)"
| "control_step s (Reconnect ok) =
     (case reconnects s of
        d # ds \<Rightarrow> if d \<le> clock s then connect ok (s\<lparr>reconnects := ds\<rparr>) else s
      | [] \<Rightarrow> s)"
| "control_step s (Pass d) = s\<lparr>clock := clock s + d\<rparr>"

definition control_init :: "bool \<Rightarrow> control" where
  "control_init ok =
     connect ok \<lparr>ws = None, queue = [], ready = (\<lambda>_. CLOSED), created = 0, reconnects = [],
                 clock = 0, sent = [], accepted = []\<rparr>"

section \<open>One connection at a time, nothing lost\<close>

definition control_inv :: "control \<Rightarrow> bool" where
  "control_inv s \<longleftrightarrow>
     (case ws s of
        Some i \<Rightarrow> i < created s \<and> ready s i \<noteq> CLOSED \<and> reconnects s = [] \<and>
                  (ready s i = OPEN \<longrightarrow> queue s = []) \<and> (\<forall>j. j \<noteq> i \<longrightarrow> ready s j = CLOSED)
      | None \<Rightarrow> length (reconnects s) = 1 \<and> (\<forall>j. ready s j = CLOSED)) \<and>
     (\<forall>j. created s \<le> j \<longrightarrow> ready s j = CLOSED) \<and>
     sent s @ queue s = accepted s"

lemma drain_open:
  assumes "ws s = Some i" and "ready s i = OPEN"
  shows "drain ms s = s\<lparr>queue := [], sent := sent s @ ms\<rparr>"
  using assms by (induction ms arbitrary: s) (auto simp: ws_send_def)

lemma control_inv_init: "control_inv (control_init ok)"
  by (simp add: control_inv_def control_init_def connect_def)

lemma control_inv_page: "control_inv s \<Longrightarrow> control_inv (onmessage e s)"
  by (auto simp: control_inv_def onmessage_def ws_send_def Let_def split: option.splits)

lemma live_socket_is_ws:
  assumes "control_inv s" and "ready s i \<noteq> CLOSED"
  shows "ws s = Some i"
proof (cases "ws s")
  case None
  with assms show ?thesis by (simp add: control_inv_def)
next
  case (Some k)
  with assms have "k = i" by (fastforce simp: control_inv_def)
  with Some show ?thesis by simp
qed

lemma control_inv_opened:
  assumes inv: "control_inv s" and i: "ready s i = CONNECTING"
  shows "control_inv (onopen (s\<lparr>ready := (ready s)(i := OPEN)\<rparr>))"
proof -
  from inv i have "ws s = Some i" by (simp add: live_socket_is_ws)
  with inv show ?thesis
    by (simp add: onopen_def drain_open control_inv_def split: option.splits)
qed

lemma control_inv_closed:
  assumes inv: "control_inv s" and i: "ready s i \<noteq> CLOSED"
  shows "control_inv (onclose (s\<lparr>ready := (ready s)(i := CLOSED)\<rparr>))"
proof -
  from inv i have "ws s = Some i" by (rule live_socket_is_ws)
  with inv show ?thesis by (simp add: onclose_def control_inv_def)
qed

lemma control_inv_ws_close: "control_inv s \<Longrightarrow> control_inv (ws_close i s)"
  by (auto simp: control_inv_def ws_close_def split: option.splits)

lemma control_inv_step: "control_inv s \<Longrightarrow> control_inv (control_step s e)"
proof (cases e)
  case (Reconnect ok)
  assume inv: "control_inv s"
  show ?thesis
  proof (cases "ws s")
    case None
    with inv obtain d where "reconnects s = [d]"
      by (auto simp: control_inv_def length_Suc_conv)
    with inv None Reconnect show ?thesis
      by (auto simp: control_inv_def connect_def)
  next
    case (Some i)
    with inv Reconnect show ?thesis by (simp add: control_inv_def)
  qed
next
  case (Pass d)
  assume "control_inv s"
  with Pass show ?thesis by (simp add: control_inv_def split: option.splits)
qed (auto simp: onerror_def intro: control_inv_page control_inv_opened control_inv_closed
    control_inv_ws_close split: option.splits)

interpretation control: event_machine "control_init ok" control_step control_inv for ok
  by unfold_locales (rule control_inv_init, rule control_inv_step)

definition reconnect_soon :: "control \<Rightarrow> bool" where
  "reconnect_soon s \<longleftrightarrow> (\<forall>d \<in> set (reconnects s). d \<le> clock s + 2000)"

lemma drain_reconnects [simp]: "reconnects (drain ms s) = reconnects s" "clock (drain ms s) = clock s"
  by (induction ms s rule: drain.induct)
    (auto simp: ws_send_def split: option.splits ready_state.splits)

lemma reconnect_soon_step: "reconnect_soon s \<Longrightarrow> reconnect_soon (control_step s e)"
  by (cases e)
    (auto simp: reconnect_soon_def onmessage_def onopen_def onclose_def onerror_def ws_close_def
      ws_send_def connect_def Let_def split: option.splits list.splits ready_state.splits)

interpretation reconnect: event_machine "control_init ok" control_step reconnect_soon for ok
  by unfold_locales
    (simp add: reconnect_soon_def control_init_def connect_def, rule reconnect_soon_step)

section \<open>Properties of the content script\<close>

text \<open>
  Claim C4: the control channel is first-in first-out and loses nothing: in every reachable state
  what was handed to an open socket followed by what is queued is exactly the sequence of accepted
  page messages, the queue is empty while the connection is open, and there is exactly one
  connection attempt under way, a socket that is not closed or one pending reconnection timer.
\<close>

theorem control_channel_fifo:
  fixes ok es
  defines "s \<equiv> run_events control_step (control_init ok) es"
  shows "sent s @ queue s = accepted s \<and>
    (case ws s of
       Some i \<Rightarrow> reconnects s = [] \<and> {j. ready s j \<noteq> CLOSED} = {i} \<and>
         (ready s i \<noteq> OPEN \<or> queue s = [])
     | None \<Rightarrow> length (reconnects s) = 1 \<and> {j. ready s j \<noteq> CLOSED} = {})"
proof -
  have inv: "control_inv s" unfolding s_def by (rule control.inv_run)
  then have "sent s @ queue s = accepted s" by (simp add: control_inv_def)
  moreover have "{j. ready s j \<noteq> CLOSED} = {i}" if "ws s = Some i" for i
    using inv that live_socket_is_ws [OF inv] by (auto simp: control_inv_def)
  ultimately show ?thesis using inv by (auto simp: control_inv_def split: option.splits)
qed

theorem control_channel_fifo_witness:
  "sent (run_events control_step (control_init True)
     [Page \<lparr>from_window = True, marked = True, payload = (''cam'', True)\<rparr>, Opened 0, Closed 0,
      Page \<lparr>from_window = True, marked = True, payload = (''cam'', False)\<rparr>]) @
   queue (run_events control_step (control_init True)
     [Page \<lparr>from_window = True, marked = True, payload = (''cam'', True)\<rparr>, Opened 0, Closed 0,
      Page \<lparr>from_window = True, marked = True, payload = (''cam'', False)\<rparr>]) =
   [(''cam'', True), (''cam'', False)]"
proof -
  let ?es = "[Page \<lparr>from_window = True, marked = True, payload = (''cam'', True)\<rparr>, Opened 0, Closed 0,
      Page \<lparr>from_window = True, marked = True, payload = (''cam'', False)\<rparr>]"
  have "accepted (run_events control_step (control_init True) ?es) = [(''cam'', True), (''cam'', False)]"
    by code_simp
  with control_channel_fifo [of True ?es] show ?thesis by (simp only: conj_assoc)
qed

text \<open>What the network and the clock do, without the page.\<close>

fun network_event :: "control_event \<Rightarrow> bool" where
  "network_event (Page e) = False"
| "network_event _ = True"

text \<open>
  Claim C34: the channel recovers. From every reachable state there is a
  continuation of network events alone, with a reconnection after at most two seconds, after which
  the queue is empty and every accepted message has been sent, in order.
\<close>

theorem control_channel_recovers:
  fixes ok es
  defines "s \<equiv> run_events control_step (control_init ok) es"
  shows "\<exists>es'. list_all network_event es' \<and> (let s' = run_events control_step s es' in
    queue s' = [] \<and> sent s' = accepted s \<and> clock s' \<le> clock s + 2000)"
proof -
  have inv: "control_inv s" unfolding s_def by (rule control.inv_run)
  have soon: "reconnect_soon s" unfolding s_def by (rule reconnect.inv_run)
  have from_none: "\<exists>es'. list_all network_event es' \<and> (let s' = run_events control_step u es' in
      queue s' = [] \<and> sent s' = accepted u \<and> clock s' \<le> clock u + 2000)"
    if u: "control_inv u" "reconnect_soon u" "ws u = None" for u
  proof -
    from u obtain d where d: "reconnects u = [d]" "d \<le> clock u + 2000"
      by (auto simp: control_inv_def reconnect_soon_def length_Suc_conv)
    let ?v = "run_events control_step u [Pass 2000, Reconnect True]"
    have v: "ws ?v = Some (created u)" "ready ?v (created u) = CONNECTING" "created ?v = Suc (created u)"
      "queue ?v = queue u" "sent ?v = sent u" "clock ?v = clock u + 2000"
      using d by (simp_all add: connect_def)
    have "run_events control_step u [Pass 2000, Reconnect True, Opened (created u)] =
        onopen (?v\<lparr>ready := (ready ?v)(created u := OPEN)\<rparr>)"
      using v(2,3) by simp
    then have "run_events control_step u [Pass 2000, Reconnect True, Opened (created u)] =
        ?v\<lparr>ready := (ready ?v)(created u := OPEN), queue := [], sent := sent u @ queue u\<rparr>"
      using v by (simp only: onopen_def) (subst drain_open [of _ "created u"]; simp)
    then show ?thesis
      using u(1) v by (intro exI [of _ "[Pass 2000, Reconnect True, Opened (created u)]"])
        (simp add: control_inv_def Let_def)
  qed
  show ?thesis
  proof (cases "ws s")
    case None
    from from_none [OF inv soon this] show ?thesis .
  next
    case (Some i)
    let ?u = "control_step s (Closed i)"
    have "control_inv ?u" "reconnect_soon ?u"
      by (rule control_inv_step [OF inv], rule reconnect_soon_step [OF soon])
    moreover have u: "ws ?u = None" "accepted ?u = accepted s" "clock ?u = clock s"
      using inv Some by (auto simp: control_inv_def onclose_def)
    ultimately obtain es' where "list_all network_event es'" "let s' = run_events control_step ?u es' in
        queue s' = [] \<and> sent s' = accepted ?u \<and> clock s' \<le> clock ?u + 2000"
      using from_none by blast
    with u show ?thesis by (intro exI [of _ "Closed i # es'"]) simp
  qed
qed

end
