(* ===== verification/Icu_Chars.thy ===== *)
theory Icu_Chars
  imports JS_Prelude
begin

text \<open>
  Code points of the message syntax (\<open>ui/dist/fs/bundle.js\<close>, the ICU message parser): reading a
  code point out of UTF-16, writing one back, and the character classes of the parser, with the
  table of the pattern-syntax characters as the code spells it.
\<close>

section \<open>Code points\<close>

definition code_point_at :: "jsstr \<Rightarrow> nat \<Rightarrow> int option" where
  "code_point_at s i =
     (if length s \<le> i then None
      else (let l = uint (s ! i)
            in if l < 55296 \<or> 56319 < l \<or> i + 1 = length s then Some l
               else (let u = uint (s ! (i + 1))
                     in if u < 56320 \<or> 57343 < u then Some l
                        else Some ((l - 55296) * 1024 + (u - 56320) + 65536))))"

text \<open>\<open>String.fromCodePoint\<close> for one code point; a value above 0x10FFFF is a RangeError.\<close>

definition from_code_point :: "int \<Rightarrow> jsstr option" where
  "from_code_point r =
     (if 1114111 < r then None
      else if r < 65536 then Some [of_int r]
      else Some [of_int ((r - 65536) div 1024 + 55296), of_int ((r - 65536) mod 1024 + 56320)])"

definition cp_len :: "int \<Rightarrow> nat" where
  "cp_len c = (if c < 65536 then 1 else 2)"

section \<open>Character classes\<close>

definition is_alpha :: "int \<Rightarrow> bool" where
  "is_alpha t \<longleftrightarrow> (97 \<le> t \<and> t \<le> 122) \<or> (65 \<le> t \<and> t \<le> 90)"

definition is_alpha_or_slash :: "int \<Rightarrow> bool" where
  "is_alpha_or_slash t \<longleftrightarrow> is_alpha t \<or> t = 47"

definition is_tag_char :: "int \<Rightarrow> bool" where
  "is_tag_char t \<longleftrightarrow>
     t = 45 \<or> t = 46 \<or> (48 \<le> t \<and> t \<le> 57) \<or> t = 95 \<or> (97 \<le> t \<and> t \<le> 122) \<or>
     (65 \<le> t \<and> t \<le> 90) \<or> t = 183 \<or> (192 \<le> t \<and> t \<le> 214) \<or> (216 \<le> t \<and> t \<le> 246) \<or>
     (248 \<le> t \<and> t \<le> 893) \<or> (895 \<le> t \<and> t \<le> 8191) \<or> (8204 \<le> t \<and> t \<le> 8205) \<or>
     (8255 \<le> t \<and> t \<le> 8256) \<or> (8304 \<le> t \<and> t \<le> 8591) \<or> (11264 \<le> t \<and> t \<le> 12271) \<or>
     (12289 \<le> t \<and> t \<le> 55295) \<or> (63744 \<le> t \<and> t \<le> 64975) \<or> (65008 \<le> t \<and> t \<le> 65533) \<or>
     (65536 \<le> t \<and> t \<le> 983039)"

definition is_white_space :: "int \<Rightarrow> bool" where
  "is_white_space t \<longleftrightarrow>
     (9 \<le> t \<and> t \<le> 13) \<or> t = 32 \<or> t = 133 \<or> (8206 \<le> t \<and> t \<le> 8207) \<or> t = 8232 \<or> t = 8233"

definition pattern_syntax_low :: "(int \<times> int) list" where
  "pattern_syntax_low =
    [(33, 35), (36, 36), (37, 39), (40, 40), (41, 41), (42, 42), (43, 43), (44, 44), (45, 45),
     (46, 47), (58, 59), (60, 62), (63, 64), (91, 91), (92, 92), (93, 93), (94, 94), (96, 96),
     (123, 123), (124, 124), (125, 125), (126, 126), (161, 161), (162, 165), (166, 166),
     (167, 167), (169, 169), (171, 171), (172, 172), (174, 174), (176, 176), (177, 177),
     (182, 182), (187, 187), (191, 191), (215, 215), (247, 247), (8208, 8213), (8214, 8215),
     (8216, 8216), (8217, 8217), (8218, 8218), (8219, 8220), (8221, 8221), (8222, 8222),
     (8223, 8223), (8224, 8231), (8240, 8248), (8249, 8249), (8250, 8250), (8251, 8254),
     (8257, 8259), (8260, 8260), (8261, 8261), (8262, 8262), (8263, 8273), (8274, 8274),
     (8275, 8275), (8277, 8286), (8592, 8596), (8597, 8601), (8602, 8603), (8604, 8607),
     (8608, 8608), (8609, 8610), (8611, 8611), (8612, 8613), (8614, 8614), (8615, 8621),
     (8622, 8622), (8623, 8653), (8654, 8655), (8656, 8657), (8658, 8658), (8659, 8659),
     (8660, 8660), (8661, 8691), (8692, 8959), (8960, 8967), (8968, 8968), (8969, 8969),
     (8970, 8970), (8971, 8971), (8972, 8991), (8992, 8993), (8994, 9000), (9001, 9001),
     (9002, 9002), (9003, 9083), (9084, 9084), (9085, 9114), (9115, 9139), (9140, 9179),
     (9180, 9185), (9186, 9254), (9255, 9279), (9280, 9290), (9291, 9311), (9472, 9654),
     (9655, 9655), (9656, 9664), (9665, 9665), (9666, 9719), (9720, 9727), (9728, 9838),
     (9839, 9839), (9840, 10087), (10088, 10088), (10089, 10089), (10090, 10090), (10091, 10091),
     (10092, 10092), (10093, 10093), (10094, 10094), (10095, 10095), (10096, 10096),
     (10097, 10097), (10098, 10098), (10099, 10099), (10100, 10100), (10101, 10101),
     (10132, 10175), (10176, 10180), (10181, 10181)]"

definition pattern_syntax_high :: "(int \<times> int) list" where
  "pattern_syntax_high =
    [(10182, 10182), (10183, 10213), (10214, 10214), (10215, 10215), (10216, 10216),
     (10217, 10217), (10218, 10218), (10219, 10219), (10220, 10220), (10221, 10221),
     (10222, 10222), (10223, 10223), (10224, 10239), (10240, 10495), (10496, 10626),
     (10627, 10627), (10628, 10628), (10629, 10629), (10630, 10630), (10631, 10631),
     (10632, 10632), (10633, 10633), (10634, 10634), (10635, 10635), (10636, 10636),
     (10637, 10637), (10638, 10638), (10639, 10639), (10640, 10640), (10641, 10641),
     (10642, 10642), (10643, 10643), (10644, 10644), (10645, 10645), (10646, 10646),
     (10647, 10647), (10648, 10648), (10649, 10711), (10712, 10712), (10713, 10713),
     (10714, 10714), (10715, 10715), (10716, 10747), (10748, 10748), (10749, 10749),
     (10750, 11007), (11008, 11055), (11056, 11076), (11077, 11078), (11079, 11084),
     (11085, 11123), (11124, 11125), (11126, 11157), (11158, 11158), (11159, 11263),
     (11776, 11777), (11778, 11778), (11779, 11779), (11780, 11780), (11781, 11781),
     (11782, 11784), (11785, 11785), (11786, 11786), (11787, 11787), (11788, 11788),
     (11789, 11789), (11790, 11798), (11799, 11799), (11800, 11801), (11802, 11802),
     (11803, 11803), (11804, 11804), (11805, 11805), (11806, 11807), (11808, 11808),
     (11809, 11809), (11810, 11810), (11811, 11811), (11812, 11812), (11813, 11813),
     (11814, 11814), (11815, 11815), (11816, 11816), (11817, 11817), (11818, 11822),
     (11823, 11823), (11824, 11833), (11834, 11835), (11836, 11839), (11840, 11840),
     (11841, 11841), (11842, 11842), (11843, 11855), (11856, 11857), (11858, 11858),
     (11859, 11903), (12289, 12291), (12296, 12296), (12297, 12297), (12298, 12298),
     (12299, 12299), (12300, 12300), (12301, 12301), (12302, 12302), (12303, 12303),
     (12304, 12304), (12305, 12305), (12306, 12307), (12308, 12308), (12309, 12309),
     (12310, 12310), (12311, 12311), (12312, 12312), (12313, 12313), (12314, 12314),
     (12315, 12315), (12316, 12316), (12317, 12317), (12318, 12319), (12320, 12320),
     (12336, 12336), (64830, 64830), (64831, 64831), (65093, 65094)]"

definition in_ranges :: "int \<Rightarrow> (int \<times> int) list \<Rightarrow> bool" where
  "in_ranges t rs = list_ex (\<lambda>(a, b). a \<le> t \<and> t \<le> b) rs"

definition is_pattern_syntax :: "int \<Rightarrow> bool" where
  "is_pattern_syntax t \<longleftrightarrow> in_ranges t pattern_syntax_low \<or> in_ranges t pattern_syntax_high"

text \<open>
  The \<open>White_Space\<close> property that the engine's regular expressions know, for the branch of the
  identifier matcher that uses one; \<open>Pattern_Syntax\<close> is the table above.
\<close>

definition unicode_white_space :: "int \<Rightarrow> bool" where
  "unicode_white_space t \<longleftrightarrow>
     in_ranges t [(9, 13), (32, 32), (133, 133), (160, 160), (5760, 5760), (8192, 8202),
                  (8232, 8233), (8239, 8239), (8287, 8287), (12288, 12288)]"

end
