(* ===== verification/Icu_Skeleton.thy ===== *)
theory Icu_Skeleton
  imports Icu_Chars "HOL-Library.AList"
begin

text \<open>
  The skeletons of the ICU message parser: the date-time skeleton (\<open>AS\<close>), the choice of an hour
  pattern for a locale (\<open>IS\<close>, \<open>LS\<close> and the hour-cycle table \<open>kr\<close>), the tokens of a number
  skeleton (\<open>TS\<close>) and the number-format options they stand for (\<open>CS\<close> and its helpers). An
  options object is a property list updated in insertion order; a thrown error is \<open>Inl\<close>. The
  global regular expression \<open>mh\<close> keeps its \<open>lastIndex\<close> between calls of \<open>test\<close>, so that
  index is an argument and a result of \<open>CS\<close>.
\<close>

datatype oval = OStr string | ONum nat | OBool bool | OText jsstr | OUndef | OFloat "jsstr option"

type_synonym options = "(string \<times> oval) list"

datatype js_error = RangeErr string | GenericErr string | TypeErr string

abbreviation cu :: "char \<Rightarrow> code_unit" where
  "cu c \<equiv> of_char c"

definition assign_opts :: "options \<Rightarrow> options \<Rightarrow> options" where
  "assign_opts e n = foldl (\<lambda>o' (k, v). AList.update k v o') e n"

section \<open>Date-time skeletons\<close>

text \<open>The alternatives of the token expression: a class of letters and the longest run it takes.\<close>

definition skeleton_classes :: "(string \<times> nat option) list" where
  "skeleton_classes =
     [(''Eec'', Some 6), (''G'', Some 5), (''Qq'', Some 5), (''yYur'', None), (''U'', Some 5),
      (''ML'', Some 5), (''d'', Some 2), (''D'', Some 3), (''F'', Some 1), (''abB'', Some 5),
      (''hkHK'', Some 2), (''w'', Some 2), (''W'', Some 1), (''m'', Some 2), (''s'', Some 2),
      (''zZOvVxX'', Some 4)]"

definition class_run :: "jsstr \<Rightarrow> string \<times> nat option \<Rightarrow> nat" where
  "class_run s cl =
     (let n = length (takeWhile (\<lambda>u. u \<in> set (js (fst cl))) s)
      in case snd cl of None \<Rightarrow> n | Some k \<Rightarrow> min k n)"

text \<open>The lookahead of the expression: an even number of quotes up to the end.\<close>

definition even_quotes :: "jsstr \<Rightarrow> bool" where
  "even_quotes s = even (length (filter (\<lambda>u. u = cu CHR 0x27) s))"

definition token_length :: "jsstr \<Rightarrow> nat" where
  "token_length s =
     (case find (\<lambda>cl. 0 < class_run s cl \<and> even_quotes (drop (class_run s cl) s)) skeleton_classes of
        Some cl \<Rightarrow> class_run s cl
      | None \<Rightarrow> 0)"

function skeleton_tokens :: "jsstr \<Rightarrow> jsstr list" where
  "skeleton_tokens [] = []"
| "skeleton_tokens (u # us) =
     (let n = token_length (u # us)
      in if n = 0 then skeleton_tokens us
         else take n (u # us) # skeleton_tokens (drop n (u # us)))"
  by pat_completeness auto
termination
  by (relation "measure length") auto

definition numeric_or_2 :: "nat \<Rightarrow> oval" where
  "numeric_or_2 i = (if i = 1 then OStr ''numeric'' else if i = 2 then OStr ''2-digit'' else OUndef)"

definition weekday_from_4 :: "nat \<Rightarrow> oval" where
  "weekday_from_4 i =
     (if i = 4 then OStr ''short'' else if i = 5 then OStr ''long'' else if i = 6 then OStr ''narrow''
      else if i = 7 then OStr ''short'' else OUndef)"

definition month_style :: "nat \<Rightarrow> oval" where
  "month_style i =
     (if i = 1 then OStr ''numeric'' else if i = 2 then OStr ''2-digit'' else if i = 3 then OStr ''short''
      else if i = 4 then OStr ''long'' else if i = 5 then OStr ''narrow'' else OUndef)"

definition hour_token :: "string \<Rightarrow> nat \<Rightarrow> options \<Rightarrow> options" where
  "hour_token cyc i e =
     AList.update ''hour'' (numeric_or_2 i) (AList.update ''hourCycle'' (OStr cyc) e)"

definition date_time_token :: "jsstr \<Rightarrow> options \<Rightarrow> js_error + options" where
  "date_time_token n e =
     (let i = length n; c = hd n
      in if c = cu CHR ''G'' then
           Inr (AList.update ''era'' (OStr (if i = 4 then ''long'' else if i = 5 then ''narrow'' else ''short'')) e)
         else if c = cu CHR ''y'' then
           Inr (AList.update ''year'' (OStr (if i = 2 then ''2-digit'' else ''numeric'')) e)
         else if c \<in> set (js ''YuUr'') then
           Inl (RangeErr ''`Y/u/U/r` (year) patterns are not supported, use `y` instead'')
         else if c \<in> set (js ''qQ'') then
           Inl (RangeErr ''`q/Q` (quarter) patterns are not supported'')
         else if c \<in> set (js ''ML'') then Inr (AList.update ''month'' (month_style i) e)
         else if c \<in> set (js ''wW'') then
           Inl (RangeErr ''`w/W` (week) patterns are not supported'')
         else if c = cu CHR ''d'' then Inr (AList.update ''day'' (numeric_or_2 i) e)
         else if c \<in> set (js ''DFg'') then
           Inl (RangeErr ''`D/F/g` (day) patterns are not supported, use `d` instead'')
         else if c = cu CHR ''E'' then
           Inr (AList.update ''weekday'' (OStr (if i = 4 then ''short'' else if i = 5 then ''narrow'' else ''short'')) e)
         else if c = cu CHR ''e'' then
           (if i < 4 then Inl (RangeErr ''`e..eee` (weekday) patterns are not supported'')
            else Inr (AList.update ''weekday'' (weekday_from_4 i) e))
         else if c = cu CHR ''c'' then
           (if i < 4 then Inl (RangeErr ''`c..ccc` (weekday) patterns are not supported'')
            else Inr (AList.update ''weekday'' (weekday_from_4 i) e))
         else if c = cu CHR ''a'' then Inr (AList.update ''hour12'' (OBool True) e)
         else if c \<in> set (js ''bB'') then
           Inl (RangeErr ''`b/B` (period) patterns are not supported, use `a` instead'')
         else if c = cu CHR ''h'' then Inr (hour_token ''h12'' i e)
         else if c = cu CHR ''H'' then Inr (hour_token ''h23'' i e)
         else if c = cu CHR ''K'' then Inr (hour_token ''h11'' i e)
         else if c = cu CHR ''k'' then Inr (hour_token ''h24'' i e)
         else if c \<in> set (js ''jJC'') then
           Inl (RangeErr ''`j/J/C` (hour) patterns are not supported, use `h/H/K/k` instead'')
         else if c = cu CHR ''m'' then Inr (AList.update ''minute'' (numeric_or_2 i) e)
         else if c = cu CHR ''s'' then Inr (AList.update ''second'' (numeric_or_2 i) e)
         else if c \<in> set (js ''SA'') then
           Inl (RangeErr ''`S/A` (second) patterns are not supported, use `s` instead'')
         else if c = cu CHR ''z'' then
           Inr (AList.update ''timeZoneName'' (OStr (if i < 4 then ''short'' else ''long'')) e)
         else if c \<in> set (js ''ZOvVXx'') then
           Inl (RangeErr ''`Z/O/v/V/X/x` (timeZone) patterns are not supported, use `z` instead'')
         else Inr e)"

fun date_time_tokens :: "jsstr list \<Rightarrow> options \<Rightarrow> js_error + options" where
  "date_time_tokens [] e = Inr e"
| "date_time_tokens (n # ns) e =
     (case date_time_token n e of Inl err \<Rightarrow> Inl err | Inr e' \<Rightarrow> date_time_tokens ns e')"

definition parseDateTimeSkeleton :: "jsstr \<Rightarrow> js_error + options" where
  "parseDateTimeSkeleton t = date_time_tokens (skeleton_tokens t) []"

section \<open>Hour patterns of a locale\<close>

definition hour_cycles_1 :: "(string \<times> string list) list" where
  "hour_cycles_1 =
    [(''AX'', [''H'']), (''BQ'', [''H'']), (''CP'', [''H'']), (''CZ'', [''H'']),
     (''DK'', [''H'']), (''FI'', [''H'']), (''ID'', [''H'']), (''IS'', [''H'']),
     (''ML'', [''H'']), (''NE'', [''H'']), (''RU'', [''H'']), (''SE'', [''H'']),
     (''SJ'', [''H'']), (''SK'', [''H'']), (''AS'', [''h'', ''H'']), (''BT'', [''h'', ''H'']),
     (''DJ'', [''h'', ''H'']), (''ER'', [''h'', ''H'']), (''GH'', [''h'', ''H'']),
     (''IN'', [''h'', ''H'']), (''LS'', [''h'', ''H'']), (''PG'', [''h'', ''H'']),
     (''PW'', [''h'', ''H'']), (''SO'', [''h'', ''H'']), (''TO'', [''h'', ''H'']),
     (''VU'', [''h'', ''H'']), (''WS'', [''h'', ''H'']), (''001'', [''H'', ''h'']),
     (''AL'', [''h'', ''H'', ''hB'']), (''TD'', [''h'', ''H'', ''hB'']),
     (''ca-ES'', [''H'', ''h'', ''hB'']), (''CF'', [''H'', ''h'', ''hB'']),
     (''CM'', [''H'', ''h'', ''hB'']), (''fr-CA'', [''H'', ''h'', ''hB'']),
     (''gl-ES'', [''H'', ''h'', ''hB'']), (''it-CH'', [''H'', ''h'', ''hB'']),
     (''it-IT'', [''H'', ''h'', ''hB'']), (''LU'', [''H'', ''h'', ''hB'']),
     (''NP'', [''H'', ''h'', ''hB'']), (''PF'', [''H'', ''h'', ''hB'']),
     (''SC'', [''H'', ''h'', ''hB'']), (''SM'', [''H'', ''h'', ''hB'']),
     (''SN'', [''H'', ''h'', ''hB'']), (''TF'', [''H'', ''h'', ''hB'']),
     (''VA'', [''H'', ''h'', ''hB'']), (''CY'', [''h'', ''H'', ''hb'', ''hB'']),
     (''GR'', [''h'', ''H'', ''hb'', ''hB'']), (''CO'', [''h'', ''H'', ''hB'', ''hb'']),
     (''DO'', [''h'', ''H'', ''hB'', ''hb'']), (''KP'', [''h'', ''H'', ''hB'', ''hb'']),
     (''KR'', [''h'', ''H'', ''hB'', ''hb'']), (''NA'', [''h'', ''H'', ''hB'', ''hb'']),
     (''PA'', [''h'', ''H'', ''hB'', ''hb'']), (''PR'', [''h'', ''H'', ''hB'', ''hb'']),
     (''VE'', [''h'', ''H'', ''hB'', ''hb'']), (''AC'', [''H'', ''h'', ''hb'', ''hB'']),
     (''AI'', [''H'', ''h'', ''hb'', ''hB'']), (''BW'', [''H'', ''h'', ''hb'', ''hB'']),
     (''BZ'', [''H'', ''h'', ''hb'', ''hB'']), (''CC'', [''H'', ''h'', ''hb'', ''hB'']),
     (''CK'', [''H'', ''h'', ''hb'', ''hB'']), (''CX'', [''H'', ''h'', ''hb'', ''hB'']),
     (''DG'', [''H'', ''h'', ''hb'', ''hB'']), (''FK'', [''H'', ''h'', ''hb'', ''hB'']),
     (''GB'', [''H'', ''h'', ''hb'', ''hB'']), (''GG'', [''H'', ''h'', ''hb'', ''hB'']),
     (''GI'', [''H'', ''h'', ''hb'', ''hB'']), (''IE'', [''H'', ''h'', ''hb'', ''hB'']),
     (''IM'', [''H'', ''h'', ''hb'', ''hB'']), (''IO'', [''H'', ''h'', ''hb'', ''hB'']),
     (''JE'', [''H'', ''h'', ''hb'', ''hB'']), (''LT'', [''H'', ''h'', ''hb'', ''hB'']),
     (''MK'', [''H'', ''h'', ''hb'', ''hB'']), (''MN'', [''H'', ''h'', ''hb'', ''hB'']),
     (''MS'', [''H'', ''h'', ''hb'', ''hB'']), (''NF'', [''H'', ''h'', ''hb'', ''hB'']),
     (''NG'', [''H'', ''h'', ''hb'', ''hB'']), (''NR'', [''H'', ''h'', ''hb'', ''hB'']),
     (''NU'', [''H'', ''h'', ''hb'', ''hB'']), (''PN'', [''H'', ''h'', ''hb'', ''hB'']),
     (''SH'', [''H'', ''h'', ''hb'', ''hB'']), (''SX'', [''H'', ''h'', ''hb'', ''hB'']),
     (''TA'', [''H'', ''h'', ''hb'', ''hB'']), (''ZA'', [''H'', ''h'', ''hb'', ''hB'']),
     (''af-ZA'', [''H'', ''h'', ''hB'', ''hb'']), (''AR'', [''H'', ''h'', ''hB'', ''hb'']),
     (''CL'', [''H'', ''h'', ''hB'', ''hb'']), (''CR'', [''H'', ''h'', ''hB'', ''hb'']),
     (''CU'', [''H'', ''h'', ''hB'', ''hb'']), (''EA'', [''H'', ''h'', ''hB'', ''hb'']),
     (''es-BO'', [''H'', ''h'', ''hB'', ''hb'']), (''es-BR'', [''H'', ''h'', ''hB'', ''hb'']),
     (''es-EC'', [''H'', ''h'', ''hB'', ''hb'']), (''es-ES'', [''H'', ''h'', ''hB'', ''hb'']),
     (''es-GQ'', [''H'', ''h'', ''hB'', ''hb'']), (''es-PE'', [''H'', ''h'', ''hB'', ''hb'']),
     (''GT'', [''H'', ''h'', ''hB'', ''hb'']), (''HN'', [''H'', ''h'', ''hB'', ''hb'']),
     (''IC'', [''H'', ''h'', ''hB'', ''hb'']), (''KG'', [''H'', ''h'', ''hB'', ''hb'']),
     (''KM'', [''H'', ''h'', ''hB'', ''hb'']), (''LK'', [''H'', ''h'', ''hB'', ''hb'']),
     (''MA'', [''H'', ''h'', ''hB'', ''hb'']), (''MX'', [''H'', ''h'', ''hB'', ''hb'']),
     (''NI'', [''H'', ''h'', ''hB'', ''hb'']), (''PY'', [''H'', ''h'', ''hB'', ''hb'']),
     (''SV'', [''H'', ''h'', ''hB'', ''hb'']), (''UY'', [''H'', ''h'', ''hB'', ''hb'']),
     (''JP'', [''H'', ''h'', ''K'']), (''AD'', [''H'', ''hB'']), (''AM'', [''H'', ''hB'']),
     (''AO'', [''H'', ''hB'']), (''AT'', [''H'', ''hB'']), (''AW'', [''H'', ''hB'']),
     (''BE'', [''H'', ''hB'']), (''BF'', [''H'', ''hB'']), (''BJ'', [''H'', ''hB'']),
     (''BL'', [''H'', ''hB'']), (''BR'', [''H'', ''hB'']), (''CG'', [''H'', ''hB'']),
     (''CI'', [''H'', ''hB'']), (''CV'', [''H'', ''hB'']), (''DE'', [''H'', ''hB'']),
     (''EE'', [''H'', ''hB'']), (''FR'', [''H'', ''hB'']), (''GA'', [''H'', ''hB'']),
     (''GF'', [''H'', ''hB'']), (''GN'', [''H'', ''hB''])]"

definition hour_cycles_2 :: "(string \<times> string list) list" where
  "hour_cycles_2 =
    [(''GP'', [''H'', ''hB'']), (''GW'', [''H'', ''hB'']), (''HR'', [''H'', ''hB'']),
     (''IL'', [''H'', ''hB'']), (''IT'', [''H'', ''hB'']), (''KZ'', [''H'', ''hB'']),
     (''MC'', [''H'', ''hB'']), (''MD'', [''H'', ''hB'']), (''MF'', [''H'', ''hB'']),
     (''MQ'', [''H'', ''hB'']), (''MZ'', [''H'', ''hB'']), (''NC'', [''H'', ''hB'']),
     (''NL'', [''H'', ''hB'']), (''PM'', [''H'', ''hB'']), (''PT'', [''H'', ''hB'']),
     (''RE'', [''H'', ''hB'']), (''RO'', [''H'', ''hB'']), (''SI'', [''H'', ''hB'']),
     (''SR'', [''H'', ''hB'']), (''ST'', [''H'', ''hB'']), (''TG'', [''H'', ''hB'']),
     (''TR'', [''H'', ''hB'']), (''WF'', [''H'', ''hB'']), (''YT'', [''H'', ''hB'']),
     (''BD'', [''h'', ''hB'', ''H'']), (''PK'', [''h'', ''hB'', ''H'']),
     (''AZ'', [''H'', ''hB'', ''h'']), (''BA'', [''H'', ''hB'', ''h'']),
     (''BG'', [''H'', ''hB'', ''h'']), (''CH'', [''H'', ''hB'', ''h'']),
     (''GE'', [''H'', ''hB'', ''h'']), (''LI'', [''H'', ''hB'', ''h'']),
     (''ME'', [''H'', ''hB'', ''h'']), (''RS'', [''H'', ''hB'', ''h'']),
     (''UA'', [''H'', ''hB'', ''h'']), (''UZ'', [''H'', ''hB'', ''h'']),
     (''XK'', [''H'', ''hB'', ''h'']), (''AG'', [''h'', ''hb'', ''H'', ''hB'']),
     (''AU'', [''h'', ''hb'', ''H'', ''hB'']), (''BB'', [''h'', ''hb'', ''H'', ''hB'']),
     (''BM'', [''h'', ''hb'', ''H'', ''hB'']), (''BS'', [''h'', ''hb'', ''H'', ''hB'']),
     (''CA'', [''h'', ''hb'', ''H'', ''hB'']), (''DM'', [''h'', ''hb'', ''H'', ''hB'']),
     (''en-001'', [''h'', ''hb'', ''H'', ''hB'']), (''FJ'', [''h'', ''hb'', ''H'', ''hB'']),
     (''FM'', [''h'', ''hb'', ''H'', ''hB'']), (''GD'', [''h'', ''hb'', ''H'', ''hB'']),
     (''GM'', [''h'', ''hb'', ''H'', ''hB'']), (''GU'', [''h'', ''hb'', ''H'', ''hB'']),
     (''GY'', [''h'', ''hb'', ''H'', ''hB'']), (''JM'', [''h'', ''hb'', ''H'', ''hB'']),
     (''KI'', [''h'', ''hb'', ''H'', ''hB'']), (''KN'', [''h'', ''hb'', ''H'', ''hB'']),
     (''KY'', [''h'', ''hb'', ''H'', ''hB'']), (''LC'', [''h'', ''hb'', ''H'', ''hB'']),
     (''LR'', [''h'', ''hb'', ''H'', ''hB'']), (''MH'', [''h'', ''hb'', ''H'', ''hB'']),
     (''MP'', [''h'', ''hb'', ''H'', ''hB'']), (''MW'', [''h'', ''hb'', ''H'', ''hB'']),
     (''NZ'', [''h'', ''hb'', ''H'', ''hB'']), (''SB'', [''h'', ''hb'', ''H'', ''hB'']),
     (''SG'', [''h'', ''hb'', ''H'', ''hB'']), (''SL'', [''h'', ''hb'', ''H'', ''hB'']),
     (''SS'', [''h'', ''hb'', ''H'', ''hB'']), (''SZ'', [''h'', ''hb'', ''H'', ''hB'']),
     (''TC'', [''h'', ''hb'', ''H'', ''hB'']), (''TT'', [''h'', ''hb'', ''H'', ''hB'']),
     (''UM'', [''h'', ''hb'', ''H'', ''hB'']), (''US'', [''h'', ''hb'', ''H'', ''hB'']),
     (''VC'', [''h'', ''hb'', ''H'', ''hB'']), (''VG'', [''h'', ''hb'', ''H'', ''hB'']),
     (''VI'', [''h'', ''hb'', ''H'', ''hB'']), (''ZM'', [''h'', ''hb'', ''H'', ''hB'']),
     (''BO'', [''H'', ''hB'', ''h'', ''hb'']), (''EC'', [''H'', ''hB'', ''h'', ''hb'']),
     (''ES'', [''H'', ''hB'', ''h'', ''hb'']), (''GQ'', [''H'', ''hB'', ''h'', ''hb'']),
     (''PE'', [''H'', ''hB'', ''h'', ''hb'']), (''AE'', [''h'', ''hB'', ''hb'', ''H'']),
     (''ar-001'', [''h'', ''hB'', ''hb'', ''H'']), (''BH'', [''h'', ''hB'', ''hb'', ''H'']),
     (''DZ'', [''h'', ''hB'', ''hb'', ''H'']), (''EG'', [''h'', ''hB'', ''hb'', ''H'']),
     (''EH'', [''h'', ''hB'', ''hb'', ''H'']), (''HK'', [''h'', ''hB'', ''hb'', ''H'']),
     (''IQ'', [''h'', ''hB'', ''hb'', ''H'']), (''JO'', [''h'', ''hB'', ''hb'', ''H'']),
     (''KW'', [''h'', ''hB'', ''hb'', ''H'']), (''LB'', [''h'', ''hB'', ''hb'', ''H'']),
     (''LY'', [''h'', ''hB'', ''hb'', ''H'']), (''MO'', [''h'', ''hB'', ''hb'', ''H'']),
     (''MR'', [''h'', ''hB'', ''hb'', ''H'']), (''OM'', [''h'', ''hB'', ''hb'', ''H'']),
     (''PH'', [''h'', ''hB'', ''hb'', ''H'']), (''PS'', [''h'', ''hB'', ''hb'', ''H'']),
     (''QA'', [''h'', ''hB'', ''hb'', ''H'']), (''SA'', [''h'', ''hB'', ''hb'', ''H'']),
     (''SD'', [''h'', ''hB'', ''hb'', ''H'']), (''SY'', [''h'', ''hB'', ''hb'', ''H'']),
     (''TN'', [''h'', ''hB'', ''hb'', ''H'']), (''YE'', [''h'', ''hB'', ''hb'', ''H'']),
     (''AF'', [''H'', ''hb'', ''hB'', ''h'']), (''LA'', [''H'', ''hb'', ''hB'', ''h'']),
     (''CN'', [''H'', ''hB'', ''hb'', ''h'']), (''LV'', [''H'', ''hB'', ''hb'', ''h'']),
     (''TL'', [''H'', ''hB'', ''hb'', ''h'']), (''zu-ZA'', [''H'', ''hB'', ''hb'', ''h'']),
     (''CD'', [''hB'', ''H'']), (''IR'', [''hB'', ''H'']), (''hi-IN'', [''hB'', ''h'', ''H'']),
     (''kn-IN'', [''hB'', ''h'', ''H'']), (''ml-IN'', [''hB'', ''h'', ''H'']),
     (''te-IN'', [''hB'', ''h'', ''H'']), (''KH'', [''hB'', ''h'', ''H'', ''hb'']),
     (''ta-IN'', [''hB'', ''h'', ''hb'', ''H'']), (''BN'', [''hb'', ''hB'', ''h'', ''H'']),
     (''MY'', [''hb'', ''hB'', ''h'', ''H'']), (''ET'', [''hB'', ''hb'', ''h'', ''H'']),
     (''gu-IN'', [''hB'', ''hb'', ''h'', ''H'']), (''mr-IN'', [''hB'', ''hb'', ''h'', ''H'']),
     (''pa-IN'', [''hB'', ''hb'', ''h'', ''H'']), (''TW'', [''hB'', ''hb'', ''h'', ''H'']),
     (''KE'', [''hB'', ''hb'', ''H'', ''h'']), (''MM'', [''hB'', ''hb'', ''H'', ''h'']),
     (''TZ'', [''hB'', ''hb'', ''H'', ''h'']), (''UG'', [''hB'', ''hb'', ''H'', ''h''])]"

definition hour_cycle_data :: "string \<Rightarrow> string list option" where
  "hour_cycle_data k = map_of (hour_cycles_1 @ hour_cycles_2) k"

text \<open>
  The fields of an \<open>Intl.Locale\<close> that \<open>LS\<close> reads; \<open>max_region\<close> is \<open>maximize().region\<close>.
\<close>

record locale_info =
  hourCycle :: "string option"
  hourCycles :: "string list option"
  language :: string
  max_region :: "string option"

definition or_else :: "'a option \<Rightarrow> 'a option \<Rightarrow> 'a option" where
  "or_else a b = (case a of Some x \<Rightarrow> Some x | None \<Rightarrow> b)"

definition default_hour_symbol :: "locale_info \<Rightarrow> js_error + string" where
  "default_hour_symbol t =
     (let e = (case hourCycle t of
                 Some c \<Rightarrow> Some c
               | None \<Rightarrow> (case hourCycles t of Some (c # _) \<Rightarrow> Some c | _ \<Rightarrow> None))
      in if e \<noteq> None \<and> e \<noteq> Some [] then
           (if e = Some ''h24'' then Inr ''k''
            else if e = Some ''h23'' then Inr ''H''
            else if e = Some ''h12'' then Inr ''h''
            else if e = Some ''h11'' then Inr ''K''
            else Inl (GenericErr ''Invalid hourCycle''))
         else
           (let n = language t;
                i = (if n \<noteq> ''root'' then max_region t else None);
                l = or_else (hour_cycle_data (case i of Some r \<Rightarrow> r | None \<Rightarrow> []))
                      (or_else (hour_cycle_data n)
                        (or_else (hour_cycle_data (n @ ''-001'')) (hour_cycle_data ''001'')))
            in case l of Some (x # _) \<Rightarrow> Inr x | _ \<Rightarrow> Inl (TypeErr ''undefined'')))"

text \<open>
  \<open>IS\<close>: a run of \<open>u + 1\<close> letters \<open>j\<close> becomes day-period letters appended to the pattern and
  one or two hour symbols put before it; \<open>J\<close> becomes \<open>H\<close>.
\<close>

function best_pattern_loop :: "locale_info \<Rightarrow> jsstr \<Rightarrow> jsstr \<Rightarrow> js_error + jsstr" where
  "best_pattern_loop loc [] n = Inr n"
| "best_pattern_loop loc (l # ts) n =
     (if l = cu CHR ''j'' then
        (let u = length (takeWhile (\<lambda>x. x = l) ts);
             r = 1 + u mod 2;
             a = (if u < 2 then 1 else 3 + u div 2)
         in case default_hour_symbol loc of
              Inl err \<Rightarrow> Inl err
            | Inr c \<Rightarrow>
                (let a' = (if c = ''H'' \<or> c = ''k'' then 0 else a)
                 in best_pattern_loop loc (drop u ts)
                      (concat (replicate r (js c)) @ n @ replicate a' (cu CHR ''a''))))
      else if l = cu CHR ''J'' then best_pattern_loop loc ts (n @ js ''H'')
      else best_pattern_loop loc ts (n @ [l]))"
  by pat_completeness auto
termination
  by (relation "measure (\<lambda>(loc, t, n). length t)") auto

definition getBestPattern :: "jsstr \<Rightarrow> locale_info \<Rightarrow> js_error + jsstr" where
  "getBestPattern t loc = best_pattern_loop loc t []"

section \<open>Number skeletons\<close>

record num_token =
  stem :: jsstr
  tok_options :: "jsstr list"

definition is_skeleton_space :: "code_unit \<Rightarrow> bool" where
  "is_skeleton_space u \<longleftrightarrow>
     (9 \<le> uint u \<and> uint u \<le> 13) \<or> uint u = 32 \<or> uint u = 133 \<or> uint u = 8206 \<or> uint u = 8207 \<or>
     uint u = 8232 \<or> uint u = 8233"

fun split_space :: "jsstr \<Rightarrow> jsstr list" where
  "split_space [] = [[]]"
| "split_space (u # us) =
     (if is_skeleton_space u then [] # split_space us
      else (case split_space us of [] \<Rightarrow> [[u]] | w # ws \<Rightarrow> (u # w) # ws))"

fun number_tokens :: "jsstr list \<Rightarrow> js_error + num_token list" where
  "number_tokens [] = Inr []"
| "number_tokens (u # us) =
     (let r = split_on (cu CHR ''/'') u
      in if r = [] then Inl (GenericErr ''Invalid number skeleton'')
         else if [] \<in> set (tl r) then Inl (GenericErr ''Invalid number skeleton'')
         else (case number_tokens us of
                 Inl err \<Rightarrow> Inl err
               | Inr ts \<Rightarrow> Inr (\<lparr>stem = hd r, tok_options = tl r\<rparr> # ts)))"

definition parseNumberSkeletonTokens :: "jsstr \<Rightarrow> js_error + num_token list" where
  "parseNumberSkeletonTokens t =
     (if t = [] then Inl (GenericErr ''Number skeleton cannot be empty'')
      else number_tokens (filter (\<lambda>m. m \<noteq> []) (split_space t)))"

text \<open>\<open>ES\<close>: drop up to the first hyphen, which a line end before it hides from the expression.\<close>

definition is_line_end :: "code_unit \<Rightarrow> bool" where
  "is_line_end u \<longleftrightarrow> uint u = 10 \<or> uint u = 13 \<or> uint u = 8232 \<or> uint u = 8233"

definition icu_unit :: "jsstr \<Rightarrow> jsstr" where
  "icu_unit t =
     (let p = takeWhile (\<lambda>u. u \<noteq> cu CHR ''-'') t
      in if length p < length t \<and> \<not> list_ex is_line_end p then drop (Suc (length p)) t else t)"

definition all_zeros :: "jsstr \<Rightarrow> bool" where
  "all_zeros s \<longleftrightarrow> s \<noteq> [] \<and> list_all (\<lambda>u. u = cu CHR ''0'') s"

text \<open>The groups of the fraction expression \<open>mh\<close>.\<close>

datatype fraction = Zeros nat bool | Hashes nat | Zeros_Hashes nat nat

definition fraction_match :: "jsstr \<Rightarrow> fraction option" where
  "fraction_match s =
     (case s of
        [] \<Rightarrow> None
      | d # t \<Rightarrow>
          if d \<noteq> cu CHR ''.'' then None
          else (let z = length (takeWhile (\<lambda>u. u = cu CHR ''0'') t);
                    r = drop z t;
                    h = length (takeWhile (\<lambda>u. u = cu CHR ''#'') r);
                    r' = drop h r
                in if 0 < z \<and> r = [] then Some (Zeros z False)
                   else if 0 < z \<and> r = [cu CHR ''*''] then Some (Zeros z True)
                   else if z = 0 \<and> 0 < h \<and> r' = [] then Some (Hashes h)
                   else if 0 < z \<and> 0 < h \<and> r' = [] then Some (Zeros_Hashes z h)
                   else None))"

text \<open>The groups of the significant-digits expression \<open>ad\<close>: the count of \<open>@\<close>, and what follows.\<close>

definition significant_match :: "jsstr \<Rightarrow> (nat \<times> jsstr) option" where
  "significant_match s =
     (let a = length (takeWhile (\<lambda>u. u = cu CHR ''@'') s);
          r = drop a s;
          l = (if r \<noteq> [] \<and> hd r = cu CHR ''+'' then take 1 r
               else takeWhile (\<lambda>u. u = cu CHR ''#'') r);
          r' = drop (length l) r
      in if r' = [] \<or> r' = js ''r'' \<or> r' = js ''s'' then Some (a, l) else None)"

definition parseSignificantPrecision :: "jsstr \<Rightarrow> js_error + options" where
  "parseSignificantPrecision t =
     (let e = (if t \<noteq> [] \<and> last t = cu CHR ''r'' then [(''roundingPriority'', OStr ''morePrecision'')]
               else if t \<noteq> [] \<and> last t = cu CHR ''s'' then [(''roundingPriority'', OStr ''lessPrecision'')]
               else [])
      in case significant_match t of
           None \<Rightarrow> Inr e
         | Some (i, l) \<Rightarrow>
             if i = 0 then Inl (TypeErr ''length of undefined'')
             else if l = [] then
               Inr (AList.update ''maximumSignificantDigits'' (ONum i)
                     (AList.update ''minimumSignificantDigits'' (ONum i) e))
             else if l = js ''+'' then Inr (AList.update ''minimumSignificantDigits'' (ONum i) e)
             else Inr (AList.update ''maximumSignificantDigits'' (ONum (i + length l))
                        (AList.update ''minimumSignificantDigits'' (ONum i) e)))"

definition parseSign :: "jsstr \<Rightarrow> options option" where
  "parseSign t =
     (if t = js ''sign-auto'' then Some [(''signDisplay'', OStr ''auto'')]
      else if t = js ''sign-accounting'' \<or> t = js ''()'' then Some [(''currencySign'', OStr ''accounting'')]
      else if t = js ''sign-always'' \<or> t = js ''+!'' then Some [(''signDisplay'', OStr ''always'')]
      else if t = js ''sign-accounting-always'' \<or> t = js ''()!'' then
        Some [(''signDisplay'', OStr ''always''), (''currencySign'', OStr ''accounting'')]
      else if t = js ''sign-except-zero'' \<or> t = js ''+?'' then Some [(''signDisplay'', OStr ''exceptZero'')]
      else if t = js ''sign-accounting-except-zero'' \<or> t = js ''()?'' then
        Some [(''signDisplay'', OStr ''exceptZero''), (''currencySign'', OStr ''accounting'')]
      else if t = js ''sign-never'' \<or> t = js ''+_'' then Some [(''signDisplay'', OStr ''never'')]
      else None)"

definition parseConciseScientific :: "jsstr \<Rightarrow> js_error + options option" where
  "parseConciseScientific t =
     (let (e, t1) =
            (if take 2 t = js ''EE'' then (Some [(''notation'', OStr ''engineering'')], drop 2 t)
             else if take 1 t = js ''E'' then (Some [(''notation'', OStr ''scientific'')], drop 1 t)
             else (None, t))
      in case e of
           None \<Rightarrow> Inr None
         | Some e0 \<Rightarrow>
             (let n = take 2 t1;
                  (e1, t2) =
                    (if n = js ''+!'' then (AList.update ''signDisplay'' (OStr ''always'') e0, drop 2 t1)
                     else if n = js ''+?'' then (AList.update ''signDisplay'' (OStr ''exceptZero'') e0, drop 2 t1)
                     else (e0, t1))
              in if \<not> all_zeros t2 then Inl (GenericErr ''Malformed concise eng/scientific notation'')
                 else Inr (Some (AList.update ''minimumIntegerDigits'' (ONum (length t2)) e1))))"

definition parseNotationOptions :: "jsstr \<Rightarrow> options" where
  "parseNotationOptions t = (case parseSign t of Some n \<Rightarrow> n | None \<Rightarrow> [])"

definition reduce_notation :: "jsstr list \<Rightarrow> options" where
  "reduce_notation os = foldl (\<lambda>s c. assign_opts s (parseNotationOptions c)) [] os"

text \<open>The matches of the integer-width expression \<open>MS\<close>, left to right.\<close>

datatype width_match = Star_Zeros nat | Hash_Zeros | Plain_Zeros

function width_matches :: "jsstr \<Rightarrow> width_match list" where
  "width_matches [] = []"
| "width_matches (u # us) =
     (let z = length (takeWhile (\<lambda>x. x = cu CHR ''0'') us);
          h = length (takeWhile (\<lambda>x. x = cu CHR ''#'') us);
          hz = length (takeWhile (\<lambda>x. x = cu CHR ''0'') (drop h us))
      in if u = cu CHR ''*'' \<and> 0 < z then Star_Zeros z # width_matches (drop z us)
         else if u = cu CHR ''#'' \<and> 0 < hz then Hash_Zeros # width_matches (drop (h + hz) us)
         else if u = cu CHR ''0'' then Plain_Zeros # width_matches (drop z us)
         else width_matches us)"
  by pat_completeness auto
termination
  by (relation "measure length") auto

fun integer_width :: "width_match list \<Rightarrow> options \<Rightarrow> js_error + options" where
  "integer_width [] e = Inr e"
| "integer_width (Star_Zeros n # ms) e =
     integer_width ms (AList.update ''minimumIntegerDigits'' (ONum n) e)"
| "integer_width (Hash_Zeros # ms) e =
     Inl (GenericErr ''We currently do not support maximum integer digits'')"
| "integer_width (Plain_Zeros # ms) e =
     Inl (GenericErr ''We currently do not support exact integer digits'')"

definition option_0 :: "num_token \<Rightarrow> jsstr option" where
  "option_0 l = (case tok_options l of x # _ \<Rightarrow> Some x | [] \<Rightarrow> None)"

text \<open>
  The stems the \<open>switch\<close> of \<open>CS\<close> names; \<open>None\<close> where no case matches and the loop body goes
  on to the expressions.
\<close>

definition named_stem :: "num_token \<Rightarrow> options \<Rightarrow> (js_error + options) option" where
  "named_stem l e =
     (let s = stem l; upd = (\<lambda>k v o'. AList.update k (OStr v) o')
      in if s = js ''percent'' \<or> s = js ''%'' then Some (Inr (upd ''style'' ''percent'' e))
         else if s = js ''%x100'' then
           Some (Inr (AList.update ''scale'' (ONum 100) (upd ''style'' ''percent'' e)))
         else if s = js ''currency'' then
           Some (Inr (AList.update ''currency'' (case option_0 l of Some x \<Rightarrow> OText x | None \<Rightarrow> OUndef)
                       (upd ''style'' ''currency'' e)))
         else if s = js ''group-off'' \<or> s = js '',_'' then
           Some (Inr (AList.update ''useGrouping'' (OBool False) e))
         else if s = js ''precision-integer'' \<or> s = js ''.'' then
           Some (Inr (AList.update ''maximumFractionDigits'' (ONum 0) e))
         else if s = js ''measure-unit'' \<or> s = js ''unit'' then
           (case option_0 l of
              None \<Rightarrow> Some (Inl (TypeErr ''replace of undefined''))
            | Some x \<Rightarrow> Some (Inr (AList.update ''unit'' (OText (icu_unit x)) (upd ''style'' ''unit'' e))))
         else if s = js ''compact-short'' \<or> s = js ''K'' then
           Some (Inr (upd ''compactDisplay'' ''short'' (upd ''notation'' ''compact'' e)))
         else if s = js ''compact-long'' \<or> s = js ''KK'' then
           Some (Inr (upd ''compactDisplay'' ''long'' (upd ''notation'' ''compact'' e)))
         else if s = js ''scientific'' then
           Some (Inr (assign_opts (upd ''notation'' ''scientific'' e) (reduce_notation (tok_options l))))
         else if s = js ''engineering'' then
           Some (Inr (assign_opts (upd ''notation'' ''engineering'' e) (reduce_notation (tok_options l))))
         else if s = js ''notation-simple'' then Some (Inr (upd ''notation'' ''standard'' e))
         else if s = js ''unit-width-narrow'' then
           Some (Inr (upd ''unitDisplay'' ''narrow'' (upd ''currencyDisplay'' ''narrowSymbol'' e)))
         else if s = js ''unit-width-short'' then
           Some (Inr (upd ''unitDisplay'' ''short'' (upd ''currencyDisplay'' ''code'' e)))
         else if s = js ''unit-width-full-name'' then
           Some (Inr (upd ''unitDisplay'' ''long'' (upd ''currencyDisplay'' ''name'' e)))
         else if s = js ''unit-width-iso-code'' then Some (Inr (upd ''currencyDisplay'' ''symbol'' e))
         else if s = js ''scale'' then Some (Inr (AList.update ''scale'' (OFloat (option_0 l)) e))
         else if s = js ''integer-width'' then
           (if 1 < length (tok_options l) then
              Some (Inl (RangeErr ''integer-width stems only accept a single optional option''))
            else (case option_0 l of
                    None \<Rightarrow> Some (Inl (TypeErr ''replace of undefined''))
                  | Some x \<Rightarrow> Some (integer_width (width_matches x) e)))
         else None)"

definition apply_fraction :: "fraction \<Rightarrow> options \<Rightarrow> options" where
  "apply_fraction f e =
     (case f of
        Zeros z True \<Rightarrow> AList.update ''minimumFractionDigits'' (ONum z) e
      | Zeros z False \<Rightarrow>
          AList.update ''maximumFractionDigits'' (ONum z)
            (AList.update ''minimumFractionDigits'' (ONum z) e)
      | Hashes h \<Rightarrow> AList.update ''maximumFractionDigits'' (ONum h) e
      | Zeros_Hashes z h \<Rightarrow>
          AList.update ''maximumFractionDigits'' (ONum (z + h))
            (AList.update ''minimumFractionDigits'' (ONum z) e))"

text \<open>
  One round of the loop of \<open>CS\<close>. \<open>li\<close> is \<open>mh.lastIndex\<close>: \<open>test\<close> of the anchored expression
  matches only at index 0, sets the index to the length on a match and to 0 otherwise; \<open>replace\<close>
  sets it to 0.
\<close>

definition number_token :: "nat \<Rightarrow> num_token \<Rightarrow> options \<Rightarrow> (js_error + options) \<times> nat" where
  "number_token li l e =
     (case named_stem l e of
        Some r \<Rightarrow> (r, li)
      | None \<Rightarrow>
          if all_zeros (stem l) then
            (Inr (AList.update ''minimumIntegerDigits'' (ONum (length (stem l))) e), li)
          else
            (case (if li = 0 then fraction_match (stem l) else None) of
               Some f \<Rightarrow>
                 if 1 < length (tok_options l) then
                   (Inl (RangeErr ''Fraction-precision stems only accept a single optional option''),
                    length (stem l))
                 else
                   (let e1 = apply_fraction f e
                    in case option_0 l of
                         None \<Rightarrow> (Inr e1, 0)
                       | Some u \<Rightarrow>
                           if u = js ''w'' then
                             (Inr (AList.update ''trailingZeroDisplay'' (OStr ''stripIfInteger'') e1), 0)
                           else if u = [] then (Inr e1, 0)
                           else (case parseSignificantPrecision u of
                                   Inl err \<Rightarrow> (Inl err, 0)
                                 | Inr n \<Rightarrow> (Inr (assign_opts e1 n), 0)))
             | None \<Rightarrow>
                 if significant_match (stem l) \<noteq> None then
                   (case parseSignificantPrecision (stem l) of
                      Inl err \<Rightarrow> (Inl err, 0)
                    | Inr n \<Rightarrow> (Inr (assign_opts e n), 0))
                 else
                   (let e1 = (case parseSign (stem l) of Some n \<Rightarrow> assign_opts e n | None \<Rightarrow> e)
                    in case parseConciseScientific (stem l) of
                         Inl err \<Rightarrow> (Inl err, 0)
                       | Inr None \<Rightarrow> (Inr e1, 0)
                       | Inr (Some n) \<Rightarrow> (Inr (assign_opts e1 n), 0))))"

fun parseNumberSkeleton_loop ::
  "nat \<Rightarrow> num_token list \<Rightarrow> options \<Rightarrow> (js_error + options) \<times> nat" where
  "parseNumberSkeleton_loop li [] e = (Inr e, li)"
| "parseNumberSkeleton_loop li (l # ls) e =
     (case number_token li l e of
        (Inl err, li') \<Rightarrow> (Inl err, li')
      | (Inr e', li') \<Rightarrow> parseNumberSkeleton_loop li' ls e')"

definition parseNumberSkeleton :: "nat \<Rightarrow> num_token list \<Rightarrow> (js_error + options) \<times> nat" where
  "parseNumberSkeleton li ls = parseNumberSkeleton_loop li ls []"

end
