(* ===== verification/Icu_Skeleton_Correct.thy ===== *)
theory Icu_Skeleton_Correct
  imports Icu_Skeleton
begin

text \<open>
  What the skeleton parsers guarantee: the options a date-time skeleton yields are ones that
  \<open>Intl.DateTimeFormat\<close> accepts, the best pattern of a locale has no hour placeholder left, and the
  state of the shared expression of the number skeletons is restored except by a range error.
\<close>

section \<open>Tokens of a date-time skeleton\<close>

definition token_of :: "string \<times> nat option \<Rightarrow> jsstr \<Rightarrow> bool" where
  "token_of cl n \<longleftrightarrow> n \<noteq> [] \<and> set n \<subseteq> set (js (fst cl)) \<and>
     (case snd cl of None \<Rightarrow> True | Some k \<Rightarrow> length n \<le> k)"

lemma take_class_run: "0 < class_run s cl \<Longrightarrow> token_of cl (take (class_run s cl) s)"
proof -
  assume pos: "0 < class_run s cl"
  define p where "p = takeWhile (\<lambda>u. u \<in> set (js (fst cl))) s"
  have le: "class_run s cl \<le> length p"
    by (simp add: class_run_def p_def Let_def split: option.splits)
  have "take (class_run s cl) s = take (class_run s cl) p"
  proof -
    have "take (length p) s = p" by (simp add: p_def takeWhile_eq_take [symmetric])
    then show ?thesis using le by (metis min.absorb1 take_take)
  qed
  then have "set (take (class_run s cl) s) \<subseteq> set (js (fst cl))"
    using set_take_subset [of "class_run s cl" p] by (auto simp: p_def dest!: set_takeWhileD)
  moreover have "take (class_run s cl) s \<noteq> []"
    using pos le by (auto simp: p_def)
  moreover have "case snd cl of None \<Rightarrow> True | Some k \<Rightarrow> length (take (class_run s cl) s) \<le> k"
    by (auto simp: class_run_def Let_def split: option.splits)
  ultimately show ?thesis by (simp add: token_of_def)
qed

lemma token_length_class:
  assumes "0 < token_length s"
  shows "\<exists>cl \<in> set skeleton_classes. token_of cl (take (token_length s) s)"
proof -
  define Q where "Q cl \<longleftrightarrow> 0 < class_run s cl \<and> even_quotes (drop (class_run s cl) s)" for cl
  from assms obtain cl where f: "find Q skeleton_classes = Some cl" and k: "token_length s = class_run s cl"
    by (auto simp: token_length_def Q_def [abs_def] split: option.splits)
  from f have "cl \<in> set skeleton_classes" and "Q cl" by (auto simp: find_Some_iff)
  with k take_class_run [of s cl] show ?thesis unfolding Q_def by auto
qed

lemma skeleton_tokens_class:
  "n \<in> set (skeleton_tokens t) \<Longrightarrow> \<exists>cl \<in> set skeleton_classes. token_of cl n"
proof (induction t rule: skeleton_tokens.induct)
  case (2 u us)
  define k where "k = token_length (u # us)"
  show ?case
  proof (cases "k = 0")
    case True
    with 2 show ?thesis by (simp add: k_def)
  next
    case False
    then have "n = take k (u # us) \<or> n \<in> set (skeleton_tokens (drop k (u # us)))"
      using 2(3) by (auto simp: k_def [symmetric] Let_def)
    moreover have "\<exists>cl \<in> set skeleton_classes. token_of cl (take k (u # us))"
      using False token_length_class [of "u # us"] by (simp add: k_def)
    ultimately show ?thesis using 2(2) False by (auto simp: k_def)
  qed
qed simp

section \<open>Options of a date-time skeleton\<close>

definition digits :: "oval list" where
  "digits = [OStr ''numeric'', OStr ''2-digit'']"

definition names :: "oval list" where
  "names = [OStr ''long'', OStr ''short'', OStr ''narrow'']"

text \<open>The options of \<open>Intl.DateTimeFormat\<close> with the values it accepts for them.\<close>

definition date_time_options :: "(string \<times> oval list) list" where
  "date_time_options =
     [(''era'', names), (''year'', digits), (''month'', digits @ names), (''day'', digits),
      (''weekday'', names), (''hour'', digits), (''minute'', digits), (''second'', digits),
      (''hour12'', [OBool True, OBool False]),
      (''hourCycle'', [OStr ''h11'', OStr ''h12'', OStr ''h23'', OStr ''h24'']),
      (''timeZoneName'', [OStr ''short'', OStr ''long''])]"

definition valid_date_option :: "string \<times> oval \<Rightarrow> bool" where
  "valid_date_option kv =
     (case map_of date_time_options (fst kv) of Some vs \<Rightarrow> snd kv \<in> set vs | None \<Rightarrow> False)"

definition valid_date_options :: "options \<Rightarrow> bool" where
  "valid_date_options e \<longleftrightarrow> distinct (map fst e) \<and> (\<forall>kv \<in> set e. valid_date_option kv)"

lemma valid_update:
  assumes "valid_date_options e" and "valid_date_option (k, v)"
  shows "valid_date_options (AList.update k v e)"
proof -
  have "set (AList.update k v e) \<subseteq> insert (k, v) (set e)"
    by (induction e) auto
  with assms show ?thesis by (auto simp: valid_date_options_def distinct_update)
qed

lemma token_bounds:
  assumes "\<exists>cl \<in> set skeleton_classes. token_of cl n"
  shows "hd n \<in> set (js ''dhHKkms'') \<Longrightarrow> length n \<le> 2"
    and "hd n \<in> set (js ''ML'') \<Longrightarrow> length n \<le> 5"
    and "hd n \<in> set (js ''ec'') \<Longrightarrow> length n \<le> 6"
proof -
  from assms obtain cl where cl: "cl \<in> set skeleton_classes" "token_of cl n" by blast
  then have h: "hd n \<in> set (js (fst cl))" using hd_in_set [of n] by (auto simp: token_of_def)
  have b: "case snd cl of None \<Rightarrow> True | Some k \<Rightarrow> length n \<le> k" using cl by (simp add: token_of_def)
  show "hd n \<in> set (js ''dhHKkms'') \<Longrightarrow> length n \<le> 2"
    and "hd n \<in> set (js ''ML'') \<Longrightarrow> length n \<le> 5"
    and "hd n \<in> set (js ''ec'') \<Longrightarrow> length n \<le> 6"
    using cl(1) h b by (auto simp: skeleton_classes_def)
qed

lemma date_time_token_valid:
  assumes "\<exists>cl \<in> set skeleton_classes. token_of cl n" and "valid_date_options e"
  shows "case date_time_token n e of Inr e' \<Rightarrow> valid_date_options e' | Inl x \<Rightarrow> \<exists>m. x = RangeErr m"
proof -
  define c i where "c = hd n" and "i = length n"
  from assms(1) have "i \<noteq> 0" by (auto simp: i_def token_of_def)
  note b = token_bounds [OF assms(1), folded c_def i_def]
  have 2: "valid_date_option (k, numeric_or_2 i)" if "k \<in> {''day'', ''hour'', ''minute'', ''second''}" "i \<le> 2" for k
    using that \<open>i \<noteq> 0\<close>
    by (auto simp: numeric_or_2_def valid_date_option_def date_time_options_def digits_def)
  have 5: "valid_date_option (''month'', month_style i)" if "i \<le> 5"
    using that \<open>i \<noteq> 0\<close>
    by (auto simp: month_style_def valid_date_option_def date_time_options_def digits_def names_def)
  have 6: "valid_date_option (''weekday'', weekday_from_4 i)" if "i \<le> 6" "\<not> i < 4"
    using that by (auto simp: weekday_from_4_def valid_date_option_def date_time_options_def names_def)
  have named: "valid_date_option (''era'', OStr (if i = 4 then ''long'' else if i = 5 then ''narrow'' else ''short''))"
    "valid_date_option (''year'', OStr (if i = 2 then ''2-digit'' else ''numeric''))"
    "valid_date_option (''weekday'', OStr (if i = 4 then ''short'' else if i = 5 then ''narrow'' else ''short''))"
    "valid_date_option (''timeZoneName'', OStr (if i < 4 then ''short'' else ''long''))"
    "valid_date_option (''hour12'', OBool True)"
    by (auto simp: valid_date_option_def date_time_options_def names_def digits_def)
  have hour: "valid_date_options (hour_token cyc i e)" if "cyc \<in> {''h11'', ''h12'', ''h23'', ''h24''}" "i \<le> 2" for cyc
    unfolding hour_token_def using that assms(2)
    by (intro valid_update 2) (auto simp: valid_date_option_def date_time_options_def)
  note upd = valid_update [OF assms(2)]
  show ?thesis
    unfolding date_time_token_def Let_def c_def [symmetric] i_def [symmetric]
    using b assms(2)
    by (simp add: hour upd 2 5 6 named split del: if_split) (simp add: hour upd 2 5 6 named)
qed

lemma date_time_tokens_valid:
  assumes "\<forall>n \<in> set ns. \<exists>cl \<in> set skeleton_classes. token_of cl n" and "valid_date_options e"
  shows "case date_time_tokens ns e of Inr e' \<Rightarrow> valid_date_options e' | Inl x \<Rightarrow> \<exists>m. x = RangeErr m"
  using assms
proof (induction ns arbitrary: e)
  case (Cons n ns)
  then have "case date_time_token n e of Inr e' \<Rightarrow> valid_date_options e' | Inl x \<Rightarrow> \<exists>m. x = RangeErr m"
    by (intro date_time_token_valid) auto
  with Cons.prems Cons.IH show ?case by (cases "date_time_token n e") simp_all
qed simp

section \<open>Hour patterns\<close>

definition hour_placeholder :: "code_unit \<Rightarrow> bool" where
  "hour_placeholder u \<longleftrightarrow> u = cu CHR ''j'' \<or> u = cu CHR ''J''"

definition hour_symbols :: "string list" where
  "hour_symbols = [''h'', ''H'', ''K'', ''k'', ''hb'', ''hB'']"

lemma hour_cycles_symbols:
  "\<forall>(k, vs) \<in> set (hour_cycles_1 @ hour_cycles_2). vs \<noteq> [] \<and> hd vs \<in> set hour_symbols"
  by (simp add: hour_cycles_1_def hour_cycles_2_def hour_symbols_def)

lemma hour_cycle_data_symbols:
  assumes "hour_cycle_data k = Some vs"
  obtains x xs where "vs = x # xs" and "x \<in> set hour_symbols"
proof -
  have "(k, vs) \<in> set (hour_cycles_1 @ hour_cycles_2)"
    using assms by (auto simp: hour_cycle_data_def simp del: map_of_append dest: map_of_SomeD)
  with hour_cycles_symbols have "vs \<noteq> [] \<and> hd vs \<in> set hour_symbols" by blast
  with that show thesis by (cases vs) auto
qed

lemma hour_cycle_data_world: "\<exists>x xs. hour_cycle_data ''001'' = Some (x # xs) \<and> x \<in> set hour_symbols"
  by (simp add: hour_cycle_data_def hour_cycles_1_def hour_symbols_def)

lemma default_hour_symbol_cases:
  "default_hour_symbol loc = Inl (GenericErr ''Invalid hourCycle'') \<or>
   (\<exists>x \<in> set hour_symbols. default_hour_symbol loc = Inr x)"
proof -
  define l where "l i n = or_else (hour_cycle_data i) (or_else (hour_cycle_data n)
    (or_else (hour_cycle_data (n @ ''-001'')) (hour_cycle_data ''001'')))" for i n
  have "\<forall>i n. \<exists>x xs. l i n = Some (x # xs) \<and> x \<in> set hour_symbols"
    using hour_cycle_data_world unfolding l_def or_else_def
    by (auto split: option.splits elim!: hour_cycle_data_symbols)
  then have "\<exists>x \<in> set hour_symbols. (case l i n of Some (x # _) \<Rightarrow> Inr x | _ \<Rightarrow> Inl (TypeErr ''undefined'')) = Inr x" for i n
  proof -
    obtain x xs where "l i n = Some (x # xs)" and "x \<in> set hour_symbols"
      using \<open>\<forall>i n. \<exists>x xs. l i n = Some (x # xs) \<and> x \<in> set hour_symbols\<close> by blast
    then show ?thesis by auto
  qed
  then show ?thesis
    unfolding default_hour_symbol_def Let_def l_def [symmetric]
    by (simp add: hour_symbols_def)
qed

lemma placeholder_free_symbols: "x \<in> set hour_symbols \<Longrightarrow> \<not> list_ex hour_placeholder (js x)"
  by (auto simp: hour_symbols_def hour_placeholder_def)

lemma best_pattern_loop_free:
  assumes "\<not> list_ex hour_placeholder n"
  shows "case best_pattern_loop loc t n of
      Inr h \<Rightarrow> \<not> list_ex hour_placeholder h
    | Inl x \<Rightarrow> x = GenericErr ''Invalid hourCycle''"
  using assms
proof (induction t arbitrary: n rule: length_induct)
  case (1 t)
  show ?case
  proof (cases t)
    case Nil
    with 1(2) show ?thesis by simp
  next
    case (Cons l ts)
    note IH = 1(1) [rule_format]
    show ?thesis
    proof (cases "l = cu CHR ''j''")
      case False
      have "\<not> list_ex hour_placeholder (n @ js ''H'')"
        and "\<not> hour_placeholder l \<Longrightarrow> \<not> list_ex hour_placeholder (n @ [l])"
        using 1(2) by (simp_all add: hour_placeholder_def [of 72])
      with IH [of ts] False show ?thesis by (simp add: Cons hour_placeholder_def)
    next
      case True
      define u where "u = length (takeWhile (\<lambda>x. x = l) ts)"
      define a where "a c = (if c = ''H'' \<or> c = ''k'' then 0 else if u < 2 then 1 else 3 + u div 2)" for c
      have eq: "best_pattern_loop loc t n =
        (case default_hour_symbol loc of
           Inl err \<Rightarrow> Inl err
         | Inr c \<Rightarrow> best_pattern_loop loc (drop u ts)
             (concat (replicate (1 + u mod 2) (js c)) @ n @ replicate (a c) (cu CHR ''a'')))"
        unfolding Cons by (subst best_pattern_loop.simps)
          (simp only: True [symmetric] Let_def u_def a_def if_True refl)
      from default_hour_symbol_cases [of loc] show ?thesis
      proof
        assume "\<exists>x \<in> set hour_symbols. default_hour_symbol loc = Inr x"
        then obtain x where x: "x \<in> set hour_symbols" "default_hour_symbol loc = Inr x" by blast
        have free: "\<not> list_ex hour_placeholder (concat (replicate r (js x)) @ n @ replicate k (cu CHR ''a''))" for r k
          using placeholder_free_symbols [OF x(1)] 1(2)
          by (auto simp: list_ex_iff hour_placeholder_def)
        have "length (drop u ts) < length t" by (simp add: Cons)
        from IH [OF this free] show ?thesis by (simp only: eq x(2) sum.case)
      qed (simp add: eq)
    qed
  qed
qed

section \<open>The state of the fraction expression\<close>

definition index_restored :: "(js_error + options) \<times> nat \<Rightarrow> bool" where
  "index_restored p \<longleftrightarrow> snd p = 0 \<or> (\<exists>m. fst p = Inl (RangeErr m))"

lemma number_token_index: "index_restored (number_token 0 l e)"
  unfolding number_token_def
  by (simp add: index_restored_def Let_def split: option.split sum.split)

lemma parseNumberSkeleton_loop_index: "index_restored (parseNumberSkeleton_loop 0 ls e)"
proof (induction ls arbitrary: e)
  case (Cons l ls)
  obtain r li where n: "number_token 0 l e = (r, li)" by fastforce
  with number_token_index [of l e] Cons show ?case
    by (cases r) (simp_all add: index_restored_def)
qed (simp add: index_restored_def)

section \<open>Properties of the skeletons\<close>

text \<open>
  Claim C38: the options of a date-time skeleton are ones \<open>Intl.DateTimeFormat\<close> accepts: each
  option at most once and with a value of its list, whatever the skeleton; anything else the
  skeleton asks for is a \<open>RangeError\<close>.
\<close>

theorem date_skeleton_options_valid:
  "case parseDateTimeSkeleton t of
     Inr e \<Rightarrow> valid_date_options e
   | Inl x \<Rightarrow> (\<exists>m. x = RangeErr m)"
  unfolding parseDateTimeSkeleton_def
  by (rule date_time_tokens_valid) (auto simp: skeleton_tokens_class valid_date_options_def)

text \<open>
  The best pattern of a locale has no \<open>j\<close> or \<open>J\<close> left, for every locale: the table of
  hour cycles always has an answer, and the only error is an invalid hour cycle of the locale
  itself.
\<close>

theorem best_pattern_resolves_hours:
  "case getBestPattern t loc of
     Inr h \<Rightarrow> \<not> list_ex hour_placeholder h
   | Inl x \<Rightarrow> x = GenericErr ''Invalid hourCycle''"
  unfolding getBestPattern_def by (rule best_pattern_loop_free) simp

text \<open>
  Parsing a number skeleton that returns options, or that raises anything but a
  \<open>RangeError\<close>, leaves the shared fraction expression ready for the next skeleton.
\<close>

theorem number_skeleton_restores_index:
  "index_restored (parseNumberSkeleton 0 ls)"
  unfolding parseNumberSkeleton_def by (rule parseNumberSkeleton_loop_index)

text \<open>
  After a \<open>RangeError\<close> the expression keeps its index and the next skeleton loses its fraction
  digits.
\<close>

theorem number_skeleton_index_leak:
  "parseNumberSkeleton (snd (parseNumberSkeleton 0
       [\<lparr>stem = js ''.00'', tok_options = [js ''w'', js ''w'']\<rparr>])) [\<lparr>stem = js ''.00'', tok_options = []\<rparr>] =
     (Inr [], 0) \<and>
   parseNumberSkeleton 0 [\<lparr>stem = js ''.00'', tok_options = []\<rparr>] =
     (Inr [(''minimumFractionDigits'', ONum 2), (''maximumFractionDigits'', ONum 2)], 0)"
  by code_simp

text \<open>The full weekday name \<open>EEEE\<close> of a skeleton asks for the short one.\<close>

theorem wide_weekday_is_short:
  "parseDateTimeSkeleton (js ''EEEE'') = Inr [(''weekday'', OStr ''short'')]"
  by code_simp

end
