(* ===== verification/Icu_Parser.thy ===== *)
theory Icu_Parser
  imports Icu_Skeleton
begin

text \<open>
  The recursive-descent parser of ICU messages (\<open>ui/dist/fs/bundle.js\<close>, class \<open>ZS\<close>). The fields
  the parser never assigns after its constructor are the record \<open>config\<close>; the position it moves,
  and the \<open>lastIndex\<close> of the global expression of the number skeletons, are the state \<open>pstate\<close>.
  A method returns \<open>Ok\<close> (the source's \<open>{ val, err: null }\<close>), \<open>Err\<close> (\<open>{ val: null, err }\<close>)
  or \<open>Throw\<close> (a JavaScript exception); the methods that call each other recursively take fuel, and
  \<open>Fuel\<close> is its exhaustion, which \<open>parse\<close> never meets.
\<close>

section \<open>Data\<close>

datatype err_kind =
    EXPECT_ARGUMENT_CLOSING_BRACE | EMPTY_ARGUMENT | MALFORMED_ARGUMENT | EXPECT_ARGUMENT_TYPE
  | INVALID_ARGUMENT_TYPE | EXPECT_ARGUMENT_STYLE | INVALID_NUMBER_SKELETON
  | INVALID_DATE_TIME_SKELETON | EXPECT_NUMBER_SKELETON | EXPECT_DATE_TIME_SKELETON
  | UNCLOSED_QUOTE_IN_ARGUMENT_STYLE | EXPECT_SELECT_ARGUMENT_OPTIONS
  | EXPECT_PLURAL_ARGUMENT_OFFSET_VALUE | INVALID_PLURAL_ARGUMENT_OFFSET_VALUE
  | EXPECT_SELECT_ARGUMENT_SELECTOR | EXPECT_PLURAL_ARGUMENT_SELECTOR
  | EXPECT_SELECT_ARGUMENT_SELECTOR_FRAGMENT | EXPECT_PLURAL_ARGUMENT_SELECTOR_FRAGMENT
  | INVALID_PLURAL_ARGUMENT_SELECTOR | DUPLICATE_PLURAL_ARGUMENT_SELECTOR
  | DUPLICATE_SELECT_ARGUMENT_SELECTOR | MISSING_OTHER_CLAUSE | INVALID_TAG | INVALID_TAG_NAME
  | UNMATCHED_CLOSING_TAG | UNCLOSED_TAG

record position =
  offset :: nat
  line :: nat
  column :: nat

datatype location = Loc (loc_start: position) (loc_end: position)

abbreviation rt :: "position \<Rightarrow> position \<Rightarrow> location" where
  "rt \<equiv> Loc"

datatype plural_type = Cardinal | Ordinal

datatype arg_style =
    NoStyle
  | NamedStyle jsstr
  | NumberSkeleton "num_token list" "location option" options
  | DateTimeSkeleton jsstr "location option" options

datatype element =
    Literal jsstr "location option"
  | Argument jsstr "location option"
  | NumberEl jsstr "location option" arg_style
  | DateEl jsstr "location option" arg_style
  | TimeEl jsstr "location option" arg_style
  | Select jsstr "sel_option list" "location option"
  | Plural jsstr "sel_option list" int plural_type "location option"
  | Pound "location option"
  | Tag jsstr "element list" "location option"
and sel_option = SelOption (sel_key: jsstr) (sel_value: "element list") (sel_location: "location option")

text \<open>
  \<open>unicode_regex\<close> is the flag \<open>So\<close> the module computes once: whether the engine has Unicode
  property escapes.
\<close>

record config =
  message :: jsstr
  ignoreTag :: bool
  locale_of :: "locale_info option"
  requiresOtherClause :: bool
  shouldParseSkeletons :: bool
  unicode_regex :: bool

record pstate =
  pos :: position
  mh_lastIndex :: nat

datatype exn =
    OutOfBound | InvalidBoundary | TargetBehind | UsedTwice
  | SkeletonError js_error
  | SyntaxErr err_kind location

datatype 'a outcome = Ok 'a pstate | Err err_kind location pstate | Throw exn pstate | Fuel

fun obind :: "'a outcome \<Rightarrow> ('a \<Rightarrow> pstate \<Rightarrow> 'b outcome) \<Rightarrow> 'b outcome" where
  "obind (Ok x s) f = f x s"
| "obind (Err k l s) f = Err k l s"
| "obind (Throw x s) f = Throw x s"
| "obind Fuel f = Fuel"

lemma obind_cong [fundef_cong]:
  "m = m' \<Longrightarrow> (\<And>x s. m' = Ok x s \<Longrightarrow> f x s = g x s) \<Longrightarrow> obind m f = obind m' g"
  by (cases m') auto

lemma obind_Ok: "obind m f = Ok y t \<longleftrightarrow> (\<exists>x s. m = Ok x s \<and> f x s = Ok y t)"
  by (cases m) auto

section \<open>The position\<close>

definition isEOF :: "config \<Rightarrow> pstate \<Rightarrow> bool" where
  "isEOF c s \<longleftrightarrow> offset (pos s) = length (message c)"

definition char_at :: "config \<Rightarrow> pstate \<Rightarrow> int outcome" where
  "char_at c s =
     (let e = offset (pos s)
      in if length (message c) \<le> e then Throw OutOfBound s
         else (case code_point_at (message c) e of
                 None \<Rightarrow> Throw InvalidBoundary s
               | Some n \<Rightarrow> Ok n s))"

definition bump :: "config \<Rightarrow> pstate \<Rightarrow> unit outcome" where
  "bump c s =
     (if isEOF c s then Ok () s
      else obind (char_at c s) (\<lambda>e s.
        Ok () (s\<lparr>pos :=
          (if e = 10 then
             \<lparr>offset = offset (pos s) + 1, line = line (pos s) + 1, column = 1\<rparr>
           else
             \<lparr>offset = offset (pos s) + (if e < 65536 then 1 else 2),
              line = line (pos s), column = column (pos s) + 1\<rparr>)\<rparr>)))"

primrec bump_times :: "nat \<Rightarrow> config \<Rightarrow> pstate \<Rightarrow> unit outcome" where
  "bump_times 0 c s = Ok () s"
| "bump_times (Suc n) c s = obind (bump c s) (\<lambda>_ s. bump_times n c s)"

definition bumpIf :: "config \<Rightarrow> string \<Rightarrow> pstate \<Rightarrow> bool outcome" where
  "bumpIf c e s =
     (if starts_with_at (message c) (js e) (offset (pos s))
      then obind (bump_times (length e) c s) (\<lambda>_ s. Ok True s)
      else Ok False s)"

text \<open>\<open>None\<close> stands for \<open>null\<close> and for the \<open>NaN\<close> of \<open>charCodeAt\<close> past the end.\<close>

definition peek :: "config \<Rightarrow> pstate \<Rightarrow> int option outcome" where
  "peek c s =
     (if isEOF c s then Ok None s
      else obind (char_at c s) (\<lambda>e s.
        (let n = offset (pos s) + (if 65536 \<le> e then 2 else 1)
         in Ok (if n < length (message c) then Some (uint (message c ! n)) else None) s)))"

lemma char_at_same: "char_at c s = Ok u t \<Longrightarrow> t = s"
  by (auto simp: char_at_def Let_def split: if_splits option.splits)

lemma peek_same: "peek c s = Ok u t \<Longrightarrow> t = s"
  by (auto simp: peek_def obind_Ok Let_def dest: char_at_same split: if_splits)

lemma bump_progress:
  assumes "bump c s = Ok x t" and "\<not> isEOF c s"
  shows "offset (pos s) < offset (pos t)" and "offset (pos s) < length (message c)"
  using assms by (auto simp: bump_def obind_Ok char_at_def Let_def split: if_splits option.splits)

lemma bump_mono: "bump c s = Ok x t \<Longrightarrow> offset (pos s) \<le> offset (pos t)"
  by (auto simp: bump_def obind_Ok char_at_def Let_def split: if_splits option.splits)

lemma char_at_room: "char_at c s = Ok u t \<Longrightarrow> offset (pos s) < length (message c)"
  by (auto simp: char_at_def Let_def split: if_splits option.splits)

lemma bump_stuck: "bump c s = Ok x t \<Longrightarrow> \<not> isEOF c t \<Longrightarrow> offset (pos s) < offset (pos t)"
  using bump_progress(1) [of c s x t] by (cases "isEOF c s") (auto simp: bump_def)

lemma bump_measure:
  assumes "bump c s = Ok x t" and "\<not> isEOF c s"
  shows "length (message c) - offset (pos t) < length (message c) - offset (pos s)"
  using bump_progress [OF assms] by (rule diff_less_mono2)

lemma bump_twice_measure:
  assumes "bump c s = Ok x t" and "bump c t = Ok y u" and "\<not> isEOF c s"
  shows "length (message c) - offset (pos u) < length (message c) - offset (pos s)"
  using bump_measure [OF assms(1,3)] bump_mono [OF assms(2)] by simp

function bumpTo_loop :: "config \<Rightarrow> nat \<Rightarrow> pstate \<Rightarrow> unit outcome" where
  "bumpTo_loop c e s =
     (if offset (pos s) = e then Ok () s
      else if e < offset (pos s) then Throw InvalidBoundary s
      else obind (bump c s) (\<lambda>_ t. if isEOF c t then Ok () t else bumpTo_loop c e t))"
  by pat_completeness auto
termination
  by (relation "measure (\<lambda>(c, e, s). e - offset (pos s))") (auto dest: bump_stuck)

declare bumpTo_loop.simps [simp del]

definition bumpTo :: "config \<Rightarrow> nat \<Rightarrow> pstate \<Rightarrow> unit outcome" where
  "bumpTo c e s =
     (if e < offset (pos s) then Throw TargetBehind s
      else bumpTo_loop c (min e (length (message c))) s)"

definition bumpUntil :: "config \<Rightarrow> char \<Rightarrow> pstate \<Rightarrow> bool outcome" where
  "bumpUntil c e s =
     (case index_of (of_char e) (message c) (offset (pos s)) of
        Some i \<Rightarrow> obind (bumpTo c i s) (\<lambda>_ s. Ok True s)
      | None \<Rightarrow> obind (bumpTo c (length (message c)) s) (\<lambda>_ s. Ok False s))"

text \<open>\<open>for (; !isEOF() && p(char()); ) bump()\<close>, the loop of \<open>bumpSpace\<close> and \<open>parseTagName\<close>.\<close>

function bump_while :: "(int \<Rightarrow> bool) \<Rightarrow> config \<Rightarrow> pstate \<Rightarrow> unit outcome" where
  "bump_while p c s =
     (if isEOF c s then Ok () s
      else obind (char_at c s) (\<lambda>u s'.
        if p u then obind (bump c s) (\<lambda>_ t. bump_while p c t) else Ok () s'))"
  by pat_completeness auto
termination
  by (relation "measure (\<lambda>(p, c, s). length (message c) - offset (pos s))")
    (auto intro: bump_measure)

declare bump_while.simps [simp del]

definition bumpSpace :: "config \<Rightarrow> pstate \<Rightarrow> unit outcome" where
  "bumpSpace c s = bump_while is_white_space c s"

definition parseTagName :: "config \<Rightarrow> pstate \<Rightarrow> jsstr outcome" where
  "parseTagName c s =
     obind (bump c s) (\<lambda>_ t. obind (bump_while is_tag_char c t) (\<lambda>_ t.
       Ok (slice (offset (pos s)) (offset (pos t)) (message c)) t))"

section \<open>Literals\<close>

definition plural_arg :: "string \<Rightarrow> bool" where
  "plural_arg n \<longleftrightarrow> n = ''plural'' \<or> n = ''selectordinal''"

text \<open>
  \<open>To\<close>, that is \<open>String.fromCodePoint\<close>, of a code point the parser read: every such value is at
  most 0x10FFFF, so the error of a larger one does not arise (\<open>from_code_point_defined\<close> below).
\<close>

definition cp_string :: "int \<Rightarrow> jsstr" where
  "cp_string u = (case from_code_point u of Some w \<Rightarrow> w | None \<Rightarrow> [])"

definition tryParseLeftAngleBracket :: "config \<Rightarrow> pstate \<Rightarrow> jsstr option outcome" where
  "tryParseLeftAngleBracket c s =
     (if isEOF c s then Ok None s
      else obind (char_at c s) (\<lambda>u s. obind (peek c s) (\<lambda>p s.
        if u = 60 \<and> (ignoreTag c \<or> \<not> is_alpha_or_slash (case p of Some x \<Rightarrow> x | None \<Rightarrow> 0))
        then obind (bump c s) (\<lambda>_ s. Ok (Some (js ''<'')) s)
        else Ok None s)))"

text \<open>The loop of \<open>tryParseQuote\<close> up to the closing quote; the code points it collects.\<close>

function quote_loop :: "config \<Rightarrow> int list \<Rightarrow> pstate \<Rightarrow> int list outcome" where
  "quote_loop c n s =
     (if isEOF c s then Ok n s
      else obind (char_at c s) (\<lambda>i s'.
        if i = 39 then
          obind (peek c s) (\<lambda>p s'.
            if p = Some 39 then
              obind (bump c s) (\<lambda>_ t. obind (bump c t) (\<lambda>_ t. quote_loop c (n @ [39]) t))
            else obind (bump c s) (\<lambda>_ t. Ok n t))
        else obind (bump c s) (\<lambda>_ t. quote_loop c (n @ [i]) t)))"
  by pat_completeness auto
termination
  by (relation "measure (\<lambda>(c, n, s). length (message c) - offset (pos s))")
    (auto intro: bump_measure bump_twice_measure)

declare quote_loop.simps [simp del]

definition tryParseQuote :: "config \<Rightarrow> string \<Rightarrow> pstate \<Rightarrow> jsstr option outcome" where
  "tryParseQuote c e s =
     (if isEOF c s then Ok None s
      else obind (char_at c s) (\<lambda>u s.
        if u \<noteq> 39 then Ok None s
        else obind (peek c s) (\<lambda>p s.
          if p = Some 39 then
            obind (bump c s) (\<lambda>_ s. obind (bump c s) (\<lambda>_ s. Ok (Some (js [CHR 0x27])) s))
          else if p \<in> {Some 123, Some 60, Some 62, Some 125} \<or> p = Some 35 \<and> plural_arg e then
            obind (bump c s) (\<lambda>_ s. obind (char_at c s) (\<lambda>q s. obind (bump c s) (\<lambda>_ s.
              obind (quote_loop c [q] s) (\<lambda>n s. Ok (Some (concat (map cp_string n))) s))))
          else Ok None s)))"

definition tryParseUnquoted :: "config \<Rightarrow> nat \<Rightarrow> string \<Rightarrow> pstate \<Rightarrow> jsstr option outcome" where
  "tryParseUnquoted c e n s =
     (if isEOF c s then Ok None s
      else obind (char_at c s) (\<lambda>i s.
        if i = 60 \<or> i = 123 \<or> i = 35 \<and> plural_arg n \<or> i = 125 \<and> 0 < e then Ok None s
        else obind (bump c s) (\<lambda>_ s. Ok (Some (cp_string i)) s)))"

text \<open>A JavaScript string or \<open>null\<close> as a condition.\<close>

definition truthy :: "jsstr option \<Rightarrow> bool" where
  "truthy r \<longleftrightarrow> r \<noteq> None \<and> r \<noteq> Some []"

lemma quote_loop_mono: "quote_loop c n s = Ok m t \<Longrightarrow> offset (pos s) \<le> offset (pos t)"
proof (induction c n s rule: quote_loop.induct)
  case (1 c n s)
  note eq = 1(3) [unfolded quote_loop.simps [of c n s]]
  show ?case
  proof (cases "isEOF c s")
    case True
    with eq show ?thesis by simp
  next
    case False
    with eq 1(1,2) show ?thesis
      by (fastforce simp: obind_Ok split: if_splits dest: bump_mono char_at_same peek_same)
  qed
qed

lemma tryParseQuote_measure:
  assumes "tryParseQuote c e s = Ok r t" and "truthy r"
  shows "length (message c) - offset (pos t) < length (message c) - offset (pos s)"
proof -
  from assms have nE: "\<not> isEOF c s" by (auto simp: tryParseQuote_def truthy_def)
  from assms nE obtain x u where b: "bump c s = Ok x u" and "offset (pos u) \<le> offset (pos t)"
    by (auto simp: tryParseQuote_def truthy_def obind_Ok split: if_splits
        dest!: char_at_same peek_same quote_loop_mono dest: bump_mono intro: order_trans)
  with bump_measure [OF b nE] show ?thesis by simp
qed

lemma tryParseUnquoted_measure:
  assumes "tryParseUnquoted c e n s = Ok r t" and "truthy r"
  shows "length (message c) - offset (pos t) < length (message c) - offset (pos s)"
  using assms
  by (auto simp: tryParseUnquoted_def truthy_def obind_Ok split: if_splits
      dest!: char_at_same intro: bump_measure)

lemma tryParseLeftAngleBracket_measure:
  assumes "tryParseLeftAngleBracket c s = Ok r t" and "truthy r"
  shows "length (message c) - offset (pos t) < length (message c) - offset (pos s)"
  using assms
  by (auto simp: tryParseLeftAngleBracket_def truthy_def obind_Ok split: if_splits
      dest!: char_at_same peek_same intro: bump_measure)

lemma tryParseQuote_left:
  assumes "tryParseQuote c e s = Ok r t"
  shows "length (message c) - offset (pos t) \<le> length (message c) - offset (pos s)"
proof -
  have "offset (pos s) \<le> offset (pos t)"
    using assms
    by (auto simp: tryParseQuote_def obind_Ok split: if_splits
        dest!: char_at_same peek_same quote_loop_mono bump_mono)
  then show ?thesis by (rule diff_le_mono2)
qed

lemma tryParseUnquoted_left:
  assumes "tryParseUnquoted c e n s = Ok r t"
  shows "length (message c) - offset (pos t) \<le> length (message c) - offset (pos s)"
  using assms
  by (auto simp: tryParseUnquoted_def obind_Ok split: if_splits
      dest!: char_at_same bump_mono intro: diff_le_mono2)

function literal_loop :: "config \<Rightarrow> nat \<Rightarrow> string \<Rightarrow> jsstr \<Rightarrow> pstate \<Rightarrow> jsstr outcome" where
  "literal_loop c e n l s =
     obind (tryParseQuote c n s) (\<lambda>u s1.
       if truthy u then literal_loop c e n (l @ the u) s1
       else obind (tryParseUnquoted c e n s1) (\<lambda>r s2.
         if truthy r then literal_loop c e n (l @ the r) s2
         else obind (tryParseLeftAngleBracket c s2) (\<lambda>o' s3.
           if truthy o' then literal_loop c e n (l @ the o') s3
           else Ok l s3)))"
  by pat_completeness auto
termination
  by (relation "measure (\<lambda>(c, e, n, l, s). length (message c) - offset (pos s))")
    (auto intro: tryParseQuote_measure
      le_less_trans [OF _ less_le_trans [OF tryParseUnquoted_measure tryParseQuote_left]]
      le_less_trans [OF _ less_le_trans [OF less_le_trans [OF tryParseLeftAngleBracket_measure
        tryParseUnquoted_left] tryParseQuote_left]])

declare literal_loop.simps [simp del]

definition parseLiteral :: "config \<Rightarrow> nat \<Rightarrow> string \<Rightarrow> pstate \<Rightarrow> element outcome" where
  "parseLiteral c e n s =
     obind (literal_loop c e n [] s) (\<lambda>l t. Ok (Literal l (Some (rt (pos s) (pos t)))) t)"

section \<open>Identifiers, styles and integers\<close>

text \<open>\<open>Eo\<close>: the code points from index \<open>n\<close> up to the first that \<open>stop\<close> holds of.\<close>

function ident_points :: "(int \<Rightarrow> bool) \<Rightarrow> jsstr \<Rightarrow> nat \<Rightarrow> int list" where
  "ident_points stop e n =
     (case code_point_at e n of
        None \<Rightarrow> []
      | Some l \<Rightarrow> if stop l then [] else l # ident_points stop e (n + (if 65536 \<le> l then 2 else 1)))"
  by pat_completeness auto
termination
  by (relation "measure (\<lambda>(stop, e, n). length e - n)")
    (auto simp: code_point_at_def split: if_splits)

declare ident_points.simps [simp del]

text \<open>
  With Unicode property escapes the expression \<open>kh\<close> matches the same walk over the engine's
  \<open>White_Space\<close> and \<open>Pattern_Syntax\<close> and yields the matched part of the message; without, the
  code points are collected and written back.
\<close>

definition matchIdentifierAtIndex :: "config \<Rightarrow> nat \<Rightarrow> jsstr" where
  "matchIdentifierAtIndex c n =
     (if unicode_regex c then
        (let ps = ident_points (\<lambda>l. unicode_white_space l \<or> is_pattern_syntax l) (message c) n
         in slice n (n + sum_list (map cp_len ps)) (message c))
      else
        concat (map cp_string
          (ident_points (\<lambda>l. is_white_space l \<or> is_pattern_syntax l) (message c) n)))"

definition parseIdentifierIfPossible :: "config \<Rightarrow> pstate \<Rightarrow> (jsstr \<times> location) outcome" where
  "parseIdentifierIfPossible c s =
     (let n = offset (pos s);
          i = matchIdentifierAtIndex c n
      in obind (bumpTo c (n + length i) s) (\<lambda>_ t. Ok (i, rt (pos s) (pos t)) t))"

definition tryParseArgumentClose :: "config \<Rightarrow> position \<Rightarrow> pstate \<Rightarrow> unit outcome" where
  "tryParseArgumentClose c e s =
     (if isEOF c s then Err EXPECT_ARGUMENT_CLOSING_BRACE (rt e (pos s)) s
      else obind (char_at c s) (\<lambda>u s.
        if u \<noteq> 125 then Err EXPECT_ARGUMENT_CLOSING_BRACE (rt e (pos s)) s
        else bump c s))"

text \<open>
  The loop of \<open>parseSimpleArgStyleIfPossible\<close> with its nesting count \<open>e\<close>. A closing brace inside
  a nested one only lowers the count: the position stays on it.
\<close>

function style_loop :: "config \<Rightarrow> nat \<Rightarrow> nat \<Rightarrow> pstate \<Rightarrow> jsstr outcome" where
  "style_loop c n e s =
     (if isEOF c s then Ok (slice n (offset (pos s)) (message c)) s
      else obind (char_at c s) (\<lambda>i s'.
        if i = 39 then
          obind (bump c s) (\<lambda>_ l. obind (bumpUntil c CHR 0x27 l) (\<lambda>found t.
            if \<not> found then Err UNCLOSED_QUOTE_IN_ARGUMENT_STYLE (rt (pos l) (pos t)) t
            else obind (bump c t) (\<lambda>_ t. style_loop c n e t)))
        else if i = 123 then obind (bump c s) (\<lambda>_ t. style_loop c n (e + 1) t)
        else if i = 125 then
          (if 0 < e then style_loop c n (e - 1) s
           else Ok (slice n (offset (pos s)) (message c)) s)
        else obind (bump c s) (\<lambda>_ t. style_loop c n e t)))"
  by pat_completeness auto

lemma bumpTo_loop_mono: "bumpTo_loop c e s = Ok x t \<Longrightarrow> offset (pos s) \<le> offset (pos t)"
proof (induction c e s rule: bumpTo_loop.induct)
  case (1 c e s)
  from 1(2) [unfolded bumpTo_loop.simps [of c e s]] 1(1) show ?case
    by (fastforce simp: obind_Ok split: if_splits dest: bump_mono)
qed

lemma bumpTo_mono: "bumpTo c e s = Ok x t \<Longrightarrow> offset (pos s) \<le> offset (pos t)"
  by (auto simp: bumpTo_def split: if_splits dest: bumpTo_loop_mono)

lemma bumpUntil_mono: "bumpUntil c e s = Ok x t \<Longrightarrow> offset (pos s) \<le> offset (pos t)"
  by (auto simp: bumpUntil_def obind_Ok split: option.splits dest: bumpTo_mono)

lemma style_quote_measure:
  assumes "bump c s = Ok x l" and "bumpUntil c q l = Ok b t" and "bump c t = Ok y u"
    and "\<not> isEOF c s"
  shows "length (message c) - offset (pos u) < length (message c) - offset (pos s)"
  using bump_measure [OF assms(1,4)] bumpUntil_mono [OF assms(2)] bump_mono [OF assms(3)] by simp

termination style_loop
  by (relation "measures [\<lambda>(c, n, e, s). length (message c) - offset (pos s), \<lambda>(c, n, e, s). e]")
    (auto intro: bump_measure style_quote_measure)

declare style_loop.simps [simp del]

definition parseSimpleArgStyleIfPossible :: "config \<Rightarrow> pstate \<Rightarrow> jsstr outcome" where
  "parseSimpleArgStyleIfPossible c s = style_loop c (offset (pos s)) 0 s"

function digit_loop :: "config \<Rightarrow> bool \<Rightarrow> int \<Rightarrow> pstate \<Rightarrow> (bool \<times> int) outcome" where
  "digit_loop c u r s =
     (if isEOF c s then Ok (u, r) s
      else obind (char_at c s) (\<lambda>o' s'.
        if 48 \<le> o' \<and> o' \<le> 57 then
          obind (bump c s) (\<lambda>_ t. digit_loop c True (r * 10 + (o' - 48)) t)
        else Ok (u, r) s'))"
  by pat_completeness auto
termination
  by (relation "measure (\<lambda>(c, u, r, s). length (message c) - offset (pos s))")
    (auto intro: bump_measure)

declare digit_loop.simps [simp del]

text \<open>
  The value is computed in doubles. It is exact up to \<open>2 ^ 53\<close>, and a value that has passed
  \<open>2 ^ 53\<close> stays above it, so the test \<open>isSafeInteger\<close> is the bound on the exact value.
\<close>

definition tryParseDecimalInteger ::
  "config \<Rightarrow> err_kind \<Rightarrow> err_kind \<Rightarrow> pstate \<Rightarrow> int outcome" where
  "tryParseDecimalInteger c e n s =
     obind (bumpIf c ''+'' s) (\<lambda>plus s1.
       obind (if plus then Ok False s1 else bumpIf c ''-'' s1) (\<lambda>minus s2.
         obind (digit_loop c False 0 s2) (\<lambda>(u, r) t.
           (let s' = rt (pos s) (pos t);
                v = (if minus then - r else r)
            in if u then (if \<bar>v\<bar> \<le> 9007199254740991 then Ok v t else Err n s' t)
               else Err e s' t))))"

section \<open>Arguments with a simple style\<close>

definition js_space :: "code_unit \<Rightarrow> bool" where
  "js_space u \<longleftrightarrow>
     in_ranges (uint u) [(9, 13), (32, 32), (160, 160), (5760, 5760), (8192, 8202), (8232, 8233),
                         (8239, 8239), (8287, 8287), (12288, 12288), (65279, 65279)]"

definition trimStart :: "jsstr \<Rightarrow> jsstr" where
  "trimStart e = dropWhile js_space e"

definition trimEnd :: "jsstr \<Rightarrow> jsstr" where
  "trimEnd e = rev (dropWhile js_space (rev e))"

definition parseNumberSkeletonFromString ::
  "config \<Rightarrow> jsstr \<Rightarrow> location \<Rightarrow> pstate \<Rightarrow> arg_style outcome" where
  "parseNumberSkeletonFromString c e n s =
     (case parseNumberSkeletonTokens e of
        Inl _ \<Rightarrow> Err INVALID_NUMBER_SKELETON n s
      | Inr i \<Rightarrow>
          if shouldParseSkeletons c then
            (case parseNumberSkeleton (mh_lastIndex s) i of
               (Inl x, li) \<Rightarrow> Throw (SkeletonError x) (s\<lparr>mh_lastIndex := li\<rparr>)
             | (Inr p, li) \<Rightarrow> Ok (NumberSkeleton i (Some n) p) (s\<lparr>mh_lastIndex := li\<rparr>))
          else Ok (NumberSkeleton i (Some n) []) s)"

text \<open>The pattern and the options of a date-time skeleton; both steps may raise.\<close>

definition date_time_style :: "config \<Rightarrow> jsstr \<Rightarrow> location \<Rightarrow> pstate \<Rightarrow> arg_style outcome" where
  "date_time_style c C n s =
     (case (case locale_of c of Some loc \<Rightarrow> getBestPattern C loc | None \<Rightarrow> Inr C) of
        Inl x \<Rightarrow> Throw (SkeletonError x) s
      | Inr h \<Rightarrow>
          if shouldParseSkeletons c then
            (case parseDateTimeSkeleton h of
               Inl x \<Rightarrow> Throw (SkeletonError x) s
             | Inr p \<Rightarrow> Ok (DateTimeSkeleton h (Some n) p) s)
          else Ok (DateTimeSkeleton h (Some n) []) s)"

definition simple_element :: "string \<Rightarrow> jsstr \<Rightarrow> location option \<Rightarrow> arg_style \<Rightarrow> element" where
  "simple_element o' i l st =
     (if o' = ''number'' then NumberEl i l st
      else if o' = ''date'' then DateEl i l st else TimeEl i l st)"

text \<open>The style after the second comma: the trimmed style and its location, or none.\<close>

definition parse_arg_style :: "config \<Rightarrow> pstate \<Rightarrow> (jsstr \<times> location) option outcome" where
  "parse_arg_style c s =
     obind (bumpSpace c s) (\<lambda>_ s. obind (bumpIf c '','' s) (\<lambda>comma s.
       if comma then
         obind (bumpSpace c s) (\<lambda>_ h. obind (parseSimpleArgStyleIfPossible c h) (\<lambda>st t.
           (let m = trimEnd st
            in if m = [] then Err EXPECT_ARGUMENT_STYLE (rt (pos t) (pos t)) t
               else Ok (Some (m, rt (pos h) (pos t))) t)))
       else Ok None s))"

definition parse_simple_argument ::
  "config \<Rightarrow> string \<Rightarrow> jsstr \<Rightarrow> position \<Rightarrow> pstate \<Rightarrow> element outcome" where
  "parse_simple_argument c o' i l s =
     obind (parse_arg_style c s) (\<lambda>st s. obind (tryParseArgumentClose c l s) (\<lambda>_ s.
       (let S = rt l (pos s)
        in case st of
             None \<Rightarrow> Ok (simple_element o' i (Some S) NoStyle) s
           | Some (m, n) \<Rightarrow>
               if starts_with_at m (js ''::'') 0 then
                 (let C = trimStart (drop 2 m)
                  in if o' = ''number'' then
                       obind (parseNumberSkeletonFromString c C n s) (\<lambda>k s.
                         Ok (NumberEl i (Some S) k) s)
                     else if C = [] then Err EXPECT_DATE_TIME_SKELETON S s
                     else obind (date_time_style c C n s) (\<lambda>k s.
                       Ok (if o' = ''date'' then DateEl i (Some S) k else TimeEl i (Some S) k) s))
               else Ok (simple_element o' i (Some S) (NamedStyle m)) s)))"

section \<open>Messages\<close>

text \<open>
  The methods that call each other, each over \<open>this\<close>, the methods it calls: one round of fuel
  binds \<open>this\<close> to the methods with one unit less. \<open>parseMessage\<close> carries its list of elements and
  \<open>tryParsePluralOrSelectOptions\<close> its flag \<open>r\<close>, options, selectors seen and current selector
  through the rounds of their loops. An argument \<open>e\<close> is the nesting level, \<open>n\<close> the type of the
  enclosing argument, \<open>i\<close> whether the parser is inside a tag.
\<close>

record methods =
  m_message :: "nat \<Rightarrow> string \<Rightarrow> bool \<Rightarrow> element list \<Rightarrow> pstate \<Rightarrow> element list outcome"
  m_tag :: "nat \<Rightarrow> string \<Rightarrow> pstate \<Rightarrow> element outcome"
  m_argument :: "nat \<Rightarrow> bool \<Rightarrow> pstate \<Rightarrow> element outcome"
  m_options :: "nat \<Rightarrow> bool \<Rightarrow> jsstr \<Rightarrow> position \<Rightarrow> pstate \<Rightarrow> element outcome"
  m_select ::
    "nat \<Rightarrow> string \<Rightarrow> bool \<Rightarrow> bool \<Rightarrow> sel_option list \<Rightarrow> jsstr list \<Rightarrow>
     jsstr \<Rightarrow> location \<Rightarrow> pstate \<Rightarrow> sel_option list outcome"

definition parseMessage ::
  "methods \<Rightarrow> config \<Rightarrow> nat \<Rightarrow> string \<Rightarrow> bool \<Rightarrow> element list \<Rightarrow> pstate \<Rightarrow> element list outcome" where
  "parseMessage this c e n i l s =
     (if isEOF c s then Ok l s
      else obind (char_at c s) (\<lambda>u s.
        if u = 123 then
          obind (m_argument this e i s) (\<lambda>r t. m_message this e n i (l @ [r]) t)
        else if u = 125 \<and> 0 < e then Ok l s
        else if u = 35 \<and> plural_arg n then
          obind (bump c s) (\<lambda>_ t.
            m_message this e n i (l @ [Pound (Some (rt (pos s) (pos t)))]) t)
        else obind (if u = 60 \<and> \<not> ignoreTag c then peek c s else Ok None s) (\<lambda>p s.
          if u = 60 \<and> \<not> ignoreTag c \<and> p = Some 47 then
            (if i then Ok l s else Err UNMATCHED_CLOSING_TAG (rt (pos s) (pos s)) s)
          else if u = 60 \<and> \<not> ignoreTag c \<and> is_alpha (case p of Some x \<Rightarrow> x | None \<Rightarrow> 0) then
            obind (m_tag this e n s) (\<lambda>r t. m_message this e n i (l @ [r]) t)
          else
            obind (parseLiteral c e n s) (\<lambda>r t. m_message this e n i (l @ [r]) t))))"

definition parseTag ::
  "methods \<Rightarrow> config \<Rightarrow> nat \<Rightarrow> string \<Rightarrow> pstate \<Rightarrow> element outcome" where
  "parseTag this c e n s =
     obind (bump c s) (\<lambda>_ s1. obind (parseTagName c s1) (\<lambda>l s1. obind (bumpSpace c s1) (\<lambda>_ s1.
       obind (bumpIf c ''/>'' s1) (\<lambda>selfclosed s1.
         if selfclosed then
           Ok (Literal (js ''<'' @ l @ js ''/>'') (Some (rt (pos s) (pos s1)))) s1
         else obind (bumpIf c ''>'' s1) (\<lambda>opened s1.
           if \<not> opened then Err INVALID_TAG (rt (pos s) (pos s1)) s1
           else obind (m_message this (e + 1) n True [] s1) (\<lambda>r o'.
             obind (bumpIf c ''</'' o') (\<lambda>closing t.
               if \<not> closing then Err UNCLOSED_TAG (rt (pos s) (pos t)) t
               else if isEOF c t then Err INVALID_TAG (rt (pos o') (pos t)) t
               else obind (char_at c t) (\<lambda>u t.
                 if \<not> is_alpha u then Err INVALID_TAG (rt (pos o') (pos t)) t
                 else obind (parseTagName c t) (\<lambda>nm t1.
                   if l \<noteq> nm then Err UNMATCHED_CLOSING_TAG (rt (pos t) (pos t1)) t1
                   else obind (bumpSpace c t1) (\<lambda>_ t1. obind (bumpIf c ''>'' t1) (\<lambda>closed t1.
                     if closed then Ok (Tag l r (Some (rt (pos s) (pos t1)))) t1
                     else Err INVALID_TAG (rt (pos o') (pos t1)) t1)))))))))))"

definition parseArgument ::
  "methods \<Rightarrow> config \<Rightarrow> nat \<Rightarrow> bool \<Rightarrow> pstate \<Rightarrow> element outcome" where
  "parseArgument this c e n s =
     obind (bump c s) (\<lambda>_ s1. obind (bumpSpace c s1) (\<lambda>_ s1.
       if isEOF c s1 then Err EXPECT_ARGUMENT_CLOSING_BRACE (rt (pos s) (pos s1)) s1
       else obind (char_at c s1) (\<lambda>u s1.
         if u = 125 then
           obind (bump c s1) (\<lambda>_ s1. Err EMPTY_ARGUMENT (rt (pos s) (pos s1)) s1)
         else obind (parseIdentifierIfPossible c s1) (\<lambda>(l, _) s1.
           if l = [] then Err MALFORMED_ARGUMENT (rt (pos s) (pos s1)) s1
           else obind (bumpSpace c s1) (\<lambda>_ s1.
             if isEOF c s1 then Err EXPECT_ARGUMENT_CLOSING_BRACE (rt (pos s) (pos s1)) s1
             else obind (char_at c s1) (\<lambda>u s1.
               if u = 125 then
                 obind (bump c s1) (\<lambda>_ s1. Ok (Argument l (Some (rt (pos s) (pos s1)))) s1)
               else if u = 44 then
                 obind (bump c s1) (\<lambda>_ s1. obind (bumpSpace c s1) (\<lambda>_ s1.
                   if isEOF c s1 then Err EXPECT_ARGUMENT_CLOSING_BRACE (rt (pos s) (pos s1)) s1
                   else m_options this e n l (pos s) s1))
               else Err MALFORMED_ARGUMENT (rt (pos s) (pos s1)) s1))))))"

text \<open>The part of \<open>parseArgumentOptions\<close> that reads \<open>offset:\<close> and the selector after it.\<close>

definition parse_plural_offset ::
  "config \<Rightarrow> string \<Rightarrow> jsstr \<Rightarrow> location \<Rightarrow> pstate \<Rightarrow> (jsstr \<times> location \<times> int) outcome" where
  "parse_plural_offset c ty G Gl s =
     (if ty \<noteq> ''select'' \<and> G = js ''offset'' then
        obind (bumpIf c '':'' s) (\<lambda>colon s.
          if \<not> colon then Err EXPECT_PLURAL_ARGUMENT_OFFSET_VALUE (rt (pos s) (pos s)) s
          else obind (bumpSpace c s) (\<lambda>_ s.
            obind (tryParseDecimalInteger c EXPECT_PLURAL_ARGUMENT_OFFSET_VALUE
                     INVALID_PLURAL_ARGUMENT_OFFSET_VALUE s) (\<lambda>v s.
              obind (bumpSpace c s) (\<lambda>_ s.
                obind (parseIdentifierIfPossible c s) (\<lambda>(G', Gl') s. Ok (G', Gl', v) s)))))
      else Ok (G, Gl, 0) s)"

definition select_element ::
  "string \<Rightarrow> jsstr \<Rightarrow> sel_option list \<Rightarrow> int \<Rightarrow> location option \<Rightarrow> element" where
  "select_element ty i y P te =
     (if ty = ''select'' then Select i y te
      else Plural i y P (if ty = ''plural'' then Cardinal else Ordinal) te)"

text \<open>Its branch for \<open>plural\<close>, \<open>selectordinal\<close> and \<open>select\<close>.\<close>

definition parse_select_argument ::
  "methods \<Rightarrow> config \<Rightarrow> nat \<Rightarrow> bool \<Rightarrow> string \<Rightarrow> jsstr \<Rightarrow> position \<Rightarrow> pstate \<Rightarrow> element outcome" where
  "parse_select_argument this c e n ty i l s =
     obind (bumpSpace c s) (\<lambda>_ s1. obind (bumpIf c '','' s1) (\<lambda>comma s1.
       if \<not> comma then Err EXPECT_SELECT_ARGUMENT_OPTIONS (rt (pos s) (pos s)) s1
       else obind (bumpSpace c s1) (\<lambda>_ s2.
         obind (parseIdentifierIfPossible c s2) (\<lambda>(G, Gl) s3.
           obind (parse_plural_offset c ty G Gl s3) (\<lambda>(G, Gl, P) s4.
             obind (m_select this e ty n False [] [] G Gl s4) (\<lambda>y s5.
               obind (tryParseArgumentClose c l s5) (\<lambda>_ s6.
                 Ok (select_element ty i y P (Some (rt l (pos s6)))) s6)))))))"

definition parseArgumentOptions ::
  "methods \<Rightarrow> config \<Rightarrow> nat \<Rightarrow> bool \<Rightarrow> jsstr \<Rightarrow> position \<Rightarrow> pstate \<Rightarrow> element outcome" where
  "parseArgumentOptions this c e n i l s =
     obind (parseIdentifierIfPossible c s) (\<lambda>(o', _) s1.
       if o' = [] then Err EXPECT_ARGUMENT_TYPE (rt (pos s) (pos s1)) s1
       else if o' = js ''number'' then parse_simple_argument c ''number'' i l s1
       else if o' = js ''date'' then parse_simple_argument c ''date'' i l s1
       else if o' = js ''time'' then parse_simple_argument c ''time'' i l s1
       else if o' = js ''plural'' then parse_select_argument this c e n ''plural'' i l s1
       else if o' = js ''selectordinal'' then
         parse_select_argument this c e n ''selectordinal'' i l s1
       else if o' = js ''select'' then parse_select_argument this c e n ''select'' i l s1
       else Err INVALID_ARGUMENT_TYPE (rt (pos s) (pos s1)) s1)"

text \<open>
  The parts of one round of \<open>tryParsePluralOrSelectOptions\<close>: the selector (an identifier, or
  \<open>=\<close> and an integer), the option after it, and the tests once no selector is left.
\<close>

definition next_selector ::
  "config \<Rightarrow> string \<Rightarrow> jsstr \<Rightarrow> location \<Rightarrow> pstate \<Rightarrow> (jsstr \<times> location) option outcome" where
  "next_selector c n sel h s =
     (if sel = [] then
        obind (if n \<noteq> ''select'' then bumpIf c ''='' s else Ok False s) (\<lambda>eq s1.
          if eq then
            obind (tryParseDecimalInteger c EXPECT_PLURAL_ARGUMENT_SELECTOR
                     INVALID_PLURAL_ARGUMENT_SELECTOR s1) (\<lambda>_ s2.
              Ok (Some (slice (offset (pos s)) (offset (pos s2)) (message c),
                        rt (pos s) (pos s2))) s2)
          else Ok None s1)
      else Ok (Some (sel, h)) s)"

definition parse_option ::
  "methods \<Rightarrow> config \<Rightarrow> nat \<Rightarrow> string \<Rightarrow> bool \<Rightarrow> jsstr \<Rightarrow> pstate \<Rightarrow> sel_option outcome" where
  "parse_option this c e n i sel s =
     obind (bumpSpace c s) (\<lambda>_ b. obind (bumpIf c ''{'' b) (\<lambda>open s.
       if \<not> open then
         Err (if n = ''select'' then EXPECT_SELECT_ARGUMENT_SELECTOR_FRAGMENT
              else EXPECT_PLURAL_ARGUMENT_SELECTOR_FRAGMENT) (rt (pos s) (pos s)) s
       else obind (m_message this (e + 1) n i [] s) (\<lambda>v s.
         obind (tryParseArgumentClose c (pos b) s) (\<lambda>_ s.
           Ok (SelOption sel v (Some (rt (pos b) (pos s)))) s))))"

definition finish_options ::
  "config \<Rightarrow> string \<Rightarrow> bool \<Rightarrow> sel_option list \<Rightarrow> pstate \<Rightarrow> sel_option list outcome" where
  "finish_options c n r o' s =
     (if o' = [] then
        Err (if n = ''select'' then EXPECT_SELECT_ARGUMENT_SELECTOR
             else EXPECT_PLURAL_ARGUMENT_SELECTOR) (rt (pos s) (pos s)) s
      else if requiresOtherClause c \<and> \<not> r then
        Err MISSING_OTHER_CLAUSE (rt (pos s) (pos s)) s
      else Ok o' s)"

definition tryParsePluralOrSelectOptions ::
  "methods \<Rightarrow> config \<Rightarrow> nat \<Rightarrow> string \<Rightarrow> bool \<Rightarrow> bool \<Rightarrow> sel_option list \<Rightarrow> jsstr list \<Rightarrow>
     jsstr \<Rightarrow> location \<Rightarrow> pstate \<Rightarrow> sel_option list outcome" where
  "tryParsePluralOrSelectOptions this c e n i r o' seen sel h s =
     obind (next_selector c n sel h s) (\<lambda>found s.
       case found of
         None \<Rightarrow> finish_options c n r o' s
       | Some (sel, h) \<Rightarrow>
           if sel \<in> set seen then
             Err (if n = ''select'' then DUPLICATE_SELECT_ARGUMENT_SELECTOR
                  else DUPLICATE_PLURAL_ARGUMENT_SELECTOR) h s
           else obind (parse_option this c e n i sel s) (\<lambda>p s.
             obind (bumpSpace c s) (\<lambda>_ s.
               obind (parseIdentifierIfPossible c s) (\<lambda>(u, ul) s.
                 m_select this e n i (r \<or> sel = js ''other'') (o' @ [p]) (seen @ [sel]) u ul s))))"

primrec parser_methods :: "config \<Rightarrow> nat \<Rightarrow> methods" where
  "parser_methods c 0 =
     \<lparr>m_message = (\<lambda>e n i l s. Fuel), m_tag = (\<lambda>e n s. Fuel), m_argument = (\<lambda>e n s. Fuel),
      m_options = (\<lambda>e n i l s. Fuel), m_select = (\<lambda>e n i r o' seen sel h s. Fuel)\<rparr>"
| "parser_methods c (Suc k) =
     \<lparr>m_message = parseMessage (parser_methods c k) c, m_tag = parseTag (parser_methods c k) c,
      m_argument = parseArgument (parser_methods c k) c,
      m_options = parseArgumentOptions (parser_methods c k) c,
      m_select = tryParsePluralOrSelectOptions (parser_methods c k) c\<rparr>"

text \<open>
  The methods at a given fuel one by one, with equations for the evaluator that unfold one method
  of one level at a time.
\<close>

definition "run_message k c = m_message (parser_methods c k)"
definition "run_tag k c = m_tag (parser_methods c k)"
definition "run_argument k c = m_argument (parser_methods c k)"
definition "run_options k c = m_options (parser_methods c k)"
definition "run_select k c = m_select (parser_methods c k)"

definition run_methods :: "nat \<Rightarrow> config \<Rightarrow> methods" where
  "run_methods k c =
     \<lparr>m_message = run_message k c, m_tag = run_tag k c, m_argument = run_argument k c,
      m_options = run_options k c, m_select = run_select k c\<rparr>"

lemmas run_defs = run_message_def run_tag_def run_argument_def run_options_def run_select_def

lemma run_methods_eq: "run_methods k c = parser_methods c k"
  by (cases k) (simp_all add: run_methods_def run_defs)

lemma run_message_code [code]:
  "run_message 0 c e n i l s = Fuel"
  "run_message (Suc k) c e n i l s = parseMessage (run_methods k c) c e n i l s"
  by (simp_all add: run_message_def run_methods_eq)

lemma run_tag_code [code]:
  "run_tag 0 c e n s = Fuel"
  "run_tag (Suc k) c e n s = parseTag (run_methods k c) c e n s"
  by (simp_all add: run_tag_def run_methods_eq)

lemma run_argument_code [code]:
  "run_argument 0 c e n s = Fuel"
  "run_argument (Suc k) c e n s = parseArgument (run_methods k c) c e n s"
  by (simp_all add: run_argument_def run_methods_eq)

lemma run_options_code [code]:
  "run_options 0 c e n i l s = Fuel"
  "run_options (Suc k) c e n i l s = parseArgumentOptions (run_methods k c) c e n i l s"
  by (simp_all add: run_options_def run_methods_eq)

lemma run_select_code [code]:
  "run_select 0 c e n i r o' seen sel h s = Fuel"
  "run_select (Suc k) c e n i r o' seen sel h s = tryParsePluralOrSelectOptions (run_methods k c) c e n i r o' seen sel h s"
  by (simp_all add: run_select_def run_methods_eq)

definition parser_init :: "nat \<Rightarrow> pstate" where
  "parser_init li = \<lparr>pos = \<lparr>offset = 0, line = 1, column = 1\<rparr>, mh_lastIndex = li\<rparr>"

text \<open>
  \<open>parse\<close> with fuel for every message: each round of the loops and each call either consumes a
  character or is the only such step between two that do.
\<close>

definition parse_fuel :: "config \<Rightarrow> nat" where
  "parse_fuel c = 2 * length (message c) + 2"

definition parse :: "config \<Rightarrow> pstate \<Rightarrow> element list outcome" where
  "parse c s =
     (if offset (pos s) \<noteq> 0 then Throw UsedTwice s
      else run_message (parse_fuel c) c 0 [] False [] s)"

section \<open>The wrapper\<close>

fun prune_style :: "arg_style \<Rightarrow> arg_style" where
  "prune_style (NumberSkeleton ts l p) = NumberSkeleton ts None p"
| "prune_style (DateTimeSkeleton h l p) = DateTimeSkeleton h None p"
| "prune_style st = st"

fun prune_element :: "element \<Rightarrow> element"
  and prune_option :: "sel_option \<Rightarrow> sel_option"
where
  "prune_element (Literal v l) = Literal v None"
| "prune_element (Argument v l) = Argument v None"
| "prune_element (NumberEl v l st) = NumberEl v None (prune_style st)"
| "prune_element (DateEl v l st) = DateEl v None (prune_style st)"
| "prune_element (TimeEl v l st) = TimeEl v None (prune_style st)"
| "prune_element (Select v os l) = Select v (map prune_option os) None"
| "prune_element (Plural v os f ty l) = Plural v (map prune_option os) f ty None"
| "prune_element (Pound l) = Pound None"
| "prune_element (Tag v es l) = Tag v (map prune_element es) None"
| "prune_option (SelOption k es l) = SelOption k (map prune_element es) None"

definition pruneLocation :: "element list \<Rightarrow> element list" where
  "pruneLocation = map prune_element"

text \<open>The options \<open>JS\<close> puts under those of its caller, for a caller that passes none.\<close>

definition default_config :: "jsstr \<Rightarrow> config" where
  "default_config t =
     \<lparr>message = t, ignoreTag = False, locale_of = None, requiresOtherClause = True,
      shouldParseSkeletons = True, unicode_regex = True\<rparr>"

text \<open>\<open>JS\<close>: the parser's result as a value or an exception, with the locations deleted.\<close>

definition parseMessageText :: "bool \<Rightarrow> config \<Rightarrow> nat \<Rightarrow> (exn + element list) \<times> nat" where
  "parseMessageText captureLocation c li =
     (case parse c (parser_init li) of
        Ok v s \<Rightarrow> (Inr (if captureLocation then v else pruneLocation v), mh_lastIndex s)
      | Err k l s \<Rightarrow> (Inl (SyntaxErr k l), mh_lastIndex s)
      | Throw x s \<Rightarrow> (Inl x, mh_lastIndex s)
      | Fuel \<Rightarrow> (Inl OutOfBound, li))"

end
