(* ===== verification/Icu_Parser_Correct.thy ===== *)
theory Icu_Parser_Correct
  imports Icu_Parser
begin

text \<open>
  What the message parser guarantees: it returns on every message, none of its position checks
  ever fires, every location it reports is the line and column of its offset, and the tree it
  builds is well formed. The methods are verified once against a contract, the locale
  \<open>parser_callees\<close>, which one unit of fuel hands down to the next.
\<close>

section \<open>Code points\<close>

definition high_unit :: "code_unit \<Rightarrow> bool" where
  "high_unit u \<longleftrightarrow> 55296 \<le> uint u \<and> uint u \<le> 56319"

definition low_unit :: "code_unit \<Rightarrow> bool" where
  "low_unit u \<longleftrightarrow> 56320 \<le> uint u \<and> uint u \<le> 57343"

definition second_half :: "jsstr \<Rightarrow> nat \<Rightarrow> bool" where
  "second_half m j \<longleftrightarrow> 0 < j \<and> j < length m \<and> high_unit (m ! (j - 1)) \<and> low_unit (m ! j)"

lemma uint_16_bound: "uint (u :: code_unit) < 65536" "0 \<le> uint (u :: code_unit)"
  using uint_lt2p [of u] by simp_all

lemma div_mod_1024:
  fixes a b :: int
  assumes "0 \<le> a" and "a < 1024"
  shows "(a + b * 1024) div 1024 = b" and "(a + b * 1024) mod 1024 = a"
  using assms by simp_all

text \<open>A code point is one unit, or a pair whose second unit is a second half.\<close>

lemma code_point_at_cases:
  assumes "i < length m"
  obtains (unit) "code_point_at m i = Some (uint (m ! i))" and "\<not> second_half m (i + 1)"
  | (pair) r where "code_point_at m i = Some r" and "65536 \<le> r" and "r \<le> 1114111"
      and "i + 1 < length m" and "second_half m (i + 1)" and "from_code_point r = Some [m ! i, m ! (i + 1)]"
proof (cases "second_half m (i + 1)")
  case False
  with assms have "code_point_at m i = Some (uint (m ! i))"
    by (auto simp: code_point_at_def second_half_def high_unit_def low_unit_def Let_def)
  with False show thesis by (rule unit [rotated])
next
  case True
  define l u where "l = uint (m ! i)" and "u = uint (m ! (i + 1))"
  define r where "r = (l - 55296) * 1024 + (u - 56320) + 65536"
  from True have b: "55296 \<le> l" "l \<le> 56319" "56320 \<le> u" "u \<le> 57343" "i + 1 < length m"
    by (auto simp: second_half_def high_unit_def low_unit_def l_def u_def)
  then have "code_point_at m i = Some r"
    by (auto simp: code_point_at_def Let_def r_def l_def u_def)
  moreover from b have "65536 \<le> r" "r \<le> 1114111" by (auto simp: r_def)
  moreover have q: "r - 65536 = (u - 56320) + (l - 55296) * 1024" by (simp add: r_def)
  have "(r - 65536) div 1024 = l - 55296" "(r - 65536) mod 1024 = u - 56320"
    using div_mod_1024 [of "u - 56320" "l - 55296"] b unfolding q by simp_all
  then have "from_code_point r = Some [m ! i, m ! (i + 1)]"
    using \<open>65536 \<le> r\<close> \<open>r \<le> 1114111\<close> by (simp add: from_code_point_def l_def u_def)
  ultimately show thesis using b True by (intro pair)
qed

lemma code_point_at_room: "code_point_at m i = Some u \<Longrightarrow> i < length m"
  by (auto simp: code_point_at_def split: if_splits)

lemma code_point_pair:
  assumes "code_point_at m i = Some u"
  shows "65536 \<le> u \<longleftrightarrow> second_half m (i + 1)"
  using code_point_at_room [OF assms]
proof (cases rule: code_point_at_cases)
  case unit
  with assms show ?thesis using uint_16_bound(1) [of "m ! i"] by auto
qed (use assms in auto)

lemma from_code_point_at:
  assumes "code_point_at m i = Some u"
  shows "from_code_point u = Some (slice i (i + cp_len u) m)" and "i + cp_len u \<le> length m"
    and "\<not> second_half m (i + cp_len u)"
proof -
  note i = code_point_at_room [OF assms]
  have "from_code_point u = Some (slice i (i + cp_len u) m) \<and> i + cp_len u \<le> length m \<and>
      \<not> second_half m (i + cp_len u)"
    using i
  proof (cases rule: code_point_at_cases)
    case unit
    with assms i show ?thesis using uint_16_bound(1) [of "m ! i"]
      by (auto simp: from_code_point_def cp_len_def slice_def take_Suc_conv_app_nth hd_drop_conv_nth
          take_Suc)
  next
    case (pair r)
    then have "drop i m = m ! i # m ! Suc i # drop (Suc (Suc i)) m"
      by (metis Suc_eq_plus1 Suc_lessD Cons_nth_drop_Suc)
    with pair assms show ?thesis
      by (auto simp: cp_len_def slice_def second_half_def high_unit_def low_unit_def)
  qed
  then show "from_code_point u = Some (slice i (i + cp_len u) m)" and "i + cp_len u \<le> length m"
    and "\<not> second_half m (i + cp_len u)" by auto
qed

section \<open>Positions\<close>

definition spec_pos :: "jsstr \<Rightarrow> nat \<Rightarrow> position" where
  "spec_pos m i =
     \<lparr>offset = i, line = 1 + length (filter (\<lambda>u. u = 10) (take i m)),
      column = 1 + length (filter (\<lambda>j. 10 \<notin> set (slice j i m) \<and> \<not> second_half m j) [0..<i])\<rparr>"

definition pos_ok :: "config \<Rightarrow> position \<Rightarrow> bool" where
  "pos_ok c p \<longleftrightarrow> offset p \<le> length (message c) \<and> \<not> second_half (message c) (offset p) \<and>
     p = spec_pos (message c) (offset p)"

definition loc_ok :: "config \<Rightarrow> location \<Rightarrow> bool" where
  "loc_ok c l \<longleftrightarrow> pos_ok c (loc_start l) \<and> pos_ok c (loc_end l) \<and>
     offset (loc_start l) \<le> offset (loc_end l)"

lemma slice_Suc: "j \<le> i \<Longrightarrow> i < length m \<Longrightarrow> slice j (Suc i) m = slice j i m @ [m ! i]"
  by (simp add: slice_def Suc_diff_le take_Suc_conv_app_nth)

lemma spec_pos_newline:
  assumes "i < length m" and "m ! i = 10"
  shows "spec_pos m (Suc i) = \<lparr>offset = Suc i, line = line (spec_pos m i) + 1, column = 1\<rparr>"
  using assms by (auto simp: spec_pos_def take_Suc_conv_app_nth slice_Suc)

lemma spec_pos_unit:
  assumes "i < length m" and "m ! i \<noteq> 10"
  shows "spec_pos m (Suc i) =
    \<lparr>offset = Suc i, line = line (spec_pos m i),
     column = column (spec_pos m i) + (if second_half m i then 0 else 1)\<rparr>"
proof -
  have "filter (\<lambda>j. 10 \<notin> set (slice j (Suc i) m) \<and> \<not> second_half m j) [0..<i] =
        filter (\<lambda>j. 10 \<notin> set (slice j i m) \<and> \<not> second_half m j) [0..<i]"
    using assms by (intro filter_cong) (auto simp: slice_Suc)
  then show ?thesis
    using assms by (auto simp: spec_pos_def take_Suc_conv_app_nth slice_Suc)
qed

lemma unit_10: "uint (u :: code_unit) = 10 \<longleftrightarrow> u = 10"
proof
  assume "uint u = 10"
  then have "word_of_int (uint u) = (word_of_int 10 :: code_unit)" by (simp only:)
  then show "u = 10" by simp
qed simp

lemma unit_not_10: "m ! i = u \<Longrightarrow> high_unit u \<or> low_unit u \<Longrightarrow> u \<noteq> 10"
  by (auto simp: high_unit_def low_unit_def)

section \<open>Safe outcomes\<close>

text \<open>
  A safe outcome returns (the fuel was enough), returns a value with \<open>P\<close>, an error with the
  location of a real place in the message, or an exception of a skeleton: never one of the
  position checks.
\<close>

definition safe :: "config \<Rightarrow> ('a \<Rightarrow> pstate \<Rightarrow> bool) \<Rightarrow> 'a outcome \<Rightarrow> bool" where
  "safe c P m =
     (case m of
        Ok x s \<Rightarrow> P x s
      | Err k l s \<Rightarrow> loc_ok c l
      | Throw x s \<Rightarrow> (\<exists>j. x = SkeletonError j)
      | Fuel \<Rightarrow> False)"

lemma safe_simps [simp]:
  "safe c P (Ok x s) = P x s"
  "safe c P (Err k l s) = loc_ok c l"
  "safe c P (Throw (SkeletonError j) s)"
  "safe c P (obind m f) = safe c (\<lambda>x s. safe c P (f x s)) m"
  by (simp_all add: safe_def) (cases m; simp)

lemma safe_weaken: "safe c P m \<Longrightarrow> (\<And>x s. P x s \<Longrightarrow> Q x s) \<Longrightarrow> safe c Q m"
  by (auto simp: safe_def split: outcome.splits)

abbreviation ok :: "config \<Rightarrow> pstate \<Rightarrow> bool" where
  "ok c s \<equiv> pos_ok c (pos s)"

abbreviation off :: "pstate \<Rightarrow> nat" where
  "off s \<equiv> offset (pos s)"

lemma ok_le: "ok c s \<Longrightarrow> off s \<le> length (message c)"
  by (simp add: pos_ok_def)

lemma ok_not_EOF: "ok c s \<Longrightarrow> \<not> isEOF c s \<Longrightarrow> off s < length (message c)"
  by (simp add: pos_ok_def isEOF_def)

lemma ok_char_at:
  assumes "ok c s" and "\<not> isEOF c s"
  shows "\<exists>u. char_at c s = Ok u s \<and> code_point_at (message c) (off s) = Some u"
proof -
  note i = ok_not_EOF [OF assms]
  then have "code_point_at (message c) (off s) \<noteq> None"
    by (simp add: code_point_at_def Let_def)
  then obtain u where "code_point_at (message c) (off s) = Some u" by blast
  with i show ?thesis by (simp add: char_at_def)
qed

lemma ok_bump:
  assumes "ok c s" and "\<not> isEOF c s" and "code_point_at (message c) (off s) = Some u"
  shows "\<exists>t. bump c s = Ok () t \<and> ok c t \<and> off t = off s + (if 65536 \<le> u then 2 else 1) \<and>
    mh_lastIndex t = mh_lastIndex s"
proof -
  define m i where "m = message c" and "i = off s"
  from assms have p: "pos s = spec_pos m i" and h: "\<not> second_half m i" and i: "i < length m"
    using ok_not_EOF [OF assms(1,2)] by (auto simp: pos_ok_def m_def i_def)
  have ch: "char_at c s = Ok u s" using ok_char_at [OF assms(1,2)] assms(3) by auto
  from i show ?thesis
  proof (cases rule: code_point_at_cases)
    case unit
    with assms(3) have u: "u = uint (m ! i)" by (simp add: m_def i_def)
    with ch assms(2) h i p show ?thesis
      using uint_16_bound(1) [of "m ! i"] unit(2) spec_pos_newline [OF i] spec_pos_unit [OF i]
      by (auto simp: bump_def pos_ok_def unit_10 m_def [symmetric] i_def [symmetric]) (auto simp: spec_pos_def)
  next
    case (pair r)
    with assms(3) have u: "u = r" by (simp add: m_def i_def)
    from pair(5) have n: "m ! i \<noteq> 10" "m ! Suc i \<noteq> 10"
      by (auto simp: second_half_def high_unit_def low_unit_def)
    have "\<not> second_half m (Suc (Suc i))"
      using pair(5) by (auto simp: second_half_def high_unit_def low_unit_def)
    with ch assms(2) h i p pair u n show ?thesis
      using spec_pos_unit [OF i n(1)] spec_pos_unit [of "Suc i" m]
      by (auto simp: bump_def pos_ok_def m_def [symmetric] i_def [symmetric]) (auto simp: spec_pos_def)
  qed
qed

section \<open>Rules for the primitives\<close>

text \<open>What a call leaves: a correct position at or after the one it started from.\<close>

abbreviation after :: "config \<Rightarrow> pstate \<Rightarrow> pstate \<Rightarrow> bool" where
  "after c s t \<equiv> ok c t \<and> off s \<le> off t"

lemma char_at_safe:
  assumes "ok c s" and "\<not> isEOF c s"
    and "\<And>u. code_point_at (message c) (off s) = Some u \<Longrightarrow> P u s"
  shows "safe c P (char_at c s)"
  using ok_char_at [OF assms(1,2)] assms(3) by auto

lemma bump_safe:
  assumes "ok c s"
    and "\<And>t. ok c t \<Longrightarrow> off s \<le> off t \<Longrightarrow> \<not> isEOF c s \<Longrightarrow> off s < off t \<Longrightarrow> P () t"
    and "isEOF c s \<Longrightarrow> P () s"
  shows "safe c P (bump c s)"
proof (cases "isEOF c s")
  case True
  with assms(3) show ?thesis by (simp add: bump_def)
next
  case False
  with ok_char_at [OF assms(1)] ok_bump [OF assms(1)] assms(2) show ?thesis by fastforce
qed

lemma bump_safe_after:
  assumes "ok c s" and "\<And>t. ok c t \<Longrightarrow> off s \<le> off t \<Longrightarrow> P () t"
  shows "safe c P (bump c s)"
  using assms by (intro bump_safe) auto

lemma bump_safe_strict:
  assumes "ok c s" and "\<not> isEOF c s" and "\<And>t. ok c t \<Longrightarrow> off s < off t \<Longrightarrow> P () t"
  shows "safe c P (bump c s)"
  using assms by (intro bump_safe) auto

lemma ok_peek: "ok c s \<Longrightarrow> \<exists>p. peek c s = Ok p s"
  using ok_char_at [of c s] by (cases "isEOF c s") (auto simp: peek_def Let_def)

lemma peek_safe:
  assumes "ok c s" and "\<And>p. peek c s = Ok p s \<Longrightarrow> P p s"
  shows "safe c P (peek c s)"
  using ok_peek [OF assms(1)] assms(2) by auto

lemma bump_while_safe:
  assumes "ok c s" and "\<And>t. ok c t \<Longrightarrow> off s \<le> off t \<Longrightarrow> P () t"
  shows "safe c P (bump_while p c s)"
  using assms
proof (induction p c s rule: bump_while.induct)
  case (1 p c s)
  show ?case
  proof (cases "isEOF c s")
    case True
    with 1(3) [of s] 1(2) show ?thesis by (simp add: bump_while.simps)
  next
    case False
    from ok_char_at [OF 1(2) False] obtain u where u: "char_at c s = Ok u s" by blast
    show ?thesis
    proof (cases "p u")
      case True
      have "safe c (\<lambda>_ t. safe c P (bump_while p c t)) (bump c s)"
      proof -
        from ok_char_at [OF 1(2) False] ok_bump [OF 1(2) False] obtain t where
          t: "bump c s = Ok () t" "ok c t" "off s \<le> off t" by fastforce
        from 1(1) [OF False u True t(1) t(2)] 1(3) t show ?thesis by fastforce
      qed
      with u True False show ?thesis by (simp add: bump_while.simps [of p c s])
    next
      case False
      with u \<open>\<not> isEOF c s\<close> 1(2,3) show ?thesis by (simp add: bump_while.simps [of p c s])
    qed
  qed
qed

lemma bumpSpace_safe:
  assumes "ok c s" and "\<And>t. ok c t \<Longrightarrow> off s \<le> off t \<Longrightarrow> P () t"
  shows "safe c P (bumpSpace c s)"
  unfolding bumpSpace_def by (rule bump_while_safe) (fact assms)+

lemma bump_times_safe:
  assumes "ok c s" and "\<And>t. ok c t \<Longrightarrow> off s \<le> off t \<Longrightarrow> P () t"
  shows "safe c P (bump_times n c s)"
  using assms
proof (induction n arbitrary: s)
  case (Suc n)
  then show ?case by (fastforce intro: bump_safe_after)
qed simp

lemma bumpIf_safe:
  assumes "ok c s" and "P False s" and "e \<noteq> []"
    and "\<And>t. ok c t \<Longrightarrow> off s < off t \<Longrightarrow> P True t"
  shows "safe c P (bumpIf c e s)"
proof (cases "starts_with_at (message c) (js e) (off s)")
  case True
  obtain x es where e: "e = x # es" using assms(3) by (cases e) auto
  have nE: "\<not> isEOF c s"
    using True e by (auto simp: starts_with_at_def isEOF_def)
  have "safe c (\<lambda>_ s. safe c (\<lambda>_. P True) (bump_times (length es) c s)) (bump c s)"
    using assms(1) nE
    by (intro bump_safe_strict bump_times_safe) (auto intro!: assms(4))
  with True e show ?thesis by (simp add: bumpIf_def)
next
  case False
  with assms(2) show ?thesis by (simp add: bumpIf_def)
qed

lemma parseTagName_safe:
  assumes "ok c s" and "\<And>n t. ok c t \<Longrightarrow> off s \<le> off t \<Longrightarrow> P n t"
  shows "safe c P (parseTagName c s)"
  unfolding parseTagName_def using assms
  by (auto intro!: bump_safe_after bump_while_safe)

text \<open>
  A walk of bumps hits every target that is not a second half, because a pair is stepped over as
  one.
\<close>

lemma bumpTo_loop_safe:
  assumes "ok c s" and "off s \<le> e" and "e \<le> length (message c)" and "\<not> second_half (message c) e"
    and "\<And>t. ok c t \<Longrightarrow> off t = e \<Longrightarrow> P () t"
  shows "safe c P (bumpTo_loop c e s)"
  using assms
proof (induction c e s rule: bumpTo_loop.induct)
  case (1 c e s)
  show ?case
  proof (cases "off s = e")
    case True
    with 1(2,6) show ?thesis by (simp add: bumpTo_loop.simps)
  next
    case False
    with 1(3,4) have lt: "off s < e" and nE: "\<not> isEOF c s" by (auto simp: isEOF_def)
    from ok_char_at [OF 1(2) nE] obtain u where
      u: "code_point_at (message c) (off s) = Some u" by blast
    from ok_bump [OF 1(2) nE u] obtain t where t: "bump c s = Ok () t" "ok c t"
      "off t = off s + (if 65536 \<le> u then 2 else 1)" by blast
    have le: "off t \<le> e"
    proof (cases "65536 \<le> u")
      case True
      with code_point_pair [OF u] 1(5) have "e \<noteq> off s + 1" by auto
      with lt t(3) True show ?thesis by auto
    qed (use lt t(3) in auto)
    show ?thesis
    proof (cases "isEOF c t")
      case True
      with le 1(4) have "off t = e" by (simp add: isEOF_def)
      with 1(6) t True lt show ?thesis by (simp add: bumpTo_loop.simps)
    next
      case nT: False
      have "safe c P (bumpTo_loop c e t)"
        by (rule 1(1)) (use False lt t nT le 1 in auto)
      with t lt nT False show ?thesis by (simp add: bumpTo_loop.simps [of c e s])
    qed
  qed
qed

lemma bumpTo_safe:
  assumes "ok c s" and "off s \<le> e" and "e \<le> length (message c)" and "\<not> second_half (message c) e"
    and "\<And>t. ok c t \<Longrightarrow> off t = e \<Longrightarrow> P () t"
  shows "safe c P (bumpTo c e s)"
  using assms by (auto simp: bumpTo_def min_absorb1 intro: bumpTo_loop_safe)

lemma bumpUntil_safe:
  assumes "ok c s" and q: "q = CHR 0x27" and "\<And>b t. ok c t \<Longrightarrow> off s \<le> off t \<Longrightarrow> P b t"
  shows "safe c P (bumpUntil c q s)"
proof (cases "index_of (of_char q) (message c) (off s)")
  case None
  have "\<not> second_half (message c) (length (message c))" by (simp add: second_half_def)
  with None assms ok_le [OF assms(1)] show ?thesis
    by (auto simp: bumpUntil_def intro!: bumpTo_safe)
next
  case (Some i)
  note i = index_of_Some [OF Some]
  have "\<not> second_half (message c) i"
    using i(3) q by (auto simp: second_half_def low_unit_def)
  with Some i assms show ?thesis
    by (auto simp: bumpUntil_def intro!: bumpTo_safe)
qed

section \<open>Rules for literals\<close>

lemma cp_string_at: "code_point_at m i = Some u \<Longrightarrow> cp_string u = slice i (i + cp_len u) m"
  by (simp add: cp_string_def from_code_point_at)

lemma cp_string_ne: "code_point_at m i = Some u \<Longrightarrow> cp_string u \<noteq> []"
  using from_code_point_at(2) [of m i u]
  by (auto simp: cp_string_at slice_def cp_len_def split: if_splits)

lemma bump_obtain:
  assumes "ok c s" and "\<not> isEOF c s"
  obtains u t where "char_at c s = Ok u s" and "code_point_at (message c) (off s) = Some u"
    and "bump c s = Ok () t" and "ok c t" and "off s < off t" and "off t = off s + cp_len u"
proof -
  from ok_char_at [OF assms] obtain u where u: "char_at c s = Ok u s"
    "code_point_at (message c) (off s) = Some u" by blast
  from ok_bump [OF assms u(2)] obtain t where t: "bump c s = Ok () t" "ok c t"
    "off t = off s + cp_len u" by (auto simp: cp_len_def)
  moreover from t(3) have "off s < off t" by (simp add: cp_len_def split: if_splits)
  ultimately show thesis using u by (intro that)
qed

lemma bump_after: "ok c s \<Longrightarrow> \<exists>t. bump c s = Ok () t \<and> ok c t \<and> off s \<le> off t"
  by (cases "isEOF c s") (auto simp: bump_def elim: bump_obtain)

lemma quote_loop_safe:
  assumes "ok c s" and "\<And>ys t. ok c t \<Longrightarrow> off s \<le> off t \<Longrightarrow> P (n @ ys) t"
  shows "safe c P (quote_loop c n s)"
  using assms
proof (induction c n s rule: quote_loop.induct)
  case (1 c n s)
  show ?case
  proof (cases "isEOF c s")
    case True
    with 1(3) 1(4) [of s "[]"] show ?thesis by (simp add: quote_loop.simps)
  next
    case nE: False
    from bump_obtain [OF 1(3) nE] obtain u t where
      u: "char_at c s = Ok u s" and b: "bump c s = Ok () t" "ok c t" "off s < off t" by metis
    from ok_peek [OF 1(3)] obtain p where p: "peek c s = Ok p s" by blast
    show ?thesis
    proof (cases "u = 39")
      case False
      have "safe c P (quote_loop c (n @ [u]) t)"
        by (rule 1(2) [OF nE u False b(1)]) (use b 1(4) in auto)
      with nE u b False show ?thesis by (simp add: quote_loop.simps [of c n s])
    next
      case q: True
      have "safe c (\<lambda>_ t'. safe c P (quote_loop c (n @ [39]) t')) (bump c t)" if "p = Some 39"
      proof -
        obtain t' where t': "bump c t = Ok () t'" "ok c t'" "off t \<le> off t'"
          using bump_after [OF b(2)] by blast
        have "safe c P (quote_loop c (n @ [39]) t')"
          by (rule 1(1) [OF nE u q p that b(1) t'(1)]) (use b t' 1(4) in auto)
        with t' show ?thesis by simp
      qed
      with nE u b q p 1(4) [of t "[]"] show ?thesis by (simp add: quote_loop.simps [of c n s])
    qed
  qed
qed

lemma tryParseQuote_safe:
  assumes "ok c s" and "P None s" and "\<And>w t. w \<noteq> [] \<Longrightarrow> ok c t \<Longrightarrow> off s < off t \<Longrightarrow> P (Some w) t"
  shows "safe c P (tryParseQuote c e s)"
proof (cases "isEOF c s")
  case True
  with assms(2) show ?thesis by (simp add: tryParseQuote_def)
next
  case nE: False
  from bump_obtain [OF assms(1) nE] obtain u t where
    u: "char_at c s = Ok u s" and b: "bump c s = Ok () t" "ok c t" "off s < off t"
    "off t = off s + cp_len u" by metis
  from ok_peek [OF assms(1)] obtain p where p: "peek c s = Ok p s" by blast
  have tE: "\<not> isEOF c t" if "p \<noteq> None"
    using that p nE u b(4) by (auto simp: peek_def Let_def isEOF_def cp_len_def split: if_splits)
  have two: "safe c (\<lambda>_. P (Some (js [CHR 0x27]))) (bump c t)"
    using b assms(3) by (auto intro!: bump_safe_after)
  have quoted: "safe c (\<lambda>q s1. safe c (\<lambda>_ s2.
      safe c (\<lambda>n. P (Some (concat (map cp_string n)))) (quote_loop c [q] s2)) (bump c s1)) (char_at c t)"
    if "p \<noteq> None"
    using b tE [OF that] assms(3) cp_string_ne
    by (fastforce intro!: char_at_safe bump_safe_after quote_loop_safe)
  show ?thesis
    using nE u p b(1) assms(2) two quoted by (auto simp: tryParseQuote_def)
qed

text \<open>What stops an unquoted run, and the bracket that is text.\<close>

definition stops :: "config \<Rightarrow> nat \<Rightarrow> string \<Rightarrow> pstate \<Rightarrow> bool" where
  "stops c e n s \<longleftrightarrow> isEOF c s \<or>
     (case code_point_at (message c) (off s) of
        None \<Rightarrow> True
      | Some i \<Rightarrow> i = 60 \<or> i = 123 \<or> i = 35 \<and> plural_arg n \<or> i = 125 \<and> 0 < e)"

definition text_bracket :: "config \<Rightarrow> pstate \<Rightarrow> bool" where
  "text_bracket c s \<longleftrightarrow> \<not> isEOF c s \<and> code_point_at (message c) (off s) = Some 60 \<and>
     (ignoreTag c \<or> (\<forall>p. peek c s = Ok p s \<longrightarrow> \<not> is_alpha_or_slash (case p of Some x \<Rightarrow> x | None \<Rightarrow> 0)))"

lemma tryParseUnquoted_safe:
  assumes "ok c s" and "stops c e n s \<Longrightarrow> P None s"
    and "\<And>w t. w \<noteq> [] \<Longrightarrow> ok c t \<Longrightarrow> off s < off t \<Longrightarrow> P (Some w) t"
  shows "safe c P (tryParseUnquoted c e n s)"
proof (cases "isEOF c s")
  case True
  with assms(2) show ?thesis by (simp add: tryParseUnquoted_def stops_def)
next
  case False
  from bump_obtain [OF assms(1) False] obtain u t where
    "char_at c s = Ok u s" "code_point_at (message c) (off s) = Some u"
    "bump c s = Ok () t" "ok c t" "off s < off t" by metis
  with False assms(2,3) cp_string_ne show ?thesis
    by (auto simp: tryParseUnquoted_def stops_def)
qed

lemma tryParseLeftAngleBracket_safe:
  assumes "ok c s" and "\<not> text_bracket c s \<Longrightarrow> P None s"
    and "\<And>w t. w \<noteq> [] \<Longrightarrow> ok c t \<Longrightarrow> off s < off t \<Longrightarrow> P (Some w) t"
  shows "safe c P (tryParseLeftAngleBracket c s)"
proof (cases "isEOF c s")
  case True
  with assms(2) show ?thesis by (simp add: tryParseLeftAngleBracket_def text_bracket_def)
next
  case False
  from bump_obtain [OF assms(1) False] obtain u t where
    b: "char_at c s = Ok u s" "code_point_at (message c) (off s) = Some u"
    "bump c s = Ok () t" "ok c t" "off s < off t" by metis
  from ok_peek [OF assms(1)] obtain p where p: "peek c s = Ok p s" by blast
  show ?thesis
    using False b p assms(2,3) by (auto simp: tryParseLeftAngleBracket_def text_bracket_def)
qed

lemma literal_loop_safe:
  assumes "ok c s" and "\<And>w t. ok c t \<Longrightarrow> off s \<le> off t \<Longrightarrow> P w t"
  shows "safe c P (literal_loop c e n l s)"
  using assms
proof (induction "length (message c) - off s" arbitrary: l s rule: less_induct)
  case less
  have IH: "safe c P (literal_loop c e n w t)" if "ok c t" "off s < off t" for w t
    by (rule less.hyps) (use that less.prems ok_le [OF that(1)] in auto)
  show ?case
    by (subst literal_loop.simps) (use less.prems IH in \<open>auto simp: truthy_def intro!: tryParseQuote_safe
      tryParseUnquoted_safe tryParseLeftAngleBracket_safe\<close>)
qed

definition literal_here :: "config \<Rightarrow> nat \<Rightarrow> string \<Rightarrow> pstate \<Rightarrow> bool" where
  "literal_here c e n s \<longleftrightarrow> \<not> stops c e n s \<or> text_bracket c s"

lemma literal_hereI:
  assumes "code_point_at (message c) (off s) = Some u" and "\<not> isEOF c s" and "u \<noteq> 123"
    and "u = 125 \<longrightarrow> e = 0" and "u = 35 \<longrightarrow> \<not> plural_arg n"
    and "u = 60 \<Longrightarrow> \<not> ignoreTag c \<Longrightarrow>
      \<exists>p. peek c s = Ok p s \<and> p \<noteq> Some 47 \<and> \<not> is_alpha (case p of Some x \<Rightarrow> x | None \<Rightarrow> 0)"
  shows "literal_here c e n s"
  using assms
  by (auto simp: literal_here_def stops_def text_bracket_def is_alpha_or_slash_def split: option.splits)

lemma parseLiteral_safe:
  assumes "ok c s" and here: "literal_here c e n s"
    and "\<And>w t. ok c t \<Longrightarrow> off s < off t \<Longrightarrow> P (Literal w (Some (rt (pos s) (pos t)))) t"
  shows "safe c P (parseLiteral c e n s)"
proof -
  have IH: "safe c (\<lambda>w t. P (Literal w (Some (rt (pos s) (pos t)))) t) (literal_loop c e n w t)"
    if "ok c t" "off s < off t" for w t
    using that assms(3) by (auto intro!: literal_loop_safe)
  show ?thesis
    unfolding parseLiteral_def
    by (subst literal_loop.simps) (use assms(1) here [unfolded literal_here_def] IH in
      \<open>auto simp: truthy_def intro!: tryParseQuote_safe tryParseUnquoted_safe
        tryParseLeftAngleBracket_safe\<close>)
qed

section \<open>Rules for identifiers, styles and integers\<close>

lemma slice_append:
  assumes "i \<le> j" and "j \<le> k"
  shows "slice i j xs @ slice j k xs = slice i k xs"
  using take_add [of "j - i" "k - j" "drop i xs"] assms by (simp add: slice_def)

lemma length_slice: "j \<le> length xs \<Longrightarrow> length (slice i j xs) = j - i"
  by (simp add: slice_def)

lemma cp_len_conv: "(if 65536 \<le> l then 2 else 1) = cp_len l"
  by (simp add: cp_len_def)

text \<open>
  The identifier written back code point by code point is the part of the message it was read
  from, so both branches of the matcher return a part of the message, cut at code points.
\<close>

abbreviation ident_end :: "(int \<Rightarrow> bool) \<Rightarrow> jsstr \<Rightarrow> nat \<Rightarrow> nat" where
  "ident_end stop m n \<equiv> n + sum_list (map cp_len (ident_points stop m n))"

lemma ident_points_walk:
  assumes "n \<le> length m" and "\<not> second_half m n"
  shows "ident_end stop m n \<le> length m \<and> \<not> second_half m (ident_end stop m n) \<and>
    concat (map cp_string (ident_points stop m n)) = slice n (ident_end stop m n) m"
  using assms
proof (induction stop m n rule: ident_points.induct)
  case (1 stop m n)
  show ?case
  proof (cases "\<exists>l. code_point_at m n = Some l \<and> \<not> stop l")
    case False
    then have "ident_points stop m n = []"
      by (auto simp: ident_points.simps [of stop m n] split: option.splits)
    with 1(2,3) show ?thesis by simp
  next
    case True
    then obtain l where l: "code_point_at m n = Some l" "\<not> stop l" by blast
    then have eq: "ident_points stop m n = l # ident_points stop m (n + cp_len l)"
      by (simp add: ident_points.simps [of stop m n] cp_len_conv)
    from 1(1) [OF l, unfolded cp_len_conv] from_code_point_at [OF l(1)] eq show ?thesis
      by (simp add: cp_string_at [OF l(1)] slice_append add.assoc)
  qed
qed

lemma matchIdentifierAtIndex_slice:
  assumes "n \<le> length (message c)" and "\<not> second_half (message c) n"
  shows "\<exists>e. n \<le> e \<and> e \<le> length (message c) \<and> \<not> second_half (message c) e \<and>
    matchIdentifierAtIndex c n = slice n e (message c)"
proof (cases "unicode_regex c")
  case True
  with ident_points_walk [OF assms] show ?thesis
    by (auto simp: matchIdentifierAtIndex_def Let_def intro: le_add1)
next
  case False
  with ident_points_walk [OF assms, of "\<lambda>l. is_white_space l \<or> is_pattern_syntax l"] show ?thesis
    by (auto simp: matchIdentifierAtIndex_def Let_def intro: le_add1)
qed

lemma parseIdentifierIfPossible_safe:
  assumes "ok c s"
    and "\<And>w t. ok c t \<Longrightarrow> off t = off s + length w \<Longrightarrow> P (w, rt (pos s) (pos t)) t"
  shows "safe c P (parseIdentifierIfPossible c s)"
proof -
  from assms(1) obtain e where e: "off s \<le> e" "e \<le> length (message c)"
    "\<not> second_half (message c) e" "matchIdentifierAtIndex c (off s) = slice (off s) e (message c)"
    using matchIdentifierAtIndex_slice [of "off s" c] by (auto simp: pos_ok_def)
  then have "off s + length (matchIdentifierAtIndex c (off s)) = e" by (simp add: length_slice)
  with e assms show ?thesis
    by (auto simp: parseIdentifierIfPossible_def Let_def intro!: bumpTo_safe)
qed

lemma tryParseArgumentClose_safe:
  assumes "ok c s" and "pos_ok c e" and "offset e \<le> off s"
    and "\<And>t. ok c t \<Longrightarrow> off s < off t \<Longrightarrow> P () t"
  shows "safe c P (tryParseArgumentClose c e s)"
  using assms by (auto simp: tryParseArgumentClose_def loc_ok_def
      intro!: char_at_safe bump_safe_strict)

lemma digit_loop_safe:
  assumes "ok c s" and "\<And>w t. ok c t \<Longrightarrow> off s \<le> off t \<Longrightarrow> P w t"
  shows "safe c P (digit_loop c u r s)"
  using assms
proof (induction "length (message c) - off s" arbitrary: u r s rule: less_induct)
  case less
  have IH: "safe c P (digit_loop c w v t)" if "ok c t" "off s < off t" for w v t
    by (rule less.hyps) (use that less.prems ok_le [OF that(1)] in auto)
  show ?case
    by (subst digit_loop.simps)
      (use less.prems IH in \<open>auto intro!: char_at_safe bump_safe_strict\<close>)
qed

lemma tryParseDecimalInteger_safe:
  assumes "ok c s"
    and "\<And>v t. ok c t \<Longrightarrow> off s \<le> off t \<Longrightarrow> \<bar>v\<bar> \<le> 9007199254740991 \<Longrightarrow> P v t"
  shows "safe c P (tryParseDecimalInteger c e n s)"
  unfolding tryParseDecimalInteger_def using assms
  by (auto simp: loc_ok_def Let_def intro!: bumpIf_safe digit_loop_safe)

lemma style_loop_safe:
  assumes "ok c s" and "\<And>w t. ok c t \<Longrightarrow> off s \<le> off t \<Longrightarrow> P w t"
  shows "safe c P (style_loop c n e s)"
  using assms
proof (induction "length (message c) - off s" arbitrary: e s rule: less_induct)
  case less
  have IH: "safe c P (style_loop c n k t)" if "ok c t" "off s < off t" for k t
    by (rule less.hyps) (use that less.prems ok_le [OF that(1)] in auto)
  show ?case
  proof (induction e)
    case 0
    show ?case
      by (subst style_loop.simps) (use less.prems IH in \<open>auto simp: loc_ok_def
        intro!: char_at_safe bump_safe bumpUntil_safe\<close>)
  next
    case (Suc e)
    show ?case
      by (subst style_loop.simps) (use less.prems IH Suc in \<open>auto simp: loc_ok_def
        intro!: char_at_safe bump_safe bumpUntil_safe\<close>)
  qed
qed

section \<open>Well-formed trees\<close>

text \<open>
  \<open>req\<close>: an \<open>other\<close> option is required; \<open>pl\<close>: the element is directly inside a plural option,
  the only place where the parser builds a \<open>Pound\<close>.
\<close>

definition options_complete :: "bool \<Rightarrow> sel_option list \<Rightarrow> bool" where
  "options_complete req os \<longleftrightarrow>
     os \<noteq> [] \<and> distinct (map sel_key os) \<and> (req \<longrightarrow> js ''other'' \<in> set (map sel_key os))"

fun wf_element :: "bool \<Rightarrow> bool \<Rightarrow> element \<Rightarrow> bool"
  and wf_option :: "bool \<Rightarrow> bool \<Rightarrow> sel_option \<Rightarrow> bool"
where
  "wf_element req pl (Literal v l) = True"
| "wf_element req pl (Argument v l) = (v \<noteq> [])"
| "wf_element req pl (NumberEl v l st) = (v \<noteq> [])"
| "wf_element req pl (DateEl v l st) = (v \<noteq> [])"
| "wf_element req pl (TimeEl v l st) = (v \<noteq> [])"
| "wf_element req pl (Select v os l) =
     (v \<noteq> [] \<and> options_complete req os \<and> list_all (wf_option req False) os)"
| "wf_element req pl (Plural v os f ty l) =
     (v \<noteq> [] \<and> options_complete req os \<and> \<bar>f\<bar> \<le> 9007199254740991 \<and> list_all (wf_option req True) os)"
| "wf_element req pl (Pound l) = pl"
| "wf_element req pl (Tag v es l) = list_all (wf_element req pl) es"
| "wf_option req pl (SelOption k es l) = (k \<noteq> [] \<and> list_all (wf_element req pl) es)"

definition located :: "config \<Rightarrow> location option \<Rightarrow> bool" where
  "located c l = (case l of Some l' \<Rightarrow> loc_ok c l' | None \<Rightarrow> False)"

lemma located_Some [simp]: "located c (Some l) = loc_ok c l"
  by (simp add: located_def)

fun located_style :: "config \<Rightarrow> arg_style \<Rightarrow> bool" where
  "located_style c (NumberSkeleton ts l p) = located c l"
| "located_style c (DateTimeSkeleton h l p) = located c l"
| "located_style c st = True"

fun located_element :: "config \<Rightarrow> element \<Rightarrow> bool"
  and located_option :: "config \<Rightarrow> sel_option \<Rightarrow> bool"
where
  "located_element c (Literal v l) = located c l"
| "located_element c (Argument v l) = located c l"
| "located_element c (NumberEl v l st) = (located c l \<and> located_style c st)"
| "located_element c (DateEl v l st) = (located c l \<and> located_style c st)"
| "located_element c (TimeEl v l st) = (located c l \<and> located_style c st)"
| "located_element c (Select v os l) = (located c l \<and> list_all (located_option c) os)"
| "located_element c (Plural v os f ty l) = (located c l \<and> list_all (located_option c) os)"
| "located_element c (Pound l) = located c l"
| "located_element c (Tag v es l) = (located c l \<and> list_all (located_element c) es)"
| "located_option c (SelOption k es l) = (located c l \<and> list_all (located_element c) es)"

definition good :: "config \<Rightarrow> bool \<Rightarrow> element \<Rightarrow> bool" where
  "good c pl x \<longleftrightarrow> wf_element (requiresOtherClause c) pl x \<and> located_element c x"

definition good_option :: "config \<Rightarrow> bool \<Rightarrow> sel_option \<Rightarrow> bool" where
  "good_option c pl x \<longleftrightarrow> wf_option (requiresOtherClause c) pl x \<and> located_option c x"

lemma list_all_conj: "list_all P xs \<and> list_all Q xs \<longleftrightarrow> list_all (\<lambda>x. P x \<and> Q x) xs"
  by (auto simp: list_all_iff)

lemma good_simps [simp]:
  "good c pl (Literal v l) = located c l"
  "good c pl (Argument v l) = (v \<noteq> [] \<and> located c l)"
  "good c pl (NumberEl v l st) = (v \<noteq> [] \<and> located c l \<and> located_style c st)"
  "good c pl (DateEl v l st) = (v \<noteq> [] \<and> located c l \<and> located_style c st)"
  "good c pl (TimeEl v l st) = (v \<noteq> [] \<and> located c l \<and> located_style c st)"
  "good c pl (Select v os l) = (v \<noteq> [] \<and> options_complete (requiresOtherClause c) os \<and>
     located c l \<and> list_all (good_option c False) os)"
  "good c pl (Plural v os f ty l) = (v \<noteq> [] \<and> options_complete (requiresOtherClause c) os \<and>
     \<bar>f\<bar> \<le> 9007199254740991 \<and> located c l \<and> list_all (good_option c True) os)"
  "good c pl (Pound l) = (pl \<and> located c l)"
  "good c pl (Tag v es l) = (located c l \<and> list_all (good c pl) es)"
  "good_option c pl (SelOption k es l) = (k \<noteq> [] \<and> located c l \<and> list_all (good c pl) es)"
  by (auto simp: good_def good_option_def [abs_def] list_all_iff)

section \<open>Arguments with a simple style\<close>

lemma parse_arg_style_safe:
  assumes "ok c s"
    and "\<And>st t. ok c t \<Longrightarrow> off s \<le> off t \<Longrightarrow> (\<forall>m l. st = Some (m, l) \<longrightarrow> loc_ok c l) \<Longrightarrow> P st t"
  shows "safe c P (parse_arg_style c s)"
  unfolding parse_arg_style_def parseSimpleArgStyleIfPossible_def using assms
  by (auto simp: Let_def loc_ok_def intro!: bumpSpace_safe bumpIf_safe style_loop_safe)

lemma parseNumberSkeletonFromString_safe:
  assumes "ok c s" and "loc_ok c l" and "\<And>st t. pos t = pos s \<Longrightarrow> located_style c st \<Longrightarrow> P st t"
  shows "safe c P (parseNumberSkeletonFromString c e l s)"
  using assms by (auto simp: parseNumberSkeletonFromString_def split: sum.splits prod.splits)

lemma date_time_style_safe:
  assumes "ok c s" and "loc_ok c l" and "\<And>st. located_style c st \<Longrightarrow> P st s"
  shows "safe c P (date_time_style c e l s)"
  using assms by (auto simp: date_time_style_def split: sum.splits option.splits)

lemma parse_simple_argument_safe:
  assumes "ok c s" and "pos_ok c l" and "offset l \<le> off s" and "i \<noteq> []"
    and "\<And>x t. ok c t \<Longrightarrow> off s \<le> off t \<Longrightarrow> \<forall>pl. good c pl x \<Longrightarrow> P x t"
  shows "safe c P (parse_simple_argument c o' i l s)"
  unfolding parse_simple_argument_def using assms
  by (auto simp: Let_def loc_ok_def simple_element_def split: option.splits prod.splits
      intro!: parse_arg_style_safe tryParseArgumentClose_safe parseNumberSkeletonFromString_safe
        date_time_style_safe)

section \<open>The contract of the recursive methods\<close>

lemma fuel_progress:
  assumes "2 * (length (message c) - off s) + 1 \<le> k" and "off s < off t" and "ok c t"
  shows "2 * (length (message c) - off t) + 2 \<le> k"
  using assms ok_le [OF assms(3)] by linarith

lemma fuel_after:
  assumes "2 * (length (message c) - off s) + 1 \<le> Suc k" and "off s < off t" and "ok c t"
  shows "2 * (length (message c) - off t) + 1 \<le> k"
  using assms ok_le [OF assms(3)] by linarith

lemma next_selector_safe:
  assumes "ok c s" and "loc_ok c h"
    and "\<And>t. \<lbrakk>ok c t; off s \<le> off t\<rbrakk> \<Longrightarrow> P None t"
    and "\<And>g l t. \<lbrakk>ok c t; off s \<le> off t; loc_ok c l; g \<noteq> []\<rbrakk> \<Longrightarrow> P (Some (g, l)) t"
  shows "safe c P (next_selector c n sel h s)"
proof -
  have ne: "slice (off s) (off t) (message c) \<noteq> []" if "ok c t" "off s < off t" for t
    using that ok_le [OF that(1)] by (simp add: slice_def)
  show ?thesis
    unfolding next_selector_def using assms ne
    by (auto intro!: bumpIf_safe tryParseDecimalInteger_safe simp: loc_ok_def)
qed

text \<open>
  What each method promises its callers when \<open>k\<close> units of fuel are left. The fuel a call needs is
  twice the number of units ahead of it.
\<close>

lemma parse_plural_offset_safe:
  assumes "ok c s" and "loc_ok c h"
    and "\<And>g l v t. \<lbrakk>ok c t; off s \<le> off t; loc_ok c l; \<bar>v\<bar> \<le> 9007199254740991\<rbrakk> \<Longrightarrow> P (g, l, v) t"
  shows "safe c P (parse_plural_offset c ty g h s)"
  unfolding parse_plural_offset_def using assms
  by (auto intro!: bumpIf_safe bumpSpace_safe tryParseDecimalInteger_safe parseIdentifierIfPossible_safe
      simp: loc_ok_def simp del: js_Cons)

locale parser_callees =
  fixes this :: methods
    and c :: config
    and k :: nat
  assumes message:
      "\<lbrakk>ok c s; 2 * (length (message c) - off s) + 2 \<le> k; list_all (good c (plural_arg n)) l;
        \<And>x t. \<lbrakk>ok c t; off s \<le> off t; list_all (good c (plural_arg n)) x\<rbrakk> \<Longrightarrow> P x t\<rbrakk>
       \<Longrightarrow> safe c P (m_message this e n i l s)"
    and tag:
      "\<lbrakk>ok c s; \<not> isEOF c s; 2 * (length (message c) - off s) + 1 \<le> k;
        \<And>x t. \<lbrakk>ok c t; off s < off t; good c (plural_arg n) x\<rbrakk> \<Longrightarrow> Q x t\<rbrakk>
       \<Longrightarrow> safe c Q (m_tag this e n s)"
    and argument:
      "\<lbrakk>ok c s; \<not> isEOF c s; 2 * (length (message c) - off s) + 1 \<le> k;
        \<And>x t. \<lbrakk>ok c t; off s < off t; \<forall>pl. good c pl x\<rbrakk> \<Longrightarrow> Q x t\<rbrakk>
       \<Longrightarrow> safe c Q (m_argument this e i s)"
    and options:
      "\<lbrakk>ok c s; pos_ok c b; offset b \<le> off s; v \<noteq> []; 2 * (length (message c) - off s) + 1 \<le> k;
        \<And>x t. \<lbrakk>ok c t; off s \<le> off t; \<forall>pl. good c pl x\<rbrakk> \<Longrightarrow> Q x t\<rbrakk>
       \<Longrightarrow> safe c Q (m_options this e i v b s)"
    and select:
      "\<lbrakk>ok c s; 2 * (length (message c) - off s) + 1 \<le> k;
        list_all (good_option c (plural_arg n)) os; seen = map sel_key os; distinct seen;
        r \<longleftrightarrow> js ''other'' \<in> set seen; loc_ok c h;
        \<And>x t. \<lbrakk>ok c t; off s \<le> off t; list_all (good_option c (plural_arg n)) x;
                options_complete (requiresOtherClause c) x\<rbrakk> \<Longrightarrow> R x t\<rbrakk>
       \<Longrightarrow> safe c R (m_select this e n i r os seen sel h s)"
begin

lemma parseMessage_safe:
  assumes "ok c s" and "2 * (length (message c) - off s) + 2 \<le> Suc k"
    and "list_all (good c (plural_arg n)) l"
    and "\<And>x t. \<lbrakk>ok c t; off s \<le> off t; list_all (good c (plural_arg n)) x\<rbrakk> \<Longrightarrow> P x t"
  shows "safe c P (parseMessage this c e n i l s)"
proof -
  have k: "2 * (length (message c) - off s) + 1 \<le> k" using assms(2) by simp
  have next_round: "safe c P (m_message this e' n i' (l @ [x]) t)"
    if "ok c t" "off s < off t" "good c (plural_arg n) x" for x t e' i'
    using that assms(3,4) fuel_progress [OF k that(2,1)] by (intro message) auto
  show ?thesis
    unfolding parseMessage_def
    using assms(1,3,4) k
    by (auto intro!: char_at_safe argument tag bump_safe_strict peek_safe parseLiteral_safe next_round
        intro: literal_hereI simp: loc_ok_def)
qed

lemma parseTag_safe:
  assumes "ok c s" and "\<not> isEOF c s" and k: "2 * (length (message c) - off s) + 1 \<le> Suc k"
    and "\<And>x t. \<lbrakk>ok c t; off s < off t; good c (plural_arg n) x\<rbrakk> \<Longrightarrow> Q x t"
  shows "safe c Q (parseTag this c e n s)"
proof -
  have children: "safe c P (m_message this e' n True [] t)"
    if "ok c t" "off s < off t1" "off t1 < off t"
      "\<And>x u. \<lbrakk>ok c u; off t \<le> off u; list_all (good c (plural_arg n)) x\<rbrakk> \<Longrightarrow> P x u" for t t1 P e'
    by (rule message) (use that k ok_le [OF that(1)] in auto)
  show ?thesis
    unfolding parseTag_def using assms(1,2,4)
    by (auto intro!: bump_safe_strict parseTagName_safe bumpSpace_safe bumpIf_safe children char_at_safe
        simp: loc_ok_def)
qed

lemma parseArgument_safe:
  assumes "ok c s" and "\<not> isEOF c s" and k: "2 * (length (message c) - off s) + 1 \<le> Suc k"
    and "\<And>x t. \<lbrakk>ok c t; off s < off t; \<forall>pl. good c pl x\<rbrakk> \<Longrightarrow> Q x t"
  shows "safe c Q (parseArgument this c e i s)"
proof -
  have opts: "safe c P (m_options this e' i' v (pos s) t)"
    if "ok c t" "off s < off t" "v \<noteq> []"
      "\<And>x u. \<lbrakk>ok c u; off t \<le> off u; \<forall>pl. good c pl x\<rbrakk> \<Longrightarrow> P x u" for t P e' i' v
    by (rule options) (use that k assms(1) fuel_after [OF k that(2,1)] in auto)
  show ?thesis
    unfolding parseArgument_def using assms(1,2,4)
    by (auto intro!: bump_safe_strict bumpSpace_safe parseIdentifierIfPossible_safe char_at_safe opts
        simp: loc_ok_def)
qed

lemma parse_select_argument_safe:
  assumes "ok c s" and b: "pos_ok c b" "offset b \<le> off s" and v: "v \<noteq> []"
    and k: "2 * (length (message c) - off s) + 1 \<le> Suc k"
    and "\<And>x t. \<lbrakk>ok c t; off s \<le> off t; \<forall>pl. good c pl x\<rbrakk> \<Longrightarrow> Q x t"
    and ty: "plural_arg ty \<longleftrightarrow> ty \<noteq> ''select''"
  shows "safe c Q (parse_select_argument this c e i ty v b s)"
proof -
  have sel: "safe c R (m_select this e' ty i' False [] [] g h t)"
    if "ok c t" "off s < off t" "loc_ok c h"
      "\<And>x u. \<lbrakk>ok c u; off t \<le> off u; list_all (good_option c (plural_arg ty)) x;
          options_complete (requiresOtherClause c) x\<rbrakk> \<Longrightarrow> R x u" for t R e' i' g h
    by (rule select) (use that fuel_after [OF k that(2,1)] in auto)
  have el: "\<forall>pl. good c pl (select_element ty v y P (Some (rt b (pos t))))"
    if "ok c t" "off s \<le> off t" "list_all (good_option c (plural_arg ty)) y"
      "options_complete (requiresOtherClause c) y" "\<bar>P\<bar> \<le> 9007199254740991" for y P t
    using that b v ty by (auto simp: select_element_def loc_ok_def)
  show ?thesis
    unfolding parse_select_argument_def using assms(1,6) b el
    by (auto intro!: bumpSpace_safe bumpIf_safe parse_plural_offset_safe parseIdentifierIfPossible_safe
        tryParseArgumentClose_safe sel simp: loc_ok_def)
qed

lemma parseArgumentOptions_safe:
  assumes "ok c s" and b: "pos_ok c b" "offset b \<le> off s" and v: "v \<noteq> []"
    and k: "2 * (length (message c) - off s) + 1 \<le> Suc k"
    and "\<And>x t. \<lbrakk>ok c t; off s \<le> off t; \<forall>pl. good c pl x\<rbrakk> \<Longrightarrow> Q x t"
  shows "safe c Q (parseArgumentOptions this c e i v b s)"
proof -
  have k': "2 * (length (message c) - off t) + 1 \<le> Suc k" if "off s \<le> off t" for t
    using that k by linarith
  show ?thesis
    unfolding parseArgumentOptions_def using assms(1,6) b v
    by (auto intro!: parseIdentifierIfPossible_safe parse_simple_argument_safe parse_select_argument_safe k'
        simp: loc_ok_def plural_arg_def simp del: js_Cons)
qed

lemma tryParsePluralOrSelectOptions_safe:
  assumes "ok c s" and k: "2 * (length (message c) - off s) + 1 \<le> Suc k"
    and os: "list_all (good_option c (plural_arg n)) os" "seen = map sel_key os" "distinct seen"
      "r \<longleftrightarrow> js ''other'' \<in> set seen"
    and h: "loc_ok c h"
    and "\<And>x t. \<lbrakk>ok c t; off s \<le> off t; list_all (good_option c (plural_arg n)) x;
                options_complete (requiresOtherClause c) x\<rbrakk> \<Longrightarrow> R x t"
  shows "safe c R (tryParsePluralOrSelectOptions this c e n i r os seen sel h s)"
proof -
  have msg: "safe c P (m_message this e' n i' [] t)"
    if "ok c t" "off s < off t"
      "\<And>x u. \<lbrakk>ok c u; off t \<le> off u; list_all (good c (plural_arg n)) x\<rbrakk> \<Longrightarrow> P x u" for t P e' i'
    by (rule message) (use that k ok_le [OF that(1)] in auto)
  have next_round: "safe c R (m_select this e n i r' (os @ [p]) (seen @ [sel_key p]) u h' t)"
    if "ok c t" "off s < off t" "good_option c (plural_arg n) p" "loc_ok c h'"
      "sel_key p \<notin> set seen" "r' \<longleftrightarrow> r \<or> sel_key p = js ''other''" for t r' p h' u
    by (rule select) (use that os assms(8) fuel_after [OF k that(2,1)] in auto)
  have opt: "safe c P (parse_option this c e n i sel' t)"
    if "ok c t" "off s \<le> off t" "sel' \<noteq> []"
      "\<And>p u. \<lbrakk>ok c u; off t < off u; good_option c (plural_arg n) p; sel_key p = sel'\<rbrakk> \<Longrightarrow> P p u"
    for t P sel'
    unfolding parse_option_def using that
    by (auto intro!: bumpSpace_safe bumpIf_safe msg tryParseArgumentClose_safe simp: loc_ok_def
        split del: if_split)
  have finish: "safe c R (finish_options c n r os t)" if "ok c t" "off s \<le> off t" for t
    unfolding finish_options_def using that os assms(8)
    by (auto simp: loc_ok_def options_complete_def simp del: js_Cons)
  have round: "safe c R (obind (parse_option this c e n i g t) (\<lambda>p s.
      obind (bumpSpace c s) (\<lambda>_ s. obind (parseIdentifierIfPossible c s) (\<lambda>(u, ul) s.
        m_select this e n i (r \<or> g = js ''other'') (os @ [p]) (seen @ [g]) u ul s))))"
    if "ok c t" "off s \<le> off t" "g \<noteq> []" "g \<notin> set seen" for t g
    using that next_round
    by (auto intro!: opt bumpSpace_safe parseIdentifierIfPossible_safe simp: loc_ok_def simp del: js_Cons)
  show ?thesis
    unfolding tryParsePluralOrSelectOptions_def safe_simps(4)
    by (rule next_selector_safe [OF assms(1) h])
      (use finish round in \<open>auto simp del: safe_simps(4) js_Cons\<close>)
qed

lemma callees_Suc:
  "parser_callees
     \<lparr>m_message = parseMessage this c, m_tag = parseTag this c, m_argument = parseArgument this c,
      m_options = parseArgumentOptions this c, m_select = tryParsePluralOrSelectOptions this c\<rparr>
     c (Suc k)"
  by unfold_locales
    (simp_all add: parseMessage_safe parseTag_safe parseArgument_safe parseArgumentOptions_safe
      tryParsePluralOrSelectOptions_safe)

end

lemma parser_methods_callees: "parser_callees (parser_methods c k) c k"
proof (induction k)
  case 0
  show ?case by unfold_locales simp_all
next
  case (Suc k)
  from parser_callees.callees_Suc [OF this] show ?case by simp
qed

interpretation parser: parser_callees "parser_methods c k" c k for c k
  by (rule parser_methods_callees)

lemma parser_init_ok: "ok c (parser_init li)"
  by (simp add: parser_init_def pos_ok_def spec_pos_def second_half_def)

lemma parse_safe: "safe c (\<lambda>x t. list_all (good c False) x) (parse c (parser_init li))"
proof -
  have off: "off (parser_init li) = 0" by (simp add: parser_init_def)
  have "safe c (\<lambda>x t. list_all (good c (plural_arg [])) x)
      (m_message (parser_methods c (parse_fuel c)) 0 [] False [] (parser_init li))"
    using parser_init_ok by (intro parser.message) (simp_all add: off parse_fuel_def)
  then show ?thesis by (simp add: parse_def off run_message_def plural_arg_def)
qed

section \<open>Locations removed\<close>

lemma prune_keys [simp]: "map sel_key (map prune_option os) = map sel_key os"
proof -
  have "sel_key (prune_option p) = sel_key p" for p by (cases p) simp
  then show ?thesis by simp
qed

lemma prune_options_complete [simp]:
  "options_complete req (map prune_option os) = options_complete req os"
  using prune_keys [of os] by (simp add: options_complete_def del: map_map prune_keys)

lemma wf_prune:
  "wf_element req pl (prune_element x) = wf_element req pl x"
  "wf_option req pl (prune_option p) = wf_option req pl p"
  by (induction req pl x and req pl p rule: wf_element_wf_option.induct)
    (auto simp: list_all_iff)

lemma parseMessageText_cases:
  "(\<exists>v. fst (parseMessageText cap c li) = Inr v \<and> list_all (wf_element (requiresOtherClause c) False) v) \<or>
   (\<exists>k l. fst (parseMessageText cap c li) = Inl (SyntaxErr k l) \<and> loc_ok c l) \<or>
   (\<exists>j. fst (parseMessageText cap c li) = Inl (SkeletonError j))"
proof -
  have "list_all (wf_element r p) (if cap then v else pruneLocation v) = list_all (wf_element r p) v" for r p v
    by (simp add: pruneLocation_def list_all_iff wf_prune)
  with parse_safe [of c li] show ?thesis
    by (auto simp: parseMessageText_def safe_def good_def list_all_iff split: outcome.splits)
qed

section \<open>Text\<close>

lemma code_point_unit:
  assumes "code_point_at m i = Some u" and "u < 65536"
  shows "u = uint (m ! i)"
  using code_point_at_room [OF assms(1)] assms
  by (cases rule: code_point_at_cases) auto

lemma code_point_numeral:
  assumes "code_point_at m i = Some (numeral k)" and "(numeral k :: int) < 65536"
  shows "m ! i = numeral k"
proof -
  have "word_of_int (uint (m ! i)) = (word_of_int (numeral k) :: code_unit)"
    using code_point_unit [OF assms] by (simp only:)
  then show ?thesis by simp
qed

lemma code_point_special:
  assumes "code_point_at m i = Some (numeral k)" and "(numeral k :: int) < 65536"
  shows "numeral k \<in> set m"
  using code_point_numeral [OF assms] code_point_at_room [OF assms(1)] by (metis nth_mem)

lemma text_parse:
  assumes "literal_loop c 0 [] [] (parser_init li) = Ok w t" and "isEOF c t" and "message c \<noteq> []"
    and "code_point_at (message c) 0 = Some u" and "u \<noteq> 60" and "u \<noteq> 123"
  shows "\<exists>l. parse c (parser_init li) = Ok [Literal w (Some l)] t"
proof -
  define s where "s = parser_init li"
  have s: "ok c s" "off s = 0" using parser_init_ok by (auto simp: s_def parser_init_def)
  then have nE: "\<not> isEOF c s" using assms(3) by (simp add: isEOF_def)
  have u: "char_at c s = Ok u s" using ok_char_at [OF s(1) nE] assms(4) s(2) by auto
  have "\<exists>k. parse_fuel c = Suc (Suc k)" by (simp add: parse_fuel_def)
  then obtain k where "parse_fuel c = Suc (Suc k)" ..
  with u nE s assms show ?thesis
    unfolding s_def [symmetric]
    by (simp add: parse_def run_message_def parseMessage_def parseLiteral_def plural_arg_def)
qed

lemma message_head:
  fixes c :: config
  assumes "message c \<noteq> []"
  obtains u where "code_point_at (message c) 0 = Some u"
  using ok_char_at [OF parser_init_ok [of c 0]] assms that
  by (auto simp: parser_init_def isEOF_def)

section \<open>Quoted text\<close>

text \<open>
  A text as a message: apostrophes doubled, and everything from the first brace or bracket on in
  one quotation.
\<close>

definition doubled :: "jsstr \<Rightarrow> jsstr" where
  "doubled w = concat (map (\<lambda>u. if u = 39 then [39, 39] else [u]) w)"

definition syntax_unit :: "code_unit \<Rightarrow> bool" where
  "syntax_unit u \<longleftrightarrow> u = 123 \<or> u = 60"

definition escape :: "jsstr \<Rightarrow> jsstr" where
  "escape w =
     (let a = takeWhile (\<lambda>u. \<not> syntax_unit u) w; b = dropWhile (\<lambda>u. \<not> syntax_unit u) w
      in doubled a @ (if b = [] then [] else 39 # doubled b @ [39]))"

lemma doubled_simps [simp]:
  "doubled [] = []"
  "doubled (u # w) = (if u = 39 then [39, 39] else [u]) @ doubled w"
  by (simp_all add: doubled_def)

lemma code_point_at_drop: "code_point_at (drop i m) 0 = code_point_at m i" if "i \<le> length m"
  using that by (auto simp: code_point_at_def Let_def hd_drop_conv_nth [symmetric] less_diff_conv)

lemma code_point_at_doubled:
  assumes "u \<noteq> 39" and "x = [] \<or> hd x = 39"
  shows "code_point_at (doubled (u # w) @ x) 0 = code_point_at (u # w) 0"
  using assms by (cases w; cases x) (auto simp: code_point_at_def Let_def)

lemma drop_cp_len_doubled:
  assumes "u \<noteq> 39" and "code_point_at (u # w) 0 = Some r"
  shows "drop (cp_len r) (doubled (u # w) @ x) = doubled (drop (cp_len r) (u # w)) @ x"
    and "cp_string r = take (cp_len r) (u # w)"
proof -
  show "cp_string r = take (cp_len r) (u # w)"
    using cp_string_at [OF assms(2)] by (simp add: slice_def)
  show "drop (cp_len r) (doubled (u # w) @ x) = doubled (drop (cp_len r) (u # w)) @ x"
  proof (cases "65536 \<le> r")
    case True
    with code_point_pair [OF assms(2)] obtain v w' where "w = v # w'" "low_unit v"
      by (cases w) (auto simp: second_half_def)
    with True assms(1) show ?thesis by (auto simp: cp_len_def low_unit_def)
  next
    case False
    with assms(1) show ?thesis by (simp add: cp_len_def)
  qed
qed

lemma at_suffix:
  assumes "ok c s" and "drop (off s) (message c) = y" and "y \<noteq> []"
  shows "\<exists>u t. char_at c s = Ok u s \<and> code_point_at y 0 = Some u \<and> bump c s = Ok () t \<and> ok c t \<and>
    drop (off t) (message c) = drop (cp_len u) y \<and> \<not> isEOF c s \<and> off s < off t \<and>
    peek c s = Ok (if cp_len u < length y then Some (uint (y ! cp_len u)) else None) s"
proof -
  have nE: "\<not> isEOF c s" using assms(2,3) by (auto simp: isEOF_def)
  from bump_obtain [OF assms(1) nE] obtain u t where
    b: "char_at c s = Ok u s" "code_point_at (message c) (off s) = Some u" "bump c s = Ok () t"
    "ok c t" "off s < off t" "off t = off s + cp_len u" by metis
  have "drop (off t) (message c) = drop (cp_len u) y" using b(6) assms(2) by (auto simp: add.commute)
  moreover have "code_point_at y 0 = Some u"
    using b(2) code_point_at_drop [OF ok_le [OF assms(1)]] assms(2) by simp
  moreover have "peek c s = Ok (if cp_len u < length y then Some (uint (y ! cp_len u)) else None) s"
    using nE b(1) assms(2) ok_le [OF assms(1)] by (auto simp: peek_def Let_def cp_len_conv [symmetric])
  ultimately show ?thesis using b nE by blast
qed

lemma code_point_quote: "code_point_at (39 # y) 0 = Some 39"
  by (simp add: code_point_at_def Let_def)

lemma code_point_not_quote: "u \<noteq> 39 \<Longrightarrow> code_point_at (u # w) 0 = Some r \<Longrightarrow> r \<noteq> 39"
  using code_point_numeral [of "u # w" 0] by auto

lemma quote_loop_doubled:
  assumes "ok c s" and "drop (off s) (message c) = doubled b @ [39]"
  shows "\<exists>ps t. quote_loop c n s = Ok (n @ ps) t \<and> concat (map cp_string ps) = b \<and> isEOF c t \<and> ok c t"
  using assms
proof (induction b arbitrary: n s rule: length_induct)
  case (1 b)
  show ?case
  proof (cases b)
    case Nil
    from at_suffix [OF 1(2,3)] Nil code_point_quote [of "[]"] obtain t where
      "char_at c s = Ok 39 s" "bump c s = Ok () t" "ok c t" "drop (off t) (message c) = []"
      "\<not> isEOF c s" "peek c s = Ok None s" by (auto simp: cp_len_def)
    with Nil show ?thesis
      by (subst quote_loop.simps) (auto simp: isEOF_def pos_ok_def)
  next
    case (Cons v w)
    show ?thesis
    proof (cases "v = 39")
      case True
      from at_suffix [OF 1(2,3)] Cons True code_point_quote [of "39 # doubled w @ [39]"] obtain t where
        t: "char_at c s = Ok 39 s" "bump c s = Ok () t" "ok c t"
        "drop (off t) (message c) = 39 # doubled w @ [39]" "\<not> isEOF c s" "peek c s = Ok (Some 39) s"
        by (auto simp: cp_len_def)
      from at_suffix [OF t(3,4)] code_point_quote obtain t' where
        t': "bump c t = Ok () t'" "ok c t'" "drop (off t') (message c) = doubled w @ [39]"
        by (auto simp: cp_len_def)
      from 1(1) Cons t'(2,3) obtain ps t2 where
        "quote_loop c (n @ [39]) t' = Ok (n @ [39] @ ps) t2" "concat (map cp_string ps) = w" "isEOF c t2" "ok c t2"
        by (metis append.assoc length_Cons lessI)
      with t t' show ?thesis
        by (subst quote_loop.simps)
          (auto simp: Cons True cp_string_def from_code_point_def intro!: exI [of _ "39 # ps"])
    next
      case False
      define y where "y = doubled b @ [39]"
      have "code_point_at y 0 = code_point_at (v # w) 0"
        using code_point_at_doubled [OF False, of "[39]" w] by (simp add: y_def Cons)
      with at_suffix [OF 1(2,3)] Cons obtain r t where
        t: "char_at c s = Ok r s" "bump c s = Ok () t" "ok c t" "code_point_at (v # w) 0 = Some r"
        "drop (off t) (message c) = drop (cp_len r) (doubled b @ [39])" "\<not> isEOF c s"
        unfolding y_def by auto
      note d = drop_cp_len_doubled(1) [OF False t(4), of "[39]", folded Cons]
        drop_cp_len_doubled(2) [OF False t(4), folded Cons]
      have "length (drop (cp_len r) b) < length b" using Cons by (simp add: cp_len_def)
      with 1(1) t(3,5) d(1) obtain ps t2 where
        "quote_loop c (n @ [r]) t = Ok (n @ [r] @ ps) t2" "concat (map cp_string ps) = drop (cp_len r) b"
        "isEOF c t2" "ok c t2" by (metis append.assoc)
      with t code_point_not_quote [OF False t(4)] d(2) show ?thesis
        by (subst quote_loop.simps) (auto intro!: exI [of _ "r # ps"])
    qed
  qed
qed

lemma literal_loop_doubled:
  assumes "ok c s" and "drop (off s) (message c) = doubled a @ x" and "x = [] \<or> hd x = 39"
    and "\<forall>u \<in> set a. \<not> syntax_unit u"
  shows "\<exists>t. literal_loop c 0 [] l s = literal_loop c 0 [] (l @ a) t \<and> ok c t \<and>
    drop (off t) (message c) = x"
  using assms(1,2,4)
proof (induction a arbitrary: l s rule: length_induct)
  case (1 a)
  show ?case
  proof (cases a)
    case Nil
    with 1(2,3) show ?thesis by auto
  next
    case (Cons v w)
    show ?thesis
    proof (cases "v = 39")
      case True
      from at_suffix [OF 1(2,3)] Cons True code_point_quote [of "39 # doubled w @ x"] obtain t where
        t: "char_at c s = Ok 39 s" "bump c s = Ok () t" "ok c t"
        "drop (off t) (message c) = 39 # doubled w @ x" "\<not> isEOF c s" "peek c s = Ok (Some 39) s"
        by (auto simp: cp_len_def)
      from at_suffix [OF t(3,4)] code_point_quote obtain t' where
        t': "bump c t = Ok () t'" "ok c t'" "drop (off t') (message c) = doubled w @ x"
        by (auto simp: cp_len_def)
      from t t' have "literal_loop c 0 [] l s = literal_loop c 0 [] (l @ [39]) t'"
        by (subst literal_loop.simps) (simp add: tryParseQuote_def truthy_def)
      with 1(1) [rule_format, of w t' "l @ [39]"] t' 1(4) Cons True show ?thesis by simp
    next
      case False
      have cp: "code_point_at (doubled a @ x) 0 = code_point_at (v # w) 0"
        using code_point_at_doubled [OF False assms(3), of w] by (simp add: Cons)
      have "doubled a @ x \<noteq> []" by (simp add: Cons)
      from at_suffix [OF 1(2,3) this, unfolded cp] obtain r t where
        t: "char_at c s = Ok r s" "bump c s = Ok () t" "ok c t" "code_point_at (v # w) 0 = Some r"
        "drop (off t) (message c) = drop (cp_len r) (doubled a @ x)" "\<not> isEOF c s" by blast
      note d = drop_cp_len_doubled(1) [OF False t(4), of x, folded Cons]
        drop_cp_len_doubled(2) [OF False t(4), folded Cons]
      have r: "r \<noteq> 39" "r \<noteq> 60" "r \<noteq> 123"
        using code_point_numeral [of "v # w" 0] t(4) False 1(4) Cons by (auto simp: syntax_unit_def)
      have "literal_loop c 0 [] l s = literal_loop c 0 [] (l @ cp_string r) t"
        using t r cp_string_ne [OF t(4)]
        by (subst literal_loop.simps)
          (simp add: tryParseQuote_def tryParseUnquoted_def truthy_def plural_arg_def)
      moreover have "length (drop (cp_len r) a) < length a" using Cons by (simp add: cp_len_def)
      with 1(1) [rule_format, of "drop (cp_len r) a" t "l @ cp_string r"] t(3,5) d 1(4)
      obtain t2 where "literal_loop c 0 [] (l @ cp_string r) t = literal_loop c 0 [] (l @ a) t2"
        "ok c t2" "drop (off t2) (message c) = x" by (auto dest: in_set_dropD)
      ultimately show ?thesis by auto
    qed
  qed
qed

lemma literal_loop_EOF: "isEOF c s \<Longrightarrow> literal_loop c e n l s = Ok l s"
  by (subst literal_loop.simps)
    (simp add: tryParseQuote_def tryParseUnquoted_def tryParseLeftAngleBracket_def truthy_def)

lemma literal_loop_quoted:
  assumes "ok c s" and "drop (off s) (message c) = 39 # doubled b @ [39]" and "b \<noteq> []"
    and "syntax_unit (hd b)"
  shows "\<exists>t. literal_loop c 0 [] l s = Ok (l @ b) t \<and> isEOF c t"
proof -
  obtain v w where b: "b = v # w" and v: "v \<noteq> 39" "uint v = 123 \<or> uint v = 60"
    using assms(3,4) by (cases b) (auto simp: syntax_unit_def)
  from at_suffix [OF assms(1,2)] code_point_quote v obtain t where
    t: "char_at c s = Ok 39 s" "bump c s = Ok () t" "ok c t" "drop (off t) (message c) = doubled b @ [39]"
    "\<not> isEOF c s" "peek c s = Ok (Some (uint v)) s" by (auto simp: cp_len_def b)
  have cv: "code_point_at (v # y) 0 = Some (uint v)" for y
    using v(2) by (auto simp: code_point_at_def Let_def)
  from at_suffix [OF t(3,4)] v cv obtain t' where
    t': "char_at c t = Ok (uint v) t" "bump c t = Ok () t'" "ok c t'"
    "drop (off t') (message c) = doubled w @ [39]" by (auto simp: b cp_len_def)
  from quote_loop_doubled [OF t'(3,4), of "[uint v]"] obtain ps t2 where
    q: "quote_loop c [uint v] t' = Ok (uint v # ps) t2" "concat (map cp_string ps) = w" "isEOF c t2"
    by auto
  have "tryParseQuote c [] s = Ok (Some b) t2"
    using t t' q v cp_string_at [OF cv, of "[]"]
    by (auto simp: tryParseQuote_def b slice_def cp_len_def)
  then have "literal_loop c 0 [] l s = Ok (l @ b) t2"
    using literal_loop_EOF [OF q(3)] b by (subst literal_loop.simps) (simp add: truthy_def)
  with q(3) show ?thesis by blast
qed

lemma escape_literal_loop:
  assumes "message c = escape w" and "ok c s" and "off s = 0"
  shows "\<exists>t. literal_loop c 0 [] [] s = Ok w t \<and> isEOF c t"
proof -
  define a b where "a = takeWhile (\<lambda>u. \<not> syntax_unit u) w" and "b = dropWhile (\<lambda>u. \<not> syntax_unit u) w"
  define x where "x = (if b = [] then [] else 39 # doubled b @ [39])"
  have m: "drop (off s) (message c) = doubled a @ x"
    using assms by (simp add: escape_def a_def b_def x_def Let_def)
  have na: "\<forall>u \<in> set a. \<not> syntax_unit u" by (auto simp: a_def dest: set_takeWhileD)
  have x: "x = [] \<or> hd x = 39" by (simp add: x_def)
  have ab: "a @ b = w" by (simp add: a_def b_def)
  obtain t where t: "literal_loop c 0 [] [] s = literal_loop c 0 [] a t" "ok c t"
    "drop (off t) (message c) = x"
    using literal_loop_doubled [OF assms(2) m x na, of "[]"] by auto
  show ?thesis
  proof (cases "b = []")
    case True
    with t have "isEOF c t" using ok_le [OF t(2)] by (simp add: x_def isEOF_def)
    with t True ab literal_loop_EOF show ?thesis by auto
  next
    case False
    then have "syntax_unit (hd b)" using hd_dropWhile [of "\<lambda>u. \<not> syntax_unit u" w] by (simp add: b_def)
    from literal_loop_quoted [OF t(2) _ False this, of a] t False ab show ?thesis by (auto simp: x_def)
  qed
qed

lemma escaped_text_parses:
  assumes "w \<noteq> []" and "message c = escape w"
  shows "fst (parseMessageText False c li) = Inr [Literal w None]"
proof -
  have ne: "message c \<noteq> []"
    using assms by (cases w) (auto simp: escape_def Let_def)
  then obtain u where u: "code_point_at (message c) 0 = Some u" by (rule message_head)
  have "u \<noteq> 60 \<and> u \<noteq> 123"
    using code_point_numeral [of "message c" 0] u assms
    by (cases w) (auto simp: escape_def Let_def syntax_unit_def nth_append split: if_splits)
  with escape_literal_loop [OF assms(2) parser_init_ok [of c li]] ne u
  show ?thesis
    using text_parse [of c li w _ u]
    by (auto simp: parser_init_def [of li] parseMessageText_def pruneLocation_def)
qed

section \<open>Properties of the parser\<close>

text \<open>
  Claim C1: the parser returns on every message, whatever the options and the state a previous
  parse left: with a tree in which every location is the true place, line and column, of its
  offsets, with an error whose location is such a place, or with an exception of a skeleton. Its
  position checks (out of bound, invalid code-unit boundary, a target behind the position) never
  fire, and the fuel of the model is never exhausted.
\<close>

theorem parser_total:
  "(\<exists>v s. parse c (parser_init li) = Ok v s \<and> list_all (located_element c) v) \<or>
   (\<exists>k l s. parse c (parser_init li) = Err k l s \<and> loc_ok c l) \<or>
   (\<exists>j s. parse c (parser_init li) = Throw (SkeletonError j) s)"
  using parse_safe [of c li]
  by (auto simp: safe_def good_def list_all_iff split: outcome.splits)

text \<open>
  Claim C2: what \<open>JS\<close> returns is a well-formed tree: every select and plural has at least one
  option, its selectors are distinct and not empty, with \<open>requiresOtherClause\<close> one of them is
  \<open>other\<close>, every plural offset is a safe integer, argument names are not empty, and \<open>#\<close> stands
  only directly inside a plural option; otherwise it raises a syntax error or the error of a
  skeleton.
\<close>

theorem parsed_trees_well_formed:
  "case fst (parseMessageText cap c li) of
     Inr v \<Rightarrow> list_all (wf_element (requiresOtherClause c) False) v
   | Inl x \<Rightarrow> (\<exists>k l. x = SyntaxErr k l \<and> loc_ok c l) \<or> (\<exists>j. x = SkeletonError j)"
  using parseMessageText_cases [of cap c li] by (auto split: sum.splits)

text \<open>
  Claim C33: quoting is understood. Every text, unpaired surrogates included, written as a message
  by doubling its apostrophes and quoting it from its first brace or bracket on, parses to the one
  literal with that text.
\<close>

theorem escaped_text_round_trip:
  assumes "w \<noteq> []" and "message c = escape w"
  shows "fst (parseMessageText False c li) = Inr [Literal w None]"
  by (rule escaped_text_parses [OF assms])

theorem escaped_text_round_trip_witness:
  "js ''a{'' \<noteq> [] \<and> message (default_config (escape (js ''a{''))) = escape (js ''a{'') \<and>
   fst (parseMessageText False (default_config (escape (js ''a{''))) 0) = Inr [Literal (js ''a{'') None]"
  using escaped_text_round_trip [of "js ''a{''" "default_config (escape (js ''a{''))" 0]
  by (simp add: default_config_def)

text \<open>
  The nesting count of an argument style: a closing brace inside a nested one ends the style, so
  the rest of the style becomes text of the message.
\<close>

theorem nested_style_brace_cut:
  "fst (parseMessageText False (default_config (js ''{x, number, a{b}c}'')) 0) =
     Inr [NumberEl (js ''x'') None (NamedStyle (js ''a{b'')), Literal (js ''c}'') None]"
  by code_simp

text \<open>A number skeleton with the stem \<open>#\<close> leaves the parser with a TypeError, not a parse error.\<close>

theorem number_skeleton_type_error:
  "fst (parseMessageText False (default_config (js ''{x, number, ::#}'')) 0) =
     Inl (SkeletonError (TypeErr ''length of undefined''))"
  by code_simp

end
