(* ===== verification/JS_Value.thy ===== *)
theory JS_Value
  imports JS_Prelude "HOL-Library.AList"
begin

text \<open>
  The JavaScript values that the user interface computes with. Numbers are the integers (and
  \<open>NaN\<close>); an object is the list of its own properties in insertion order, with the names it
  inherits from \<open>Object.prototype\<close>, which \<open>in\<close> and property access see too; a function is a
  handle, and calling one is an argument of the definitions that do.
\<close>

datatype jsval =
    Undef
  | Null
  | JBool bool
  | Num int
  | NaN
  | Str jsstr
  | Arr "jsval list"
  | Obj "(jsstr \<times> jsval) list"
  | Fun nat
  | Proto jsstr

type_synonym props = "(jsstr \<times> jsval) list"

text \<open>The names an object literal inherits.\<close>

definition proto_names :: "string list" where
  "proto_names =
     [''constructor'', ''__defineGetter__'', ''__defineSetter__'', ''hasOwnProperty'',
      ''__lookupGetter__'', ''__lookupSetter__'', ''isPrototypeOf'', ''propertyIsEnumerable'',
      ''toString'', ''valueOf'', ''__proto__'', ''toLocaleString'']"

definition is_proto_name :: "jsstr \<Rightarrow> bool" where
  "is_proto_name k \<longleftrightarrow> k \<in> set (map js proto_names)"

text \<open>\<open>k in o\<close> and \<open>o[k]\<close> on an object literal.\<close>

definition has_prop :: "props \<Rightarrow> jsstr \<Rightarrow> bool" where
  "has_prop m k \<longleftrightarrow> map_of m k \<noteq> None \<or> is_proto_name k"

definition get_prop :: "props \<Rightarrow> jsstr \<Rightarrow> jsval" where
  "get_prop m k =
     (case map_of m k of Some v \<Rightarrow> v | None \<Rightarrow> if is_proto_name k then Proto k else Undef)"

fun truthy_val :: "jsval \<Rightarrow> bool" where
  "truthy_val Undef = False"
| "truthy_val Null = False"
| "truthy_val (JBool b) = b"
| "truthy_val (Num n) = (n \<noteq> 0)"
| "truthy_val NaN = False"
| "truthy_val (Str s) = (s \<noteq> [])"
| "truthy_val _ = True"

text \<open>\<open>a || b\<close> and \<open>a ?? b\<close>.\<close>

definition js_or :: "jsval \<Rightarrow> jsval \<Rightarrow> jsval" where
  "js_or a b = (if truthy_val a then a else b)"

definition nullish :: "jsval \<Rightarrow> bool" where
  "nullish a \<longleftrightarrow> a = Undef \<or> a = Null"

definition js_nullish :: "jsval \<Rightarrow> jsval \<Rightarrow> jsval" where
  "js_nullish a b = (if nullish a then b else a)"

fun is_string :: "jsval \<Rightarrow> bool" where
  "is_string (Str s) = True"
| "is_string _ = False"

fun is_number :: "jsval \<Rightarrow> bool" where
  "is_number (Num n) = True"
| "is_number NaN = True"
| "is_number _ = False"

text \<open>\<open>typeof v == "object"\<close>; it holds of \<open>null\<close>.\<close>

fun typeof_object :: "jsval \<Rightarrow> bool" where
  "typeof_object Null = True"
| "typeof_object (Arr vs) = True"
| "typeof_object (Obj m) = True"
| "typeof_object (Proto k) = (k = js ''__proto__'')"
| "typeof_object _ = False"

section \<open>Decimal numerals\<close>

fun digits_of :: "nat \<Rightarrow> jsstr" where
  "digits_of n =
     (if n < 10 then [of_nat (48 + n)] else digits_of (n div 10) @ [of_nat (48 + n mod 10)])"

declare digits_of.simps [simp del]

definition js_of_int :: "int \<Rightarrow> jsstr" where
  "js_of_int n = (if n < 0 then js ''-'' @ digits_of (nat (- n)) else digits_of (nat n))"

text \<open>\<open>String(v)\<close>; what an object or a function prints as is the argument \<open>other\<close>.\<close>

fun to_string :: "(jsval \<Rightarrow> jsstr) \<Rightarrow> jsval \<Rightarrow> jsstr" where
  "to_string other Undef = js ''undefined''"
| "to_string other Null = js ''null''"
| "to_string other (JBool b) = (if b then js ''true'' else js ''false'')"
| "to_string other (Num n) = js_of_int n"
| "to_string other NaN = js ''NaN''"
| "to_string other (Str s) = s"
| "to_string other v = other v"

lemma has_prop_own: "map_of m k = Some v \<Longrightarrow> has_prop m k \<and> get_prop m k = v"
  by (simp add: has_prop_def get_prop_def)

lemma get_prop_update [simp]: "get_prop (AList.update k v m) k = v"
  by (simp add: get_prop_def update_conv)

lemma get_prop_update_other [simp]: "k' \<noteq> k \<Longrightarrow> get_prop (AList.update k v m) k' = get_prop m k'"
  by (simp add: get_prop_def update_conv)

lemma has_prop_update [simp]: "has_prop (AList.update k v m) k' \<longleftrightarrow> k' = k \<or> has_prop m k'"
  by (auto simp: has_prop_def update_conv)

end
