(* ===== verification/Icu_Format.thy ===== *)
theory Icu_Format
  imports Icu_Parser_Correct JS_Value
begin

text \<open>
  Formatting a parsed message (\<open>ui/dist/fs/bundle.js\<close>: \<open>Ar\<close>, \<open>iT\<close>, the class \<open>fT\<close>). The
  formatters of the engine's \<open>Intl\<close> and the functions the caller passes as values are the fields of
  the argument \<open>intl\<close>; everything that may throw returns a sum.
\<close>

section \<open>Parts\<close>

datatype part = PLit jsstr | PObj jsval

datatype format_error =
    MissingValue jsstr
  | InvalidType jsstr
  | InvalidOption jsstr jsval
  | MissingIntlApi
  | UndefinedElements
  | Raised nat

fun part_value :: "part \<Rightarrow> jsval" where
  "part_value (PLit s) = Str s"
| "part_value (PObj v) = v"

definition part_of :: "jsval \<Rightarrow> part" where
  "part_of v = (case v of Str s \<Rightarrow> PLit s | _ \<Rightarrow> PObj v)"

text \<open>The step of the \<open>reduce\<close> of \<open>iT\<close>: a literal after a literal is appended to it.\<close>

definition merge_part :: "part list \<Rightarrow> part \<Rightarrow> part list" where
  "merge_part e n =
     (if e = [] then [n]
      else (case (last e, n) of
              (PLit a, PLit b) \<Rightarrow> butlast e @ [PLit (a @ b)]
            | _ \<Rightarrow> e @ [n]))"

definition mergeLiteral :: "part list \<Rightarrow> part list" where
  "mergeLiteral t = (if length t < 2 then t else foldl merge_part [] t)"

section \<open>Elements\<close>

text \<open>
  \<open>Intl\<close> for the locales of the message: \<open>format\<close> of a number and of a date formatter made with
  the given options, \<open>select\<close> of the plural rules, the conversion of a value to a number (\<open>None\<close>
  is \<open>NaN\<close>), the product with a \<open>scale\<close> (the value itself where the scale is 0 or \<open>NaN\<close>), the
  text of an object, and the call of a function value.
  \<open>Inl\<close> is an exception.
\<close>

record intl =
  number_format :: "options option \<Rightarrow> jsval \<Rightarrow> nat + jsstr"
  date_format :: "options option \<Rightarrow> jsval \<Rightarrow> nat + jsstr"
  plural_rules :: "(plural_type \<Rightarrow> jsval \<Rightarrow> jsstr) option"
  to_number :: "jsval \<Rightarrow> int option"
  scaled :: "jsval \<Rightarrow> oval \<Rightarrow> jsval"
  object_string :: "jsval \<Rightarrow> jsstr"
  call_function :: "jsval \<Rightarrow> jsval list \<Rightarrow> nat + jsval"

record formats =
  number_styles :: "(jsstr \<times> options) list"
  date_styles :: "(jsstr \<times> options) list"
  time_styles :: "(jsstr \<times> options) list"

record format_env =
  intl_of :: intl
  formats_of :: formats
  values_of :: jsval

definition raised :: "nat + 'a \<Rightarrow> format_error + 'a" where
  "raised r = (case r of Inl x \<Rightarrow> Inl (Raised x) | Inr v \<Rightarrow> Inr v)"

text \<open>A named style: an inherited name yields a function, whose formatting options are all unset.\<close>

definition named_options :: "(jsstr \<times> options) list \<Rightarrow> jsstr \<Rightarrow> options option" where
  "named_options m k =
     (case map_of m k of Some p \<Rightarrow> Some p | None \<Rightarrow> if is_proto_name k then Some [] else None)"

definition style_options ::
  "(jsstr \<times> options) list \<Rightarrow> options option \<Rightarrow> arg_style \<Rightarrow> options option" where
  "style_options m dflt st =
     (case st of
        NamedStyle k \<Rightarrow> named_options m k
      | NumberSkeleton ts l p \<Rightarrow> Some p
      | DateTimeSkeleton h l p \<Rightarrow> Some p
      | NoStyle \<Rightarrow> dflt)"

text \<open>\<open>if (!(l && _ in l)) throw new nT(_, r)\<close>, then \<open>l[_]\<close>.\<close>

definition lookup_value :: "format_env \<Rightarrow> jsstr \<Rightarrow> format_error + jsval" where
  "lookup_value env v =
     (case values_of env of
        Obj m \<Rightarrow> if has_prop m v then Inr (get_prop m v) else Inl (MissingValue v)
      | _ \<Rightarrow> Inl (MissingValue v))"

definition argument_part :: "jsval \<Rightarrow> part" where
  "argument_part m =
     (case m of
        Str s \<Rightarrow> PLit s
      | Num n \<Rightarrow> PLit (js_of_int n)
      | NaN \<Rightarrow> PLit (js ''NaN'')
      | _ \<Rightarrow> if truthy_val m then PObj m else PLit [])"

definition scale_of :: "options option \<Rightarrow> oval option" where
  "scale_of b =
     (case b of
        None \<Rightarrow> None
      | Some p \<Rightarrow>
          (case map_of p ''scale'' of
             Some (ONum n) \<Rightarrow> if n = 0 then None else Some (ONum n)
           | Some (OFloat (Some t)) \<Rightarrow> Some (OFloat (Some t))
           | _ \<Rightarrow> None))"

definition offset_value :: "intl \<Rightarrow> jsval \<Rightarrow> int \<Rightarrow> jsval" where
  "offset_value io m f = (case to_number io m of Some n \<Rightarrow> Num (n - f) | None \<Rightarrow> NaN)"

text \<open>\<open>h.options[k]\<close>: the option with its parts, an inherited property, or nothing.\<close>

datatype 'a found = Found 'a | Inherited | Absent

definition find_option :: "(jsstr \<times> 'a) list \<Rightarrow> jsstr \<Rightarrow> 'a found" where
  "find_option os k =
     (case map_of os k of Some p \<Rightarrow> Found p | None \<Rightarrow> if is_proto_name k then Inherited else Absent)"

definition option_or_other :: "(jsstr \<times> 'a) list \<Rightarrow> jsstr \<Rightarrow> 'a found" where
  "option_or_other os k =
     (case find_option os k of Absent \<Rightarrow> find_option os (js ''other'') | r \<Rightarrow> r)"

type_synonym parts_result = "format_error + part list"

definition push_option :: "jsstr \<Rightarrow> jsval \<Rightarrow> parts_result found \<Rightarrow> parts_result" where
  "push_option v m L =
     (case L of
        Found r \<Rightarrow> r
      | Inherited \<Rightarrow> Inl UndefinedElements
      | Absent \<Rightarrow> Inl (InvalidOption v m))"

text \<open>The loop over the elements: their parts in order, or the first error.\<close>

fun sequence_parts :: "parts_result list \<Rightarrow> parts_result" where
  "sequence_parts [] = Inr []"
| "sequence_parts (r # rs) =
     (case r of
        Inl x \<Rightarrow> Inl x
      | Inr ps \<Rightarrow> (case sequence_parts rs of Inl x \<Rightarrow> Inl x | Inr qs \<Rightarrow> Inr (ps @ qs)))"

definition merged :: "parts_result list \<Rightarrow> parts_result" where
  "merged rs = (case sequence_parts rs of Inl x \<Rightarrow> Inl x | Inr ps \<Rightarrow> Inr (mergeLiteral ps))"

fun array_of :: "jsval \<Rightarrow> jsval list" where
  "array_of (Arr vs) = vs"
| "array_of v = [v]"

fun is_function :: "jsval \<Rightarrow> bool" where
  "is_function (Fun f) = True"
| "is_function (Proto k) = (k \<noteq> js ''__proto__'')"
| "is_function _ = False"

primrec formatElement :: "element \<Rightarrow> format_env \<Rightarrow> jsval \<Rightarrow> parts_result"
  and formatOption :: "sel_option \<Rightarrow> format_env \<Rightarrow> jsval \<Rightarrow> jsstr \<times> parts_result"
where
  "formatElement (Literal v l) = (\<lambda>env u. Inr [PLit v])"
| "formatElement (Pound l) = (\<lambda>env u.
     if is_number u then map_sum id (\<lambda>s. [PLit s]) (raised (number_format (intl_of env) None u))
     else Inr [])"
| "formatElement (Argument v l) = (\<lambda>env u.
     map_sum id (\<lambda>m. [argument_part m]) (lookup_value env v))"
| "formatElement (DateEl v l st) = (\<lambda>env u.
     case lookup_value env v of
       Inl x \<Rightarrow> Inl x
     | Inr m \<Rightarrow> map_sum id (\<lambda>s. [PLit s])
         (raised (date_format (intl_of env) (style_options (date_styles (formats_of env)) None st) m)))"
| "formatElement (TimeEl v l st) = (\<lambda>env u.
     case lookup_value env v of
       Inl x \<Rightarrow> Inl x
     | Inr m \<Rightarrow> map_sum id (\<lambda>s. [PLit s])
         (raised (date_format (intl_of env)
           (style_options (time_styles (formats_of env))
             (map_of (time_styles (formats_of env)) (js ''medium'')) st) m)))"
| "formatElement (NumberEl v l st) = (\<lambda>env u.
     case lookup_value env v of
       Inl x \<Rightarrow> Inl x
     | Inr m \<Rightarrow>
         (let b = style_options (number_styles (formats_of env)) None st;
              m' = (case scale_of b of Some k \<Rightarrow> scaled (intl_of env) m k | None \<Rightarrow> m)
          in map_sum id (\<lambda>s. [PLit s]) (raised (number_format (intl_of env) b m'))))"
| "formatElement (Tag v es l) = (\<lambda>env u.
     case lookup_value env v of
       Inl x \<Rightarrow> Inl x
     | Inr C \<Rightarrow>
         if \<not> is_function C then Inl (InvalidType v)
         else (case merged (map (\<lambda>e. formatElement e env u) es) of
                 Inl x \<Rightarrow> Inl x
               | Inr H \<Rightarrow>
                   map_sum id (\<lambda>U. map part_of (array_of U))
                     (raised (call_function (intl_of env) C (map part_value H)))))"
| "formatElement (Select v os l) = (\<lambda>env u.
     case lookup_value env v of
       Inl x \<Rightarrow> Inl x
     | Inr m \<Rightarrow>
         push_option v m (option_or_other (map (\<lambda>p. formatOption p env Undef) os)
           (to_string (object_string (intl_of env)) m)))"
| "formatElement (Plural v os f ty l) = (\<lambda>env u.
     case lookup_value env v of
       Inl x \<Rightarrow> Inl x
     | Inr m \<Rightarrow>
         (let d = offset_value (intl_of env) m f;
              rs = map (\<lambda>p. formatOption p env d) os
          in case find_option rs (js ''='' @ to_string (object_string (intl_of env)) m) of
               Absent \<Rightarrow>
                 (case plural_rules (intl_of env) of
                    None \<Rightarrow> Inl MissingIntlApi
                  | Some select \<Rightarrow> push_option v m (option_or_other rs (select ty d)))
             | r \<Rightarrow> push_option v m r))"
| "formatOption (SelOption k es l) = (\<lambda>env u. (k, merged (map (\<lambda>e. formatElement e env u) es)))"

definition formatToParts :: "element list \<Rightarrow> format_env \<Rightarrow> parts_result" where
  "formatToParts es env = merged (map (\<lambda>e. formatElement e env Undef) es)"

text \<open>\<open>format\<close>: one part as it is, otherwise the neighbouring strings joined.\<close>

definition join_value :: "jsval list \<Rightarrow> part \<Rightarrow> jsval list" where
  "join_value c h =
     (if c = [] then [part_value h]
      else (case (h, last c) of
              (PLit b, Str a) \<Rightarrow> butlast c @ [Str (a @ b)]
            | _ \<Rightarrow> c @ [part_value h]))"

definition format_message :: "element list \<Rightarrow> format_env \<Rightarrow> format_error + jsval" where
  "format_message es env =
     (case formatToParts es env of
        Inl x \<Rightarrow> Inl x
      | Inr [p] \<Rightarrow> Inr (part_value p)
      | Inr ps \<Rightarrow>
          (let s = foldl join_value [] ps
           in Inr (if length s \<le> 1 then js_or (case s of x # _ \<Rightarrow> x | [] \<Rightarrow> Undef) (Str []) else Arr s)))"

section \<open>Formats\<close>

definition time_parts :: "string list \<Rightarrow> options" where
  "time_parts ks = map (\<lambda>k. (k, OStr ''numeric'')) ks"

definition date_parts :: "string \<Rightarrow> string \<Rightarrow> options" where
  "date_parts m y = [(''month'', OStr m), (''day'', OStr ''numeric''), (''year'', OStr y)]"

definition default_formats :: formats where
  "default_formats =
     \<lparr>number_styles =
        [(js ''integer'', [(''maximumFractionDigits'', ONum 0)]),
         (js ''currency'', [(''style'', OStr ''currency'')]),
         (js ''percent'', [(''style'', OStr ''percent'')])],
      date_styles =
        [(js ''short'', date_parts ''numeric'' ''2-digit''),
         (js ''medium'', date_parts ''short'' ''numeric''),
         (js ''long'', date_parts ''long'' ''numeric''),
         (js ''full'', (''weekday'', OStr ''long'') # date_parts ''long'' ''numeric'')],
      time_styles =
        [(js ''short'', time_parts [''hour'', ''minute'']),
         (js ''medium'', time_parts [''hour'', ''minute'', ''second'']),
         (js ''long'', time_parts [''hour'', ''minute'', ''second''] @ [(''timeZoneName'', OStr ''short'')]),
         (js ''full'', time_parts [''hour'', ''minute'', ''second''] @ [(''timeZoneName'', OStr ''short'')])]\<rparr>"

text \<open>
  \<open>rT\<close>: the styles of the caller laid over the default ones, a style both have option by option.
\<close>

definition assign_styles ::
  "(jsstr \<times> options) list \<Rightarrow> (jsstr \<times> options) list \<Rightarrow> (jsstr \<times> options) list" where
  "assign_styles a b = foldl (\<lambda>m (k, v). AList.update k v m) a b"

definition mergeConfig ::
  "(jsstr \<times> options) list \<Rightarrow> (jsstr \<times> options) list option \<Rightarrow> (jsstr \<times> options) list" where
  "mergeConfig t e =
     (case e of
        None \<Rightarrow> t
      | Some e \<Rightarrow>
          assign_styles (assign_styles (assign_styles [] t) e)
            (map (\<lambda>(i, p). (i, assign_opts (assign_opts [] p)
                               (case map_of e i of Some q \<Rightarrow> q | None \<Rightarrow> []))) t))"

record caller_formats =
  caller_number :: "(jsstr \<times> options) list option"
  caller_date :: "(jsstr \<times> options) list option"
  caller_time :: "(jsstr \<times> options) list option"

text \<open>\<open>uT\<close>.\<close>

definition mergeConfigs :: "formats \<Rightarrow> caller_formats option \<Rightarrow> formats" where
  "mergeConfigs t e =
     (case e of
        None \<Rightarrow> t
      | Some e \<Rightarrow>
          \<lparr>number_styles = mergeConfig (number_styles t) (caller_number e),
           date_styles = mergeConfig (date_styles t) (caller_date e),
           time_styles = mergeConfig (time_styles t) (caller_time e)\<rparr>)"

section \<open>Merging\<close>

fun is_literal :: "part \<Rightarrow> bool" where
  "is_literal (PLit s) = True"
| "is_literal (PObj v) = False"

definition no_adjacent_literals :: "part list \<Rightarrow> bool" where
  "no_adjacent_literals ps = successively (\<lambda>p q. \<not> (is_literal p \<and> is_literal q)) ps"

definition literal_text :: "part list \<Rightarrow> jsstr" where
  "literal_text ps = concat (map (\<lambda>p. case p of PLit s \<Rightarrow> s | PObj v \<Rightarrow> []) ps)"

definition objects_of :: "part list \<Rightarrow> jsval list" where
  "objects_of ps = concat (map (\<lambda>p. case p of PLit s \<Rightarrow> [] | PObj v \<Rightarrow> [v]) ps)"

lemma merge_part_no_adjacent:
  assumes "no_adjacent_literals e"
  shows "no_adjacent_literals (merge_part e n)"
  using assms
  by (cases e rule: rev_cases)
    (auto simp: merge_part_def no_adjacent_literals_def successively_append_iff split: part.splits)

lemma foldl_merge_no_adjacent:
  "no_adjacent_literals e \<Longrightarrow> no_adjacent_literals (foldl merge_part e ps)"
  by (induction ps arbitrary: e) (auto simp: merge_part_no_adjacent)

lemma mergeLiteral_no_adjacent: "no_adjacent_literals (mergeLiteral ps)"
  using foldl_merge_no_adjacent [of "[]" ps]
  by (cases ps; cases "tl ps") (auto simp: mergeLiteral_def no_adjacent_literals_def)

lemma merge_part_contents:
  "literal_text (merge_part e n) = literal_text (e @ [n])"
  "objects_of (merge_part e n) = objects_of (e @ [n])"
  by (cases e rule: rev_cases; cases n;
      auto simp: merge_part_def literal_text_def objects_of_def split: part.splits)+

lemma foldl_merge_contents:
  "literal_text (foldl merge_part e ps) = literal_text (e @ ps)"
  "objects_of (foldl merge_part e ps) = objects_of (e @ ps)"
proof (induction ps arbitrary: e)
  case (Cons p ps)
  {
    case 1
    show ?case
      using Cons(1) [of "merge_part e p"] merge_part_contents(1) [of e p] by (simp add: literal_text_def)
  next
    case 2
    show ?case
      using Cons(2) [of "merge_part e p"] merge_part_contents(2) [of e p] by (simp add: objects_of_def)
  }
qed simp_all

lemma mergeLiteral_contents:
  "literal_text (mergeLiteral ps) = literal_text ps"
  "objects_of (mergeLiteral ps) = objects_of ps"
  by (simp_all add: mergeLiteral_def foldl_merge_contents)

section \<open>The errors of formatting\<close>

lemma sequence_parts_error: "sequence_parts rs = Inl x \<Longrightarrow> Inl x \<in> set rs"
  by (induction rs) (auto split: sum.splits)

lemma merged_error: "merged rs = Inl x \<Longrightarrow> Inl x \<in> set rs"
  by (auto simp: merged_def split: sum.splits dest: sequence_parts_error)

text \<open>
  The errors that formatting a well-formed message may end with: a value that was not passed, no
  plural rules in the engine, a tag whose value is not a function, a selector value that is the name
  of an inherited property, or an exception of the engine or of a function.
\<close>

fun expected_error :: "format_env \<Rightarrow> format_error \<Rightarrow> bool" where
  "expected_error env (MissingValue n) =
     (case values_of env of Obj m \<Rightarrow> \<not> has_prop m n | _ \<Rightarrow> True)"
| "expected_error env (InvalidOption v m) = False"
| "expected_error env MissingIntlApi = (plural_rules (intl_of env) = None)"
| "expected_error env x = True"

lemma lookup_value_error: "lookup_value env v = Inl x \<Longrightarrow> expected_error env x"
  by (auto simp: lookup_value_def split: jsval.splits if_splits)

lemma raised_error: "raised r = Inl x \<Longrightarrow> expected_error env x"
  by (auto simp: raised_def split: sum.splits)

lemma map_sum_error: "map_sum id f r = Inl x \<longleftrightarrow> r = Inl x"
  by (cases r) auto

lemma other_not_inherited: "\<not> is_proto_name (js ''other'')"
  by (simp add: is_proto_name_def proto_names_def)

lemma option_or_other_found:
  assumes "js ''other'' \<in> fst ` set os"
  shows "option_or_other os k = Inherited \<or> (\<exists>k' r. option_or_other os k = Found r \<and> (k', r) \<in> set os)"
proof -
  obtain r where "map_of os (js ''other'') = Some r"
    using assms by (metis map_of_eq_None_iff option.exhaust)
  then have "find_option os (js ''other'') = Found r" "(js ''other'', r) \<in> set os"
    by (auto simp: find_option_def dest: map_of_SomeD)
  then show ?thesis
    by (cases "map_of os k") (auto simp: option_or_other_def find_option_def dest: map_of_SomeD)
qed

lemma fst_formatOption [simp]: "fst (formatOption p env u) = sel_key p"
  by (cases p) simp

lemma push_option_or_other_error:
  assumes "push_option v m (option_or_other rs k) = Inl x" and "js ''other'' \<in> fst ` set rs"
    and "\<forall>r \<in> set rs. snd r = Inl x \<longrightarrow> expected_error env x"
  shows "expected_error env x"
  using option_or_other_found [OF assms(2), of k]
proof
  assume "option_or_other rs k = Inherited"
  with assms(1) show ?thesis by (auto simp: push_option_def)
next
  assume "\<exists>k' r. option_or_other rs k = Found r \<and> (k', r) \<in> set rs"
  then obtain k' r where "option_or_other rs k = Found r" "(k', r) \<in> set rs" by blast
  with assms(1,3) show ?thesis by (force simp: push_option_def)
qed

lemma push_find_option_error:
  assumes "find_option rs k = f" and "push_option v m f = Inl x" and "f \<noteq> Absent"
    and "\<forall>r \<in> set rs. snd r = Inl x \<longrightarrow> expected_error env x"
  shows "expected_error env x"
  using assms
  by (force simp: push_option_def find_option_def split: option.splits if_splits dest!: map_of_SomeD)

lemma format_errors:
  "wf_element True pl e \<Longrightarrow> formatElement e env u = Inl x \<Longrightarrow> expected_error env x"
  "wf_option True pl p \<Longrightarrow> snd (formatOption p env u) = Inl x \<Longrightarrow> expected_error env x"
proof (induction e and p arbitrary: pl u and pl u)
  case (Select v os l)
  have other: "js ''other'' \<in> fst ` set (map (\<lambda>p. formatOption p env Undef) os)"
    using Select.prems(1) by (force simp: options_complete_def)
  have opts: "\<forall>r \<in> set (map (\<lambda>p. formatOption p env Undef) os). snd r = Inl x \<longrightarrow> expected_error env x"
    using Select.IH Select.prems(1) by (auto simp: list_all_iff)
  from Select.prems(2) show ?case
    by (auto split: sum.splits simp: lookup_value_error intro: push_option_or_other_error [OF _ other opts])
next
  case (Plural v os f ty l)
  define rs where "rs d = map (\<lambda>p. formatOption p env d) os" for d
  have other: "js ''other'' \<in> fst ` set (rs d)" for d
    using Plural.prems(1) by (force simp: options_complete_def rs_def)
  have opts: "\<forall>r \<in> set (rs d). snd r = Inl x \<longrightarrow> expected_error env x" for d
    using Plural.IH Plural.prems(1) by (auto simp: list_all_iff rs_def)
  from Plural.prems(2) show ?case
    unfolding formatElement.simps Let_def rs_def [symmetric]
    by (auto split: sum.splits found.splits option.splits
        simp: lookup_value_error intro: push_option_or_other_error [OF _ other opts]
          push_find_option_error [OF _ _ _ opts])
next
  case (Tag v es l)
  then have ch: "Inl x = formatElement e env u \<Longrightarrow> e \<in> set es \<Longrightarrow> expected_error env x" for e
    by (metis list_all_iff wf_element.simps(9) wf_option.simps)
  from Tag.prems(2) show ?case
    by (auto split: sum.splits if_splits simp: lookup_value_error map_sum_error raised_error
        dest!: merged_error intro: ch)
next
  case (SelOption k es l)
  then have ch: "Inl x = formatElement e env u \<Longrightarrow> e \<in> set es \<Longrightarrow> expected_error env x" for e
    by (metis list_all_iff wf_option.simps)
  from SelOption.prems(2) show ?case
    by (auto dest!: merged_error intro: ch)
qed (auto simp: map_sum_error lookup_value_error raised_error Let_def split: sum.splits if_splits)

lemma formatToParts_errors:
  assumes "list_all (wf_element True False) es" and "formatToParts es env = Inl x"
  shows "expected_error env x"
  using merged_error [OF assms(2) [unfolded formatToParts_def]] assms(1) format_errors(1)
  by (force simp: list_all_iff)

section \<open>Merged formats\<close>

lemma map_of_foldl_update:
  assumes "distinct (map fst n)"
  shows "map_of (foldl (\<lambda>m (k, v). AList.update k v m) e n) = map_of e ++ map_of n"
  using assms
proof (induction n arbitrary: e)
  case (Cons kv n)
  obtain k v where kv: "kv = (k, v)" by fastforce
  with Cons.prems have "map_of n k = None" by (simp add: map_of_eq_None_iff)
  with Cons kv show ?case
    by (auto simp: update_conv' map_add_def fun_eq_iff split: option.splits)
qed simp

lemma map_of_assign_opts:
  "distinct (map fst n) \<Longrightarrow> map_of (assign_opts e n) = map_of e ++ map_of n"
  unfolding assign_opts_def by (rule map_of_foldl_update)

lemma map_of_assign_styles:
  "distinct (map fst n) \<Longrightarrow> map_of (assign_styles e n) = map_of e ++ map_of n"
  unfolding assign_styles_def by (rule map_of_foldl_update)

lemma map_of_map_values: "map_of (map (\<lambda>(i, p). (i, f i p)) t) k = map_option (f k) (map_of t k)"
  by (induction t) auto

lemma mergeConfig_style:
  assumes "distinct (map fst t)" and "distinct (map fst e)"
  shows "map_of (mergeConfig t (Some e)) k =
    (case map_of t k of
       None \<Rightarrow> map_of e k
     | Some p \<Rightarrow> Some (assign_opts (assign_opts [] p) (case map_of e k of Some q \<Rightarrow> q | None \<Rightarrow> [])))"
proof -
  define ov where "ov = map (\<lambda>(i, p). (i, assign_opts (assign_opts [] p)
                               (case map_of e i of Some q \<Rightarrow> q | None \<Rightarrow> []))) t"
  have d: "distinct (map fst ov)" using assms(1) by (simp add: ov_def o_def case_prod_beta')
  have "map_of (mergeConfig t (Some e)) k = ((Map.empty ++ map_of t) ++ map_of e ++ map_of ov) k"
    unfolding mergeConfig_def ov_def [symmetric] option.case
    by (simp only: map_of_assign_styles [OF d] map_of_assign_styles [OF assms(1)]
        map_of_assign_styles [OF assms(2)] map_of.simps)
  moreover have "map_of ov k = map_option (\<lambda>p. assign_opts (assign_opts [] p)
      (case map_of e k of Some q \<Rightarrow> q | None \<Rightarrow> [])) (map_of t k)"
    unfolding ov_def by (rule map_of_map_values)
  ultimately show ?thesis by (auto simp: map_add_def split: option.splits)
qed

section \<open>Properties of formatting\<close>

text \<open>
  Claim C9: a message the parser accepted never fails to format for want of an option. Whatever
  the values, the formats and the engine, formatting it with \<open>requiresOtherClause\<close> set ends with
  parts, or with a value that was not passed, missing plural rules, a tag whose value is no
  function, a selector that names an inherited property, or an exception of the engine.
\<close>

theorem parsed_messages_format:
  "case fst (parseMessageText cap (c\<lparr>requiresOtherClause := True\<rparr>) li) of
     Inr es \<Rightarrow> (case formatToParts es env of Inr ps \<Rightarrow> True | Inl x \<Rightarrow> expected_error env x)
   | Inl x \<Rightarrow> True"
  using parseMessageText_cases [of cap "c\<lparr>requiresOtherClause := True\<rparr>" li] formatToParts_errors
  by (auto split: sum.splits)

text \<open>
  The parts of a formatted message are in normal form and lose nothing: no two literal
  parts are adjacent, and the text of the literals and the objects, in order, are those of the
  parts before merging.
\<close>

theorem merged_parts_normal_form:
  "no_adjacent_literals (mergeLiteral ps) \<and> literal_text (mergeLiteral ps) = literal_text ps \<and>
   objects_of (mergeLiteral ps) = objects_of ps"
  by (simp add: mergeLiteral_no_adjacent mergeLiteral_contents)

text \<open>
  A quoted text formats to itself: the message that \<open>escape\<close> makes of a text, parsed and
  formatted with any values, is that text.
\<close>

theorem escaped_text_formats:
  assumes "w \<noteq> []" and "message c = escape w"
  shows "map_sum id (\<lambda>es. format_message es env) (fst (parseMessageText False c li)) = Inr (Inr (Str w))"
  by (simp add: escaped_text_parses [OF assms] format_message_def formatToParts_def merged_def
      mergeLiteral_def)

text \<open>An engine whose formatters print the value and whose plural category is always \<open>other\<close>.\<close>

definition sample_env :: "jsval \<Rightarrow> format_env" where
  "sample_env v =
     \<lparr>intl_of = \<lparr>number_format = (\<lambda>p v. Inr (to_string (\<lambda>w. []) v)),
                 date_format = (\<lambda>p v. Inr (to_string (\<lambda>w. []) v)),
                 plural_rules = Some (\<lambda>ty v. js ''other''),
                 to_number = (\<lambda>v. case v of Num n \<Rightarrow> Some n | _ \<Rightarrow> None),
                 scaled = (\<lambda>v k. v), object_string = (\<lambda>v. js ''[object Object]''),
                 call_function = (\<lambda>f vs. Inr (Arr vs))\<rparr>,
      formats_of = default_formats, values_of = v\<rparr>"

theorem escaped_text_formats_witness:
  "js ''<'' \<noteq> [] \<and> message (default_config (escape (js ''<''))) = escape (js ''<'') \<and>
   map_sum id (\<lambda>es. format_message es (sample_env Undef))
     (fst (parseMessageText False (default_config (escape (js ''<''))) 0)) = Inr (Inr (Str (js ''<'')))"
  using escaped_text_formats [of "js ''<''" "default_config (escape (js ''<''))" "sample_env Undef" 0]
  by (simp add: default_config_def)

text \<open>A selector value that names an inherited property makes formatting fail, \<open>other\<close> or not.\<close>

theorem inherited_selector_fails:
  "formatElement (Select (js ''x'') [SelOption (js ''other'') [Literal (js ''a'') None] None] None)
     (env\<lparr>values_of := Obj [(js ''x'', Str (js ''constructor''))]\<rparr>) u = Inl UndefinedElements"
  by (simp add: lookup_value_def has_prop_def get_prop_def push_option_def option_or_other_def
      find_option_def is_proto_name_def proto_names_def)

text \<open>
  The formats of the caller win option by option: in the merged formats an option of a
  style both sides have has the caller's value where the caller sets it and the default one
  otherwise.
\<close>

theorem merged_formats_lookup:
  assumes "distinct (map fst t)" and "distinct (map fst e)"
    and "map_of t k = Some p" and "map_of e k = Some q"
    and "distinct (map fst p)" and "distinct (map fst q)"
  shows "\<exists>r. map_of (mergeConfig t (Some e)) k = Some r \<and> map_of r = map_of p ++ map_of q"
  using assms by (simp add: mergeConfig_style map_of_assign_opts)

theorem merged_formats_lookup_witness:
  "\<exists>r. map_of (mergeConfig (number_styles default_formats)
        (Some [(js ''percent'', [(''maximumFractionDigits'', ONum 1)])])) (js ''percent'') = Some r \<and>
     map_of r = map_of [(''style'', OStr ''percent'')] ++ map_of [(''maximumFractionDigits'', ONum 1)]"
  by (rule merged_formats_lookup) (simp_all add: default_formats_def)

end
