(* ===== verification/Deepmerge.thy ===== *)
theory Deepmerge
  imports JS_Value
begin

text \<open>
  The merge of nested message dictionaries (\<open>ui/dist/fs/bundle.js\<close>: \<open>Wi\<close> and its helpers). An own
  property whose name the target only inherits is skipped, also when a value is cloned into an
  empty target.
\<close>

section \<open>Definitions\<close>

fun isMergeableObject :: "jsval \<Rightarrow> bool" where
  "isMergeableObject (Obj m) = True"
| "isMergeableObject (Arr vs) = True"
| "isMergeableObject _ = False"

text \<open>\<open>td\<close>: \<open>in\<close>, with a primitive target (where it throws) as \<open>false\<close>.\<close>

definition propertyIsOnObject :: "jsval \<Rightarrow> jsstr \<Rightarrow> bool" where
  "propertyIsOnObject t k = (case t of Obj m \<Rightarrow> has_prop m k | _ \<Rightarrow> False)"

definition own_property :: "jsval \<Rightarrow> jsstr \<Rightarrow> bool" where
  "own_property t k = (case t of Obj m \<Rightarrow> map_of m k \<noteq> None | _ \<Rightarrow> False)"

definition propertyIsUnsafe :: "jsval \<Rightarrow> jsstr \<Rightarrow> bool" where
  "propertyIsUnsafe t k \<longleftrightarrow> propertyIsOnObject t k \<and> \<not> own_property t k"

definition member :: "jsval \<Rightarrow> jsstr \<Rightarrow> jsval" where
  "member t k = (case t of Obj m \<Rightarrow> get_prop m k | _ \<Rightarrow> Undef)"

text \<open>\<open>Sl\<close>: a mergeable value merged into an empty array or object, another value as it is.\<close>

fun clone :: "jsval \<Rightarrow> jsval" where
  "clone (Arr vs) = Arr (map clone vs)"
| "clone (Obj m) =
     Obj (map (\<lambda>(k, v). (k, clone v)) (filter (\<lambda>kv. \<not> propertyIsUnsafe (Obj []) (fst kv)) m))"
| "clone v = v"

definition clone_props :: "jsval \<Rightarrow> props" where
  "clone_props t = (case t of Obj m \<Rightarrow> map (\<lambda>(k, v). (k, clone v)) m | _ \<Rightarrow> [])"

fun deepmerge :: "jsval \<Rightarrow> jsval \<Rightarrow> jsval"
  and merge_props :: "jsval \<Rightarrow> props \<Rightarrow> props \<Rightarrow> props"
where
  "deepmerge t (Arr es) = (case t of Arr ts \<Rightarrow> Arr (map clone (ts @ es)) | _ \<Rightarrow> clone (Arr es))"
| "deepmerge t (Obj em) =
     (case t of Arr ts \<Rightarrow> clone (Obj em) | _ \<Rightarrow> Obj (merge_props t em (clone_props t)))"
| "deepmerge t e = (case t of Arr ts \<Rightarrow> clone e | _ \<Rightarrow> Obj (clone_props t))"
| "merge_props t [] i = i"
| "merge_props t ((l, v) # em) i =
     merge_props t em
       (if propertyIsUnsafe t l then i
        else if propertyIsOnObject t l \<and> isMergeableObject v
        then AList.update l (deepmerge (member t l) v) i
        else AList.update l (clone v) i)"

definition deepmerge_all :: "jsval list \<Rightarrow> jsval" where
  "deepmerge_all es = foldl deepmerge (Obj []) es"

section \<open>Clones\<close>

lemma unsafe_empty [simp]: "propertyIsUnsafe (Obj []) k \<longleftrightarrow> is_proto_name k"
  by (simp add: propertyIsUnsafe_def propertyIsOnObject_def own_property_def has_prop_def)

lemma map_of_clone_filter:
  "map_of (map (\<lambda>(k, v). (k, clone v)) (filter (\<lambda>kv. P (fst kv)) m)) k =
     (if P k then map_option clone (map_of m k) else None)"
  by (induction m) auto

lemma member_clone: "\<not> is_proto_name k \<Longrightarrow> member (clone v) k = clone (member v k)"
  by (cases v) (auto simp: member_def get_prop_def map_of_clone_filter [of "\<lambda>k. \<not> is_proto_name k"] split: option.splits)

text \<open>Merging into an empty value of the same kind is cloning.\<close>

lemma merge_props_empty:
  assumes "distinct (map fst em)" and "fst ` set i \<inter> fst ` set em = {}"
  shows "merge_props (Obj []) em i =
    i @ map (\<lambda>(k, v). (k, clone v)) (filter (\<lambda>kv. \<not> is_proto_name (fst kv)) em)"
  using assms
proof (induction em arbitrary: i)
  case (Cons kv em)
  obtain k v where kv: "kv = (k, v)" by fastforce
  have "AList.update k (clone v) i = i @ [(k, clone v)]" if "k \<notin> fst ` set i" for i
    using that by (induction i) auto
  with Cons kv show ?case
    by (auto simp: propertyIsOnObject_def has_prop_def)
qed simp

lemma clone_is_merge:
  "deepmerge (Arr []) (Arr vs) = clone (Arr vs)"
  "distinct (map fst m) \<Longrightarrow> deepmerge (Obj []) (Obj m) = clone (Obj m)"
  by (simp_all add: clone_props_def merge_props_empty)

section \<open>Looking up in a merged dictionary\<close>

fun wf_val :: "jsval \<Rightarrow> bool" where
  "wf_val (Obj m) = (distinct (map fst m) \<and> list_all (\<lambda>kv. wf_val (snd kv)) m)"
| "wf_val (Arr vs) = list_all wf_val vs"
| "wf_val v = True"

lemma wf_member: "wf_val v \<Longrightarrow> wf_val (member v k)"
proof (cases v)
  case (Obj m)
  assume "wf_val v"
  with Obj show ?thesis
    by (cases "map_of m k")
      (auto simp: member_def get_prop_def list_all_iff dest!: map_of_SomeD)
qed (auto simp: member_def)

lemma map_of_merge_props:
  assumes "distinct (map fst em)"
  shows "map_of (merge_props t em i) k =
    (case map_of em k of
       None \<Rightarrow> map_of i k
     | Some v \<Rightarrow>
         if propertyIsUnsafe t k then map_of i k
         else Some (if propertyIsOnObject t k \<and> isMergeableObject v then deepmerge (member t k) v
                    else clone v))"
  using assms
proof (induction em arbitrary: i)
  case (Cons lv em)
  obtain l v where lv: "lv = (l, v)" by fastforce
  show ?case
  proof (cases "k = l")
    case True
    with Cons.prems lv have "map_of em k = None" by (auto simp: map_of_eq_None_iff)
    with Cons lv True show ?thesis by (auto simp: update_conv)
  next
    case False
    with Cons lv show ?thesis by (auto simp: update_conv split: option.splits)
  qed
qed simp

lemma member_deepmerge:
  assumes "distinct (map fst em)" and "\<not> is_proto_name k" and "\<forall>ts. t \<noteq> Arr ts"
  shows "member (deepmerge t (Obj em)) k =
    (case map_of em k of
       None \<Rightarrow> clone (member t k)
     | Some v \<Rightarrow> if own_property t k \<and> isMergeableObject v then deepmerge (member t k) v else clone v)"
proof -
  have on: "propertyIsOnObject t k \<longleftrightarrow> own_property t k" and un: "\<not> propertyIsUnsafe t k"
    using assms(2)
    by (auto simp: propertyIsUnsafe_def propertyIsOnObject_def own_property_def has_prop_def split: jsval.splits)
  have keep: "map_of (clone_props t) k = (case t of Obj m \<Rightarrow> map_option clone (map_of m k) | _ \<Rightarrow> None)"
    by (cases t) (simp_all add: clone_props_def map_of_clone_filter [of "\<lambda>k. True", simplified])
  have "deepmerge t (Obj em) = Obj (merge_props t em (clone_props t))"
    using assms(3) by (cases t) auto
  then have "member (deepmerge t (Obj em)) k = get_prop (merge_props t em (clone_props t)) k"
    by (simp add: member_def)
  then show ?thesis
    using assms(2) un on
    by (auto simp: get_prop_def map_of_merge_props [OF assms(1)] keep member_def
        split: option.splits jsval.splits)
qed

text \<open>A path of names into nested objects.\<close>

fun path_get :: "jsval \<Rightarrow> jsstr list \<Rightarrow> jsval" where
  "path_get v [] = v"
| "path_get v (k # ks) = path_get (member v k) ks"

definition own_names :: "jsstr list \<Rightarrow> bool" where
  "own_names ks \<longleftrightarrow> list_all (\<lambda>k. \<not> is_proto_name k) ks"

lemma own_names_Cons [simp]: "own_names (k # ks) \<longleftrightarrow> \<not> is_proto_name k \<and> own_names ks"
  by (simp add: own_names_def)

lemma path_get_clone: "own_names ks \<Longrightarrow> path_get (clone v) ks = clone (path_get v ks)"
  by (induction ks arbitrary: v) (simp_all add: member_clone)

lemma path_get_not_object: "\<forall>m. v \<noteq> Obj m \<Longrightarrow> path_get v (k # ks) = Undef"
proof -
  assume "\<forall>m. v \<noteq> Obj m"
  then have "member v k = Undef" by (cases v) (auto simp: member_def)
  moreover have "path_get Undef ks = Undef" by (induction ks) (auto simp: member_def)
  ultimately show ?thesis by simp
qed

lemma member_Some: "\<not> is_proto_name k \<Longrightarrow> member (Obj m) k = (case map_of m k of Some v \<Rightarrow> v | None \<Rightarrow> Undef)"
  by (simp add: member_def get_prop_def split: option.splits)

text \<open>A text of the second dictionary is found in the merged one.\<close>

lemma merge_path_new:
  assumes "path_get (Obj em) ks = Str s" and "own_names ks" and "wf_val (Obj em)"
  shows "path_get (deepmerge t (Obj em)) ks = Str s"
  using assms
proof (induction ks arbitrary: t em)
  case (Cons k ks)
  show ?case
  proof (cases "\<exists>ts. t = Arr ts")
    case True
    then have "deepmerge t (Obj em) = clone (Obj em)" by auto
    with path_get_clone [OF Cons.prems(2), of "Obj em"] Cons.prems(1) show ?thesis by simp
  next
    case False
    have "map_of em k \<noteq> None"
      using Cons.prems(1,2) path_get_not_object [of Undef]
      by (cases ks) (auto simp: member_Some split: option.splits)
    then obtain v where v: "map_of em k = Some v" by blast
    with Cons.prems(1,2) have p: "path_get v ks = Str s" by (simp add: member_Some)
    have wf: "wf_val v" using Cons.prems(2,3) wf_member [of "Obj em" k] v by (simp add: member_Some)
    have m: "member (deepmerge t (Obj em)) k =
        (if own_property t k \<and> isMergeableObject v then deepmerge (member t k) v else clone v)"
      using member_deepmerge [of em k t] Cons.prems(2,3) v False by simp
    show ?thesis
    proof (cases "\<exists>m'. v = Obj m'")
      case True
      with Cons.IH [of _ "member t k"] Cons.prems(2) p wf m path_get_clone [of ks v] show ?thesis by auto
    next
      case False
      with p path_get_not_object [of v] have "ks = [] \<and> v = Str s" by (cases ks) auto
      with m show ?thesis by simp
    qed
  qed
qed simp

text \<open>The second dictionary says nothing about a path: some name of it is missing there.\<close>

fun untouched :: "jsval \<Rightarrow> jsstr list \<Rightarrow> bool" where
  "untouched (Obj em) (k # ks) =
     (case map_of em k of None \<Rightarrow> True | Some v \<Rightarrow> untouched v ks)"
| "untouched v ks = False"

lemma merge_path_old:
  assumes "path_get t ks = Str s" and "untouched e ks" and "own_names ks" and "wf_val e"
  shows "path_get (deepmerge t e) ks = Str s"
  using assms
proof (induction ks arbitrary: t e)
  case (Cons k ks)
  then obtain em where e: "e = Obj em" by (cases e) auto
  obtain tm where t: "t = Obj tm"
    using Cons.prems(1) path_get_not_object [of t k ks] by (cases t) auto
  have m: "member (deepmerge t e) k =
    (case map_of em k of
       None \<Rightarrow> clone (member t k)
     | Some v \<Rightarrow> if own_property t k \<and> isMergeableObject v then deepmerge (member t k) v else clone v)"
    using member_deepmerge [of em k t] Cons.prems(3,4) by (simp add: e t)
  show ?case
  proof (cases "map_of em k")
    case None
    with m Cons.prems(1,3) path_get_clone [of ks "member t k"] show ?thesis by simp
  next
    case (Some v)
    with Cons.prems(2) e have un: "untouched v ks" by simp
    then obtain vm where v: "v = Obj vm" by (cases v) auto
    from un v have "ks \<noteq> []" by (cases ks) auto
    then obtain k' ks' where ks: "ks = k' # ks'" by (cases ks) auto
    have "own_property t k"
    proof (rule ccontr)
      assume "\<not> own_property t k"
      then have "member t k = Undef" using Cons.prems(3) t by (simp add: own_property_def member_Some)
      with Cons.prems(1) ks path_get_not_object [of Undef] show False by simp
    qed
    moreover have "wf_val v"
      using Cons.prems(3,4) wf_member [of e k] Some e by (simp add: member_Some)
    ultimately show ?thesis
      using Cons.IH [of "member t k" v] Cons.prems un m Some v by simp
  qed
qed simp

section \<open>Properties of the merge\<close>

text \<open>
  Claim C37: merging dictionaries. A text that the later dictionary has under a path is what the
  merged one has there, and a text of the earlier one stays when the later one does not have the
  path, for every path that avoids the names of \<open>Object.prototype\<close>.
\<close>

theorem deepmerge_lookup:
  assumes "own_names ks" and "wf_val e"
  shows "((\<exists>em. e = Obj em) \<and> path_get e ks = Str s \<longrightarrow> path_get (deepmerge t e) ks = Str s) \<and>
    (path_get t ks = Str s \<and> untouched e ks \<longrightarrow> path_get (deepmerge t e) ks = Str s)"
  using assms merge_path_new merge_path_old by blast

theorem deepmerge_lookup_witness:
  "path_get (deepmerge (Obj [(js ''a'', Obj [(js ''b'', Str (js ''x'')), (js ''c'', Str (js ''y''))])])
      (Obj [(js ''a'', Obj [(js ''b'', Str (js ''z''))])])) [js ''a'', js ''b''] = Str (js ''z'') \<and>
   path_get (deepmerge (Obj [(js ''a'', Obj [(js ''b'', Str (js ''x'')), (js ''c'', Str (js ''y''))])])
      (Obj [(js ''a'', Obj [(js ''b'', Str (js ''z''))])])) [js ''a'', js ''c''] = Str (js ''y'')"
  using deepmerge_lookup [of "[js ''a'', js ''b'']" "Obj [(js ''a'', Obj [(js ''b'', Str (js ''z''))])]"
      "js ''z''" "Obj [(js ''a'', Obj [(js ''b'', Str (js ''x'')), (js ''c'', Str (js ''y''))])]"]
    deepmerge_lookup [of "[js ''a'', js ''c'']" "Obj [(js ''a'', Obj [(js ''b'', Str (js ''z''))])]"
      "js ''y''" "Obj [(js ''a'', Obj [(js ''b'', Str (js ''x'')), (js ''c'', Str (js ''y''))])]"]
  by (simp add: own_names_def is_proto_name_def proto_names_def member_def get_prop_def)

end
