(* ===== verification/I18n.thy ===== *)
theory I18n
  imports Icu_Format Deepmerge
begin

text \<open>
  The translations of the user interface (\<open>ui/dist/fs/bundle.js\<close>, svelte-i18n): the chain of
  locales a message is looked up in, the lookup with its cache \<open>Kn\<close>, adding messages, and
  formatting a message by its id, and loading a locale: registered loaders (handles whose module is
  the argument \<open>load\<close>), the flush of their queues and the change of locale that waits for it. The
  module variables are the record \<open>i18n\<close>; the promises under way are its field \<open>flushes\<close>. A message id is a
  string; a dictionary that is \<open>null\<close> somewhere on the path raises a TypeError.
\<close>

section \<open>State\<close>

type_synonym formatter = "element list \<times> jsstr option"

text \<open>
  A flush under way: the locale it was started for, the locales whose loaders have not all
  resolved, and whether the delay of the call of \<open>set\<close> that waits for it is still running.
\<close>

record flush =
  fl_id :: nat
  fl_locale :: jsstr
  fl_parts :: "(jsstr \<times> nat list) list"
  fl_timer :: bool

record i18n =
  dict :: props
  lookup_cache :: "(jsstr \<times> props) list"
  fallbackLocale :: "jsstr option"
  current_locale :: "jsstr option"
  formatter_cache :: "(jsstr \<times> formatter) list"
  mh_index :: nat
  queues :: "(jsstr \<times> nat list) list"
  flushes :: "flush list"
  next_flush :: nat
  loading :: bool

definition i18n_init :: i18n where
  "i18n_init = \<lparr>dict = [], lookup_cache = [], fallbackLocale = None, current_locale = None,
     formatter_cache = [], mh_index = 0, queues = [], flushes = [], next_flush = 0,
     loading = False\<rparr>"

section \<open>Locales\<close>

definition getSubLocales :: "jsstr \<Rightarrow> jsstr list" where
  "getSubLocales t =
     (let i = split_on (cu CHR ''-'') t
      in rev (map (\<lambda>n. join_with (js ''-'') (take (n + 1) i)) [0..<length i]))"

text \<open>\<open>new Set\<close> keeps the first of equal elements.\<close>

definition unique :: "'a list \<Rightarrow> 'a list" where
  "unique xs = rev (remdups (rev xs))"

definition getPossibleLocales :: "jsstr \<Rightarrow> jsstr option \<Rightarrow> jsstr list" where
  "getPossibleLocales t e =
     (case e of
        Some f \<Rightarrow> if f = [] then getSubLocales t else unique (getSubLocales t @ getSubLocales f)
      | None \<Rightarrow> getSubLocales t)"

abbreviation chain :: "i18n \<Rightarrow> jsstr \<Rightarrow> jsstr list" where
  "chain st e \<equiv> getPossibleLocales e (fallbackLocale st)"

section \<open>Looking a message up\<close>

definition hasLocaleDictionary :: "i18n \<Rightarrow> jsstr \<Rightarrow> bool" where
  "hasLocaleDictionary st t = has_prop (dict st) t"

text \<open>The index a property name is, if it is one.\<close>

definition array_index :: "jsval list \<Rightarrow> jsstr \<Rightarrow> nat option" where
  "array_index vs k = find (\<lambda>n. js_of_int (int n) = k) [0..<length vs]"

definition has_member :: "jsval \<Rightarrow> jsstr \<Rightarrow> js_error + bool" where
  "has_member r k =
     (case r of
        Obj m \<Rightarrow> Inr (has_prop m k)
      | Arr vs \<Rightarrow> Inr (array_index vs k \<noteq> None \<or> k = js ''length'' \<or> is_proto_name k)
      | Proto p \<Rightarrow> Inr (is_proto_name k)
      | _ \<Rightarrow> Inl (TypeErr ''in''))"

definition get_member :: "jsval \<Rightarrow> jsstr \<Rightarrow> js_error + jsval" where
  "get_member r k =
     (case r of
        Obj m \<Rightarrow> Inr (get_prop m k)
      | Arr vs \<Rightarrow>
          (case array_index vs k of
             Some n \<Rightarrow> Inr (vs ! n)
           | None \<Rightarrow> Inr (if k = js ''length'' then Num (int (length vs)) else get_prop [] k))
      | Proto p \<Rightarrow> Inr (get_prop [] k)
      | _ \<Rightarrow> Inl (TypeErr ''property of null''))"

text \<open>The loop over the names of a dotted id; from the second name on, the rest as one name first.\<close>

fun resolve_path :: "jsval \<Rightarrow> bool \<Rightarrow> jsstr list \<Rightarrow> js_error + jsval" where
  "resolve_path r later [] = Inr r"
| "resolve_path r later (k # ks) =
     (if typeof_object r then
        (case (if later then has_member r (join_with (js ''.'') (k # ks)) else Inr False) of
           Inl x \<Rightarrow> Inl x
         | Inr True \<Rightarrow> get_member r (join_with (js ''.'') (k # ks))
         | Inr False \<Rightarrow>
             (case get_member r k of Inl x \<Rightarrow> Inl x | Inr r' \<Rightarrow> resolve_path r' True ks))
      else resolve_path Undef True ks)"

definition getMessageFromDictionary :: "i18n \<Rightarrow> jsstr \<Rightarrow> jsstr \<Rightarrow> js_error + jsval" where
  "getMessageFromDictionary st t l =
     (if \<not> hasLocaleDictionary st t then Inr Null
      else (let n = js_or (get_prop (dict st) t) Null
            in case has_member n l of
                 Inl x \<Rightarrow> Inl x
               | Inr True \<Rightarrow> get_member n l
               | Inr False \<Rightarrow> resolve_path n False (split_on (cu CHR ''.'') l)))"

definition cache_message :: "i18n \<Rightarrow> jsstr \<Rightarrow> jsstr \<Rightarrow> jsval \<Rightarrow> i18n" where
  "cache_message st t e n =
     (if \<not> truthy_val n then st
      else (let m = (case map_of (lookup_cache st) e of Some m \<Rightarrow> m | None \<Rightarrow> [])
            in st\<lparr>lookup_cache :=
                 AList.update e (if has_prop m t then m else AList.update t n m) (lookup_cache st)\<rparr>))"

fun lookup_chain :: "i18n \<Rightarrow> jsstr list \<Rightarrow> jsstr \<Rightarrow> js_error + jsval" where
  "lookup_chain st [] t = Inr Undef"
| "lookup_chain st (n # ns) t =
     (case getMessageFromDictionary st n t of
        Inl x \<Rightarrow> Inl x
      | Inr l \<Rightarrow> if truthy_val l then Inr l else lookup_chain st ns t)"

definition lookup :: "i18n \<Rightarrow> jsstr \<Rightarrow> jsstr option \<Rightarrow> (js_error + jsval) \<times> i18n" where
  "lookup st t e =
     (case e of
        None \<Rightarrow> (Inr Undef, st)
      | Some e \<Rightarrow>
          (case map_of (lookup_cache st) e of
             Some m \<Rightarrow>
               if has_prop m t then (Inr (get_prop m t), st)
               else (case lookup_chain st (chain st e) t of
                       Inl x \<Rightarrow> (Inl x, st)
                     | Inr l \<Rightarrow> (Inr l, cache_message st t e l))
           | None \<Rightarrow>
               (case lookup_chain st (chain st e) t of
                  Inl x \<Rightarrow> (Inl x, st)
                | Inr l \<Rightarrow> (Inr l, cache_message st t e l))))"

section \<open>Adding messages\<close>

definition addMessages :: "i18n \<Rightarrow> jsstr \<Rightarrow> jsval list \<Rightarrow> i18n" where
  "addMessages st t es =
     st\<lparr>lookup_cache := filter (\<lambda>p. fst p \<noteq> t) (lookup_cache st),
        dict := AList.update t
          (deepmerge_all (js_or (get_prop (dict st) t) (Obj []) # es)) (dict st)\<rparr>"

section \<open>Formatting by id\<close>

text \<open>
  The engine: the \<open>Intl.Locale\<close> that \<open>fT\<close> resolves for a locale (none: the default one of the
  engine) and the formatters for it; the handler of missing messages, if one is configured.
\<close>

record i18n_env =
  resolveLocale :: "jsstr option \<Rightarrow> locale_info"
  intl_for :: "jsstr option \<Rightarrow> intl"
  i18n_formats :: formats
  unicode_engine :: bool
  handleMissingMessage :: "(jsstr \<Rightarrow> jsstr \<Rightarrow> jsstr option \<Rightarrow> jsstr option) option"

definition message_config :: "i18n_env \<Rightarrow> jsstr \<Rightarrow> jsstr option \<Rightarrow> config" where
  "message_config env h loc =
     \<lparr>message = h, ignoreTag = True, locale_of = Some (resolveLocale env loc),
      requiresOtherClause = True, shouldParseSkeletons = True, unicode_regex = unicode_engine env\<rparr>"

text \<open>
  \<open>AT\<close>: memoized on its first argument alone, so the locale a caller passes is dropped and the
  formatter is made for the current locale. A constructor that throws leaves the cache unchanged.
\<close>

definition getMessageFormatter :: "i18n_env \<Rightarrow> i18n \<Rightarrow> jsstr \<Rightarrow> (exn + formatter) \<times> i18n" where
  "getMessageFormatter env st h =
     (case map_of (formatter_cache st) h of
        Some f \<Rightarrow> (Inr f, st)
      | None \<Rightarrow>
          (case parseMessageText False (message_config env h (current_locale st)) (mh_index st) of
             (Inl x, li) \<Rightarrow> (Inl x, st\<lparr>mh_index := li\<rparr>)
           | (Inr es, li) \<Rightarrow>
               (Inr (es, current_locale st),
                st\<lparr>mh_index := li,
                   formatter_cache := AList.update h (es, current_locale st) (formatter_cache st)\<rparr>)))"

datatype i18n_error = NoLocale | LookupError js_error

definition run_formatter :: "i18n_env \<Rightarrow> formatter \<Rightarrow> jsval \<Rightarrow> format_error + jsval" where
  "run_formatter env f v =
     format_message (fst f)
       \<lparr>intl_of = intl_for env (snd f), formats_of = i18n_formats env, values_of = v\<rparr>"

definition missing_message :: "i18n_env \<Rightarrow> jsstr \<Rightarrow> jsstr \<Rightarrow> jsstr option \<Rightarrow> jsstr" where
  "missing_message env t s dflt =
     (case (case handleMissingMessage env of Some f \<Rightarrow> f s t dflt | None \<Rightarrow> None) of
        Some h \<Rightarrow> h
      | None \<Rightarrow> (case dflt of Some d \<Rightarrow> d | None \<Rightarrow> t))"

text \<open>\<open>ST\<close>.\<close>

definition formatMessage ::
  "i18n_env \<Rightarrow> i18n \<Rightarrow> jsstr \<Rightarrow> jsval \<Rightarrow> jsstr option \<Rightarrow> jsstr option \<Rightarrow> (i18n_error + jsval) \<times> i18n"
where
  "formatMessage env st t vals loc dflt =
     (case (case loc of Some s \<Rightarrow> Some s | None \<Rightarrow> current_locale st) of
        None \<Rightarrow> (Inl NoLocale, st)
      | Some s \<Rightarrow>
          (case lookup st t (Some s) of
             (Inl x, st') \<Rightarrow> (Inl (LookupError x), st')
           | (Inr h, st') \<Rightarrow>
               if truthy_val h \<and> \<not> is_string h then (Inr h, st')
               else (let m = (case h of
                                Str w \<Rightarrow> if w = [] then missing_message env t s dflt else w
                              | _ \<Rightarrow> missing_message env t s dflt)
                     in if \<not> truthy_val vals then (Inr (Str m), st')
                        else (case getMessageFormatter env st' m of
                                (Inl x, st'') \<Rightarrow> (Inr (Str m), st'')
                              | (Inr f, st'') \<Rightarrow>
                                  (case run_formatter env f vals of
                                     Inl x \<Rightarrow> (Inr (Str m), st'')
                                   | Inr v \<Rightarrow> (Inr v, st''))))))"

section \<open>Loading a locale\<close>

definition queue_of :: "i18n \<Rightarrow> jsstr \<Rightarrow> nat list" where
  "queue_of st t = (case map_of (queues st) t of Some q \<Rightarrow> q | None \<Rightarrow> [])"

definition hasLocaleQueue :: "i18n \<Rightarrow> jsstr \<Rightarrow> bool" where
  "hasLocaleQueue st t = list_ex (\<lambda>e. queue_of st e \<noteq> []) (chain st t)"

definition registerLocaleLoader :: "i18n \<Rightarrow> jsstr \<Rightarrow> nat \<Rightarrow> i18n" where
  "registerLocaleLoader st t e =
     (if e \<in> set (queue_of st t) then st
      else st\<lparr>dict := (if hasLocaleDictionary st t then dict st else AList.update t (Obj []) (dict st)),
              queues := AList.update t (queue_of st t @ [e]) (queues st)\<rparr>)"

text \<open>
  \<open>vd\<close> for a locale with loaders: the queues of its chain become the parts of a flush; \<open>hT\<close>
  removes the loaders from the queues before it calls them.
\<close>

definition flush_parts :: "i18n \<Rightarrow> jsstr \<Rightarrow> (jsstr \<times> nat list) list" where
  "flush_parts st t =
     filter (\<lambda>p. snd p \<noteq> []) (map (\<lambda>i. (i, queue_of st i)) (chain st t))"

definition take_queues :: "i18n \<Rightarrow> (jsstr \<times> nat list) list \<Rightarrow> i18n" where
  "take_queues st e = st\<lparr>queues := filter (\<lambda>p. fst p \<notin> set (map fst e)) (queues st)\<rparr>"

definition replace_flush :: "flush \<Rightarrow> flush list \<Rightarrow> flush list" where
  "replace_flush f fs = map (\<lambda>g. if fl_id g = fl_id f then f else g) fs"

definition drop_flush :: "flush \<Rightarrow> flush list \<Rightarrow> flush list" where
  "drop_flush f fs = filter (\<lambda>g. fl_id g \<noteq> fl_id f) fs"

text \<open>
  All loaders of the part \<open>n\<close> of a flush have resolved: its messages are added. After the last
  part the flush goes on with the loaders registered meanwhile, if there are any; otherwise the
  locale is set.
\<close>

definition part_loaded :: "(nat \<Rightarrow> jsval) \<Rightarrow> i18n \<Rightarrow> nat \<Rightarrow> jsstr \<Rightarrow> i18n" where
  "part_loaded load st i n =
     (case find (\<lambda>f. fl_id f = i) (flushes st) of
        None \<Rightarrow> st
      | Some f \<Rightarrow>
          (case map_of (fl_parts f) n of
             None \<Rightarrow> st
           | Some ls \<Rightarrow>
               (let st1 = addMessages st n (map load ls);
                    rest = filter (\<lambda>p. fst p \<noteq> n) (fl_parts f);
                    t = fl_locale f
                in if rest \<noteq> [] then
                     st1\<lparr>flushes := replace_flush (f\<lparr>fl_parts := rest\<rparr>) (flushes st1)\<rparr>
                   else if hasLocaleQueue st1 t then
                     (let e = flush_parts st1 t
                      in take_queues
                           (st1\<lparr>flushes := replace_flush (f\<lparr>fl_parts := e\<rparr>) (flushes st1)\<rparr>) e)
                   else
                     st1\<lparr>flushes := drop_flush f (flushes st1), current_locale := Some t,
                         loading := False\<rparr>)))"

definition set_locale :: "i18n \<Rightarrow> jsstr \<Rightarrow> i18n" where
  "set_locale st t =
     (if t \<noteq> [] \<and> list_ex (hasLocaleDictionary st) (chain st t) \<and> hasLocaleQueue st t then
        (let e = flush_parts st t;
             f = \<lparr>fl_id = next_flush st, fl_locale = t, fl_parts = e,
                  fl_timer = (current_locale st \<noteq> None)\<rparr>
         in take_queues
              (st\<lparr>flushes := flushes st @ [f], next_flush := next_flush st + 1,
                  loading := (loading st \<or> current_locale st = None)\<rparr>) e)
      else st\<lparr>current_locale := Some t\<rparr>)"

text \<open>The 200 ms delay of a call of \<open>set\<close> has passed before its flush ended.\<close>

definition loading_delay :: "i18n \<Rightarrow> nat \<Rightarrow> i18n" where
  "loading_delay st i =
     (case find (\<lambda>f. fl_id f = i) (flushes st) of
        Some f \<Rightarrow>
          if fl_timer f
          then st\<lparr>loading := True, flushes := replace_flush (f\<lparr>fl_timer := False\<rparr>) (flushes st)\<rparr>
          else st
      | None \<Rightarrow> st)"

text \<open>\<open>mT\<close> for the options the application passes, which set no handler and no formats.\<close>

definition i18n_setup :: "i18n \<Rightarrow> jsstr option \<Rightarrow> jsstr \<Rightarrow> i18n" where
  "i18n_setup st fallback initial = set_locale (st\<lparr>fallbackLocale := fallback\<rparr>) initial"

definition setupI18n :: "i18n \<Rightarrow> i18n" where
  "setupI18n st = i18n_setup (registerLocaleLoader st (js ''en'') 0) (Some (js ''en'')) (js ''en'')"

text \<open>The messages of the module the application's loader imports.\<close>

definition en_messages :: jsval where
  "en_messages = Obj
     [(js ''No results'', Str (js ''No results'')), (js ''Add row'', Str (js ''Add row'')),
      (js ''Delete item'', Str (js ''Delete item'')), (js ''Edit'', Str (js ''Edit'')),
      (js ''Blocked Keywords'', Str (js ''Blocked Keywords'')),
      (js ''Dashboard'', Str (js ''Dashboard'')), (js ''Logs'', Str (js ''Logs''))]"

text \<open>\<open>l.default || l\<close> for the module of a loader.\<close>

definition module_messages :: "jsval \<Rightarrow> jsval" where
  "module_messages l = js_or (member l (js ''default'')) l"

definition en_module :: jsval where
  "en_module = Obj [(js ''Dashboard'', Str (js ''Dashboard'')), (js ''Edit'', Str (js ''Edit'')),
     (js ''Logs'', Str (js ''Logs'')), (js ''default'', en_messages)]"

datatype i18n_event =
    Register jsstr nat
  | SetLocale jsstr
  | PartLoaded nat jsstr
  | LoadingDelay nat
  | AddMessages jsstr "jsval list"

fun i18n_step :: "(nat \<Rightarrow> jsval) \<Rightarrow> i18n \<Rightarrow> i18n_event \<Rightarrow> i18n" where
  "i18n_step load st (Register t e) = registerLocaleLoader st t e"
| "i18n_step load st (SetLocale t) = set_locale st t"
| "i18n_step load st (PartLoaded i n) = part_loaded load st i n"
| "i18n_step load st (LoadingDelay i) = loading_delay st i"
| "i18n_step load st (AddMessages t es) = addMessages st t es"

end
