(* ===== verification/I18n_Correct.thy ===== *)
theory I18n_Correct
  imports I18n "HOL-Library.Multiset"
begin

text \<open>
  What the translations guarantee: the locale chain, the lookup cache while it is coherent, that
  formatting by id always returns, and that loading a locale ends with the locale set.
\<close>

section \<open>The chain of locales\<close>

lemma join_with_Cons: "ws \<noteq> [] \<Longrightarrow> join_with c (w # ws) = w @ c @ join_with c ws"
  by (cases ws) auto

lemma join_with_take_prefix:
  assumes "n < length ws"
  shows "\<exists>r. join_with c ws = join_with c (take (Suc n) ws) @ r \<and>
    (Suc n < length ws \<longrightarrow> (\<exists>r'. r = c @ r'))"
  using assms
proof (induction ws arbitrary: n)
  case (Cons w ws)
  show ?case
  proof (cases n)
    case 0
    with Cons.prems show ?thesis by (cases ws) auto
  next
    case (Suc k)
    with Cons.prems have k: "k < length ws" by simp
    from Cons.IH [OF k] obtain r where
      r: "join_with c ws = join_with c (take (Suc k) ws) @ r" "Suc k < length ws \<longrightarrow> (\<exists>r'. r = c @ r')" by blast
    have "ws \<noteq> []" "take (Suc k) ws \<noteq> []" using k by auto
    with r Suc show ?thesis by (intro exI [of _ r]) (auto simp: join_with_Cons)
  qed
qed simp

lemma getSubLocales_alt:
  "getSubLocales t =
     (let i = split_on 45 t in rev (map (\<lambda>n. join_with [45] (take (Suc n) i)) [0..<length i]))"
  by (simp add: getSubLocales_def)

lemma sub_locales_prefix:
  assumes "e \<in> set (getSubLocales t)"
  shows "e = t \<or> (\<exists>r. t = e @ 45 # r)"
proof -
  define i where "i = split_on 45 t"
  from assms obtain n where n: "n < length i" and e: "e = join_with [45] (take (Suc n) i)"
    by (auto simp: getSubLocales_alt Let_def i_def)
  have t: "join_with [45] i = t" by (simp add: i_def)
  from join_with_take_prefix [OF n, of "[45]"] obtain r where
    r: "t = e @ r" "Suc n < length i \<longrightarrow> (\<exists>r'. r = [45] @ r')" unfolding t e by blast
  show ?thesis
  proof (cases "Suc n < length i")
    case True
    with r show ?thesis by auto
  next
    case False
    with n have "take (Suc n) i = i" by simp
    with e t show ?thesis by simp
  qed
qed

lemma hd_getSubLocales: "getSubLocales t \<noteq> [] \<and> hd (getSubLocales t) = t"
proof -
  define i where "i = split_on 45 t"
  have "i \<noteq> []" by (simp add: i_def)
  then obtain n where n: "length i = Suc n" by (cases "length i") auto
  have "join_with [45] (take (Suc n) i) = t" using n by (simp add: i_def)
  with n show ?thesis by (simp add: getSubLocales_alt Let_def i_def [symmetric])
qed

lemma join_take_strict:
  assumes "m < n" and "n < length ws" and "c \<noteq> []"
  shows "length (join_with c (take (Suc m) ws)) < length (join_with c (take (Suc n) ws))"
proof -
  define vs where "vs = take (Suc n) ws"
  have l: "length vs = Suc n" using assms(2) by (simp add: vs_def)
  have "m < length vs" using l assms(1) by simp
  from join_with_take_prefix [OF this, of c] l assms(1) obtain r' where
    "join_with c vs = join_with c (take (Suc m) vs) @ c @ r'" by auto
  moreover have "take (Suc m) vs = take (Suc m) ws" using assms(1) by (simp add: vs_def min_def)
  ultimately show ?thesis using assms(3) by (simp add: vs_def)
qed

lemma distinct_getSubLocales: "distinct (getSubLocales t)"
proof -
  define i where "i = split_on 45 t"
  have "inj_on (\<lambda>n. join_with [45] (take (Suc n) i)) {0..<length i}"
  proof (rule inj_onI)
    fix m n
    assume a: "m \<in> {0..<length i}" "n \<in> {0..<length i}"
      "join_with [45] (take (Suc m) i) = join_with [45] (take (Suc n) i)"
    show "m = n"
      using a join_take_strict [of m n i "[45]"] join_take_strict [of n m i "[45]"]
      by (cases m n rule: linorder_cases) auto
  qed
  then show ?thesis by (simp add: getSubLocales_alt Let_def i_def [symmetric] distinct_map)
qed

lemma set_unique [simp]: "set (unique xs) = set xs"
  and distinct_unique [simp]: "distinct (unique xs)"
  by (simp_all add: unique_def)

lemma hd_unique: "xs \<noteq> [] \<Longrightarrow> hd (unique xs) = hd xs"
proof -
  have last: "ys \<noteq> [] \<Longrightarrow> last (remdups ys) = last ys" for ys :: "'a list"
    by (induction ys) (auto simp: remdups_eq_nil_iff)
  assume "xs \<noteq> []"
  then show ?thesis using last [of "rev xs"] by (simp add: unique_def hd_rev last_rev)
qed

lemma distinct_chain: "distinct (getPossibleLocales t f)"
  by (auto simp: getPossibleLocales_def distinct_getSubLocales split: option.splits)

section \<open>The lookup cache\<close>

definition coherent :: "i18n \<Rightarrow> bool" where
  "coherent st \<longleftrightarrow>
     (\<forall>e m t v. map_of (lookup_cache st) e = Some m \<longrightarrow> map_of m t = Some v \<longrightarrow>
        lookup_chain st (chain st e) t = Inr v)"

lemma getMessage_cache:
  "getMessageFromDictionary (st\<lparr>lookup_cache := x\<rparr>) n t = getMessageFromDictionary st n t"
  by (simp add: getMessageFromDictionary_def hasLocaleDictionary_def)

lemma lookup_chain_cache: "lookup_chain (st\<lparr>lookup_cache := x\<rparr>) ns t = lookup_chain st ns t"
  by (induction ns) (auto simp: getMessage_cache split: sum.splits)

lemma cache_message_same:
  "lookup_chain (cache_message st t e n) ns t' = lookup_chain st ns t'"
  "fallbackLocale (cache_message st t e n) = fallbackLocale st"
  by (simp_all add: cache_message_def Let_def lookup_chain_cache)

lemma cache_message_coherent:
  assumes "coherent st" and "lookup_chain st (chain st e) t = Inr v"
  shows "coherent (cache_message st t e v)"
  unfolding coherent_def cache_message_same
proof (intro allI impI)
  fix e' m t' v'
  assume a: "map_of (lookup_cache (cache_message st t e v)) e' = Some m" and b: "map_of m t' = Some v'"
  show "lookup_chain st (chain st e') t' = Inr v'"
  proof (cases "truthy_val v \<and> e' = e")
    case False
    with a b assms(1) show ?thesis
      by (auto simp: cache_message_def Let_def coherent_def update_conv split: if_splits)
  next
    case True
    with a b assms show ?thesis
      by (cases "map_of (lookup_cache st) e")
        (auto simp: cache_message_def Let_def coherent_def update_conv split: if_splits)
  qed
qed

lemma lookup_coherent:
  assumes "coherent st" and "\<not> is_proto_name t"
  shows "fst (lookup st t (Some e)) = lookup_chain st (chain st e) t"
    and "coherent (snd (lookup st t (Some e)))"
  using assms cache_message_coherent [OF assms(1)]
  by (auto simp: lookup_def coherent_def [of st] has_prop_def get_prop_def split: option.splits sum.splits)

lemma lookup_chain_addMessages:
  "u \<notin> set ns \<Longrightarrow> lookup_chain (addMessages st u es) ns t = lookup_chain st ns t"
  by (induction ns)
    (auto simp: addMessages_def getMessageFromDictionary_def hasLocaleDictionary_def split: sum.splits)

lemma addMessages_coherent:
  assumes "coherent st" and "\<forall>e \<in> fst ` set (lookup_cache st). e \<noteq> u \<longrightarrow> u \<notin> set (chain st e)"
  shows "coherent (addMessages st u es)"
proof -
  have fb: "fallbackLocale (addMessages st u es) = fallbackLocale st" by (simp add: addMessages_def)
  show ?thesis
    unfolding coherent_def fb
  proof (intro allI impI)
    fix e m t v
    assume a: "map_of (lookup_cache (addMessages st u es)) e = Some m" and b: "map_of m t = Some v"
    have e: "e \<noteq> u" and c: "map_of (lookup_cache st) e = Some m"
      using a by (auto simp: addMessages_def map_of_filter_key split: if_splits)
    from c have "e \<in> fst ` set (lookup_cache st)" by (force dest: map_of_SomeD)
    with assms e have "u \<notin> set (chain st e)" by blast
    with assms(1) b c show "lookup_chain (addMessages st u es) (chain st e) t = Inr v"
      by (simp add: lookup_chain_addMessages coherent_def)
  qed
qed

section \<open>Dictionaries without null\<close>

fun null_free :: "jsval \<Rightarrow> bool" where
  "null_free Null = False"
| "null_free (Arr vs) = list_all null_free vs"
| "null_free (Obj m) = list_all (\<lambda>kv. null_free (snd kv)) m"
| "null_free v = True"

definition dictionaries_ok :: "i18n \<Rightarrow> bool" where
  "dictionaries_ok st \<longleftrightarrow> (\<forall>(k, v) \<in> set (dict st). null_free v \<and> (\<exists>m. v = Obj m))"

lemma null_free_get_prop: "null_free (Obj m) \<Longrightarrow> null_free (get_prop m k)"
  by (auto simp: get_prop_def list_all_iff split: option.splits dest!: map_of_SomeD)

lemma member_null_free:
  assumes "null_free r" and "typeof_object r"
  shows "\<exists>b. has_member r k = Inr b" and "\<exists>v. get_member r k = Inr v \<and> null_free v"
proof -
  have arr: "array_index vs k = Some n \<Longrightarrow> n < length vs" for vs n
    by (auto simp: array_index_def find_Some_iff)
  show "\<exists>b. has_member r k = Inr b" using assms by (cases r) (auto simp: has_member_def)
  show "\<exists>v. get_member r k = Inr v \<and> null_free v"
    using assms null_free_get_prop [of _ k] arr
    by (cases r) (auto simp: get_member_def list_all_iff get_prop_def [of "[]"] split: option.splits)
qed

lemma resolve_path_ok: "null_free r \<Longrightarrow> \<exists>v. resolve_path r later ks = Inr v"
proof (induction r later ks rule: resolve_path.induct)
  case (2 r later k ks)
  show ?case
  proof (cases "typeof_object r")
    case True
    note m = member_null_free [OF 2(3) True]
    from m(1) [of "join_with (js ''.'') (k # ks)"] m(2) [of "join_with (js ''.'') (k # ks)"] m(2) [of k]
    obtain b v w where "has_member r (join_with (js ''.'') (k # ks)) = Inr b"
      "get_member r (join_with (js ''.'') (k # ks)) = Inr v" "get_member r k = Inr w" "null_free w"
      by blast
    with 2(1) True show ?thesis by (cases b; cases later) auto
  next
    case False
    with 2(2) show ?thesis by simp
  qed
qed simp

lemma getMessage_ok:
  assumes "dictionaries_ok st"
  shows "\<exists>v. getMessageFromDictionary st t l = Inr v"
proof (cases "hasLocaleDictionary st t")
  case False
  then show ?thesis by (simp add: getMessageFromDictionary_def)
next
  case True
  define n where "n = js_or (get_prop (dict st) t) Null"
  have "(\<exists>m. n = Obj m \<and> null_free n) \<or> n = Proto t"
  proof (cases "map_of (dict st) t")
    case None
    with True show ?thesis by (simp add: n_def js_or_def hasLocaleDictionary_def has_prop_def get_prop_def)
  next
    case (Some v)
    with assms have "null_free v \<and> (\<exists>m. v = Obj m)"
      by (auto simp: dictionaries_ok_def dest!: map_of_SomeD)
    with Some show ?thesis by (auto simp: n_def js_or_def get_prop_def)
  qed
  then have nf: "null_free n" and h: "\<exists>b v. has_member n l = Inr b \<and> get_member n l = Inr v"
    by (auto simp: has_member_def get_member_def)
  from h obtain b v where "has_member n l = Inr b" "get_member n l = Inr v" by blast
  with resolve_path_ok [OF nf, of False "split_on (cu CHR ''.'') l"] True show ?thesis
    unfolding getMessageFromDictionary_def Let_def n_def [symmetric] by (cases b) auto
qed

lemma lookup_ok:
  assumes "dictionaries_ok st"
  shows "\<exists>v. fst (lookup st t e) = Inr v"
proof -
  have "\<exists>v. lookup_chain st ns t = Inr v" for ns
  proof (induction ns)
    case (Cons n ns)
    with getMessage_ok [OF assms, of n t] show ?case by auto
  qed simp
  then show ?thesis
    unfolding lookup_def by (auto split: option.splits sum.splits) (metis sum.simps(4))+
qed

section \<open>Loading\<close>

lemma addMessages_same [simp]:
  "flushes (addMessages st t es) = flushes st" "queues (addMessages st t es) = queues st"
  "fallbackLocale (addMessages st t es) = fallbackLocale st"
  "current_locale (addMessages st t es) = current_locale st"
  by (simp_all add: addMessages_def)

lemma queue_addMessages [simp]: "hasLocaleQueue (addMessages st t es) u = hasLocaleQueue st u"
  by (simp add: hasLocaleQueue_def queue_of_def)

lemma find_replace_flush:
  assumes "find (\<lambda>g. fl_id g = fl_id f) fs \<noteq> None"
  shows "find (\<lambda>g. fl_id g = fl_id f) (replace_flush f fs) = Some f"
  using assms by (induction fs) (auto simp: replace_flush_def)

lemma part_loaded_rest:
  assumes "find (\<lambda>f. fl_id f = i) (flushes st) = Some f" and "map_of (fl_parts f) n = Some ls"
    and "filter (\<lambda>p. fst p \<noteq> n) (fl_parts f) = rest" and "rest \<noteq> []"
  shows "part_loaded load st i n =
    (addMessages st n (map load ls))\<lparr>flushes := replace_flush (f\<lparr>fl_parts := rest\<rparr>) (flushes st)\<rparr>"
  using assms by (simp add: part_loaded_def Let_def)

lemma flush_completes:
  assumes "find (\<lambda>f. fl_id f = i) (flushes st) = Some f" and "distinct (map fst (fl_parts f))"
    and "mset ns = mset (map fst (fl_parts f))" and "ns \<noteq> []"
    and "\<not> hasLocaleQueue st (fl_locale f)"
  shows "current_locale (run_events (i18n_step load) st (map (PartLoaded i) ns)) = Some (fl_locale f) \<and>
    find (\<lambda>f. fl_id f = i) (flushes (run_events (i18n_step load) st (map (PartLoaded i) ns))) = None"
  using assms
proof (induction ns arbitrary: st f)
  case (Cons n ns)
  have i: "fl_id f = i" using Cons.prems(1) by (auto simp: find_Some_iff)
  have "n \<in> set (map fst (fl_parts f))" using Cons.prems(3) by (metis list.set_intros(1) mset_eq_setD)
  then obtain ls where ls: "map_of (fl_parts f) n = Some ls"
    by (metis (no_types, lifting) map_of_eq_None_iff list.set_map option.exhaust)
  define rest where "rest = filter (\<lambda>p. fst p \<noteq> n) (fl_parts f)"
  have rest: "mset ns = mset (map fst rest)" "distinct (map fst rest)"
  proof -
    have "mset (map fst rest) = mset (filter (\<lambda>k. k \<noteq> n) (map fst (fl_parts f)))"
      by (simp add: rest_def filter_map o_def)
    also have "\<dots> = filter_mset (\<lambda>k. k \<noteq> n) (mset (n # ns))" by (simp only: mset_filter Cons.prems(3))
    also have "\<dots> = mset ns"
    proof -
      have "distinct (n # ns)" using Cons.prems(2,3) by (metis mset_eq_imp_distinct_iff)
      then show ?thesis by (auto simp: filter_mset_eq_conv)
    qed
    finally show "mset ns = mset (map fst rest)" by simp
    show "distinct (map fst rest)" unfolding rest_def by (rule distinct_map_filter_key [OF Cons.prems(2)])
  qed
  show ?case
  proof (cases "rest = []")
    case True
    with rest(1) have "ns = []" by simp
    moreover have "find (\<lambda>f. fl_id f = i) (drop_flush f (flushes st)) = None"
      by (auto simp: drop_flush_def find_None_iff i)
    ultimately show ?thesis
      using Cons.prems(1,5) ls True by (simp add: part_loaded_def Let_def rest_def)
  next
    case False
    define f' where "f' = f\<lparr>fl_parts := rest\<rparr>"
    define st' where "st' = part_loaded load st i n"
    have st': "st' = (addMessages st n (map load ls))\<lparr>flushes := replace_flush f' (flushes st)\<rparr>"
      using part_loaded_rest [OF Cons.prems(1) ls] False by (simp add: st'_def f'_def rest_def)
    have "find (\<lambda>g. fl_id g = i) (flushes st') = Some f'"
      using find_replace_flush [of f' "flushes st"] Cons.prems(1) by (simp add: st' f'_def i)
    moreover have "\<not> hasLocaleQueue st' (fl_locale f')"
      using Cons.prems(5) by (simp add: st' f'_def hasLocaleQueue_def queue_of_def)
    moreover have "ns \<noteq> []" using rest(1) False by auto
    ultimately show ?thesis
      using Cons.IH [of st' f'] rest by (simp add: st'_def [symmetric] f'_def)
  qed
qed simp

definition flush_ids_ok :: "i18n \<Rightarrow> bool" where
  "flush_ids_ok st \<longleftrightarrow> (\<forall>f \<in> set (flushes st). fl_id f < next_flush st)"

lemma flush_ids_replace:
  "(\<forall>h \<in> set (replace_flush g fs). fl_id h < k) \<longleftrightarrow> (\<forall>h \<in> set fs. fl_id h < k)"
proof -
  have "map fl_id (replace_flush g fs) = map fl_id fs" by (simp add: replace_flush_def)
  then have "fl_id ` set (replace_flush g fs) = fl_id ` set fs" by (metis list.set_map)
  then show ?thesis by (metis (no_types, lifting) image_iff)
qed

lemma flush_ids_frame [simp]:
  "flush_ids_ok (addMessages st t es) = flush_ids_ok st"
  "flush_ids_ok (take_queues st e) = flush_ids_ok st"
  "next_flush (addMessages st t es) = next_flush st"
  by (simp_all add: flush_ids_ok_def addMessages_def take_queues_def)

lemma flush_ids_step: "flush_ids_ok st \<Longrightarrow> flush_ids_ok (i18n_step load st ev)"
proof (cases ev)
  case (Register t e)
  moreover assume "flush_ids_ok st"
  ultimately show ?thesis by (simp add: registerLocaleLoader_def flush_ids_ok_def)
next
  case (SetLocale t)
  moreover assume "flush_ids_ok st"
  ultimately show ?thesis
    by (auto simp: set_locale_def Let_def) (auto simp: flush_ids_ok_def less_Suc_eq)
next
  case (PartLoaded i n)
  moreover assume "flush_ids_ok st"
  ultimately show ?thesis
    by (auto simp: part_loaded_def Let_def split: option.splits)
      (auto simp: flush_ids_ok_def flush_ids_replace drop_flush_def)
next
  case (LoadingDelay i)
  moreover assume "flush_ids_ok st"
  ultimately show ?thesis
    by (auto simp: loading_delay_def flush_ids_ok_def flush_ids_replace split: option.splits)
qed simp

interpretation i18n: event_machine "i18n_init\<lparr>fallbackLocale := fb\<rparr>" "i18n_step load" flush_ids_ok
  for fb load
  by unfold_locales (simp_all add: flush_ids_step, simp add: flush_ids_ok_def i18n_init_def)

lemma find_snoc: "find P xs = None \<Longrightarrow> P x \<Longrightarrow> find P (xs @ [x]) = Some x"
  by (induction xs) (auto split: if_splits)

lemma flush_parts_facts:
  shows "distinct (map fst (flush_parts st t))"
    and "hasLocaleQueue st t \<Longrightarrow> flush_parts st t \<noteq> []"
    and "\<not> hasLocaleQueue (take_queues st (flush_parts st t)) t"
proof -
  show "distinct (map fst (flush_parts st t))"
    unfolding flush_parts_def
    by (rule distinct_map_filter_key) (simp add: o_def distinct_chain)
  show "hasLocaleQueue st t \<Longrightarrow> flush_parts st t \<noteq> []"
    by (auto simp: flush_parts_def hasLocaleQueue_def list_ex_iff filter_empty_conv)
  have "queue_of (take_queues st (flush_parts st t)) e = []" if "e \<in> set (chain st t)" for e
  proof (cases "queue_of st e = []")
    case True
    with map_of_filter_fst [of "\<lambda>k. k \<notin> fst ` set (flush_parts st t)" "queues st" e] show ?thesis
      by (auto simp: take_queues_def queue_of_def split: option.splits if_splits)
  next
    case False
    with that have "e \<in> set (map fst (flush_parts st t))"
      by (force simp: flush_parts_def)
    then have "map_of (filter (\<lambda>p. fst p \<notin> set (map fst (flush_parts st t))) (queues st)) e = None"
      using map_of_filter_fst [of "\<lambda>k. k \<notin> set (map fst (flush_parts st t))" "queues st" e] by simp
    then show ?thesis by (simp add: take_queues_def queue_of_def)
  qed
  then show "\<not> hasLocaleQueue (take_queues st (flush_parts st t)) t"
    by (simp add: hasLocaleQueue_def list_ex_iff take_queues_def)
qed

section \<open>The start of the application\<close>

lemma en_chain: "getPossibleLocales (js ''en'') (Some (js ''en'')) = [js ''en'']"
  by (simp add: getPossibleLocales_def getSubLocales_alt unique_def)

lemma en_own_name [simp]: "\<not> is_proto_name (js ''en'')" "js ''en'' \<noteq> []"
  by (simp_all add: is_proto_name_def proto_names_def)

lemma setup_state:
  "setupI18n i18n_init = i18n_init\<lparr>dict := [(js ''en'', Obj [])], fallbackLocale := Some (js ''en''),
     flushes := [\<lparr>fl_id = 0, fl_locale = js ''en'', fl_parts = [(js ''en'', [0])], fl_timer = False\<rparr>],
     next_flush := 1, loading := True\<rparr>"
  by (simp add: setupI18n_def i18n_setup_def registerLocaleLoader_def set_locale_def i18n_init_def
      queue_of_def hasLocaleDictionary_def hasLocaleQueue_def flush_parts_def take_queues_def en_chain
      has_prop_def del: js_Cons)

lemma english_merged:
  "deepmerge_all [Obj [], module_messages en_module] = en_messages"
  by (simp add: deepmerge_all_def module_messages_def en_module_def en_messages_def member_def get_prop_def
      js_or_def clone_props_def propertyIsUnsafe_def propertyIsOnObject_def own_property_def has_prop_def
      is_proto_name_def proto_names_def)

lemma english_ready:
  "part_loaded (\<lambda>l. module_messages en_module) (setupI18n i18n_init) 0 (js ''en'') =
     i18n_init\<lparr>dict := [(js ''en'', en_messages)], fallbackLocale := Some (js ''en''),
       current_locale := Some (js ''en''), next_flush := 1\<rparr>"
  unfolding setup_state
  by (simp add: part_loaded_def addMessages_def hasLocaleQueue_def queue_of_def en_chain
      get_prop_def js_or_def english_merged drop_flush_def i18n_init_def Let_def del: js_Cons)

lemma english_lookup:
  assumes "map_of m k = Some v" and "truthy_val v"
  shows "fst (lookup (i18n_init\<lparr>dict := [(js ''en'', Obj m)], fallbackLocale := Some (js ''en''),
       current_locale := Some (js ''en''), next_flush := 1\<rparr>) k (Some (js ''en''))) = Inr v"
  using assms
  by (simp add: lookup_def i18n_init_def en_chain getMessageFromDictionary_def hasLocaleDictionary_def
      has_prop_def get_prop_def js_or_def has_member_def get_member_def del: js_Cons)

section \<open>Properties of the translations\<close>

text \<open>
  The locales a message is looked up in start with the locale itself, have no
  repetition, and are the locale cut at its hyphens followed by the fallback locale cut at its
  own.
\<close>

theorem locale_chain_correct:
  "hd (getPossibleLocales t f) = t \<and> distinct (getPossibleLocales t f) \<and>
   (\<forall>e. e \<in> set (getPossibleLocales t f) \<longleftrightarrow>
      e \<in> set (getSubLocales t) \<or> (\<exists>g. f = Some g \<and> g \<noteq> [] \<and> e \<in> set (getSubLocales g)))"
proof -
  have "hd (getPossibleLocales t f) = t"
    using hd_getSubLocales [of t] hd_unique [of "getSubLocales t @ getSubLocales (the f)"]
    by (auto simp: getPossibleLocales_def split: option.splits)
  then show ?thesis
    by (auto simp: distinct_chain) (auto simp: getPossibleLocales_def split: option.splits if_splits)
qed

text \<open>
  A sub-locale is the locale itself or a part of it that ends before a hyphen.
\<close>

theorem sub_locale_is_prefix:
  "list_all (\<lambda>e. e = t \<or> (\<exists>r. t = e @ 45 # r)) (getSubLocales t)"
  by (simp add: list_all_iff sub_locales_prefix)

text \<open>
  Claim C32: the cache of lookups is transparent while it is coherent. From a coherent state a
  lookup returns what the dictionaries hold for the first locale of the chain that has the
  message, and leaves the cache coherent; adding messages to a locale keeps it coherent as long as
  no other locale with cached messages falls back to that one.
\<close>

theorem lookup_cache_transparent:
  assumes "coherent st" and "\<not> is_proto_name t"
    and "\<forall>e \<in> fst ` set (lookup_cache st). e \<noteq> u \<longrightarrow> u \<notin> set (chain st e)"
  shows "fst (lookup st t (Some e)) = lookup_chain st (chain st e) t \<and>
    coherent (snd (lookup st t (Some e))) \<and> coherent (addMessages st u es)"
  using lookup_coherent [OF assms(1,2)] addMessages_coherent [OF assms(1,3)] by simp

theorem lookup_cache_transparent_witness:
  "fst (lookup i18n_init (js ''a'') (Some (js ''en''))) =
     lookup_chain i18n_init (chain i18n_init (js ''en'')) (js ''a'') \<and>
   coherent (snd (lookup i18n_init (js ''a'') (Some (js ''en'')))) \<and>
   coherent (addMessages i18n_init (js ''en'') [en_messages])"
  by (rule lookup_cache_transparent)
    (simp_all add: coherent_def i18n_init_def is_proto_name_def proto_names_def)

text \<open>
  Messages added to a locale do not reach a more specific locale that has cached a lookup of them.
\<close>

theorem lookup_cache_stale:
  "let st = snd (lookup (addMessages i18n_init (js ''en'') [Obj [(js ''a'', Str (js ''x''))]])
                  (js ''a'') (Some (js ''en-US'')));
       st' = addMessages st (js ''en'') [Obj [(js ''a'', Str (js ''y''))]]
   in fst (lookup st' (js ''a'') (Some (js ''en-US''))) = Inr (Str (js ''x'')) \<and>
      lookup_chain st' (chain st' (js ''en-US'')) (js ''a'') = Inr (Str (js ''y''))"
  by (simp add: Let_def lookup_def addMessages_def i18n_init_def getPossibleLocales_def getSubLocales_alt
      getMessageFromDictionary_def hasLocaleDictionary_def has_prop_def get_prop_def js_or_def
      has_member_def get_member_def cache_message_def is_proto_name_def proto_names_def deepmerge_all_def
      clone_props_def propertyIsUnsafe_def propertyIsOnObject_def own_property_def)

text \<open>
  Formatting a message by its id always returns. With a locale, and dictionaries that
  are objects without \<open>null\<close>, no lookup, parse or formatting error leaves \<open>$format\<close>, whatever the
  id, the values, the engine and the handler of missing messages.
\<close>

theorem formatMessage_returns:
  assumes "dictionaries_ok st" and "loc \<noteq> None \<or> current_locale st \<noteq> None"
  shows "\<exists>v. fst (formatMessage env st t vals loc dflt) = Inr v"
proof -
  from assms(2) obtain s where s: "(case loc of Some s \<Rightarrow> Some s | None \<Rightarrow> current_locale st) = Some s"
    by (cases loc) auto
  obtain r st' where l: "lookup st t (Some s) = (r, st')" by fastforce
  with lookup_ok [OF assms(1), of t "Some s"] obtain h where "r = Inr h" by auto
  then show ?thesis
    unfolding formatMessage_def s option.case l prod.case
    by (auto simp: Let_def split: prod.splits sum.splits)
qed

definition sample_i18n_env :: i18n_env where
  "sample_i18n_env =
     \<lparr>resolveLocale = (\<lambda>l. \<lparr>hourCycle = None, hourCycles = None, language = ''en'', max_region = None\<rparr>),
      intl_for = (\<lambda>l. intl_of (sample_env Undef)), i18n_formats = default_formats,
      unicode_engine = True, handleMissingMessage = None\<rparr>"

theorem formatMessage_returns_witness:
  "\<exists>v. fst (formatMessage sample_i18n_env (i18n_init\<lparr>dict := [(js ''en'', en_messages)]\<rparr>)
         (js ''Edit'') Undef (Some (js ''en'')) None) = Inr v"
  by (rule formatMessage_returns) (simp_all add: dictionaries_ok_def en_messages_def)

text \<open>
  Claim C10: loading a locale ends with the locale set. In every state the events can lead to, a
  locale with registered loaders and a dictionary in its chain, once chosen, becomes the current
  locale when the loaders of its chain have resolved, in whatever order they do.
\<close>

theorem locale_load_completes:
  assumes "st = run_events (i18n_step load) (i18n_init\<lparr>fallbackLocale := fb\<rparr>) es"
    and "t \<noteq> []" and "list_ex (hasLocaleDictionary st) (chain st t)" and "hasLocaleQueue st t"
    and "mset ns = mset (map fst (flush_parts st t))"
  shows "current_locale (run_events (i18n_step load) (set_locale st t)
    (map (PartLoaded (next_flush st)) ns)) = Some t"
proof -
  define st1 where "st1 = set_locale st t"
  define f where "f = \<lparr>fl_id = next_flush st, fl_locale = t, fl_parts = flush_parts st t,
    fl_timer = (current_locale st \<noteq> None)\<rparr>"
  have st1: "st1 = take_queues (st\<lparr>flushes := flushes st @ [f], next_flush := next_flush st + 1,
      loading := (loading st \<or> current_locale st = None)\<rparr>) (flush_parts st t)"
    using assms(2-4) by (simp add: st1_def set_locale_def Let_def f_def)
  have "flush_ids_ok st" using i18n.inv_run [of load fb es] assms(1) by simp
  then have "find (\<lambda>g. fl_id g = next_flush st) (flushes st) = None"
    by (auto simp: flush_ids_ok_def find_None_iff)
  then have "find (\<lambda>g. fl_id g = next_flush st) (flushes st1) = Some f"
    by (simp add: st1 take_queues_def find_snoc f_def)
  moreover have "\<not> hasLocaleQueue st1 (fl_locale f)"
    using flush_parts_facts(3) [of st t]
    by (simp add: st1 f_def take_queues_def hasLocaleQueue_def queue_of_def)
  moreover have "ns \<noteq> []" using assms(5) flush_parts_facts(2) [OF assms(4)] by auto
  ultimately show ?thesis
    using flush_completes [of "next_flush st" st1 f ns load] flush_parts_facts(1) [of st t] assms(5)
    by (simp add: f_def st1_def)
qed

theorem locale_load_completes_witness:
  "current_locale (run_events (i18n_step (\<lambda>l. en_messages))
     (set_locale (run_events (i18n_step (\<lambda>l. en_messages)) (i18n_init\<lparr>fallbackLocale := None\<rparr>)
        [Register (js ''en'') 0]) (js ''en''))
     (map (PartLoaded 0) [js ''en''])) = Some (js ''en'')"
  using locale_load_completes [OF refl, of "js ''en''" "\<lambda>l. en_messages" None "[Register (js ''en'') 0]"
      "[js ''en'']"]
  by (simp add: registerLocaleLoader_def queue_of_def hasLocaleDictionary_def hasLocaleQueue_def
      flush_parts_def getPossibleLocales_def getSubLocales_alt i18n_init_def has_prop_def)

text \<open>
  The start of the application. Setting the translations up leaves the locale unset and
  the loading flag raised; when the module of English messages has been loaded the locale is
  English, the flag is down and every message of the module is found under its id.
\<close>

theorem setup_loads_english:
  "current_locale (setupI18n i18n_init) = None \<and> loading (setupI18n i18n_init) \<and>
   (let st = part_loaded (\<lambda>l. module_messages en_module) (setupI18n i18n_init) 0 (js ''en'')
    in current_locale st = Some (js ''en'') \<and> \<not> loading st \<and> flushes st = [] \<and>
       list_all (\<lambda>k. fst (lookup st (js k) (Some (js ''en''))) = Inr (Str (js k)))
         [''No results'', ''Add row'', ''Delete item'', ''Edit'', ''Blocked Keywords'',
          ''Dashboard'', ''Logs''])"
proof -
  have "fst (lookup (i18n_init\<lparr>dict := [(js ''en'', en_messages)], fallbackLocale := Some (js ''en''),
       current_locale := Some (js ''en''), next_flush := 1\<rparr>) (js k) (Some (js ''en''))) = Inr (Str (js k))"
    if "k \<in> set [''No results'', ''Add row'', ''Delete item'', ''Edit'', ''Blocked Keywords'',
      ''Dashboard'', ''Logs'']" for k
    unfolding en_messages_def by (rule english_lookup) (use that in auto)
  moreover have "current_locale (setupI18n i18n_init) = None" "loading (setupI18n i18n_init)"
    unfolding setup_state by (simp_all add: i18n_init_def)
  moreover have "\<not> loading i18n_init" "flushes i18n_init = []" by (simp_all add: i18n_init_def)
  ultimately show ?thesis
    unfolding english_ready Let_def list_all_iff by (simp del: js_Cons list.set)
qed

text \<open>
  The formatter of a text is made for the locale that is current when the text is first formatted
  and kept for every later locale.
\<close>

theorem formatter_keeps_first_locale:
  assumes "formatter_cache st = []" and "getMessageFormatter env (st\<lparr>current_locale := Some l1\<rparr>) h = (Inr f, st1)"
  shows "snd f = Some l1 \<and> fst (getMessageFormatter env (st1\<lparr>current_locale := Some l2\<rparr>) h) = Inr f"
  using assms by (auto simp: getMessageFormatter_def split: prod.splits sum.splits)

end
