(* ===== verification/JSON_Text.thy ===== *)
theory JSON_Text
  imports JS_Value
begin

text \<open>
  What the user interface uses of the language around its HTTP calls: the exceptions its handlers
  catch, reading a property of a value that came from the server, and the text form of values
  (\<open>JSON.stringify\<close> and \<open>JSON.parse\<close>). Numbers are the integers of the value model, so
  a numeral with a fraction or an exponent is not read. The theorem of this theory is that a
  printed value reads back.
\<close>

datatype js_exn = TypeError | SyntaxError | FetchError

text \<open>
  \<open>v.k\<close> for the property names the sources read from server data, which no primitive value and
  no array has.
\<close>

fun prop_of :: "jsval \<Rightarrow> jsstr \<Rightarrow> js_exn + jsval" where
  "prop_of Undef k = Inl TypeError"
| "prop_of Null k = Inl TypeError"
| "prop_of (Obj m) k = Inr (get_prop m k)"
| "prop_of _ k = Inr Undef"

text \<open>\<open>v[0]\<close>.\<close>

fun first_of :: "jsval \<Rightarrow> js_exn + jsval" where
  "first_of Undef = Inl TypeError"
| "first_of Null = Inl TypeError"
| "first_of (Arr vs) = Inr (case vs of [] \<Rightarrow> Undef | v # _ \<Rightarrow> v)"
| "first_of (Obj m) = Inr (get_prop m (js ''0''))"
| "first_of (Str s) = Inr (case s of [] \<Rightarrow> Undef | c # _ \<Rightarrow> Str [c])"
| "first_of _ = Inr Undef"

text \<open>\<open>v.map\<close> exists on arrays only; calling it on anything else is a type error.\<close>

fun elements_of :: "jsval \<Rightarrow> js_exn + jsval list" where
  "elements_of (Arr vs) = Inr vs"
| "elements_of _ = Inl TypeError"

definition bind_exn :: "js_exn + 'a \<Rightarrow> ('a \<Rightarrow> js_exn + 'b) \<Rightarrow> js_exn + 'b" where
  "bind_exn r f = (case r of Inl x \<Rightarrow> Inl x | Inr v \<Rightarrow> f v)"

lemma bind_exn_simps [simp]:
  "bind_exn (Inl x) f = Inl x" "bind_exn (Inr v) f = f v"
  by (simp_all add: bind_exn_def)

primrec map_exn :: "('a \<Rightarrow> js_exn + 'b) \<Rightarrow> 'a list \<Rightarrow> js_exn + 'b list" where
  "map_exn f [] = Inr []"
| "map_exn f (x # xs) = bind_exn (f x) (\<lambda>y. bind_exn (map_exn f xs) (\<lambda>ys. Inr (y # ys)))"

lemma map_exn_Inr: "(\<And>x. x \<in> set xs \<Longrightarrow> f x = Inr (g x)) \<Longrightarrow> map_exn f xs = Inr (map g xs)"
  by (induction xs) auto

lemma map_exn_length: "map_exn f xs = Inr ys \<Longrightarrow> length ys = length xs"
  by (induction xs arbitrary: ys) (auto simp: bind_exn_def split: sum.splits)

section \<open>Printing\<close>

definition hex_digit :: "nat \<Rightarrow> code_unit" where
  "hex_digit n = of_nat (if n < 10 then 48 + n else 87 + n)"

definition unicode_escape :: "code_unit \<Rightarrow> jsstr" where
  "unicode_escape c =
     (let n = unat c
      in [0x5C, 0x75, hex_digit (n div 4096 mod 16), hex_digit (n div 256 mod 16),
          hex_digit (n div 16 mod 16), hex_digit (n mod 16)])"

definition is_high :: "code_unit \<Rightarrow> bool" where
  "is_high c \<longleftrightarrow> 0xD800 \<le> c \<and> c \<le> 0xDBFF"

definition is_low :: "code_unit \<Rightarrow> bool" where
  "is_low c \<longleftrightarrow> 0xDC00 \<le> c \<and> c \<le> 0xDFFF"

definition quote_unit :: "code_unit \<Rightarrow> jsstr" where
  "quote_unit c =
     (if c = 0x08 then [0x5C, 0x62]
      else if c = 0x09 then [0x5C, 0x74]
      else if c = 0x0A then [0x5C, 0x6E]
      else if c = 0x0C then [0x5C, 0x66]
      else if c = 0x0D then [0x5C, 0x72]
      else if c = 0x22 then [0x5C, 0x22]
      else if c = 0x5C then [0x5C, 0x5C]
      else if c < 0x20 then unicode_escape c
      else [c])"

text \<open>A surrogate is printed as it is only as a half of a pair.\<close>

fun quote_units :: "jsstr \<Rightarrow> jsstr" where
  "quote_units [] = []"
| "quote_units [c] = (if is_high c \<or> is_low c then unicode_escape c else quote_unit c)"
| "quote_units (c # d # s) =
     (if is_high c \<and> is_low d then c # d # quote_units s
      else (if is_high c \<or> is_low c then unicode_escape c else quote_unit c)
             @ quote_units (d # s))"

definition quote_string :: "jsstr \<Rightarrow> jsstr" where
  "quote_string s = 0x22 # quote_units s @ [0x22]"

text \<open>Values that print as nothing are left out of objects and are \<open>null\<close> in arrays.\<close>

fun printable :: "jsval \<Rightarrow> bool" where
  "printable Undef = False"
| "printable (Fun f) = False"
| "printable (Proto k) = (k = js ''__proto__'')"
| "printable _ = True"

fun json_print :: "jsval \<Rightarrow> jsstr" where
  "json_print Undef = js ''null''"
| "json_print Null = js ''null''"
| "json_print (JBool b) = (if b then js ''true'' else js ''false'')"
| "json_print (Num n) = js_of_int n"
| "json_print NaN = js ''null''"
| "json_print (Str s) = quote_string s"
| "json_print (Arr vs) = 0x5B # join_with [0x2C] (map json_print vs) @ [0x5D]"
| "json_print (Obj m) =
     0x7B # join_with [0x2C]
       (map (\<lambda>(k, v). quote_string k @ 0x3A # json_print v) (filter (printable \<circ> snd) m)) @ [0x7D]"
| "json_print (Fun f) = js ''null''"
| "json_print (Proto k) = (if k = js ''__proto__'' then js ''{}'' else js ''null'')"

definition JSON_stringify :: "jsval \<Rightarrow> jsval" where
  "JSON_stringify v = (if printable v then Str (json_print v) else Undef)"

section \<open>Reading\<close>

fun skip_ws :: "jsstr \<Rightarrow> jsstr" where
  "skip_ws (c # s) = (if c \<in> {0x20, 0x09, 0x0A, 0x0D} then skip_ws s else c # s)"
| "skip_ws [] = []"

definition hex_value :: "code_unit \<Rightarrow> nat option" where
  "hex_value c =
     (if 48 \<le> c \<and> c \<le> 57 then Some (unat c - 48)
      else if 97 \<le> c \<and> c \<le> 102 then Some (unat c - 87)
      else if 65 \<le> c \<and> c \<le> 70 then Some (unat c - 55)
      else None)"

fun read_hex4 :: "jsstr \<Rightarrow> (code_unit \<times> jsstr) option" where
  "read_hex4 (a # b # c # d # s) =
     (case (hex_value a, hex_value b, hex_value c, hex_value d) of
        (Some w, Some x, Some y, Some z) \<Rightarrow>
          Some (of_nat (w * 4096 + x * 256 + y * 16 + z), s)
      | _ \<Rightarrow> None)"
| "read_hex4 _ = None"

definition simple_escape :: "code_unit \<Rightarrow> code_unit option" where
  "simple_escape c =
     map_of [(0x22, 0x22), (0x5C, 0x5C), (0x2F, 0x2F), (0x62, 0x08), (0x66, 0x0C),
             (0x6E, 0x0A), (0x72, 0x0D), (0x74, 0x09)] c"

text \<open>The characters of a string literal up to the closing quote.\<close>

function read_units :: "jsstr \<Rightarrow> (jsstr \<times> jsstr) option" where
  "read_units [] = None"
| "read_units (c # s) =
     (if c = 0x22 then Some ([], s)
      else if c = 0x5C then
        (case s of
           [] \<Rightarrow> None
         | d # t \<Rightarrow>
             if d = 0x75
             then (case t of
                     w # x # y # z # t' \<Rightarrow>
                       (case read_hex4 [w, x, y, z] of
                          Some (u, _) \<Rightarrow> map_option (\<lambda>(us, r). (u # us, r)) (read_units t')
                        | None \<Rightarrow> None)
                   | _ \<Rightarrow> None)
             else (case simple_escape d of
                     Some u \<Rightarrow> map_option (\<lambda>(us, r). (u # us, r)) (read_units t)
                   | None \<Rightarrow> None))
      else if c < 0x20 then None
      else map_option (\<lambda>(us, r). (c # us, r)) (read_units s))"
  by pat_completeness auto
termination by (relation "measure length") auto

definition is_digit :: "code_unit \<Rightarrow> bool" where
  "is_digit c \<longleftrightarrow> 48 \<le> c \<and> c \<le> 57"

definition digits_value :: "jsstr \<Rightarrow> int" where
  "digits_value ds = foldl (\<lambda>a d. a * 10 + (int (unat d) - 48)) 0 ds"

text \<open>An unsigned integer numeral: one digit 0, or digits that do not start with 0.\<close>

definition read_nat :: "jsstr \<Rightarrow> (int \<times> jsstr) option" where
  "read_nat s =
     (let ds = takeWhile is_digit s; r = dropWhile is_digit s
      in if ds = [] \<or> (hd ds = 48 \<and> length ds > 1) \<or> (r \<noteq> [] \<and> hd r \<in> {0x2E, 0x65, 0x45})
         then None else Some (digits_value ds, r))"

definition read_word :: "jsstr \<Rightarrow> jsval \<Rightarrow> jsstr \<Rightarrow> (jsval \<times> jsstr) option" where
  "read_word w v s = (if take (length w) s = w then Some (v, drop (length w) s) else None)"

fun read_value :: "nat \<Rightarrow> jsstr \<Rightarrow> (jsval \<times> jsstr) option"
  and read_elems :: "nat \<Rightarrow> jsstr \<Rightarrow> (jsval list \<times> jsstr) option"
  and read_members :: "nat \<Rightarrow> props \<Rightarrow> jsstr \<Rightarrow> (props \<times> jsstr) option" where
  "read_value 0 s = None"
| "read_value (Suc n) s =
     (case skip_ws s of
        [] \<Rightarrow> None
      | c # t \<Rightarrow>
          if c = 0x22 then map_option (\<lambda>(us, r). (Str us, r)) (read_units t)
          else if c = 0x5B then
            (case skip_ws t of
               d # r \<Rightarrow> if d = 0x5D then Some (Arr [], r)
                        else map_option (\<lambda>(vs, r). (Arr vs, r)) (read_elems n t)
             | [] \<Rightarrow> None)
          else if c = 0x7B then
            (case skip_ws t of
               d # r \<Rightarrow> if d = 0x7D then Some (Obj [], r)
                        else map_option (\<lambda>(m, r). (Obj m, r)) (read_members n [] t)
             | [] \<Rightarrow> None)
          else if c = 0x2D then map_option (\<lambda>(i, r). (Num (- i), r)) (read_nat t)
          else if is_digit c then map_option (\<lambda>(i, r). (Num i, r)) (read_nat (c # t))
          else if c = 0x74 then read_word (js ''rue'') (JBool True) t
          else if c = 0x66 then read_word (js ''alse'') (JBool False) t
          else if c = 0x6E then read_word (js ''ull'') Null t
          else None)"
| "read_elems 0 s = None"
| "read_elems (Suc n) s =
     (case read_value n s of
        None \<Rightarrow> None
      | Some (v, r) \<Rightarrow>
          (case skip_ws r of
             [] \<Rightarrow> None
           | c # t \<Rightarrow> if c = 0x5D then Some ([v], t)
                      else if c = 0x2C then map_option (\<lambda>(vs, r). (v # vs, r)) (read_elems n t)
                      else None))"
| "read_members 0 m s = None"
| "read_members (Suc n) m s =
     (case skip_ws s of
        [] \<Rightarrow> None
      | q # s' \<Rightarrow>
          if q \<noteq> 0x22 then None
          else (case read_units s' of
                  None \<Rightarrow> None
                | Some (k, r) \<Rightarrow>
                    (case skip_ws r of
                       [] \<Rightarrow> None
                     | c # t \<Rightarrow>
                         if c \<noteq> 0x3A then None
                         else (case read_value n t of
                                 None \<Rightarrow> None
                               | Some (v, r') \<Rightarrow>
                                   (case skip_ws r' of
                                      [] \<Rightarrow> None
                                    | e # u \<Rightarrow>
                                        if e = 0x7D then Some (AList.update k v m, u)
                                        else if e = 0x2C
                                        then read_members n (AList.update k v m) u
                                        else None)))))"

text \<open>\<open>String(v)\<close>; the texts of functions are not JSON, whatever they are.\<close>

fun js_text :: "jsval \<Rightarrow> jsstr" where
  "js_text Undef = js ''undefined''"
| "js_text Null = js ''null''"
| "js_text (JBool b) = (if b then js ''true'' else js ''false'')"
| "js_text (Num n) = js_of_int n"
| "js_text NaN = js ''NaN''"
| "js_text (Str s) = s"
| "js_text (Arr vs) =
     join_with [0x2C] (map (\<lambda>v. if nullish v then [] else js_text v) vs)"
| "js_text (Obj m) = js ''[object Object]''"
| "js_text (Fun f) = js ''function () { [native code] }''"
| "js_text (Proto k) =
     (if k = js ''__proto__'' then js ''[object Object]'' else js ''function () { [native code] }'')"

text \<open>The fuel is twice the length of the text, which bounds the depth of the recursion.\<close>

definition JSON_parse :: "jsval \<Rightarrow> js_exn + jsval" where
  "JSON_parse v =
     (let s = js_text v
      in case read_value (2 * length s) s of
           Some (w, r) \<Rightarrow> if skip_ws r = [] then Inr w else Inl SyntaxError
         | None \<Rightarrow> Inl SyntaxError)"

section \<open>A printed value reads back\<close>

fun json_value :: "jsval \<Rightarrow> bool" where
  "json_value Null = True"
| "json_value (JBool b) = True"
| "json_value (Num n) = True"
| "json_value (Str s) = True"
| "json_value (Arr vs) = list_all json_value vs"
| "json_value (Obj m) = (distinct (map fst m) \<and> list_all (\<lambda>(k, v). json_value v) m)"
| "json_value _ = False"

lemma hex_value_digit: "n < 16 \<Longrightarrow> hex_value (hex_digit n) = Some n"
proof -
  assume "n < 16"
  then have "n \<in> set [0..<16]" by simp
  moreover have "\<forall>n \<in> set [0..<16]. hex_value (hex_digit n) = Some n" by code_simp
  ultimately show ?thesis by blast
qed

lemma hex4_sum:
  fixes n :: nat
  assumes "n < 65536"
  shows "n div 4096 mod 16 * 4096 + n div 256 mod 16 * 256 + n div 16 mod 16 * 16 + n mod 16 = n"
proof -
  have "n div 256 = n div 16 div 16" and "n div 4096 = n div 16 div 16 div 16"
    by (simp_all add: div_mult2_eq [symmetric])
  moreover have "n div 16 div 16 div 16 < 16" using assms by (simp add: div_mult2_eq [symmetric])
  moreover have "n = 16 * (n div 16) + n mod 16" by simp
  moreover have "n div 16 = 16 * (n div 16 div 16) + n div 16 mod 16" by simp
  moreover have "n div 16 div 16 = 16 * (n div 16 div 16 div 16) + n div 16 div 16 mod 16" by simp
  ultimately show ?thesis by (simp only: mod_less)
qed

lemma read_unicode_escape:
  "read_hex4 [hex_digit (unat c div 4096 mod 16), hex_digit (unat c div 256 mod 16),
      hex_digit (unat c div 16 mod 16), hex_digit (unat c mod 16)] = Some (c, [])"
proof -
  have "unat c < 65536" using unsigned_less [of c] by simp
  then have c: "of_nat (unat c div 4096 mod 16 * 4096 + unat c div 256 mod 16 * 256
      + unat c div 16 mod 16 * 16 + unat c mod 16) = c"
    by (simp only: hex4_sum) simp
  have "\<And>k :: nat. k mod 16 < 16" by simp
  then show ?thesis
    by (simp only: read_hex4.simps hex_value_digit prod.case option.case c)
qed

lemma read_units_escape:
  "read_units (unicode_escape c @ s) = map_option (\<lambda>(us, r). (c # us, r)) (read_units s)"
  by (simp add: unicode_escape_def Let_def read_unicode_escape del: read_hex4.simps)

lemma read_units_quote_unit:
  "read_units (quote_unit c @ s) = map_option (\<lambda>(us, r). (c # us, r)) (read_units s)"
  by (simp add: quote_unit_def read_units_escape simple_escape_def)

lemma surrogate_plain: "is_high c \<or> is_low c \<Longrightarrow> c \<noteq> 0x22 \<and> c \<noteq> 0x5C \<and> \<not> c < 0x20"
  by (auto simp: is_high_def is_low_def dest: le_less_trans)

lemma read_units_plain:
  "is_high c \<or> is_low c \<Longrightarrow>
     read_units (c # s) = map_option (\<lambda>(us, r). (c # us, r)) (read_units s)"
  using surrogate_plain [of c] by simp

lemma read_units_quoted: "read_units (quote_units s @ 0x22 # r) = Some (s, r)"
  by (induction s rule: quote_units.induct)
    (simp_all add: read_units_plain read_units_escape read_units_quote_unit del: read_units.simps(2),
     simp_all)


lemma digits_of_digit: "d \<in> set (digits_of n) \<Longrightarrow> is_digit d"
proof (induction n rule: digits_of.induct)
  case (1 n)
  have small: "is_digit (of_nat (48 + k))" if "k < 10" for k :: nat
  proof -
    from that have "k \<in> set [0..<10]" by simp
    moreover have "\<forall>k \<in> set [0..<10]. is_digit (of_nat (48 + k))" by code_simp
    ultimately show ?thesis by blast
  qed
  from 1 small [of n] small [of "n mod 10"] show ?case
    by (subst (asm) (2) digits_of.simps) (auto split: if_splits)
qed

lemma digits_of_ne [simp]: "digits_of n \<noteq> []"
  by (subst digits_of.simps) simp

lemma digit_value: "k < 10 \<Longrightarrow> uint (48 + of_nat k :: code_unit) - 48 = int k"
proof -
  assume "k < 10"
  then have "k \<in> set [0..<10]" by simp
  moreover have "\<forall>k \<in> set [0..<10]. uint (48 + of_nat k :: code_unit) - 48 = int k" by code_simp
  ultimately show ?thesis by blast
qed

lemma digits_value_digits_of: "digits_value (digits_of n) = int n"
proof (induction n rule: digits_of.induct)
  case (1 n)
  show ?case
  proof (cases "n < 10")
    case True
    then show ?thesis by (simp add: digits_of.simps [of n] digits_value_def digit_value)
  next
    case False
    have "digits_value (digits_of n) = digits_value (digits_of (n div 10)) * 10 + int (n mod 10)"
      using False digit_value [of "n mod 10"]
      by (simp add: digits_of.simps [of n] digits_value_def)
    also have "\<dots> = int (n div 10 * 10 + n mod 10)" by (simp only: 1 [OF False] of_nat_add of_nat_mult of_nat_numeral)
    finally show ?thesis by simp
  qed
qed

lemma digits_of_head: "hd (digits_of n) = 48 \<Longrightarrow> length (digits_of n) = 1"
proof (induction n rule: digits_of.induct)
  case (1 n)
  show ?case
  proof (cases "n < 10")
    case True
    then show ?thesis by (simp add: digits_of.simps [of n])
  next
    case False
    then have "hd (digits_of (n div 10)) = 48"
      using 1(2) by (simp add: digits_of.simps [of n])
    with 1(1) [OF False] have "length (digits_of (n div 10)) = 1" by simp
    moreover have "0 < n div 10" using False by simp
    ultimately show ?thesis
      using digits_value_digits_of [of "n div 10"] \<open>hd (digits_of (n div 10)) = 48\<close>
      by (cases "digits_of (n div 10)") (auto simp: digits_value_def)
  qed
qed

definition number_end :: "jsstr \<Rightarrow> bool" where
  "number_end r \<longleftrightarrow> r = [] \<or> (\<not> is_digit (hd r) \<and> hd r \<notin> {0x2E, 0x65, 0x45})"

lemma read_nat_digits: "number_end r \<Longrightarrow> read_nat (digits_of n @ r) = Some (int n, r)"
proof -
  assume r: "number_end r"
  have t: "takeWhile is_digit (digits_of n @ r) = digits_of n"
    using digits_of_digit [of _ n] r
    by (cases r) (auto simp: number_end_def takeWhile_append takeWhile_eq_all_conv)
  have d: "dropWhile is_digit (digits_of n @ r) = r"
    using digits_of_digit [of _ n] r
    by (cases r) (auto simp: number_end_def dropWhile_append)
  show ?thesis
    using r digits_of_head [of n]
    by (auto simp: read_nat_def t d Let_def digits_value_digits_of number_end_def)
qed


lemma skip_ws_other: "s = [] \<or> hd s \<notin> {0x20, 0x09, 0x0A, 0x0D} \<Longrightarrow> skip_ws s = s"
  by (cases s) auto

lemma digit_head: "is_digit (hd (digits_of n))"
  by (rule digits_of_digit [of _ n]) simp

lemma is_digit_plain: "is_digit c \<Longrightarrow> c \<notin> {0x20, 0x09, 0x0A, 0x0D, 0x22, 0x5B, 0x7B, 0x2D, 0x5D}"
  by (auto simp: is_digit_def)

lemma print_head:
  "json_print v \<noteq> [] \<and> hd (json_print v) \<notin> {0x20, 0x09, 0x0A, 0x0D, 0x5D}"
  using digit_head is_digit_plain
  by (cases v) (auto simp: quote_string_def js_of_int_def)

lemma skip_ws_print [simp]: "skip_ws (json_print v @ r) = json_print v @ r"
  using print_head [of v] by (intro skip_ws_other) auto

lemma read_digits_value:
  "number_end r \<Longrightarrow> read_value (Suc n) (digits_of k @ r) = Some (Num (int k), r)"
proof -
  assume r: "number_end r"
  obtain d ds where ds: "digits_of k = d # ds" by (cases "digits_of k") auto
  with digit_head [of k] have "is_digit d" by simp
  with is_digit_plain [OF this] read_nat_digits [OF r, of k] show ?thesis by (simp add: ds)
qed

lemma read_int_value: "number_end r \<Longrightarrow> read_value (Suc n) (js_of_int k @ r) = Some (Num k, r)"
proof (cases "k < 0")
  case True
  assume "number_end r"
  with True show ?thesis by (simp add: js_of_int_def read_nat_digits)
next
  case False
  assume "number_end r"
  with False show ?thesis
    by (simp add: js_of_int_def read_digits_value del: read_value.simps)
qed

lemma read_elems_print:
  assumes "\<And>v n r. v \<in> set vs \<Longrightarrow> 2 * length (json_print v) \<le> n \<Longrightarrow> number_end r \<Longrightarrow>
      read_value n (json_print v @ r) = Some (v, r)"
    and "vs \<noteq> []" and "2 * length (join_with [0x2C] (map json_print vs)) + 2 \<le> n"
  shows "read_elems n (join_with [0x2C] (map json_print vs) @ 0x5D # r) = Some (vs, r)"
  using assms
proof (induction vs arbitrary: n)
  case Nil
  then show ?case by simp
next
  case (Cons v vs)
  from Cons.prems(3) obtain k where n: "n = Suc k" by (cases n) auto
  show ?case
  proof (cases vs)
    case Nil
    have "read_value k (json_print v @ 0x5D # r) = Some (v, 0x5D # r)"
      using Cons.prems(3) by (intro Cons.prems(1)) (auto simp: n Nil number_end_def is_digit_def)
    then show ?thesis by (simp add: n Nil)
  next
    case (Cons w ws)
    let ?rest = "join_with [0x2C] (map json_print vs) @ 0x5D # r"
    have "read_value k (json_print v @ 0x2C # ?rest) = Some (v, 0x2C # ?rest)"
      using Cons.prems(3) by (intro Cons.prems(1)) (auto simp: n Cons number_end_def is_digit_def)
    moreover have "read_elems k ?rest = Some (vs, r)"
      using Cons.prems(3) by (intro Cons.IH Cons.prems(1)) (auto simp: n Cons)
    ultimately show ?thesis by (simp add: n Cons)
  qed
qed


lemma AList_update_fresh: "k \<notin> fst ` set m \<Longrightarrow> AList.update k v m = m @ [(k, v)]"
  by (induction m) auto

definition member_text :: "jsstr \<times> jsval \<Rightarrow> jsstr" where
  "member_text p = quote_string (fst p) @ 0x3A # json_print (snd p)"

lemma read_members_one:
  assumes "\<And>n r. 2 * length (json_print v) \<le> n \<Longrightarrow> number_end r \<Longrightarrow>
      read_value n (json_print v @ r) = Some (v, r)"
    and "2 * length (json_print v) \<le> n" and "c = 0x7D \<or> c = 0x2C"
  shows "read_members (Suc n) m (member_text (k, v) @ c # r) =
    (if c = 0x7D then Some (AList.update k v m, r) else read_members n (AList.update k v m) r)"
proof -
  have "read_value n (json_print v @ c # r) = Some (v, c # r)"
    using assms(2,3) by (intro assms(1)) (auto simp: number_end_def is_digit_def)
  with assms(3) show ?thesis
    by (auto simp: member_text_def quote_string_def read_units_quoted)
qed

lemma read_members_print:
  assumes "\<And>v n r. v \<in> snd ` set ps \<Longrightarrow> 2 * length (json_print v) \<le> n \<Longrightarrow> number_end r \<Longrightarrow>
      read_value n (json_print v @ r) = Some (v, r)"
    and "ps \<noteq> []" and "2 * length (join_with [0x2C] (map member_text ps)) + 2 \<le> n"
    and "distinct (map fst (m @ ps))"
  shows "read_members n m (join_with [0x2C] (map member_text ps) @ 0x7D # r) = Some (m @ ps, r)"
  using assms
proof (induction ps arbitrary: n m)
  case Nil
  then show ?case by simp
next
  case (Cons p ps)
  obtain k v where p: "p = (k, v)" by (cases p)
  from Cons.prems(3) obtain j where n: "n = Suc j" by (cases n) auto
  have up: "AList.update k v m = m @ [p]"
    using Cons.prems(4) by (simp add: p AList_update_fresh)
  have len: "length (json_print v) \<le> length (member_text p)" by (simp add: p member_text_def)
  note one = read_members_one [OF Cons.prems(1), of v]
  show ?case
  proof (cases ps)
    case Nil
    with Cons.prems(3) len have "2 * length (json_print v) \<le> j" by (simp add: n)
    with one [of j "0x7D" m k r] show ?thesis by (simp add: n p Nil up)
  next
    case (Cons q qs)
    let ?rest = "join_with [0x2C] (map member_text ps) @ 0x7D # r"
    have "read_members j (m @ [p]) ?rest = Some ((m @ [p]) @ ps, r)"
      using Cons.prems(3,4) by (intro Cons.IH Cons.prems(1)) (auto simp: n Cons)
    moreover have "2 * length (json_print v) \<le> j"
      using Cons.prems(3) len by (simp add: n Cons)
    ultimately show ?thesis
      using one [of j "0x2C" m k ?rest] by (simp add: n p Cons up)
  qed
qed

lemma json_value_printable: "json_value v \<Longrightarrow> printable v"
  by (cases v) auto

lemma join_member_head:
  "ps \<noteq> [] \<Longrightarrow> \<exists>t. join_with [0x2C] (map member_text ps) = 0x22 # t"
  by (cases ps rule: remdups_adj.cases) (auto simp: member_text_def quote_string_def)

lemma join_print_head:
  "vs \<noteq> [] \<Longrightarrow> \<exists>c t. join_with [0x2C] (map json_print vs) = c # t \<and>
     c \<notin> {0x20, 0x09, 0x0A, 0x0D, 0x5D}"
  using print_head [of "hd vs"]
  by (cases vs rule: remdups_adj.cases) (auto simp: neq_Nil_conv)

lemma fuel_left: "2 * length (json_print v) \<le> n \<Longrightarrow> \<exists>j. n = Suc j"
  using print_head [of v] by (cases n) auto

lemma read_value_print:
  "json_value v \<Longrightarrow> 2 * length (json_print v) \<le> n \<Longrightarrow> number_end r \<Longrightarrow>
     read_value n (json_print v @ r) = Some (v, r)"
proof (induction v arbitrary: n r)
  case Null
  from fuel_left [OF Null.prems(2)] show ?case by (auto simp: read_word_def is_digit_def)
next
  case (JBool b)
  from fuel_left [OF JBool.prems(2)] show ?case by (auto simp: read_word_def is_digit_def)
next
  case (Num k)
  then obtain j where "n = Suc j" using fuel_left by blast
  with Num show ?case by (simp add: read_int_value del: read_value.simps)
next
  case (Str s)
  then obtain j where "n = Suc j" by (cases n) (auto simp: quote_string_def)
  then show ?case by (simp add: quote_string_def read_units_quoted)
next
  case (Arr vs)
  then obtain j where n: "n = Suc j" by (cases n) auto
  show ?case
  proof (cases "vs = []")
    case True
    then show ?thesis by (simp add: n)
  next
    case False
    from join_print_head [OF False] obtain c t
      where h: "join_with [0x2C] (map json_print vs) = c # t" "c \<notin> {0x20, 0x09, 0x0A, 0x0D, 0x5D}"
      by blast
    have "read_elems j (join_with [0x2C] (map json_print vs) @ 0x5D # r) = Some (vs, r)"
      using Arr.prems False by (intro read_elems_print Arr.IH) (auto simp: n list_all_iff)
    with h show ?thesis by (simp add: n)
  qed
next
  case (Obj ps)
  then obtain j where n: "n = Suc j" by (cases n) auto
  have all: "filter (printable \<circ> snd) ps = ps"
    using Obj.prems(1) json_value_printable by (fastforce simp: list_all_iff filter_id_conv)
  have print_ps: "json_print (Obj ps) = 0x7B # join_with [0x2C] (map member_text ps) @ [0x7D]"
    by (simp add: all member_text_def [abs_def] case_prod_beta')
  show ?case
  proof (cases "ps = []")
    case True
    then show ?thesis by (simp add: n)
  next
    case False
    from join_member_head [OF False] obtain t
      where h: "join_with [0x2C] (map member_text ps) = 0x22 # t" by blast
    have "read_members j [] (join_with [0x2C] (map member_text ps) @ 0x7D # r) = Some ([] @ ps, r)"
    proof (rule read_members_print)
      fix v k s
      assume "v \<in> snd ` set ps" and b: "2 * length (json_print v) \<le> k" "number_end s"
      then obtain p where p: "p \<in> set ps" "v \<in> Basic_BNFs.snds p"
        and "json_value v" using Obj.prems(1) by (fastforce simp: list_all_iff)
      then show "read_value k (json_print v @ s) = Some (v, s)" using Obj.IH [OF p] b by simp
    qed (use Obj.prems False in
          \<open>auto simp: n print_ps list_all_iff simp del: json_print.simps\<close>)
    with h show ?thesis by (simp only: print_ps) (simp add: n)
  qed
qed simp_all

theorem json_round_trip: "json_value v \<Longrightarrow> JSON_parse (JSON_stringify v) = Inr v"
  using read_value_print [of v "2 * length (json_print v)" "[]"]
  by (simp add: JSON_parse_def JSON_stringify_def json_value_printable number_end_def)

end
