(* ===== verification/Api_Client.thy ===== *)
theory Api_Client
  imports JSON_Text
begin

text \<open>
  The client of the administration API (\<open>ui/src/lib/api.ts\<close>) and the store that holds it
  (\<open>ui/src/store/apistore.ts\<close>). A call is split where the code awaits: the request that
  \<open>fetch\<close> is handed, and what the code does when the promise settles. A reply is a failed
  fetch or a status with the body, which may not be JSON. The browser's \<open>localStorage\<close> is
  a map; \<open>published\<close> counts the values the store has sent to its subscribers.
\<close>

section \<open>State\<close>

type_synonym storage = "jsstr \<rightharpoonup> jsstr"

datatype unauthorized_hook = NoOp | CallLogout

record api =
  headers :: props
  unauthorized :: unauthorized_hook
  loggedIn :: jsval
  jwtToken :: jsval

record store =
  localStorage :: storage
  api :: api
  published :: nat

datatype reply = Failed | Reply nat "jsval option"

record fetch_call =
  call_url :: jsstr
  call_init :: props

definition baseURL :: jsstr where
  "baseURL = js ''/api''"

definition jwt_key :: jsstr where
  "jwt_key = js ''jwt''"

definition getItem :: "storage \<Rightarrow> jsstr \<Rightarrow> jsval" where
  "getItem st k = (case st k of Some v \<Rightarrow> Str v | None \<Rightarrow> Null)"

definition bearer :: "storage \<Rightarrow> jsval" where
  "bearer st = Str (js ''Bearer '' @ js_text (getItem st jwt_key))"

section \<open>The class\<close>

definition AppAPI :: "storage \<Rightarrow> api" where
  "AppAPI st =
     \<lparr>headers = [(js ''Authorization'', bearer st)], unauthorized = NoOp,
      loggedIn = Undef, jwtToken = Undef\<rparr>"

definition setLoggedIn :: "jsval \<Rightarrow> api \<Rightarrow> api" where
  "setLoggedIn tok a = a\<lparr>jwtToken := tok, loggedIn := JBool True\<rparr>"

definition setLoggedOut :: "store \<Rightarrow> store" where
  "setLoggedOut s =
     s\<lparr>localStorage := (localStorage s)(jwt_key := None),
       api := (api s)\<lparr>loggedIn := JBool False\<rparr>\<rparr>"

definition onUnauthorized :: "unauthorized_hook \<Rightarrow> api \<Rightarrow> api" where
  "onUnauthorized callMe a = a\<lparr>unauthorized := callMe\<rparr>"

definition setHeaders :: "props \<Rightarrow> api \<Rightarrow> api" where
  "setHeaders hs a = a\<lparr>headers := hs\<rparr>"

text \<open>The header object is updated in place and shared by all requests.\<close>

definition getHeaders :: "store \<Rightarrow> store \<times> props" where
  "getHeaders s =
     (let hs = AList.update (js ''Authorization'') (bearer (localStorage s)) (headers (api s))
      in (s\<lparr>api := (api s)\<lparr>headers := hs\<rparr>\<rparr>, hs))"

section \<open>The store\<close>

text \<open>
  Every update returns the object it was given, which the store takes as changed, so each one
  is published.
\<close>

definition update_store :: "(store \<Rightarrow> store) \<Rightarrow> store \<Rightarrow> store" where
  "update_store f s = (f s)\<lparr>published := Suc (published s)\<rparr>"

definition loginSuccesful :: "jsval \<Rightarrow> store \<Rightarrow> store" where
  "loginSuccesful tok = update_store (\<lambda>s. s\<lparr>api := setLoggedIn tok (api s)\<rparr>)"

definition logout :: "store \<Rightarrow> store" where
  "logout = update_store setLoggedOut"

definition refresh :: "store \<Rightarrow> store" where
  "refresh = update_store (\<lambda>s. s)"

definition store_init :: "storage \<Rightarrow> store" where
  "store_init st =
     \<lparr>localStorage = st, api = onUnauthorized CallLogout (AppAPI st), published = 0\<rparr>"

definition onUnauthorizedcallMe :: "store \<Rightarrow> store" where
  "onUnauthorizedcallMe s =
     (case unauthorized (api s) of NoOp \<Rightarrow> s | CallLogout \<Rightarrow> logout s)"

section \<open>Requests\<close>

definition spread :: "props \<Rightarrow> props \<Rightarrow> props" where
  "spread m extra = foldl (\<lambda>m (k, v). AList.update k v m) m extra"

definition doCallRaw :: "jsstr \<Rightarrow> jsstr \<Rightarrow> jsval \<Rightarrow> store \<Rightarrow> store \<times> fetch_call" where
  "doCallRaw endpoint method dataTosend s =
     (let (s, hs) = getHeaders s;
          additionalHeaders = [(js ''method'', Str method), (js ''headers'', Obj hs)]
      in (s, \<lparr>call_url = baseURL @ endpoint,
              call_init =
                (if method = js ''post''
                 then AList.update (js ''body'') (JSON_stringify dataTosend) additionalHeaders
                 else additionalHeaders)\<rparr>))"

definition doCall :: "jsstr \<Rightarrow> jsstr \<Rightarrow> jsval \<Rightarrow> props \<Rightarrow> store \<Rightarrow> store \<times> fetch_call" where
  "doCall endpoint method dataTosend extraHeaders s =
     (let (s, hs) = getHeaders s;
          additionalHeaders =
            spread [(js ''method'', Str method), (js ''headers'', Obj hs)] extraHeaders
      in (s, \<lparr>call_url = baseURL @ endpoint,
              call_init =
                (if method = js ''post'' \<or> method = js ''put''
                 then AList.update (js ''body'') (JSON_stringify dataTosend) additionalHeaders
                 else additionalHeaders)\<rparr>))"

text \<open>
  What \<open>doCall\<close> does when \<open>fetch\<close> settles: only the statuses 401 and 200 are told
  apart from the rest, and any other status resolves to \<open>undefined\<close>.
\<close>

definition doCall_settled :: "reply \<Rightarrow> store \<Rightarrow> store \<times> (js_exn + jsval)" where
  "doCall_settled r s =
     (case r of
        Failed \<Rightarrow> (s, Inl FetchError)
      | Reply status body \<Rightarrow>
          if status = 401 then (onUnauthorizedcallMe s, Inr Undef)
          else if status = 200
          then (s, case body of Some v \<Rightarrow> Inr v | None \<Rightarrow> Inl SyntaxError)
          else (s, Inr Undef))"

definition verifyToken :: "store \<Rightarrow> store \<times> fetch_call" where
  "verifyToken s = doCallRaw (js ''/auth/verify'') (js ''get'') (Obj []) s"

definition verifyToken_settled :: "reply \<Rightarrow> store \<Rightarrow> store \<times> (js_exn + bool)" where
  "verifyToken_settled r s =
     (case r of
        Failed \<Rightarrow> (s, Inl FetchError)
      | Reply status body \<Rightarrow>
          if status = 200
          then (let tok = js_or (getItem (localStorage s) jwt_key) (Str [])
                in (s\<lparr>api := setLoggedIn tok ((api s)\<lparr>jwtToken := tok\<rparr>)\<rparr>, Inr True))
          else (s, Inr False))"

definition getSetting :: "jsstr \<Rightarrow> store \<Rightarrow> store \<times> fetch_call" where
  "getSetting settingName s = doCall (js ''/settings/'' @ settingName) (js ''get'') (Obj []) [] s"

definition deleteUser :: "jsstr \<Rightarrow> store \<Rightarrow> store \<times> fetch_call" where
  "deleteUser username s = doCall (js ''/users/'' @ username) (js ''delete'') (Obj []) [] s"

definition getUsers :: "store \<Rightarrow> store \<times> fetch_call" where
  "getUsers s = doCall (js ''/users'') (js ''get'') (Obj []) [] s"

definition createUser :: "jsval \<Rightarrow> store \<Rightarrow> store \<times> fetch_call" where
  "createUser userData s = doCall (js ''/users'') (js ''post'') userData [] s"

definition updateUser :: "jsval \<Rightarrow> store \<Rightarrow> store \<times> fetch_call" where
  "updateUser user s = doCall (js ''/users'') (js ''put'') user [] s"

definition setSetting ::
  "jsstr \<Rightarrow> jsval \<Rightarrow> (jsval \<Rightarrow> jsval) option \<Rightarrow> store \<Rightarrow> store \<times> fetch_call" where
  "setSetting settingName settingValue mapper s =
     (let datatosend =
            (case mapper of
               Some f \<Rightarrow> f settingValue
             | None \<Rightarrow> Obj [(js ''key'', Str settingName), (js ''value'', settingValue)])
      in doCall (js ''/settings/'' @ settingName) (js ''post'') datatosend [] s)"

definition setSetting_settled :: "reply \<Rightarrow> store \<Rightarrow> store \<times> (js_exn + jsval)" where
  "setSetting_settled r s =
     (case doCall_settled r s of
        (s, Inr json) \<Rightarrow> (s, Inr (JBool True))
      | (s, Inl err) \<Rightarrow> (s, Inl err))"

end
