(* ===== verification/Numbered_Rows.thy ===== *)
theory Numbered_Rows
  imports JS_Prelude
begin

text \<open>
  The interface that the notification store, the filter editor and the table of DNS records
  share: a list of rows with numbers, where a new row gets the length of the list plus one and a
  row is deleted by its number. The contract is stated once as a locale, with its consequences: a
  list loaded from the server is numbered densely, appending keeps that, deleting a row of a
  densely numbered list removes exactly that row, and deleting any row but the last and then
  appending gives two rows the same number.
\<close>

definition numbered :: "(int \<Rightarrow> 'd \<Rightarrow> 'r) \<Rightarrow> 'd list \<Rightarrow> 'r list" where
  "numbered f ds = map (\<lambda>(i, d). f (int i + 1) d) (enumerate 0 ds)"

definition dense :: "('r \<Rightarrow> int) \<Rightarrow> 'r list \<Rightarrow> bool" where
  "dense num rs \<longleftrightarrow> map num rs = map (\<lambda>i. int i + 1) [0..<length rs]"

lemma dense_Nil [simp]: "dense num []"
  by (simp add: dense_def)

lemma dense_nth: "dense num rs \<Longrightarrow> i < length rs \<Longrightarrow> num (rs ! i) = int i + 1"
proof -
  assume "dense num rs" and i: "i < length rs"
  then have "map num rs ! i = map (\<lambda>i. int i + 1) [0..<length rs] ! i" by (simp add: dense_def)
  with i show ?thesis by simp
qed

lemma dense_last: "dense num rs \<Longrightarrow> rs \<noteq> [] \<Longrightarrow> num (last rs) = int (length rs)"
  by (simp add: last_conv_nth dense_nth of_nat_diff Suc_leI)

lemma filter_last_key:
  "distinct (map f xs) \<Longrightarrow> xs \<noteq> [] \<Longrightarrow> filter (\<lambda>x. f x \<noteq> f (last xs)) xs = butlast xs"
proof (induction xs rule: rev_induct)
  case (snoc x xs)
  then have "f x \<notin> f ` set xs" by simp
  then have "\<forall>y \<in> set xs. f y \<noteq> f x" by (metis image_eqI)
  then show ?case by (simp add: filter_id_conv)
qed simp

lemma dense_distinct: "dense num rs \<Longrightarrow> distinct (map num rs)"
  by (simp add: dense_def distinct_map inj_on_def)

lemma dense_nums: "dense num rs \<Longrightarrow> num ` set rs = {1 .. int (length rs)}"
proof -
  assume "dense num rs"
  then have "num ` set rs = (\<lambda>i. int i + 1) ` {0..<length rs}"
    unfolding dense_def by (metis set_map set_upt)
  also have "\<dots> = {1 .. int (length rs)}"
  proof
    show "{1 .. int (length rs)} \<subseteq> (\<lambda>i. int i + 1) ` {0..<length rs}"
    proof
      fix k assume "k \<in> {1 .. int (length rs)}"
      then have "k = int (nat (k - 1)) + 1" and "nat (k - 1) < length rs" by auto
      then show "k \<in> (\<lambda>i. int i + 1) ` {0..<length rs}"
        by (intro rev_image_eqI [of "nat (k - 1)"]) (simp_all del: int_nat_eq)
    qed
  qed auto
  finally show ?thesis .
qed

lemma dense_append1: "dense num rs \<Longrightarrow> num r = int (length rs) + 1 \<Longrightarrow> dense num (rs @ [r])"
  by (simp add: dense_def)

lemma length_numbered [simp]: "length (numbered f ds) = length ds"
  by (simp add: numbered_def)

lemma numbered_nth: "i < length ds \<Longrightarrow> numbered f ds ! i = f (int i + 1) (ds ! i)"
  by (simp add: numbered_def nth_enumerate_eq)

lemma map_numbered:
  "(\<And>i d. g (f i d) = h d) \<Longrightarrow> map g (numbered f ds) = map h ds"
  by (rule nth_equalityI) (simp_all add: numbered_nth)

lemma dense_numbered: "(\<And>i d. num (f i d) = i) \<Longrightarrow> dense num (numbered f ds)"
  unfolding dense_def by (rule nth_equalityI) (simp_all add: numbered_nth)

locale numbered_rows =
  fixes num :: "'r \<Rightarrow> int"
    and append_row :: "'d \<Rightarrow> 'r list \<Rightarrow> 'r list"
    and delete_row :: "'k \<Rightarrow> 'r list \<Rightarrow> 'r list"
    and key :: "'k \<Rightarrow> int"
  assumes append_row: "\<exists>r. num r = int (length rs) + 1 \<and> append_row d rs = rs @ [r]"
    and delete_row: "delete_row k rs = filter (\<lambda>r. num r \<noteq> key k) rs"
begin

lemma append_dense: "dense num rs \<Longrightarrow> dense num (append_row d rs)"
  using append_row [of rs d] by (auto intro: dense_append1)

lemma delete_others:
  "j \<noteq> key k \<Longrightarrow> filter (\<lambda>r. num r = j) (delete_row k rs) = filter (\<lambda>r. num r = j) rs"
  by (auto simp: delete_row intro: filter_cong)

lemma delete_dense_nth:
  assumes "dense num rs" and "i < length rs" and "key k = int i + 1"
  shows "delete_row k rs = take i rs @ drop (Suc i) rs"
proof -
  have rs: "rs = take i rs @ rs ! i # drop (Suc i) rs" by (simp add: assms(2) id_take_nth_drop)
  have "filter (\<lambda>r. num r \<noteq> int i + 1) (take i rs) = take i rs"
    using assms by (intro filter_True) (auto simp: in_set_conv_nth dense_nth)
  moreover have "filter (\<lambda>r. num r \<noteq> int i + 1) (drop (Suc i) rs) = drop (Suc i) rs"
    using assms by (intro filter_True) (auto simp: in_set_conv_nth dense_nth)
  moreover have "num (rs ! i) = int i + 1" using assms by (simp add: dense_nth)
  ultimately show ?thesis unfolding delete_row assms(3) by (subst rs) simp
qed

text \<open>The number a new row gets is taken whenever an earlier row has been deleted.\<close>

lemma append_after_delete_collides:
  assumes "dense num rs" and "1 \<le> key k" and "key k < int (length rs)"
  shows "\<not> distinct (map num (append_row d (delete_row k rs)))"
proof -
  define j where "j = nat (key k - 1)"
  have k: "key k = int j + 1" and j: "Suc j < length rs" using assms by (auto simp: j_def)
  have del: "delete_row k rs = take j rs @ drop (Suc j) rs"
    using assms(1) j k by (intro delete_dense_nth) auto
  with j have len: "Suc (length (delete_row k rs)) = length rs" by auto
  have "last rs \<in> set (drop (Suc j) rs)"
    using j last_in_set [of "drop (Suc j) rs"] by simp
  moreover have "num (last rs) = int (length rs)"
    by (rule dense_last [OF assms(1)]) (use j in auto)
  ultimately have "int (length rs) \<in> num ` set (delete_row k rs)"
    by (metis UnCI del image_eqI set_append)
  moreover obtain r where "num r = int (length (delete_row k rs)) + 1"
    and app: "append_row d (delete_row k rs) = delete_row k rs @ [r]"
    using append_row by blast
  then have "num r = int (length rs)" using len by linarith
  ultimately show ?thesis by (simp add: app)
qed

end

end
