(* ===== verification/Notifications.thy ===== *)
theory Notifications
  imports JSON_Text Numbered_Rows
begin

text \<open>
  The messages of the user interface: the helpers of \<open>ui/src/lib/utils.ts\<close>, and the store of
  \<open>ui/src/store/notifications.ts\<close>. The translator \<open>$_\<close> is an argument, as it is
  in the helpers.
\<close>

section \<open>Building messages\<close>

text \<open>A missing property is \<open>undefined\<close>.\<close>

record message =
  kind :: jsval
  title :: jsval
  subtitle :: jsval
  timeout :: jsval

definition empty_message :: message where
  "empty_message = \<lparr>kind = Undef, title = Undef, subtitle = Undef, timeout = Undef\<rparr>"

definition buildNotification :: "message \<Rightarrow> (jsstr \<Rightarrow> jsval) \<Rightarrow> message" where
  "buildNotification n tr =
     \<lparr>kind = js_nullish (kind n) (Str (js ''error'')),
      title = js_nullish (title n) (tr (js ''Error'')),
      subtitle = js_nullish (subtitle n) (tr (js ''Unable to perform action'')),
      timeout = js_nullish (timeout n) (Num 30000)\<rparr>"

definition createNotificationSuccess :: "message \<Rightarrow> (jsstr \<Rightarrow> jsval) \<Rightarrow> message" where
  "createNotificationSuccess n tr =
     buildNotification
       (n\<lparr>kind := Str (js ''success''), timeout := Num 2000, title := tr (js ''Success'')\<rparr>) tr"

definition createNotificationError :: "message \<Rightarrow> (jsstr \<Rightarrow> jsval) \<Rightarrow> message" where
  "createNotificationError n tr =
     buildNotification (n\<lparr>kind := Str (js ''error''), timeout := Num 30000\<rparr>) tr"

section \<open>Sizes\<close>

text \<open>\<open>Math.floor(Math.log(bytes) / Math.log(1024))\<close> for a positive integer.\<close>

fun log1024 :: "nat \<Rightarrow> nat" where
  "log1024 n = (if n < 1024 then 0 else Suc (log1024 (n div 1024)))"

declare log1024.simps [simp del]

text \<open>\<open>Math.round\<close> of a quotient of naturals: halves go up.\<close>

definition round_div :: "nat \<Rightarrow> nat \<Rightarrow> nat" where
  "round_div a b = (2 * a + b) div (2 * b)"

definition size_names :: "jsstr list" where
  "size_names = map js [''Bytes'', ''KB'', ''MB'', ''GB'', ''TB'']"

definition bytesToSize :: "nat \<Rightarrow> jsstr" where
  "bytesToSize bytes =
     (if bytes = 0 then js ''0 B''
      else (let i = log1024 bytes
            in digits_of (round_div bytes (1024 ^ i)) @ js '' '' @
               (if i < length size_names then size_names ! i else js ''undefined'')))"

section \<open>The store\<close>

record notification = message +
  ident :: int

definition add :: "message \<Rightarrow> notification list \<Rightarrow> notification list" where
  "add m currentArray =
     currentArray @
       [\<lparr>kind = kind m, title = title m, subtitle = subtitle m,
         timeout = (if timeout m = Undef then Num 1000 else timeout m),
         ident = int (length currentArray) + 1\<rparr>]"

definition remove :: "notification \<Rightarrow> notification list \<Rightarrow> notification list" where
  "remove n currentArray = filter (\<lambda>m. ident m \<noteq> ident n) currentArray"

interpretation notifications: numbered_rows ident add remove ident
  by unfold_locales (auto simp: add_def remove_def)


section \<open>Properties\<close>

lemma log1024_bounds: "0 < n \<Longrightarrow> 1024 ^ log1024 n \<le> n \<and> n < 1024 * 1024 ^ log1024 n"
proof (induction n rule: log1024.induct)
  case (1 n)
  show ?case
  proof (cases "n < 1024")
    case True
    with 1 show ?thesis by (simp add: log1024.simps [of n])
  next
    case False
    with 1 have "1024 ^ log1024 (n div 1024) \<le> n div 1024"
      and "n div 1024 < 1024 * 1024 ^ log1024 (n div 1024)" by auto
    then have "1024 * 1024 ^ log1024 (n div 1024) \<le> n"
      and "n < 1024 * (1024 * 1024 ^ log1024 (n div 1024))"
      by (auto simp: less_eq_div_iff_mult_less_eq div_less_iff_less_mult mult.commute)
    with False show ?thesis by (simp add: log1024.simps [of n])
  qed
qed

lemma log1024_less: "0 < n \<Longrightarrow> log1024 n < k \<longleftrightarrow> n < 1024 ^ k"
proof -
  assume "0 < n"
  note b = log1024_bounds [OF this]
  show ?thesis
  proof
    assume "log1024 n < k"
    then have "(1024 :: nat) ^ Suc (log1024 n) \<le> 1024 ^ k" by (intro power_increasing) auto
    with b show "n < 1024 ^ k" by simp
  next
    assume "n < 1024 ^ k"
    with b have "(1024 :: nat) ^ log1024 n < 1024 ^ k" by (meson le_less_trans)
    then show "log1024 n < k" by simp
  qed
qed

lemma round_div_bounds:
  "0 < b \<Longrightarrow> 2 * (round_div a b * b) \<le> 2 * a + b \<and> 2 * a < 2 * (round_div a b * b) + b"
proof -
  assume "0 < b"
  then have "(2 * a + b) mod (2 * b) < 2 * b" by simp
  moreover have "round_div a b * (2 * b) + (2 * a + b) mod (2 * b) = 2 * a + b"
    unfolding round_div_def by (rule div_mult_mod_eq)
  ultimately show ?thesis by (simp add: algebra_simps)
qed

lemma round_div_unit:
  assumes "b \<le> a" and "a < 1024 * b"
  shows "1 \<le> round_div a b \<and> round_div a b \<le> 1024"
proof -
  from assms have "0 < b" by simp
  note r = round_div_bounds [OF this, of a]
  have "round_div a b \<noteq> 0" using r assms \<open>0 < b\<close> by (intro notI) simp
  moreover have "round_div a b * b < 1025 * b" using r assms(2) by linarith
  then have "round_div a b < 1025" using \<open>0 < b\<close> by simp
  ultimately show ?thesis by simp
qed

text \<open>
  A positive number of bytes below 1024 to the fifth power is shown as a whole number
  from 1 to 1024 of the unit it needs, within half a unit of the true size; from there on the list
  of units has no entry and the text ends in the word undefined.
\<close>

theorem shown_size_is_rounded:
  assumes "0 < bytes"
  shows "(if bytes < 1024 ^ 5
    then \<exists>m i. i < 5 \<and> bytesToSize bytes = digits_of m @ js '' '' @ size_names ! i \<and>
      1 \<le> m \<and> m \<le> 1024 \<and> 2 * (m * 1024 ^ i) \<le> 2 * bytes + 1024 ^ i \<and>
      2 * bytes < 2 * (m * 1024 ^ i) + 1024 ^ i
    else \<exists>m. bytesToSize bytes = digits_of m @ js '' undefined'')"
proof -
  define i where "i = log1024 bytes"
  define m where "m = round_div bytes (1024 ^ i)"
  have shown: "bytesToSize bytes = digits_of m @ js '' '' @
      (if i < 5 then size_names ! i else js ''undefined'')"
    using assms by (simp add: bytesToSize_def Let_def i_def m_def size_names_def)
  have "1 \<le> m \<and> m \<le> 1024"
    using log1024_bounds [OF assms] unfolding m_def i_def by (intro round_div_unit) auto
  moreover have "2 * (m * 1024 ^ i) \<le> 2 * bytes + 1024 ^ i \<and> 2 * bytes < 2 * (m * 1024 ^ i) + 1024 ^ i"
    unfolding m_def by (rule round_div_bounds) simp
  moreover have "i < 5 \<longleftrightarrow> bytes < 1024 ^ 5" unfolding i_def by (rule log1024_less [OF assms])
  ultimately show ?thesis using shown by auto
qed

theorem shown_size_is_rounded_witness:
  "\<exists>m i. i < 5 \<and> bytesToSize 1536 = digits_of m @ js '' '' @ size_names ! i \<and>
      1 \<le> m \<and> m \<le> 1024 \<and> 2 * (m * 1024 ^ i) \<le> 2 * 1536 + 1024 ^ i \<and>
      2 * 1536 < 2 * (m * 1024 ^ i) + 1024 ^ i"
  using shown_size_is_rounded [of 1536] by simp

lemma dense_add_all: "dense ident ns \<Longrightarrow> dense ident (foldl (\<lambda>ns m. add m ns) ns ms)"
  by (induction ms arbitrary: ns) (auto intro: notifications.append_dense)

text \<open>
  Notifications that are only added get distinct numbers. After one that is not the last was
  removed, the next notification gets the number of the last one, and removing either removes both.
\<close>

lemma notification_numbers:
  assumes "k < length ms"
  defines "ns \<equiv> foldl (\<lambda>ns m. add m ns) [] ms"
  shows "remove (ns ! k) ns = take k ns @ drop (Suc k) ns \<and>
    (Suc k < length ms \<longrightarrow> ident (last (add m (remove (ns ! k) ns))) = ident (last (remove (ns ! k) ns)))"
proof -
  have ns: "dense ident ns" unfolding ns_def by (rule dense_add_all) simp
  have len: "length ns = length ms"
    unfolding ns_def by (induction ms rule: rev_induct) (simp_all add: add_def)
  have d: "remove (ns ! k) ns = take k ns @ drop (Suc k) ns"
    using notifications.delete_dense_nth [OF ns, of k "ns ! k"] assms(1) by (simp add: dense_nth [OF ns] len)
  moreover have "ident (last (take k ns @ drop (Suc k) ns)) = int (length ms)" if "Suc k < length ms"
  proof -
    have "last (take k ns @ drop (Suc k) ns) = last ns" using that by (simp add: len)
    with dense_last [OF ns] that len show ?thesis by fastforce
  qed
  ultimately show ?thesis using assms(1) by (auto simp: add_def len)
qed

end
