(* ===== verification/Ui_Base.thy ===== *)
theory Ui_Base
  imports Api_Client Notifications
begin

text \<open>
  What the components of the administration pages share: the API store, the notification store
  and the requests sent so far, the texts that the components take from outside (the translator
  \<open>$_\<close> and the engine's messages of exceptions), calls that settle in any order, and the
  language operations on form values.
\<close>

record texts =
  tr :: "jsstr \<Rightarrow> jsval"
  message_of :: "js_exn \<Rightarrow> jsstr"

record ui =
  store :: store
  notices :: "notification list"
  sent :: "fetch_call list"

definition ui_call :: "(store \<Rightarrow> store \<times> fetch_call) \<Rightarrow> ui \<Rightarrow> ui" where
  "ui_call f u = (case f (store u) of (s, c) \<Rightarrow> u\<lparr>store := s, sent := sent u @ [c]\<rparr>)"

definition ui_settle :: "(reply \<Rightarrow> store \<Rightarrow> store \<times> 'r) \<Rightarrow> reply \<Rightarrow> ui \<Rightarrow> ui \<times> 'r" where
  "ui_settle f r u = (case f r (store u) of (s, v) \<Rightarrow> (u\<lparr>store := s\<rparr>, v))"

definition notify :: "message \<Rightarrow> ui \<Rightarrow> ui" where
  "notify m u = u\<lparr>notices := add m (notices u)\<rparr>"

definition ui_init :: "storage \<Rightarrow> ui" where
  "ui_init st = \<lparr>store = store_init st, notices = [], sent = []\<rparr>"

text \<open>Taking the call at a position out of the list of calls in flight.\<close>

definition drop_nth :: "nat \<Rightarrow> 'a list \<Rightarrow> 'a list" where
  "drop_nth i xs = take i xs @ drop (Suc i) xs"

definition str :: "string \<Rightarrow> jsval" where
  "str s = Str (js s)"

text \<open>\<open>v == s\<close> for a text \<open>s\<close> that is not a numeral.\<close>

definition loose_eq_text :: "jsval \<Rightarrow> string \<Rightarrow> bool" where
  "loose_eq_text v s =
     (case v of Str t \<Rightarrow> t = js s | Arr vs \<Rightarrow> js_text v = js s | _ \<Rightarrow> False)"

text \<open>\<open>v + s\<close> for a text \<open>s\<close>.\<close>

definition plus_text :: "jsval \<Rightarrow> jsstr \<Rightarrow> jsval" where
  "plus_text v s = Str (js_text v @ s)"

text \<open>\<open>v.includes(s)\<close>: a method of strings and arrays.\<close>

fun has_sub :: "jsstr \<Rightarrow> jsstr \<Rightarrow> bool" where
  "has_sub p [] = (p = [])"
| "has_sub p (c # s) = (take (length p) (c # s) = p \<or> has_sub p s)"

fun js_includes :: "jsval \<Rightarrow> jsstr \<Rightarrow> js_exn + bool" where
  "js_includes (Str s) p = Inr (has_sub p s)"
| "js_includes (Arr vs) p = Inr (Str p \<in> set vs)"
| "js_includes _ p = Inl TypeError"

text \<open>\<open>parseInt\<close>: blanks, a sign, then decimal or, after \<open>0x\<close>, hexadecimal digits.\<close>

fun skip_blank :: "jsstr \<Rightarrow> jsstr" where
  "skip_blank (c # s) =
     (if c \<in> {0x09, 0x0A, 0x0B, 0x0C, 0x0D, 0x20, 0xA0, 0x1680, 0x2028, 0x2029, 0x202F, 0x205F,
              0x3000, 0xFEFF} \<or> 0x2000 \<le> c \<and> c \<le> 0x200A
      then skip_blank s else c # s)"
| "skip_blank [] = []"

definition radix_value :: "int \<Rightarrow> nat list \<Rightarrow> int" where
  "radix_value b ds = foldl (\<lambda>a d. a * b + int d) 0 ds"

definition digits_prefix :: "nat \<Rightarrow> jsstr \<Rightarrow> nat list" where
  "digits_prefix b s =
     map the (takeWhile (\<lambda>d. d \<noteq> None \<and> the d < b) (map hex_value s))"

definition parse_unsigned :: "jsstr \<Rightarrow> int option" where
  "parse_unsigned s =
     (let (b, t) = (if take 2 s = js ''0x'' \<or> take 2 s = js ''0X'' then (16, drop 2 s) else (10, s));
          ds = digits_prefix b t
      in if ds = [] then None else Some (radix_value (int b) ds))"

definition parseInt :: "jsval \<Rightarrow> jsval" where
  "parseInt v =
     (case skip_blank (js_text v) of
        [] \<Rightarrow> NaN
      | c # s \<Rightarrow>
          let r = (if c = 0x2D then map_option uminus (parse_unsigned s)
                   else if c = 0x2B then parse_unsigned s
                   else parse_unsigned (c # s))
          in (case r of Some i \<Rightarrow> Num i | None \<Rightarrow> NaN))"

text \<open>\<open>Number(s)\<close> of the numeral of an integer; the empty text is 0.\<close>

definition trim_blank :: "jsstr \<Rightarrow> jsstr" where
  "trim_blank s = rev (skip_blank (rev (skip_blank s)))"

definition decimal :: "jsstr \<Rightarrow> int option" where
  "decimal s =
     (if s \<noteq> [] \<and> list_all is_digit s then Some (digits_value s) else None)"

definition text_number :: "jsstr \<Rightarrow> int option" where
  "text_number s =
     (case trim_blank s of
        [] \<Rightarrow> Some 0
      | c # t \<Rightarrow>
          if c = 0x2D then map_option uminus (decimal t)
          else if c = 0x2B then decimal t
          else if take 2 (c # t) = js ''0x'' \<or> take 2 (c # t) = js ''0X''
          then (let u = drop 2 (c # t)
                in if u \<noteq> [] \<and> list_all (\<lambda>d. hex_value d \<noteq> None) u
                   then Some (radix_value 16 (map (the \<circ> hex_value) u)) else None)
          else decimal (c # t))"

text \<open>\<open>s == v\<close> for a text \<open>s\<close>, and \<open>v == true\<close>.\<close>

fun text_eq :: "jsstr \<Rightarrow> jsval \<Rightarrow> bool" where
  "text_eq s (Str t) = (s = t)"
| "text_eq s (Num n) = (text_number s = Some n)"
| "text_eq s (JBool b) = (text_number s = Some (if b then 1 else 0))"
| "text_eq s (Arr vs) = (s = js_text (Arr vs))"
| "text_eq s (Obj m) = (s = js_text (Obj m))"
| "text_eq s _ = False"

fun loose_true :: "jsval \<Rightarrow> bool" where
  "loose_true (JBool b) = b"
| "loose_true (Num n) = (n = 1)"
| "loose_true (Str s) = (text_number s = Some 1)"
| "loose_true (Arr vs) = (text_number (js_text (Arr vs)) = Some 1)"
| "loose_true _ = False"

definition isNaN :: "jsval \<Rightarrow> bool" where
  "isNaN v \<longleftrightarrow> v = NaN"

lemma parseInt_number: "parseInt v = NaN \<or> (\<exists>i. parseInt v = Num i)"
  by (auto simp: parseInt_def Let_def split: list.splits option.splits)

lemma sent_ui_call [simp]: "sent (ui_call f u) = sent u @ [snd (f (store u))]"
  by (simp add: ui_call_def split: prod.splits)

lemma notices_ui_call [simp]: "notices (ui_call f u) = notices u"
  by (simp add: ui_call_def split: prod.splits)

lemma notify_keeps [simp]: "sent (notify m u) = sent u" "store (notify m u) = store u"
  by (simp_all add: notify_def)

lemma notices_notify [simp]: "notices (notify m u) = add m (notices u)"
  by (simp add: notify_def)

lemma length_drop_nth [simp]: "i < length xs \<Longrightarrow> length (drop_nth i xs) = length xs - 1"
  by (simp add: drop_nth_def)


section \<open>What a request carries\<close>

lemma unat_of_char: "unat (of_char c :: code_unit) = of_char c"
proof -
  have "unat (of_nat (of_char c) :: code_unit) = of_char c"
    using less_trans [OF nat_of_char_less_256 [of c], of "2 ^ 16"]
    by (simp add: unsigned_of_nat take_bit_nat_eq_self del: of_nat_of_char)
  then show ?thesis by (simp only: of_nat_of_char)
qed

lemma js_inject [simp]: "js s = js t \<longleftrightarrow> s = t"
proof -
  have "inj (of_char :: char \<Rightarrow> code_unit)"
    by (rule injI) (metis of_char_eq_iff unat_of_char)
  then show ?thesis by (simp add: js_def)
qed

declare js_Cons [simp del]

lemma js_eq_Nil [simp]: "js s = [] \<longleftrightarrow> s = []" "[] = js s \<longleftrightarrow> s = []"
  by (simp_all add: js_def)

definition method_of :: "fetch_call \<Rightarrow> jsval" where
  "method_of c = get_prop (call_init c) (js ''method'')"

definition body_of :: "fetch_call \<Rightarrow> jsval" where
  "body_of c = get_prop (call_init c) (js ''body'')"

lemma init_keys_differ:
  "js ''body'' \<noteq> js ''method''" "js ''body'' \<noteq> js ''headers''" "js ''headers'' \<noteq> js ''method''"
  by simp_all

lemma not_proto_body: "\<not> is_proto_name (js ''body'')"
  by code_simp

lemma doCall_url [simp]: "call_url (snd (doCall e m d x s)) = baseURL @ e"
  by (simp add: doCall_def Let_def split: prod.splits)

lemma doCall_method [simp]: "method_of (snd (doCall e m d [] s)) = Str m"
  using init_keys_differ
  by (simp add: doCall_def method_of_def spread_def Let_def get_prop_def split: prod.splits
      del: js_Cons)

lemma doCall_body [simp]:
  "body_of (snd (doCall e m d [] s)) =
     (if m = js ''post'' \<or> m = js ''put'' then JSON_stringify d else Undef)"
  using init_keys_differ not_proto_body
  by (simp add: doCall_def body_of_def spread_def Let_def get_prop_def split: prod.splits
      del: js_Cons)

lemma doCall_sends [simp]:
  "body_of (snd (doCall e (js ''post'') d x s)) = JSON_stringify d"
  "body_of (snd (doCall e (js ''put'') d x s)) = JSON_stringify d"
  by (simp_all add: doCall_def body_of_def Let_def split: prod.splits del: js_Cons)

lemma doCall_storage [simp]: "localStorage (fst (doCall e m d x s)) = localStorage s"
  by (simp add: doCall_def getHeaders_def Let_def)

lemma doCall_loggedIn [simp]: "loggedIn (api (fst (doCall e m d x s))) = loggedIn (api s)"
  by (simp add: doCall_def getHeaders_def Let_def)

lemma sent_ui_settle [simp]:
  "ui_settle f r u = (u', v) \<Longrightarrow> sent u' = sent u \<and> notices u' = notices u"
  by (auto simp: ui_settle_def split: prod.splits)


lemma setSetting_request:
  "body_of (snd (setSetting k v None s)) = JSON_stringify (Obj [(js ''key'', Str k), (js ''value'', v)])"
  "call_url (snd (setSetting k v None s)) = baseURL @ js ''/settings/'' @ k"
  by (simp_all add: setSetting_def)

text \<open>Texts for examples: a translator that changes nothing.\<close>

definition plain_texts :: texts where
  "plain_texts = \<lparr>tr = Str, message_of = (\<lambda>_. js ''failed'')\<rparr>"


section \<open>Headers\<close>

lemma spread_other: "k \<notin> fst ` set x \<Longrightarrow> get_prop (spread m x) k = get_prop m k"
  unfolding spread_def
proof (induction x arbitrary: m)
  case (Cons p x)
  then show ?case by (cases p) auto
qed simp

text \<open>
  Claim C8: a call is sent to its address under the base address with the token that is stored when
  it is sent, and data that is posted or put reads back from the body as it was given. The extra
  headers that a caller passes do not become headers of the request.
\<close>

theorem calls_carry_current_token:
  assumes "js ''headers'' \<notin> fst ` set x" and "json_value d"
  shows "let c = snd (doCall e m d x s)
    in call_url c = baseURL @ e \<and>
       (\<exists>hs. get_prop (call_init c) (js ''headers'') = Obj hs \<and>
          get_prop hs (js ''Authorization'') = bearer (localStorage s) \<and>
          fst ` set hs = insert (js ''Authorization'') (fst ` set (headers (api s)))) \<and>
       (m \<in> {js ''post'', js ''put''} \<longrightarrow> JSON_parse (body_of c) = Inr d)"
proof -
  let ?hs = "AList.update (js ''Authorization'') (bearer (localStorage s)) (headers (api s))"
  let ?init = "spread [(js ''method'', Str m), (js ''headers'', Obj ?hs)] x"
  have h: "get_prop ?init (js ''headers'') = Obj ?hs"
    using spread_other [OF assms(1)] by (simp add: get_prop_def)
  have "get_prop (call_init (snd (doCall e m d x s))) (js ''headers'') = Obj ?hs"
    using h by (simp add: doCall_def getHeaders_def Let_def)
  moreover have "fst ` set ?hs = insert (js ''Authorization'') (fst ` set (headers (api s)))"
    by (simp add: dom_update)
  moreover have "JSON_parse (body_of (snd (doCall e m d x s))) = Inr d"
    if "m \<in> {js ''post'', js ''put''}"
    using that json_round_trip [OF assms(2)] by auto
  ultimately show ?thesis by (auto simp: Let_def)
qed

theorem calls_carry_current_token_witness:
  "\<exists>hs. get_prop (call_init (snd (doCall (js ''/dns/custom_entries'') (js ''post'') (Arr [])
       [(js ''Content-Type'', str ''application/json'')] (store_init [jwt_key \<mapsto> js ''t1''])))) (js ''headers'') = Obj hs \<and>
     fst ` set hs = {js ''Authorization''}"
  using calls_carry_current_token [of "[(js ''Content-Type'', str ''application/json'')]" "Arr []"
      "js ''/dns/custom_entries''" "js ''post''" "store_init [jwt_key \<mapsto> js ''t1'']"]
  by (auto simp: Let_def store_init_def AppAPI_def onUnauthorized_def)

end
