(* ===== verification/Router.thy ===== *)
theory Router
  imports JSON_Text "HOL-Library.Product_Lexorder"
begin

text \<open>
  Client-side routing as the bundle has it (\<open>svelte-routing\<close>, \<open>bundle.js\<close> lines
  15762--16282): ranking of routes, matching of a location against them, combination of paths, the
  history, and the state of a router that registers routes and follows the location. The theorem is
  that the loop that picks a route implements the matching of patterns against segments, given
  here as an inductive predicate, and takes a route of the best score.
\<close>

section \<open>Decoding\<close>

text \<open>\<open>decodeURIComponent\<close>: a malformed sequence is a \<open>URIError\<close>.\<close>

datatype uri_error = URIError

fun percent_byte :: "jsstr \<Rightarrow> (nat \<times> jsstr) option" where
  "percent_byte (p # a # b # s) =
     (case (hex_value a, hex_value b) of
        (Some x, Some y) \<Rightarrow> if p = 0x25 then Some (16 * x + y, s) else None
      | _ \<Rightarrow> None)"
| "percent_byte _ = None"

fun continuation :: "nat \<Rightarrow> nat \<Rightarrow> jsstr \<Rightarrow> (nat \<times> jsstr) option" where
  "continuation 0 acc s = Some (acc, s)"
| "continuation (Suc n) acc s =
     (case percent_byte s of
        Some (b, t) \<Rightarrow> if 128 \<le> b \<and> b < 192 then continuation n (acc * 64 + (b - 128)) t else None
      | None \<Rightarrow> None)"

definition utf16 :: "nat \<Rightarrow> jsstr" where
  "utf16 n =
     (if n < 65536 then [of_nat n]
      else [of_nat (0xD800 + (n - 65536) div 1024), of_nat (0xDC00 + (n - 65536) mod 1024)])"

text \<open>The value of one escaped character; overlong forms and surrogates are malformed.\<close>

definition escaped_char :: "jsstr \<Rightarrow> (nat \<times> jsstr) option" where
  "escaped_char s =
     (case percent_byte s of
        None \<Rightarrow> None
      | Some (b, t) \<Rightarrow>
          if b < 128 then Some (b, t)
          else if 192 \<le> b \<and> b < 224
          then (case continuation 1 (b - 192) t of
                  Some (n, r) \<Rightarrow> if 128 \<le> n then Some (n, r) else None | None \<Rightarrow> None)
          else if 224 \<le> b \<and> b < 240
          then (case continuation 2 (b - 224) t of
                  Some (n, r) \<Rightarrow> if 2048 \<le> n \<and> \<not> (0xD800 \<le> n \<and> n < 0xE000) then Some (n, r) else None
                | None \<Rightarrow> None)
          else if 240 \<le> b \<and> b < 248
          then (case continuation 3 (b - 240) t of
                  Some (n, r) \<Rightarrow> if 65536 \<le> n \<and> n < 0x110000 then Some (n, r) else None | None \<Rightarrow> None)
          else None)"

lemma percent_byte_shorter: "percent_byte s = Some (b, t) \<Longrightarrow> length t < length s"
  by (cases s rule: percent_byte.cases) (auto split: option.splits if_splits)

lemma continuation_shorter: "continuation n a s = Some (v, t) \<Longrightarrow> length t \<le> length s"
proof (induction n arbitrary: a s)
  case (Suc n)
  then show ?case
    by (auto split: option.splits if_splits dest!: percent_byte_shorter) (meson le_trans less_imp_le)
qed simp

lemma escaped_char_shorter: "escaped_char s = Some (n, t) \<Longrightarrow> length t < length s"
  by (auto simp: escaped_char_def split: option.splits if_splits
      dest!: percent_byte_shorter continuation_shorter)

function decodeURIComponent :: "jsstr \<Rightarrow> uri_error + jsstr" where
  "decodeURIComponent [] = Inr []"
| "decodeURIComponent (c # s) =
     (if c = 0x25
      then (case escaped_char (c # s) of
              None \<Rightarrow> Inl URIError
            | Some (n, t) \<Rightarrow>
                (case decodeURIComponent t of Inl e \<Rightarrow> Inl e | Inr u \<Rightarrow> Inr (utf16 n @ u)))
      else (case decodeURIComponent s of Inl e \<Rightarrow> Inl e | Inr u \<Rightarrow> Inr (c # u)))"
  by pat_completeness auto
termination
  by (relation "measure length") (auto dest: escaped_char_shorter)

section \<open>Segments and scores\<close>

definition slash :: code_unit where
  "slash = 0x2F"

definition stripSlashes :: "jsstr \<Rightarrow> jsstr" where
  "stripSlashes s =
     rev (dropWhile (\<lambda>c. c = slash) (rev (dropWhile (\<lambda>c. c = slash) s)))"

definition segmentize :: "jsstr \<Rightarrow> jsstr list" where
  "segmentize s = split_on slash (stripSlashes s)"

text \<open>\<open>/^:(.+)/\<close>: the name of a parameter, where a dot is no line terminator.\<close>

definition param_name :: "jsstr \<Rightarrow> jsstr option" where
  "param_name s =
     (case s of
        [] \<Rightarrow> None
      | c # t \<Rightarrow>
          (let n = takeWhile (\<lambda>d. d \<notin> {0x0A, 0x0D, 0x2028, 0x2029}) t
           in if c = 0x3A \<and> n \<noteq> [] then Some n else None))"

definition is_splat :: "jsstr \<Rightarrow> bool" where
  "is_splat s \<longleftrightarrow> s \<noteq> [] \<and> hd s = 0x2A"

record route =
  path :: jsstr
  own_path :: jsstr
  is_default :: bool
  route_key :: nat                           \<comment> \<open>the identity of the object\<close>

definition segment_score :: "jsstr \<Rightarrow> int" where
  "segment_score s =
     4 + (if s = [] then 1 else if param_name s \<noteq> None then 2 else if is_splat s then - 5 else 3)"

definition score :: "route \<Rightarrow> int" where
  "score r = (if is_default r then 0 else foldl (\<lambda>i s. i + segment_score s) 0 (segmentize (path r)))"

definition rankRoutes :: "route list \<Rightarrow> route list" where
  "rankRoutes rs =
     map snd (sort_key (\<lambda>(i, r). (- score r, i)) (enumerate 0 rs))"

section \<open>Matching\<close>

type_synonym params = "(jsstr \<times> jsstr) list"

primrec decode_all :: "jsstr list \<Rightarrow> uri_error + jsstr list" where
  "decode_all [] = Inr []"
| "decode_all (s # ss) =
     (case decodeURIComponent s of
        Inl e \<Rightarrow> Inl e
      | Inr d \<Rightarrow> (case decode_all ss of Inl e \<Rightarrow> Inl e | Inr ds \<Rightarrow> Inr (d # ds)))"

text \<open>
  The loop over the segments of a route and of the location; a result is the parameters and the
  number of segments consumed.
\<close>

fun match_loop ::
  "bool \<Rightarrow> jsstr list \<Rightarrow> jsstr list \<Rightarrow> params \<Rightarrow> nat \<Rightarrow> uri_error + (params \<times> nat) option" where
  "match_loop root [] [] b n = Inr (Some (b, n))"
| "match_loop root [] (h # us) b n = Inr None"
| "match_loop root (c # ms) us b n =
     (if is_splat c
      then (case decode_all us of
              Inl e \<Rightarrow> Inl e
            | Inr ds \<Rightarrow>
                Inr (Some (AList.update (if c = [0x2A] then [0x2A] else tl c) (join_with [slash] ds) b, n)))
      else (case us of
              [] \<Rightarrow> Inr None
            | h # us' \<Rightarrow>
                (case param_name c of
                   Some p \<Rightarrow>
                     if \<not> root
                     then (case decodeURIComponent h of
                             Inl e \<Rightarrow> Inl e
                           | Inr d \<Rightarrow> match_loop root ms us' (AList.update p d b) (Suc n))
                     else if c = h then match_loop root ms us' b (Suc n) else Inr None
                 | None \<Rightarrow> if c = h then match_loop root ms us' b (Suc n) else Inr None)))"

record route_match =
  route :: route
  params :: params
  uri :: jsstr

definition uri_segments :: "jsstr \<Rightarrow> jsstr list" where
  "uri_segments u = segmentize (hd (split_on 0x3F u))"

fun pick_loop ::
  "jsstr \<Rightarrow> jsstr list \<Rightarrow> route list \<Rightarrow> route_match option \<Rightarrow> uri_error + route_match option" where
  "pick_loop u us [] dflt = Inr dflt"
| "pick_loop u us (r # rs) dflt =
     (if is_default r then pick_loop u us rs (Some \<lparr>route = r, params = [], uri = u\<rparr>)
      else (case match_loop (hd us = []) (segmentize (path r)) us [] 0 of
              Inl e \<Rightarrow> Inl e
            | Inr None \<Rightarrow> pick_loop u us rs dflt
            | Inr (Some (b, n)) \<Rightarrow>
                Inr (Some \<lparr>route = r, params = b, uri = slash # join_with [slash] (take n us)\<rparr>)))"

definition pick :: "route list \<Rightarrow> jsstr \<Rightarrow> uri_error + route_match option" where
  "pick rs u = pick_loop u (uri_segments u) (rankRoutes rs) None"

definition combinePaths :: "jsstr \<Rightarrow> jsstr \<Rightarrow> jsstr" where
  "combinePaths basepath p =
     stripSlashes (if p = [slash] then basepath
                   else stripSlashes basepath @ [slash] @ stripSlashes p) @ [slash]"


section \<open>History\<close>

text \<open>The history of a document: \<open>pushState\<close> drops the entries ahead of the current one.\<close>

record browser_history =
  entries :: "jsstr list"
  position :: nat

text \<open>
  The path of an address. Addresses are absolute paths, as all links and calls of the application are,
  and have no character that the browser writes as an escape.
\<close>

definition pathname :: "jsstr \<Rightarrow> jsstr" where
  "pathname to = takeWhile (\<lambda>c. c \<noteq> 0x3F \<and> c \<noteq> 0x23) to"

definition current :: "browser_history \<Rightarrow> jsstr" where
  "current h = entries h ! position h"

definition pushState :: "jsstr \<Rightarrow> browser_history \<Rightarrow> browser_history" where
  "pushState to h =
     \<lparr>entries = take (Suc (position h)) (entries h) @ [to], position = Suc (position h)\<rparr>"

definition replaceState :: "jsstr \<Rightarrow> browser_history \<Rightarrow> browser_history" where
  "replaceState to h = h\<lparr>entries := (entries h)[position h := to]\<rparr>"

text \<open>The history used without a document, whose states are kept beside its entries.\<close>

record memory_history =
  mem_index :: nat
  mem_entries :: "(jsstr \<times> jsstr) list"
  mem_states :: "jsval list"

definition split_search :: "jsstr \<Rightarrow> jsstr \<times> jsstr" where
  "split_search u =
     (case split_on 0x3F u of [] \<Rightarrow> ([], []) | [p] \<Rightarrow> (p, []) | p # q # _ \<Rightarrow> (p, q))"

definition createMemorySource :: "jsstr \<Rightarrow> memory_history" where
  "createMemorySource p = \<lparr>mem_index = 0, mem_entries = [(p, [])], mem_states = []\<rparr>"

definition mem_location :: "memory_history \<Rightarrow> jsstr \<times> jsstr" where
  "mem_location h = mem_entries h ! mem_index h"

definition mem_state :: "memory_history \<Rightarrow> jsval" where
  "mem_state h =
     (if mem_index h < length (mem_states h) then mem_states h ! mem_index h else Undef)"

definition mem_pushState :: "jsval \<Rightarrow> jsstr \<Rightarrow> memory_history \<Rightarrow> memory_history" where
  "mem_pushState l u h =
     \<lparr>mem_index = Suc (mem_index h), mem_entries = mem_entries h @ [split_search u],
      mem_states = mem_states h @ [l]\<rparr>"

text \<open>Assigning past the end of an array fills the gap with nothing.\<close>

definition mem_replaceState :: "jsval \<Rightarrow> jsstr \<Rightarrow> memory_history \<Rightarrow> memory_history" where
  "mem_replaceState l u h =
     h\<lparr>mem_entries := (mem_entries h)[mem_index h := split_search u],
       mem_states :=
         (mem_states h @ replicate (Suc (mem_index h) - length (mem_states h)) Undef)[mem_index h := l]\<rparr>"

section \<open>The router\<close>

record router =
  routes :: "route list"
  active :: "route_match option"
  location :: jsstr
  base :: jsstr
  created :: nat
  history :: browser_history
  listening :: bool
  update_failed :: bool                      \<comment> \<open>an update threw: its marks stay, so no other follows\<close>

definition registerRoute :: "jsstr \<Rightarrow> router \<Rightarrow> router" where
  "registerRoute p s =
     s\<lparr>routes := routes s @ [\<lparr>path = combinePaths (base s) p, own_path = p, is_default = (p = []),
                               route_key = created s\<rparr>],
       created := Suc (created s)\<rparr>"

definition unregisterRoute :: "nat \<Rightarrow> router \<Rightarrow> router" where
  "unregisterRoute k s = s\<lparr>routes := filter (\<lambda>r. route_key r \<noteq> k) (routes s)\<rparr>"

definition rebase :: "jsstr \<Rightarrow> router \<Rightarrow> router" where
  "rebase b s =
     s\<lparr>base := b, routes := map (\<lambda>r. r\<lparr>path := combinePaths b (own_path r)\<rparr>) (routes s)\<rparr>"

text \<open>
  The reactive update after a change of the routes or of the location. When it throws, the marks of
  the router are not taken back, and a component that is marked is not put into the queue again
  (\<open>pv\<close>, \<open>Tv\<close>): the router is updated no more.
\<close>

definition router_update :: "router \<Rightarrow> router" where
  "router_update s =
     (if update_failed s then s
      else (case pick (routes s) (location s) of
              Inl e \<Rightarrow> s\<lparr>update_failed := True\<rparr>
            | Inr m \<Rightarrow> s\<lparr>active := m\<rparr>))"

definition notify_location :: "router \<Rightarrow> router" where
  "notify_location s =
     (if listening s then s\<lparr>location := pathname (current (history s))\<rparr> else s)"

definition navigate :: "bool \<Rightarrow> jsstr \<Rightarrow> router \<Rightarrow> router" where
  "navigate replace to s =
     notify_location
       (s\<lparr>history := (if replace then replaceState to else pushState to) (history s)\<rparr>)"

definition popstate :: "nat \<Rightarrow> router \<Rightarrow> router" where
  "popstate i s =
     (if i < length (entries (history s))
      then notify_location (s\<lparr>history := (history s)\<lparr>position := i\<rparr>\<rparr>) else s)"

definition router_init :: "jsstr option \<Rightarrow> jsstr \<Rightarrow> browser_history \<Rightarrow> router" where
  "router_init url basepath h =
     router_update
       \<lparr>routes = [], active = None,
        location = (case url of Some u \<Rightarrow> if u = [] then pathname (current h) else u
                    | None \<Rightarrow> pathname (current h)),
        base = basepath, created = 0, history = h, listening = True, update_failed = False\<rparr>"

datatype router_event = Register jsstr | Unregister nat | Rebase jsstr | Navigate bool jsstr | PopState nat

fun router_step :: "router \<Rightarrow> router_event \<Rightarrow> router" where
  "router_step s (Register p) = router_update (registerRoute p s)"
| "router_step s (Unregister k) = router_update (unregisterRoute k s)"
| "router_step s (Rebase b) = router_update (rebase b s)"
| "router_step s (Navigate rep to) = router_update (navigate rep to s)"
| "router_step s (PopState i) = router_update (popstate i s)"

section \<open>Matching of patterns\<close>

inductive seg_match :: "bool \<Rightarrow> jsstr list \<Rightarrow> jsstr list \<Rightarrow> bool" for root where
  both_end: "seg_match root [] []"
| splat: "is_splat c \<Longrightarrow> seg_match root (c # ms) us"
| param: "\<not> root \<Longrightarrow> param_name c \<noteq> None \<Longrightarrow> seg_match root ms us \<Longrightarrow> seg_match root (c # ms) (h # us)"
| static: "seg_match root ms us \<Longrightarrow> seg_match root (c # ms) (c # us)"

inductive_simps seg_match_Nil [simp]: "seg_match root [] us"
inductive_simps seg_match_Cons: "seg_match root (c # ms) us"

definition matches :: "route \<Rightarrow> jsstr \<Rightarrow> bool" where
  "matches r u \<longleftrightarrow>
     seg_match (hd (uri_segments u) = []) (segmentize (path r)) (uri_segments u)"

lemma decode_plain: "0x25 \<notin> set s \<Longrightarrow> decodeURIComponent s = Inr s"
  by (induction s) auto

lemma decode_all_plain: "\<forall>s \<in> set ss. 0x25 \<notin> set s \<Longrightarrow> decode_all ss = Inr ss"
  by (induction ss) (auto simp: decode_plain)

text \<open>A computation that does not throw and whose result satisfies a predicate.\<close>

definition yields :: "uri_error + 'a \<Rightarrow> ('a \<Rightarrow> bool) \<Rightarrow> bool" where
  "yields r P \<longleftrightarrow> (case r of Inl e \<Rightarrow> False | Inr v \<Rightarrow> P v)"

lemma yields_Inr [simp]: "yields (Inr v) P \<longleftrightarrow> P v"
  by (simp add: yields_def)

lemma yields_mono: "yields r P \<Longrightarrow> (\<And>v. P v \<Longrightarrow> Q v) \<Longrightarrow> yields r Q"
  by (auto simp: yields_def split: sum.splits)

lemma seg_match_param:
  "\<not> root \<Longrightarrow> param_name c \<noteq> None \<Longrightarrow> \<not> is_splat c \<Longrightarrow>
     seg_match root (c # ms) (h # us) = seg_match root ms us"
  by (auto simp: seg_match_Cons)

lemma seg_match_static:
  "root \<or> param_name c = None \<Longrightarrow> \<not> is_splat c \<Longrightarrow>
     seg_match root (c # ms) (h # us) \<longleftrightarrow> c = h \<and> seg_match root ms us"
  by (auto simp: seg_match_Cons)

lemma match_loop_match:
  "\<forall>s \<in> set us. 0x25 \<notin> set s \<Longrightarrow>
     yields (match_loop root ms us b n) (\<lambda>res. (res = None) \<longleftrightarrow> \<not> seg_match root ms us)"
proof (induction ms arbitrary: us b n)
  case Nil
  show ?case by (cases us) auto
next
  case (Cons c ms)
  show ?case
  proof (cases "is_splat c")
    case True
    then show ?thesis using Cons.prems by (simp add: decode_all_plain seg_match_Cons)
  next
    case False
    show ?thesis
    proof (cases us)
      case Nil
      with False show ?thesis by (simp add: seg_match_Cons)
    next
      case (Cons h us')
      with Cons.IH [of us'] Cons.prems False show ?thesis
        by (cases "param_name c"; cases root)
          (auto simp: decode_plain seg_match_param seg_match_static)
    qed
  qed
qed

lemma stripSlashes_set: "set (stripSlashes s) \<subseteq> set s"
  by (auto simp: stripSlashes_def dest!: set_dropWhileD)

lemma split_on_subset: "w \<in> set (split_on c s) \<Longrightarrow> set w \<subseteq> set s"
  by (induction s arbitrary: w) (fastforce split: if_splits list.splits)+

lemma uri_segments_plain: "0x25 \<notin> set u \<Longrightarrow> \<forall>s \<in> set (uri_segments u). 0x25 \<notin> set s"
  using split_on_subset [of "hd (split_on 0x3F u)" "0x3F" u] stripSlashes_set split_on_subset
  unfolding uri_segments_def segmentize_def
  by (metis hd_in_set in_mono split_on_ne)

section \<open>Ranking\<close>

lemma set_rankRoutes [simp]: "set (rankRoutes rs) = set rs"
  by (simp add: rankRoutes_def) (metis map_snd_enumerate set_map)

lemma rankRoutes_sorted: "sorted_wrt (\<lambda>a b. score b \<le> score a) (rankRoutes rs)"
proof -
  let ?ps = "sort_key (\<lambda>(i, r). (- score r, i)) (enumerate 0 rs)"
  have "sorted_wrt (\<lambda>p q. (case p of (i, r) \<Rightarrow> (- score r, i)) \<le> (case q of (i, r) \<Rightarrow> (- score r, i))) ?ps"
    using sorted_sort_key [of "\<lambda>(i, r). (- score r, i)" "enumerate 0 rs"]
    by (simp only: sorted_map)
  then have "sorted_wrt (\<lambda>p q. score (snd q) \<le> score (snd p)) ?ps"
    by (rule sorted_wrt_mono_rel [rotated]) (auto simp: less_eq_prod_def)
  then show ?thesis by (simp add: rankRoutes_def sorted_wrt_map)
qed

definition pick_spec :: "route list \<Rightarrow> jsstr \<Rightarrow> route_match option \<Rightarrow> bool" where
  "pick_spec rs u res \<longleftrightarrow>
     (case res of
        Some m \<Rightarrow>
          route m \<in> set rs \<and>
          (if is_default (route m) then \<forall>r \<in> set rs. is_default r \<or> \<not> matches r u
           else matches (route m) u \<and>
             (\<forall>r \<in> set rs. \<not> is_default r \<and> matches r u \<longrightarrow> score r \<le> score (route m)))
      | None \<Rightarrow> \<forall>r \<in> set rs. \<not> is_default r \<and> \<not> matches r u)"

definition loop_spec :: "route list \<Rightarrow> jsstr \<Rightarrow> route_match option \<Rightarrow> route_match option \<Rightarrow> bool" where
  "loop_spec rs u dflt res \<longleftrightarrow>
     (case res of
        Some m \<Rightarrow>
          if is_default (route m)
          then (Some m = dflt \<or> route m \<in> set rs) \<and> (\<forall>r \<in> set rs. is_default r \<or> \<not> matches r u)
          else route m \<in> set rs \<and> matches (route m) u \<and>
            (\<forall>r \<in> set rs. \<not> is_default r \<and> matches r u \<longrightarrow> score r \<le> score (route m))
      | None \<Rightarrow> dflt = None \<and> (\<forall>r \<in> set rs. \<not> is_default r \<and> \<not> matches r u))"

lemma loop_spec_default:
  "is_default r \<Longrightarrow> loop_spec rs u (Some \<lparr>route = r, params = b, uri = v\<rparr>) res \<Longrightarrow>
     loop_spec (r # rs) u dflt res"
  by (auto simp: loop_spec_def split: option.splits if_splits)

lemma loop_spec_skip:
  "\<not> is_default r \<Longrightarrow> \<not> matches r u \<Longrightarrow> loop_spec rs u dflt res \<Longrightarrow> loop_spec (r # rs) u dflt res"
  by (auto simp: loop_spec_def split: option.splits if_splits)

lemma loop_spec_hit:
  "\<not> is_default r \<Longrightarrow> matches r u \<Longrightarrow> \<forall>q \<in> set rs. score q \<le> score r \<Longrightarrow>
     loop_spec (r # rs) u dflt (Some \<lparr>route = r, params = b, uri = v\<rparr>)"
  by (auto simp: loop_spec_def)

lemma pick_loop_spec:
  assumes "0x25 \<notin> set u" and "sorted_wrt (\<lambda>a b. score b \<le> score a) rs"
    and "\<forall>m. dflt = Some m \<longrightarrow> is_default (route m)"
  shows "yields (pick_loop u (uri_segments u) rs dflt) (loop_spec rs u dflt)"
  using assms(2,3)
proof (induction rs arbitrary: dflt)
  case Nil
  then show ?case by (auto simp: loop_spec_def split: option.splits)
next
  case (Cons r rs)
  let ?us = "uri_segments u"
  show ?case
  proof (cases "is_default r")
    case True
    have "yields (pick_loop u ?us rs (Some \<lparr>route = r, params = [], uri = u\<rparr>))
        (loop_spec rs u (Some \<lparr>route = r, params = [], uri = u\<rparr>))"
      using Cons.prems True by (intro Cons.IH) auto
    then have "yields (pick_loop u ?us rs (Some \<lparr>route = r, params = [], uri = u\<rparr>))
        (loop_spec (r # rs) u dflt)"
      by (rule yields_mono) (rule loop_spec_default [OF True])
    with True show ?thesis by simp
  next
    case False
    obtain res where m: "match_loop (hd ?us = []) (segmentize (path r)) ?us [] 0 = Inr res"
      and iff: "res = None \<longleftrightarrow> \<not> matches r u"
      using match_loop_match [OF uri_segments_plain [OF assms(1)], of "hd ?us = []" "segmentize (path r)" "[]" 0]
      by (auto simp: matches_def yields_def split: sum.splits)
    show ?thesis
    proof (cases res)
      case None
      have "yields (pick_loop u ?us rs dflt) (loop_spec rs u dflt)"
        using Cons.prems by (intro Cons.IH) auto
      then have "yields (pick_loop u ?us rs dflt) (loop_spec (r # rs) u dflt)"
        by (rule yields_mono) (use loop_spec_skip [OF False] iff None in auto)
      with False m None show ?thesis by simp
    next
      case (Some bn)
      with Cons.prems m iff False show ?thesis
        by (cases bn) (simp add: loop_spec_hit)
    qed
  qed
qed

lemma pick_meets_spec:
  assumes "0x25 \<notin> set u"
  shows "\<exists>res. pick rs u = Inr res \<and> pick_spec rs u res"
proof -
  have "yields (pick rs u) (loop_spec (rankRoutes rs) u None)"
    unfolding pick_def using rankRoutes_sorted by (intro pick_loop_spec [OF assms]) auto
  then show ?thesis
    by (auto simp: yields_def loop_spec_def pick_spec_def split: sum.splits option.splits if_splits)
qed


text \<open>
  Claim C6: for a location without escapes, the route that is picked exists exactly when some route
  is a default one or matches the location segment by segment; a route that matches is preferred to
  a default one, and no other matching route has a higher score.
\<close>

theorem pick_correct:
  assumes "0x25 \<notin> set u"
  shows "\<exists>res. pick rs u = Inr res \<and> pick_spec rs u res"
  by (rule pick_meets_spec [OF assms])

definition shop_routes :: "route list" where
  "shop_routes =
     [\<lparr>path = js ''logs/'', own_path = js ''/logs'', is_default = False, route_key = 0\<rparr>,
      \<lparr>path = js '':page/'', own_path = js ''/:page'', is_default = False, route_key = 1\<rparr>]"

lemma logs_plain: "0x25 \<notin> set (js ''/logs'')"
  by simp

theorem pick_correct_witness:
  "\<exists>res. pick shop_routes (js ''/logs'') = Inr res \<and> pick_spec shop_routes (js ''/logs'') res"
  by (rule pick_correct) (rule logs_plain)

section \<open>The router follows the location\<close>

lemma router_update_keeps [simp]:
  "routes (router_update s) = routes s" "location (router_update s) = location s"
  "history (router_update s) = history s" "listening (router_update s) = listening s"
  "base (router_update s) = base s" "created (router_update s) = created s"
  by (simp_all add: router_update_def split: sum.splits)

definition settled :: "router \<Rightarrow> bool" where
  "settled s \<longleftrightarrow> (\<not> update_failed s \<longrightarrow> pick (routes s) (location s) = Inr (active s))"

lemma settled_update: "settled (router_update s)"
  by (auto simp: settled_def router_update_def split: sum.splits)

lemma router_update_plain:
  "0x25 \<notin> set (location s) \<Longrightarrow> update_failed (router_update s) = update_failed s"
  using pick_meets_spec [of "location s" "routes s"] by (auto simp: router_update_def)

text \<open>Only a parameter or a splat is decoded, so routes without them never make an update throw.\<close>

definition static_route :: "route \<Rightarrow> bool" where
  "static_route r \<longleftrightarrow> list_all (\<lambda>c. \<not> is_splat c \<and> param_name c = None) (segmentize (path r))"

lemma match_loop_static:
  "list_all (\<lambda>c. \<not> is_splat c \<and> param_name c = None) ms \<Longrightarrow> \<exists>res. match_loop root ms us b n = Inr res"
proof (induction ms arbitrary: us n)
  case Nil
  show ?case by (cases us) auto
next
  case (Cons c ms)
  then show ?case by (cases us) auto
qed

lemma pick_loop_static:
  "list_all static_route rs \<Longrightarrow> \<exists>res. pick_loop u us rs dflt = Inr res"
proof (induction rs arbitrary: dflt)
  case (Cons r rs)
  obtain res where "match_loop (hd us = []) (segmentize (path r)) us [] 0 = Inr res"
    using Cons.prems match_loop_static unfolding static_route_def list.pred_inject by blast
  with Cons show ?case by (cases res) auto
qed simp

lemma router_update_static:
  "list_all static_route (routes s) \<Longrightarrow> update_failed (router_update s) = update_failed s"
  using pick_loop_static [of "rankRoutes (routes s)" "location s" "uri_segments (location s)" None]
  by (auto simp: router_update_def pick_def list_all_iff)

definition router_inv :: "router \<Rightarrow> bool" where
  "router_inv s \<longleftrightarrow>
     settled s \<and> listening s \<and> position (history s) < length (entries (history s)) \<and>
     distinct (map route_key (routes s)) \<and> (\<forall>r \<in> set (routes s). route_key r < created s)"

lemma router_inv_update:
  "listening s \<Longrightarrow> position (history s) < length (entries (history s)) \<Longrightarrow>
     distinct (map route_key (routes s)) \<Longrightarrow> \<forall>r \<in> set (routes s). route_key r < created s \<Longrightarrow>
     router_inv (router_update s)"
  by (simp add: router_inv_def settled_update)

lemma distinct_snoc_key:
  "distinct (map route_key rs) \<Longrightarrow> \<forall>r \<in> set rs. route_key r < n \<Longrightarrow> n \<notin> route_key ` set rs"
  by auto

lemma router_inv_step: "router_inv s \<Longrightarrow> router_inv (router_step s e)"
proof (cases e)
  case (Register p)
  assume "router_inv s"
  with Register distinct_snoc_key [of "routes s" "created s"] show ?thesis
    by (auto simp: router_inv_def registerRoute_def settled_update less_Suc_eq)
next
  case (Unregister k)
  assume "router_inv s"
  with Unregister show ?thesis
    by (auto simp: unregisterRoute_def router_inv_def settled_update distinct_map_filter)
next
  case (Rebase b)
  assume "router_inv s"
  with Rebase show ?thesis
    by (auto simp: rebase_def router_inv_def settled_update comp_def)
next
  case (Navigate rep to)
  assume "router_inv s"
  with Navigate show ?thesis
    by (auto simp: navigate_def notify_location_def pushState_def replaceState_def router_inv_def
        settled_update)
next
  case (PopState i)
  assume "router_inv s"
  with PopState show ?thesis
    by (auto simp: popstate_def notify_location_def router_inv_def settled_update)
qed

lemma router_inv_init:
  "position h < length (entries h) \<Longrightarrow> router_inv (router_init url b h)"
  unfolding router_init_def by (rule router_inv_update) simp_all

text \<open>A document starts on one page.\<close>

definition opened_on :: "jsstr \<Rightarrow> browser_history" where
  "opened_on u = \<lparr>entries = [u], position = 0\<rparr>"

interpretation routing: event_machine "router_init url b (opened_on u)" router_step router_inv
  for url b u
  by unfold_locales (auto intro: router_inv_init router_inv_step simp: opened_on_def)

text \<open>No address that the document goes to has an escape.\<close>

fun plain_move :: "router_event \<Rightarrow> bool" where
  "plain_move (Navigate rep to) \<longleftrightarrow> 0x25 \<notin> set to"
| "plain_move _ \<longleftrightarrow> True"

definition plain_router :: "router \<Rightarrow> bool" where
  "plain_router s \<longleftrightarrow>
     \<not> update_failed s \<and> 0x25 \<notin> set (location s) \<and> position (history s) < length (entries (history s)) \<and>
     (\<forall>u \<in> set (entries (history s)). 0x25 \<notin> set u)"

lemma pathname_no_escape: "0x25 \<notin> set u \<Longrightarrow> 0x25 \<notin> set (pathname u)"
  unfolding pathname_def using set_takeWhileD by fastforce

lemma plain_updated: "plain_router s \<Longrightarrow> plain_router (router_update s)"
  by (simp add: plain_router_def router_update_plain)

lemma plain_history:
  "plain_router s \<Longrightarrow> \<forall>u \<in> set (entries h). 0x25 \<notin> set u \<Longrightarrow> position h < length (entries h) \<Longrightarrow>
     plain_router (notify_location (s\<lparr>history := h\<rparr>))"
  by (simp add: plain_router_def notify_location_def current_def pathname_no_escape)

lemma plain_step: "plain_router s \<Longrightarrow> plain_move e \<Longrightarrow> plain_router (router_step s e)"
proof (cases e)
  case (Navigate rep to)
  assume s: "plain_router s" and "plain_move e"
  with Navigate have "0x25 \<notin> set to" by simp
  with s have "plain_router (navigate rep to s)"
    unfolding navigate_def
    by (intro plain_history [OF s])
      (auto simp: plain_router_def replaceState_def pushState_def
        dest: in_set_takeD set_update_subset_insert [THEN subsetD])
  with Navigate show ?thesis by (simp add: plain_updated)
next
  case (PopState i)
  assume s: "plain_router s"
  then have "plain_router (popstate i s)"
    unfolding popstate_def using plain_history [OF s, of "(history s)\<lparr>position := i\<rparr>"]
    by (simp add: plain_router_def)
  with PopState show ?thesis by (simp add: plain_updated)
qed (simp_all add: plain_router_def registerRoute_def unregisterRoute_def rebase_def router_update_plain)

lemma plain_run:
  "plain_router s \<Longrightarrow> list_all plain_move es \<Longrightarrow> plain_router (run_events router_step s es)"
  by (induction es arbitrary: s) (simp_all add: plain_step del: router_step.simps)

lemma plain_init: "0x25 \<notin> set u \<Longrightarrow> plain_router (router_init None b (opened_on u))"
  unfolding router_init_def
  by (rule plain_updated) (simp add: plain_router_def opened_on_def current_def pathname_no_escape)

text \<open>Without a document the state that was pushed is not the state that is read.\<close>

lemma memory_state_lost:
  "mem_state (mem_pushState l u (createMemorySource p)) = Undef \<and>
   mem_location (mem_pushState l u (createMemorySource p)) = split_search u"
  by (simp add: mem_state_def mem_pushState_def createMemorySource_def mem_location_def)

end
