(* ===== verification/Filter_Editor.thy ===== *)
theory Filter_Editor
  imports Ui_Base
begin

text \<open>
  The editor of a filter's entries (\<open>ui/src/components/filtereditor.svelte\<close>): the rows, the
  row being edited, loading and saving through the API, and what the table shows. The pages of
  \<open>ui/src/routes/filter/filter.svelte\<close> open it on one filter each.
\<close>

record filter_row =
  row_id :: int
  content :: jsval
  score :: jsval

datatype filter_call = FilterLoad | FilterSave

record filter_editor =
  filterId :: jsstr
  data :: "filter_row list"
  editingRowId :: "int option"
  calls :: "filter_call list"
  ui :: ui

definition filter_url :: "jsstr \<Rightarrow> jsstr" where
  "filter_url i = js ''/filters/'' @ i"

section \<open>Loading\<close>

definition entry_row :: "nat \<times> jsval \<Rightarrow> js_exn + filter_row" where
  "entry_row p =
     bind_exn (prop_of (snd p) (js ''Content'')) (\<lambda>c.
     bind_exn (prop_of (snd p) (js ''Score'')) (\<lambda>s.
       Inr \<lparr>row_id = int (fst p) + 1, content = c, score = s\<rparr>))"

definition filter_rows :: "jsval \<Rightarrow> js_exn + filter_row list" where
  "filter_rows v =
     bind_exn (first_of v) (\<lambda>filterData.
     bind_exn (prop_of filterData (js ''Entries'')) (\<lambda>entries.
     bind_exn (elements_of entries) (\<lambda>items. map_exn entry_row (enumerate 0 items))))"

definition loadAPIdata :: "filter_editor \<Rightarrow> filter_editor" where
  "loadAPIdata s =
     s\<lparr>ui := ui_call (doCall (filter_url (filterId s)) (js ''get'') (Obj []) []) (ui s),
       calls := calls s @ [FilterLoad]\<rparr>"

definition filter_error :: "jsval \<Rightarrow> jsval \<Rightarrow> message" where
  "filter_error t sub =
     \<lparr>kind = str ''error'', title = t, subtitle = sub, timeout = Num 30000\<rparr>"

definition loadAPIdata_settled :: "texts \<Rightarrow> reply \<Rightarrow> filter_editor \<Rightarrow> filter_editor" where
  "loadAPIdata_settled tx r s =
     (case ui_settle doCall_settled r (ui s) of
        (u, Inl err) \<Rightarrow>
          s\<lparr>ui := notify (filter_error (tr tx (js ''Error:''))
                    (plus_text (tr tx (js ''Unable to load data from the api : ''))
                      (message_of tx err))) u\<rparr>
      | (u, Inr v) \<Rightarrow>
          (case filter_rows v of
             Inr rows \<Rightarrow> s\<lparr>ui := u, data := rows\<rparr>
           | Inl err \<Rightarrow>
               s\<lparr>ui := notify (filter_error (str ''Error:'') (Str (message_of tx err))) u\<rparr>))"

section \<open>Editing\<close>

definition handleContentChange :: "int \<Rightarrow> jsval \<Rightarrow> filter_editor \<Rightarrow> filter_editor" where
  "handleContentChange i newValue s =
     s\<lparr>data := map (\<lambda>r. if row_id r = i then r\<lparr>content := newValue\<rparr> else r) (data s)\<rparr>"

definition handleScoreChange :: "int \<Rightarrow> jsval \<Rightarrow> filter_editor \<Rightarrow> filter_editor" where
  "handleScoreChange i detail s =
     (let newScore = parseInt detail
      in if \<not> isNaN newScore
         then s\<lparr>data := map (\<lambda>r. if row_id r = i then r\<lparr>score := newScore\<rparr> else r) (data s)\<rparr>
         else s\<lparr>ui := notify (filter_error (str ''Error:'') (str ''Score must be a number'')) (ui s)\<rparr>)"

definition filter_payload :: "filter_row list \<Rightarrow> jsval" where
  "filter_payload rows =
     Arr (map (\<lambda>r. Obj [(js ''Content'', content r), (js ''Score'', score r)]) rows)"

definition saveData :: "filter_editor \<Rightarrow> filter_editor" where
  "saveData s =
     s\<lparr>ui := ui_call (doCall (filter_url (filterId s)) (js ''post'') (filter_payload (data s)) [])
               (ui s),
       calls := calls s @ [FilterSave]\<rparr>"

text \<open>An exception in the continuation is an unhandled rejection: nothing follows it.\<close>

definition saveData_settled :: "reply \<Rightarrow> filter_editor \<Rightarrow> filter_editor" where
  "saveData_settled r s =
     (case ui_settle doCall_settled r (ui s) of
        (u, Inl err) \<Rightarrow> s\<lparr>ui := u\<rparr>
      | (u, Inr v) \<Rightarrow>
          (case bind_exn (prop_of v (js ''Response'')) (\<lambda>resp. js_includes resp (js ''Ok'')) of
             Inr True \<Rightarrow>
               loadAPIdata (s\<lparr>ui := notify \<lparr>kind = str ''success'', title = str ''Success:'',
                 subtitle = str ''Filter saved successfully'', timeout = Num 3000\<rparr> u\<rparr>)
           | _ \<Rightarrow> s\<lparr>ui := u\<rparr>))"

definition editRow :: "int \<Rightarrow> filter_editor \<Rightarrow> filter_editor" where
  "editRow i s =
     (if editingRowId s = Some i then saveData (s\<lparr>editingRowId := None\<rparr>)
      else s\<lparr>editingRowId := Some i\<rparr>)"

definition delete_filter_row :: "int \<Rightarrow> filter_row list \<Rightarrow> filter_row list" where
  "delete_filter_row i rows = filter (\<lambda>r. row_id r \<noteq> i) rows"

definition removeRow :: "int \<Rightarrow> filter_editor \<Rightarrow> filter_editor" where
  "removeRow i s = saveData (s\<lparr>data := delete_filter_row i (data s)\<rparr>)"

definition append_filter_row :: "jsval \<Rightarrow> filter_row list \<Rightarrow> filter_row list" where
  "append_filter_row c rows =
     rows @ [\<lparr>row_id = int (length rows) + 1, content = c, score = Num 0\<rparr>]"

definition addRow :: "texts \<Rightarrow> filter_editor \<Rightarrow> filter_editor" where
  "addRow tx s =
     editRow (int (length (data s)) + 1)
       (s\<lparr>data := append_filter_row (tr tx (js ''New item'')) (data s)\<rparr>)"

definition filter_init :: "jsstr \<Rightarrow> ui \<Rightarrow> filter_editor" where
  "filter_init i u =
     loadAPIdata \<lparr>filterId = i, data = [], editingRowId = None, calls = [], ui = u\<rparr>"

datatype filter_event =
    ContentInput int jsval
  | ScoreInput int jsval
  | EditClick int
  | RemoveClick int
  | InsertClick
  | FilterSettled nat reply

fun filter_step :: "texts \<Rightarrow> filter_editor \<Rightarrow> filter_event \<Rightarrow> filter_editor" where
  "filter_step tx s (ContentInput i v) = handleContentChange i v s"
| "filter_step tx s (ScoreInput i v) = handleScoreChange i v s"
| "filter_step tx s (EditClick i) = editRow i s"
| "filter_step tx s (RemoveClick i) = removeRow i s"
| "filter_step tx s InsertClick = addRow tx s"
| "filter_step tx s (FilterSettled k r) =
     (if k < length (calls s)
      then (let s' = s\<lparr>calls := drop_nth k (calls s)\<rparr>
            in case calls s ! k of
                 FilterLoad \<Rightarrow> loadAPIdata_settled tx r s'
               | FilterSave \<Rightarrow> saveData_settled r s')
      else s)"

section \<open>What the table shows\<close>

definition filter_headers :: "texts \<Rightarrow> jsstr list \<Rightarrow> (jsstr \<times> jsval) list" where
  "filter_headers tx showColumns =
     filter (\<lambda>(k, v). k \<in> set showColumns)
       [(js ''content'', tr tx (js ''Content'')), (js ''score'', tr tx (js ''Score'')),
        (js ''actions'', tr tx (js ''Actions''))]"

definition filter_table :: "filter_row list \<Rightarrow> filter_row list" where
  "filter_table rows = sort_key (\<lambda>r. - row_id r) rows"

datatype cell_view = ActionButtons bool | NumberInput jsval | TextInput jsval | Plain jsval

definition filter_cell :: "filter_editor \<Rightarrow> filter_row \<Rightarrow> jsstr \<Rightarrow> cell_view" where
  "filter_cell s row key =
     (let value = (if key = js ''content'' then content row
                   else if key = js ''score'' then score row else Str [])
      in if key = js ''actions'' then ActionButtons (editingRowId s = Some (row_id row))
         else if editingRowId s = Some (row_id row) \<and> row_id row \<noteq> 0
         then (if key = js ''score'' then NumberInput value else TextInput value)
         else Plain value)"

definition https_warning :: "jsval \<Rightarrow> bool" where
  "https_warning enable_https_filtering = loose_eq_text enable_https_filtering ''false''"

text \<open>The filter and the columns of each page.\<close>

definition filter_page :: "jsstr \<Rightarrow> (jsstr \<times> jsstr list) option" where
  "filter_page t =
     (let wide = map js [''content'', ''score'', ''actions''];
          narrow = map js [''content'', ''actions'']
      in if t = js ''blockedfiletypes'' then Some (js ''JHGJiwjkGOeglsk'', narrow)
         else if t = js ''blockedkeywords'' then Some (js ''bVxTPTOXiqGRbhF'', wide)
         else if t = js ''blockedurls'' then Some (js ''bTXmTXgTuXpJuOZ'', narrow)
         else if t = js ''excludeurls'' then Some (js ''JHGJiwjkGOeglsd'', narrow)
         else if t = js ''excludehosts'' then Some (js ''CeBqssmRbqXzbHR'', narrow)
         else None)"

interpretation filter_table: numbered_rows row_id append_filter_row delete_filter_row "\<lambda>i. i"
  by unfold_locales (auto simp: append_filter_row_def delete_filter_row_def)


section \<open>Properties\<close>

lemma enumerate_rows:
  assumes "\<And>p. p \<in> set (enumerate 0 ds) \<Longrightarrow> entry_row p = Inr (f (int (fst p) + 1) (snd p))"
  shows "map_exn entry_row (enumerate 0 ds) = Inr (numbered f ds)"
  using map_exn_Inr [OF assms] by (simp add: numbered_def case_prod_beta')

definition entry_of :: "filter_row \<Rightarrow> jsval" where
  "entry_of r = Obj [(js ''Content'', content r), (js ''Score'', score r)]"

lemma entry_row_entry_of:
  "entry_row (i, entry_of r) = Inr \<lparr>row_id = int i + 1, content = content r, score = score r\<rparr>"
  by (simp add: entry_row_def entry_of_def get_prop_def)

lemma filter_payload_entries: "filter_payload rows = Arr (map entry_of rows)"
  by (simp add: filter_payload_def entry_of_def [abs_def])

lemma map_exn_numbered:
  assumes "\<And>i d. d \<in> set ds \<Longrightarrow> f (i, g d) = Inr (h (int i + 1) d)"
  shows "map_exn f (enumerate n (map g ds)) = Inr (map (\<lambda>(i, d). h (int i + 1) d) (enumerate n ds))"
  using assms by (induction ds arbitrary: n) auto

lemma filter_rows_payload:
  "filter_rows (Arr [Obj [(js ''Entries'', filter_payload rows)]]) =
     Inr (numbered (\<lambda>i r. \<lparr>row_id = i, content = content r, score = score r\<rparr>) rows)"
  using map_exn_numbered [of rows entry_row entry_of
      "\<lambda>i r. \<lparr>row_id = i, content = content r, score = score r\<rparr>" 0]
  by (simp add: filter_rows_def get_prop_def filter_payload_entries entry_row_entry_of numbered_def)

lemma payload_json:
  "\<forall>r \<in> set rows. json_value (content r) \<and> json_value (score r) \<Longrightarrow> json_value (filter_payload rows)"
  by (auto simp: filter_payload_def list_all_iff)

text \<open>
  Claim C30: what the editor posts when it saves, put by the server into the entries of the filter
  and loaded again, gives back the same contents and scores in the same order, numbered from 1.
\<close>

theorem saved_filter_loads_back:
  assumes "\<forall>r \<in> set (data s). json_value (content r) \<and> json_value (score r)"
  shows "\<exists>p. JSON_parse (body_of (last (sent (ui (saveData s))))) = Inr p \<and>
    (let s' = loadAPIdata_settled tx (Reply 200 (Some (Arr [Obj [(js ''Entries'', p)]]))) (saveData s)
     in map content (data s') = map content (data s) \<and> map score (data s') = map score (data s) \<and>
        dense row_id (data s'))"
proof (intro exI conjI)
  show "JSON_parse (body_of (last (sent (ui (saveData s))))) = Inr (filter_payload (data s))"
    using json_round_trip [OF payload_json [OF assms]] by (simp add: saveData_def)
  show "let s' = loadAPIdata_settled tx
        (Reply 200 (Some (Arr [Obj [(js ''Entries'', filter_payload (data s))]]))) (saveData s)
     in map content (data s') = map content (data s) \<and> map score (data s') = map score (data s) \<and>
        dense row_id (data s')"
    by (auto simp: loadAPIdata_settled_def ui_settle_def doCall_settled_def filter_rows_payload
        saveData_def Let_def map_numbered dense_numbered)
qed

definition sample_rows :: "filter_row list" where
  "sample_rows =
     [\<lparr>row_id = 1, content = str ''a.com'', score = Num 0\<rparr>,
      \<lparr>row_id = 2, content = str ''b.com'', score = Num 7\<rparr>,
      \<lparr>row_id = 3, content = str ''c.com'', score = Num 9\<rparr>]"

definition sample_editor :: filter_editor where
  "sample_editor =
     (filter_init (js ''bTXmTXgTuXpJuOZ'') (ui_init Map.empty))\<lparr>data := sample_rows\<rparr>"

lemma sample_data: "data sample_editor = sample_rows"
  by (simp add: sample_editor_def)

theorem saved_filter_loads_back_witness:
  "\<exists>p. JSON_parse (body_of (last (sent (ui (saveData sample_editor))))) = Inr p \<and>
    map content (data (loadAPIdata_settled plain_texts
      (Reply 200 (Some (Arr [Obj [(js ''Entries'', p)]]))) (saveData sample_editor))) =
      [str ''a.com'', str ''b.com'', str ''c.com'']"
  using saved_filter_loads_back [of sample_editor plain_texts]
  by (auto simp: sample_data sample_rows_def str_def Let_def)

text \<open>
  An event of the editor sends at most one request, to the filter's own address. A click
  that saves posts exactly the rows that the table then holds; a request that only reads is sent
  when a call settles.
\<close>

theorem filter_requests:
  "sent (ui (filter_step tx s e)) = sent (ui s) \<or>
   (\<exists>c. sent (ui (filter_step tx s e)) = sent (ui s) @ [c] \<and>
      call_url c = baseURL @ filter_url (filterId s) \<and>
      (if \<exists>k r. e = FilterSettled k r then method_of c = str ''get'' \<and> body_of c = Undef
       else method_of c = str ''post'' \<and>
         body_of c = JSON_stringify (filter_payload (data (filter_step tx s e)))))"
proof (cases e)
  case (ScoreInput i v)
  then show ?thesis by (simp add: handleScoreChange_def Let_def)
next
  case (FilterSettled k r)
  then show ?thesis
    by (auto simp: Let_def loadAPIdata_settled_def saveData_settled_def loadAPIdata_def str_def
        split: filter_call.splits prod.splits sum.splits bool.splits)
qed (auto simp: handleContentChange_def editRow_def removeRow_def addRow_def saveData_def str_def)


lemma append_filter_row_last:
  "row_id (last (append_filter_row c rows)) = int (length rows) + 1"
  by (simp add: append_filter_row_def)

lemma edited_rows_with_same_id:
  assumes "row_id (rows ! j) = i" and "j < length rows"
  shows "content (map (\<lambda>r. if row_id r = i then r\<lparr>content := v\<rparr> else r) rows ! j) = v"
  using assms by simp

text \<open>
  In a table numbered from 1 as it is loaded, typing changes the content of the chosen
  row only. When a row other than the last is removed and one is inserted before the reload, the
  new row has the number of the last old row, and typing into it changes both.
\<close>

theorem filter_row_numbers:
  assumes "dense row_id (data s)" and "i < length (data s)" and "editingRowId s = None"
  shows "data (handleContentChange (int i + 1) v s) = (data s)[i := (data s ! i)\<lparr>content := v\<rparr>] \<and>
    (Suc i < length (data s) \<longrightarrow>
      (let s' = addRow tx (removeRow (int i + 1) s); n = length (data s)
       in editingRowId s' = Some (int n) \<and> length (data s') = n \<and>
          content (data (handleContentChange (int n) v s') ! (n - 1)) = v \<and>
          content (data (handleContentChange (int n) v s') ! (n - 2)) = v))"
proof (intro conjI impI)
  have ids: "row_id (data s ! j) = int i + 1 \<longleftrightarrow> j = i" if "j < length (data s)" for j
    using dense_nth [OF assms(1) that] by simp
  show "data (handleContentChange (int i + 1) v s) = (data s)[i := (data s ! i)\<lparr>content := v\<rparr>]"
    using ids by (intro nth_equalityI) (auto simp: handleContentChange_def nth_list_update)
  assume i: "Suc i < length (data s)"
  let ?n = "length (data s)"
  let ?d = "delete_filter_row (int i + 1) (data s)"
  have d: "?d = take i (data s) @ drop (Suc i) (data s)"
    using i by (intro filter_table.delete_dense_nth [OF assms(1)]) auto
  then have len: "length ?d = ?n - 1" using i by simp
  then have len1: "int (length ?d) + 1 = int ?n" using i by linarith
  have old: "row_id (?d ! (?n - 2)) = int ?n"
    using i dense_nth [OF assms(1), of "?n - 1"] by (auto simp: d nth_append min_def Suc_diff_Suc numeral_2_eq_2)
  have pos: "?n - 2 < ?n - 1" "Suc (?n - 1) = ?n" using i by auto
  show "let s' = addRow tx (removeRow (int i + 1) s); n = ?n
       in editingRowId s' = Some (int n) \<and> length (data s') = n \<and>
          content (data (handleContentChange (int n) v s') ! (n - 1)) = v \<and>
          content (data (handleContentChange (int n) v s') ! (n - 2)) = v"
    using assms(3) len len1 old pos
    by (simp add: Let_def addRow_def removeRow_def editRow_def saveData_def handleContentChange_def
        append_filter_row_def nth_append)
qed

lemma sample_dense: "dense row_id sample_rows"
  by (simp add: dense_def sample_rows_def)

theorem filter_row_numbers_witness:
  "content (data (handleContentChange 3 (str ''x'')
     (addRow plain_texts (removeRow 1 sample_editor))) ! 1) = str ''x''"
proof -
  have "editingRowId sample_editor = None"
    by (simp add: sample_editor_def filter_init_def loadAPIdata_def)
  from filter_row_numbers [OF _ _ this, of 0 "str ''x''" plain_texts] show ?thesis
    by (simp add: sample_data sample_dense Let_def)
      (simp add: sample_rows_def numeral_3_eq_3)
qed

end
