(* ===== verification/App_Shell.thy ===== *)
theory App_Shell
  imports Ui_Base Router Filter_Editor
begin

text \<open>
  The shell of the application: the routes of \<open>ui/src/App.svelte\<close>, the menu of
  \<open>ui/src/menu.ts\<close> with the two components that show it, and the session: verification of
  the stored token, the login page (\<open>ui/src/routes/login/login.svelte\<close>), logging out
  (\<open>ui/src/components/headerrightnav.svelte\<close>), what a rejected call does to them, and an update of
  the page that raises. The theorems are in \<open>App_Session\<close>.
\<close>

declare js_Cons [simp del]

section \<open>Menu\<close>

datatype menu_item = MenuLink string string | MenuGroup string "menu_item list"

definition menuItems :: "menu_item list" where
  "menuItems =
     [MenuLink ''Home'' ''/'',
      MenuLink ''Logs'' ''/logs'',
      MenuLink ''Settings'' ''/settings'',
      MenuLink ''DNS'' ''/dns'',
      MenuGroup ''Filters''
        [MenuLink ''Keywords to Block'' ''/blockedkeywords'',
         MenuLink ''Block List'' ''/blockedurls'',
         MenuLink ''Blocked content types'' ''/blockedfiletypes'',
         MenuLink ''Exception Hostnames'' ''/excludehosts''],
      MenuLink ''Services'' ''/services'',
      MenuLink ''Stats'' ''/stats'',
      MenuLink ''AI'' ''/ai'',
      MenuLink ''Users'' ''/users'']"

fun item_hrefs :: "menu_item \<Rightarrow> string list" where
  "item_hrefs (MenuLink t h) = [h]"
| "item_hrefs (MenuGroup t items) = concat (map item_hrefs items)"

text \<open>Both menus show the items while the user is logged in, and none otherwise.\<close>

definition menuItemsToRender :: "jsval \<Rightarrow> menu_item list" where
  "menuItemsToRender logged = (if truthy_val logged then menuItems else [])"

section \<open>Routes\<close>

datatype page =
    Login | Dns | Logs | Settings | FilterPage string | Services | Rules | Stats | AI | UsersPage | Home

definition app_routes :: "(string \<times> page) list" where
  "app_routes =
     [(''/login'', Login), (''/dns'', Dns), (''/logs'', Logs), (''/settings'', Settings),
      (''/blockedkeywords'', FilterPage ''blockedkeywords''),
      (''/blockedfiletypes'', FilterPage ''blockedfiletypes''),
      (''/excludeurls'', FilterPage ''excludeurls''),
      (''/blockedurls'', FilterPage ''blockedurls''),
      (''/excludehosts'', FilterPage ''excludehosts''),
      (''/services'', Services), (''/rules'', Rules), (''/stats'', Stats), (''/ai'', AI),
      (''/users'', UsersPage), (''/'', Home)]"

text \<open>The content of the router, and with it every route, is created when the texts are loaded.\<close>

definition register_all :: "router \<Rightarrow> router" where
  "register_all r = run_events router_step r (map (\<lambda>p. Register (js (fst p))) app_routes)"

text \<open>The page of a route, by the path it was declared with.\<close>

definition page_of :: "route_match option \<Rightarrow> page option" where
  "page_of m =
     (case m of
        None \<Rightarrow> None
      | Some rm \<Rightarrow> map_of (map (\<lambda>(p, g). (js p, g)) app_routes) (own_path (route rm)))"

section \<open>Session\<close>

record login_form =
  username :: jsstr
  password :: jsstr
  rememberMe :: bool
  invalid :: bool

datatype app_call = VerifyCall | LoginCall | PageCall

record app =
  ui :: ui
  router :: router
  loaded :: bool
  tokenVerified :: bool
  form :: login_form
  app_calls :: "app_call list"

definition app_storage :: "app \<Rightarrow> storage" where
  "app_storage s = localStorage (Ui_Base.store (ui s))"

definition set_storage :: "storage \<Rightarrow> app \<Rightarrow> app" where
  "set_storage st s = s\<lparr>ui := (ui s)\<lparr>store := (Ui_Base.store (ui s))\<lparr>localStorage := st\<rparr>\<rparr>\<rparr>"

definition signed_in :: "app \<Rightarrow> bool" where
  "signed_in s = truthy_val (loggedIn (api (Ui_Base.store (ui s))))"

text \<open>The active route is the one of the login page.\<close>

definition at_login :: "app \<Rightarrow> bool" where
  "at_login s \<longleftrightarrow> page_of (active (router s)) = Some Login"

text \<open>
  An update of the page has raised: the scheduler runs no other one, so neither reactive blocks nor
  callbacks of updates run, and the router keeps its active route. Handlers of events and of replies
  run as before.
\<close>

definition frozen :: "app \<Rightarrow> bool" where
  "frozen s \<longleftrightarrow> update_failed (router s)"

text \<open>The reactive block of the login page: what is remembered of the form.\<close>

definition remember :: "login_form \<Rightarrow> storage \<Rightarrow> storage" where
  "remember f st =
     (if rememberMe f
      then st(js ''username'' \<mapsto> username f, js ''password'' \<mapsto> password f, js ''rememberMe'' \<mapsto> js ''true'')
      else st(js ''username'' := None, js ''password'' := None, js ''rememberMe'' := None))"

definition login_form_init :: "storage \<Rightarrow> login_form" where
  "login_form_init st =
     \<lparr>username = (case st (js ''username'') of Some v \<Rightarrow> v | None \<Rightarrow> []),
      password = (case st (js ''password'') of Some v \<Rightarrow> v | None \<Rightarrow> []),
      rememberMe = (st (js ''rememberMe'') = Some (js ''true'')), invalid = False\<rparr>"

text \<open>The login page is created when its route becomes active; it reads what is remembered.\<close>

definition mount_login :: "app \<Rightarrow> app" where
  "mount_login s =
     (let f = login_form_init (app_storage s)
      in set_storage (remember f (app_storage s)) (s\<lparr>form := f\<rparr>))"

definition moved :: "router \<Rightarrow> app \<Rightarrow> app" where
  "moved r s =
     (let s' = s\<lparr>router := r\<rparr> in if at_login s' \<and> \<not> at_login s then mount_login s' else s')"

definition go :: "string \<Rightarrow> app \<Rightarrow> app" where
  "go to s = moved (router_step (router s) (Navigate False (js to))) s"

text \<open>The reactive block of the application.\<close>

definition app_react :: "app \<Rightarrow> app" where
  "app_react s =
     (if loaded s
      then (let s = (if \<not> tokenVerified s
                     then s\<lparr>ui := ui_call verifyToken (ui s), app_calls := app_calls s @ [VerifyCall]\<rparr>
                     else s)
            in if \<not> signed_in s then go ''/login'' s else s)
      else s)"

text \<open>The login page leaves for the start page after an update in which the user is logged in.\<close>

definition login_updated :: "app \<Rightarrow> app" where
  "login_updated s = (if at_login s \<and> signed_in s \<and> \<not> frozen s then go ''/'' s else s)"

definition rerender :: "app \<Rightarrow> app" where
  "rerender s = (if frozen s then s else login_updated (app_react s))"

definition form_changed :: "(login_form \<Rightarrow> login_form) \<Rightarrow> app \<Rightarrow> app" where
  "form_changed f s =
     (let s = s\<lparr>form := f (form s)\<rparr>
      in if frozen s then s else set_storage (remember (form s) (app_storage s)) s)"

definition onCancel :: "app \<Rightarrow> app" where
  "onCancel s = form_changed (\<lambda>f. f\<lparr>username := [], password := []\<rparr>) s"

definition handleLogin :: "app \<Rightarrow> app" where
  "handleLogin s =
     s\<lparr>ui := ui_call (doCall (js ''/auth/token'') (js ''post'')
         (Obj [(js ''username'', Str (username (form s))), (js ''pass'', Str (password (form s)))]) [])
         (ui s),
       app_calls := app_calls s @ [LoginCall]\<rparr>"

text \<open>\<open>data?.Validated && data.Validated == "true"\<close> and the token that came with it.\<close>

definition validated :: "jsval \<Rightarrow> bool" where
  "validated d =
     (case prop_of d (js ''Validated'') of
        Inr v \<Rightarrow> truthy_val v \<and> loose_eq_text v ''true''
      | Inl _ \<Rightarrow> False)"

definition login_token :: "jsval \<Rightarrow> jsval" where
  "login_token d = (case prop_of d (js ''Jwtoken'') of Inr v \<Rightarrow> v | Inl _ \<Rightarrow> Undef)"

definition accept_login :: "jsval \<Rightarrow> app \<Rightarrow> app" where
  "accept_login d s =
     (let s = set_storage ((app_storage s)(jwt_key \<mapsto> js_text (login_token d))) s
      in rerender (s\<lparr>ui := (ui s)\<lparr>store := loginSuccesful (login_token d) (Ui_Base.store (ui s))\<rparr>\<rparr>))"

definition handleLogin_settled :: "texts \<Rightarrow> reply \<Rightarrow> app \<Rightarrow> app" where
  "handleLogin_settled tx r s =
     (let p = published (Ui_Base.store (ui s))
      in case ui_settle doCall_settled r (ui s) of
           (u, v) \<Rightarrow>
             (let s = s\<lparr>ui := u\<rparr>;
                  s = (if published (Ui_Base.store u) \<noteq> p then rerender s else s)
              in case v of
                   Inl err \<Rightarrow> s
                 | Inr d \<Rightarrow>
                     if nullish d
                     then s\<lparr>ui := notify (createNotificationError (empty_message\<lparr>subtitle :=
                            tr tx (js ''Unable to get a correct response from the api'')\<rparr>) (tr tx)) (ui s)\<rparr>
                     else if validated d then accept_login d s
                     else s\<lparr>form := (form s)\<lparr>invalid := True\<rparr>\<rparr>))"

definition verify_settled :: "reply \<Rightarrow> app \<Rightarrow> app" where
  "verify_settled r s =
     (case ui_settle verifyToken_settled r (ui s) of
        (u, Inl err) \<Rightarrow> s\<lparr>ui := u\<rparr>
      | (u, Inr isValid) \<Rightarrow>
          (let s = s\<lparr>ui := u, tokenVerified := True\<rparr>
           in rerender (if isValid then s\<lparr>ui := u\<lparr>store := refresh (Ui_Base.store u)\<rparr>\<rparr> else s)))"

text \<open>A call of any other component; only an unauthorized reply concerns the session.\<close>

definition page_call :: "jsstr \<Rightarrow> app \<Rightarrow> app" where
  "page_call e s =
     s\<lparr>ui := ui_call (doCall e (js ''get'') (Obj []) []) (ui s), app_calls := app_calls s @ [PageCall]\<rparr>"

definition page_settled :: "reply \<Rightarrow> app \<Rightarrow> app" where
  "page_settled r s =
     (case ui_settle doCall_settled r (ui s) of
        (u, _) \<Rightarrow>
          if published (Ui_Base.store u) \<noteq> published (Ui_Base.store (ui s))
          then rerender (s\<lparr>ui := u\<rparr>) else s\<lparr>ui := u\<rparr>)"

definition onLogout :: "app \<Rightarrow> app" where
  "onLogout s =
     go ''/login'' (rerender (s\<lparr>ui := (ui s)\<lparr>store := logout (Ui_Base.store (ui s))\<rparr>\<rparr>))"

definition setup_done :: "app \<Rightarrow> app" where
  "setup_done s =
     (let s = s\<lparr>loaded := True, router := register_all (router s)\<rparr>
      in rerender (if at_login s then mount_login s else s))"

definition app_init :: "storage \<Rightarrow> jsstr \<Rightarrow> app" where
  "app_init st url =
     \<lparr>ui = ui_init st, router = router_init (Some []) (js ''/'') (opened_on url), loaded = False,
      tokenVerified = False, form = login_form_init st, app_calls = []\<rparr>"

datatype app_event =
    SetupDone
  | FormChange "login_form \<Rightarrow> login_form"
  | CancelClick
  | LoginSubmit
  | PageRequest jsstr
  | CallSettled nat reply
  | LogoutClick
  | MenuClick string
  | HistoryMove nat
  | UpdateRaises

text \<open>
  The login form exists on its page, the menus and the logout link while logged in; what a page that
  is updated no more has of them is not tracked, so every click may come. The update of a page may
  raise at any time after the texts are loaded (\<open>Pages\<close> has one that does).
\<close>

fun app_step :: "texts \<Rightarrow> app \<Rightarrow> app_event \<Rightarrow> app" where
  "app_step tx s SetupDone = (if loaded s then s else setup_done s)"
| "app_step tx s (FormChange f) = (if loaded s \<and> (at_login s \<or> frozen s) then form_changed f s else s)"
| "app_step tx s CancelClick = (if loaded s \<and> (at_login s \<or> frozen s) then onCancel s else s)"
| "app_step tx s LoginSubmit = (if loaded s \<and> (at_login s \<or> frozen s) then handleLogin s else s)"
| "app_step tx s (PageRequest e) = (if loaded s then page_call e s else s)"
| "app_step tx s (CallSettled k r) =
     (if k < length (app_calls s)
      then (let s' = s\<lparr>app_calls := drop_nth k (app_calls s)\<rparr>
            in case app_calls s ! k of
                 VerifyCall \<Rightarrow> verify_settled r s'
               | LoginCall \<Rightarrow> handleLogin_settled tx r s'
               | PageCall \<Rightarrow> page_settled r s')
      else s)"
| "app_step tx s LogoutClick = (if loaded s \<and> (signed_in s \<or> frozen s) then onLogout s else s)"
| "app_step tx s (MenuClick href) =
     (if loaded s \<and> (signed_in s \<or> frozen s) \<and> href \<in> set (concat (map item_hrefs menuItems))
      then login_updated (go href s) else s)"
| "app_step tx s (HistoryMove i) =
     (if loaded s then login_updated (moved (router_step (router s) (PopState i)) s) else s)"
| "app_step tx s UpdateRaises =
     (if loaded s then s\<lparr>router := (router s)\<lparr>update_failed := True\<rparr>\<rparr> else s)"

end
