(* ===== verification/App_Routes.thy ===== *)
theory App_Routes
  imports App_Shell
begin

text \<open>
  The routes of the application together with the router: which page every path of
  \<open>ui/src/App.svelte\<close> opens, and that the links of \<open>ui/src/menu.ts\<close> all lead to a page.
\<close>

declare js_Cons [simp del]

lemma register_routes:
  "routes (run_events router_step r (map Register ps)) =
     routes r @ map (\<lambda>(i, p). \<lparr>path = combinePaths (base r) p, own_path = p, is_default = (p = []),
       route_key = i\<rparr>) (enumerate (created r) ps)"
  by (induction ps arbitrary: r) (simp_all add: registerRoute_def)

definition plain_name :: "string \<Rightarrow> bool" where
  "plain_name n \<longleftrightarrow> n \<noteq> [] \<and> list_all (\<lambda>c. c \<notin> {CHR ''/'', CHR ''?'', CHR '':'', CHR ''*'', CHR ''%''}) n"

lemma slash_js: "[slash] = js ''/''"
  by (simp add: slash_def js_Cons)

lemma js_mem: "of_char c \<in> set (js s) \<longleftrightarrow> c \<in> set s"
proof -
  have "inj (of_char :: char \<Rightarrow> code_unit)" by (rule injI) (metis of_char_eq_iff unat_of_char)
  then show ?thesis by (auto simp: js_def inj_image_mem_iff)
qed

lemma plain_units:
  assumes "plain_name n"
  shows "slash \<notin> set (js n)" "0x3F \<notin> set (js n)" "0x3A \<notin> set (js n)" "0x2A \<notin> set (js n)" "0x25 \<notin> set (js n)"
proof -
  have u: "slash = of_char (CHR ''/'')" "0x3F = (of_char (CHR ''?'') :: code_unit)"
    "0x3A = (of_char (CHR '':'') :: code_unit)" "0x2A = (of_char (CHR ''*'') :: code_unit)"
    "0x25 = (of_char (CHR ''%'') :: code_unit)"
    by (simp_all add: slash_def)
  show "slash \<notin> set (js n)" "0x3F \<notin> set (js n)" "0x3A \<notin> set (js n)" "0x2A \<notin> set (js n)" "0x25 \<notin> set (js n)"
    using assms unfolding u js_mem by (auto simp: plain_name_def list_all_iff)
qed

lemma dropWhile_absent: "c \<notin> set s \<Longrightarrow> dropWhile (\<lambda>x. x = c) s = s"
  by (cases s) auto

lemma dropWhile_snoc: "c \<notin> set s \<Longrightarrow> s \<noteq> [] \<Longrightarrow> dropWhile (\<lambda>x. x = c) (s @ [c]) = s @ [c]"
  by (cases s) auto

lemma strip_plain:
  assumes "slash \<notin> set s"
  shows "stripSlashes s = s" "stripSlashes (slash # s) = s" "stripSlashes (s @ [slash]) = s"
proof -
  have r: "dropWhile (\<lambda>c. c = slash) (rev s) = rev s" using assms by (intro dropWhile_absent) simp
  show "stripSlashes s = s" "stripSlashes (slash # s) = s"
    using assms by (simp_all add: stripSlashes_def dropWhile_absent r)
  show "stripSlashes (s @ [slash]) = s"
    using assms r by (cases "s = []") (simp_all add: stripSlashes_def dropWhile_snoc)
qed

lemma js_slash: "js (CHR ''/'' # n) = slash # js n"
  by (simp add: js_Cons slash_def)

lemma plain_route:
  assumes "plain_name n"
  shows "segmentize (combinePaths (js ''/'') (js (CHR ''/'' # n))) = [js n]"
    and "uri_segments (js (CHR ''/'' # n)) = [js n]"
proof -
  note u = plain_units [OF assms]
  have ne: "js n \<noteq> []" using assms by (simp add: plain_name_def)
  have "combinePaths (js ''/'') (js (CHR ''/'' # n)) = js n @ [slash]"
    using u ne strip_plain [of "js n"] strip_plain(2) [of "[]"]
    by (simp add: combinePaths_def js_slash)
  then show "segmentize (combinePaths (js ''/'') (js (CHR ''/'' # n))) = [js n]"
    using u strip_plain(3) [of "js n"] by (simp add: segmentize_def split_on_no_sep)
  have "slash \<noteq> 0x3F" by (simp add: slash_def)
  with u have "split_on 0x3F (slash # js n) = [slash # js n]" by (intro split_on_no_sep) auto
  then show "uri_segments (js (CHR ''/'' # n)) = [js n]"
    using u strip_plain(2) [of "js n"]
    by (simp add: uri_segments_def js_slash segmentize_def split_on_no_sep)
qed

lemma root_route:
  "segmentize (combinePaths (js ''/'') (js ''/'')) = [[]]" "uri_segments (js ''/'') = [[]]"
  by (simp_all add: combinePaths_def js_slash segmentize_def uri_segments_def stripSlashes_def slash_def)


definition segs_of :: "string \<Rightarrow> jsstr" where
  "segs_of p = js (tl p)"

definition app_path :: "string \<Rightarrow> bool" where
  "app_path p \<longleftrightarrow> p = ''/'' \<or> (\<exists>n. p = CHR ''/'' # n \<and> plain_name n)"

lemma app_path_segments:
  assumes "app_path p"
  shows "segmentize (combinePaths (js ''/'') (js p)) = [segs_of p]" "uri_segments (js p) = [segs_of p]"
    "\<not> is_splat (segs_of p)" "param_name (segs_of p) = None" "0x25 \<notin> set (js p)"
proof -
  have "segmentize (combinePaths (js ''/'') (js p)) = [segs_of p] \<and> uri_segments (js p) = [segs_of p] \<and>
    \<not> is_splat (segs_of p) \<and> param_name (segs_of p) = None \<and> 0x25 \<notin> set (js p)"
  proof (cases "p = ''/''")
    case True
    then show ?thesis
      by (simp add: root_route segs_of_def is_splat_def param_name_def) (simp add: js_slash slash_def)
  next
    case False
    with assms obtain n where p: "p = CHR ''/'' # n" and n: "plain_name n"
      by (auto simp: app_path_def)
    note u = plain_units [OF n]
    have "hd (js n) \<in> set (js n)" using n by (intro hd_in_set) (simp add: plain_name_def)
    then have "hd (js n) \<noteq> 0x2A" "hd (js n) \<noteq> 0x3A" using u by auto
    then show ?thesis
      using plain_route [OF n] u
      by (simp add: p segs_of_def is_splat_def param_name_def js_slash slash_def Let_def split: list.splits)
        auto
  qed
  then show "segmentize (combinePaths (js ''/'') (js p)) = [segs_of p]" "uri_segments (js p) = [segs_of p]"
    "\<not> is_splat (segs_of p)" "param_name (segs_of p) = None" "0x25 \<notin> set (js p)" by auto
qed

lemma app_path_inject: "app_path p \<Longrightarrow> app_path q \<Longrightarrow> segs_of p = segs_of q \<Longrightarrow> p = q"
  by (auto simp: app_path_def segs_of_def)

definition table_routes :: "string list \<Rightarrow> route list" where
  "table_routes ps =
     map (\<lambda>(i, p). \<lparr>path = combinePaths (js ''/'') (js p), own_path = js p, is_default = False,
       route_key = i\<rparr>) (enumerate 0 ps)"

lemma table_routes_in:
  "r \<in> set (table_routes ps) \<Longrightarrow>
     \<exists>p \<in> set ps. path r = combinePaths (js ''/'') (js p) \<and> own_path r = js p \<and> \<not> is_default r"
  by (auto simp: table_routes_def in_set_enumerate_eq)

lemma table_routes_of:
  "p \<in> set ps \<Longrightarrow> \<exists>r \<in> set (table_routes ps). path r = combinePaths (js ''/'') (js p) \<and>
     own_path r = js p \<and> \<not> is_default r"
proof -
  assume "p \<in> set ps"
  then obtain i where i: "i < length ps" "ps ! i = p" by (auto simp: in_set_conv_nth)
  let ?r = "table_routes ps ! i"
  have "?r \<in> set (table_routes ps)" using i by (intro nth_mem) (simp add: table_routes_def)
  moreover have "?r = \<lparr>path = combinePaths (js ''/'') (js p), own_path = js p, is_default = False,
      route_key = i\<rparr>"
    using i by (simp add: table_routes_def nth_enumerate_eq)
  ultimately show ?thesis by (intro bexI [of _ ?r]) auto
qed

lemma pick_table:
  assumes "\<forall>p \<in> set ps. app_path p" and "p \<in> set ps"
  shows "\<exists>m. pick (table_routes ps) (js p) = Inr (Some m) \<and> own_path (route m) = js p"
proof -
  have p: "app_path p" using assms by blast
  have m: "matches r (js p) \<longleftrightarrow> own_path r = js p" if r: "r \<in> set (table_routes ps)" for r
  proof -
    obtain q where q: "q \<in> set ps" "path r = combinePaths (js ''/'') (js q)" "own_path r = js q"
      using table_routes_in [OF r] by blast
    then have aq: "app_path q" using assms(1) by blast
    have "matches r (js p) \<longleftrightarrow> segs_of q = segs_of p"
      using app_path_segments [OF p] app_path_segments [OF aq]
      by (simp add: matches_def q seg_match_static)
    then show ?thesis using app_path_inject [OF aq p] q by auto
  qed
  obtain res where r: "pick (table_routes ps) (js p) = Inr res" "pick_spec (table_routes ps) (js p) res"
    using pick_meets_spec [OF app_path_segments(5) [OF p]] by blast
  obtain q where "q \<in> set (table_routes ps)" "own_path q = js p" "\<not> is_default q"
    using table_routes_of [OF assms(2)] by blast
  with m r(2) obtain x where x: "res = Some x" "route x \<in> set (table_routes ps)"
    "matches (route x) (js p)"
    by (auto simp: pick_spec_def split: option.splits if_splits)
  with m r(1) show ?thesis by blast
qed

lemma app_paths: "\<forall>p \<in> set (map fst app_routes). app_path p"
  by (simp add: app_routes_def app_path_def plain_name_def)

lemma enumerate_map: "enumerate n (map f xs) = map (\<lambda>(i, x). (i, f x)) (enumerate n xs)"
  by (induction xs arbitrary: n) auto

text \<open>A router with the base of the application and no route yet.\<close>

definition unrouted :: "router \<Rightarrow> bool" where
  "unrouted r \<longleftrightarrow> routes r = [] \<and> created r = 0 \<and> base r = js ''/''"

lemma unrouted_init: "unrouted (router_init url (js ''/'') h)"
  by (simp add: unrouted_def router_init_def)

lemma init_working: "\<not> update_failed (router_init url b h)"
  unfolding router_init_def by (subst router_update_static) simp_all

lemma app_path_static:
  "app_path p \<Longrightarrow> path r = combinePaths (js ''/'') (js p) \<Longrightarrow> static_route r"
  by (simp add: static_route_def app_path_segments)

lemma register_working:
  "list_all static_route (routes r) \<Longrightarrow> base r = js ''/'' \<Longrightarrow> \<forall>p \<in> set ps. app_path p \<Longrightarrow>
     update_failed (run_events router_step r (map (\<lambda>p. Register (js p)) ps)) = update_failed r"
proof (induction ps arbitrary: r)
  case (Cons p ps)
  have st: "list_all static_route (routes (registerRoute (js p) r))"
    using Cons.prems by (simp add: registerRoute_def app_path_static [of p])
  then have "update_failed (Router.router_update (registerRoute (js p) r)) = update_failed r"
    by (simp add: router_update_static registerRoute_def)
  with Cons st show ?case by (simp add: registerRoute_def)
qed simp

lemma routes_registered:
  assumes "unrouted r"
  shows "routes (register_all r) = table_routes (map fst app_routes)"
proof -
  have "map (\<lambda>p. Register (js (fst p))) app_routes = map Register (map js (map fst app_routes))"
    by simp
  moreover have "fst (app_routes ! i) \<noteq> []" if "i < length app_routes" for i
  proof -
    have "\<forall>q \<in> set app_routes. fst q \<noteq> []" by (simp add: app_routes_def)
    then show ?thesis using that nth_mem by blast
  qed
  ultimately show ?thesis
    using assms unfolding register_all_def unrouted_def
    by (simp only: register_routes) (fastforce simp: table_routes_def enumerate_map in_set_enumerate_eq)
qed

lemma registered_routes:
  "routes (register_all (router_init url (js ''/'') h)) = table_routes (map fst app_routes)"
  by (rule routes_registered [OF unrouted_init])

lemma page_of_path:
  "own_path (route m) = js p \<Longrightarrow> page_of (Some m) = map_of app_routes p"
proof -
  have "map_of (map (\<lambda>(p, g). (js p, g)) xs) (js q) = map_of xs q" for xs :: "(string \<times> page) list" and q
    by (induction xs) auto
  moreover assume "own_path (route m) = js p"
  ultimately show ?thesis by (simp add: page_of_def)
qed

text \<open>
  With the routes of the application registered, the path of every route picks that route
  and so its page, every link of the menu is the path of a route, and every filter page of the routes
  opens the editor on a filter of its own.
\<close>

theorem menu_links_resolve:
  "(\<forall>(p, g) \<in> set app_routes.
      \<exists>m. pick (routes (register_all (router_init url (js ''/'') h))) (js p) = Inr (Some m) \<and>
        page_of (Some m) = Some g) \<and>
   set (concat (map item_hrefs menuItems)) \<subseteq> set (map fst app_routes) \<and>
   (let pages = map (\<lambda>t. filter_page (js t)) [t. FilterPage t \<leftarrow> map snd app_routes]
    in length pages = 5 \<and> None \<notin> set pages \<and> distinct (map (fst \<circ> the) pages))"
proof (intro conjI)
  show "\<forall>(p, g) \<in> set app_routes.
      \<exists>m. pick (routes (register_all (router_init url (js ''/'') h))) (js p) = Inr (Some m) \<and>
        page_of (Some m) = Some g"
  proof (clarify)
    fix p g assume pg: "(p, g) \<in> set app_routes"
    then have "p \<in> set (map fst app_routes)" by force
    from pick_table [OF app_paths this] obtain m
      where m: "pick (table_routes (map fst app_routes)) (js p) = Inr (Some m)" "own_path (route m) = js p"
      by blast
    have "distinct (map fst app_routes)" by (simp add: app_routes_def)
    then have "map_of app_routes p = Some g" using pg by simp
    then show "\<exists>m. pick (routes (register_all (router_init url (js ''/'') h))) (js p) = Inr (Some m) \<and>
        page_of (Some m) = Some g"
      using m page_of_path [OF m(2)] by (auto simp: registered_routes)
  qed
  show "set (concat (map item_hrefs menuItems)) \<subseteq> set (map fst app_routes)"
    by (simp add: menuItems_def app_routes_def)
  show "let pages = map (\<lambda>t. filter_page (js t)) [t. FilterPage t \<leftarrow> map snd app_routes]
    in length pages = 5 \<and> None \<notin> set pages \<and> distinct (map (fst \<circ> the) pages)"
    by (simp add: app_routes_def filter_page_def Let_def)
qed

theorem menu_links_resolve_witness:
  "\<exists>m. pick (routes (register_all (router_init None (js ''/'') (opened_on (js ''/''))))) (js ''/users'') =
     Inr (Some m) \<and> page_of (Some m) = Some UsersPage"
proof -
  have "(''/users'', UsersPage) \<in> set app_routes" by (simp add: app_routes_def)
  with menu_links_resolve [of None "opened_on (js ''/'')"] show ?thesis by fastforce
qed

lemma table_static: "list_all static_route (table_routes (map fst app_routes))"
proof -
  have "static_route r" if "r \<in> set (table_routes (map fst app_routes))" for r
    using table_routes_in [OF that] app_paths app_path_static by blast
  then show ?thesis by (simp add: list_all_iff)
qed

lemma links_are_routes: "set (concat (map item_hrefs menuItems)) \<subseteq> set (map fst app_routes)"
  by (simp add: menuItems_def app_routes_def)

lemma links_leave_login: "js ''/login'' \<notin> js ` set (concat (map item_hrefs menuItems))"
  by (simp add: menuItems_def js_Cons)

end
