(* ===== verification/App_Session.thy ===== *)
theory App_Session
  imports App_Routes
begin

text \<open>
  The session of the application: which page is active while the user is signed in or signed out, what
  a rejected call does, and what a link of the menu opens. An update of the page that raises is an
  event as any other; what is claimed of the active page holds until the first one, and after it the
  active page stays.
\<close>

declare js_Cons [simp del]

section \<open>The router of the application\<close>

definition app_router :: "bool \<Rightarrow> router \<Rightarrow> bool" where
  "app_router l r \<longleftrightarrow>
     router_inv r \<and>
     (if l then routes r = table_routes (map fst app_routes) else unrouted r \<and> \<not> update_failed r)"

lemma app_router_static: "app_router l r \<Longrightarrow> list_all static_route (routes r)"
  using table_static by (auto simp: app_router_def unrouted_def split: if_splits)

lemma move_fields:
  "routes (navigate rep to r) = routes r" "created (navigate rep to r) = created r"
  "base (navigate rep to r) = base r" "update_failed (navigate rep to r) = update_failed r"
  "active (navigate rep to r) = active r"
  "routes (popstate i r) = routes r" "created (popstate i r) = created r" "base (popstate i r) = base r"
  "update_failed (popstate i r) = update_failed r" "active (popstate i r) = active r"
  by (simp_all add: navigate_def popstate_def notify_location_def)

lemma move_failed:
  assumes "app_router l r"
  shows "update_failed (router_step r (Navigate rep to)) = update_failed r"
    and "update_failed (router_step r (PopState i)) = update_failed r"
  using router_update_static [of "navigate rep to r"] router_update_static [of "popstate i r"]
    app_router_static [OF assms] by (simp_all add: move_fields)

lemma app_router_move:
  assumes "app_router l r"
  shows "app_router l (router_step r (Navigate rep to))" and "app_router l (router_step r (PopState i))"
proof -
  have "router_inv r" using assms by (simp add: app_router_def)
  then show "app_router l (router_step r (Navigate rep to))" "app_router l (router_step r (PopState i))"
    using assms move_failed [OF assms] router_inv_step [of r "Navigate rep to"] router_inv_step [of r "PopState i"]
    by (auto simp: app_router_def unrouted_def move_fields)
qed

lemma app_router_registered:
  assumes "app_router False r"
  shows "app_router True (register_all r)" and "\<not> update_failed (register_all r)"
proof -
  have "routes (register_all r) = table_routes (map fst app_routes)"
    using assms by (intro routes_registered) (simp add: app_router_def)
  moreover have "router_inv (register_all r)"
    using assms by (simp add: app_router_def register_all_def routing.inv_run_from)
  ultimately show "app_router True (register_all r)" by (simp add: app_router_def)
  show "\<not> update_failed (register_all r)"
    using register_working [of r "map fst app_routes"] app_paths assms
    by (simp add: register_all_def comp_def app_router_def unrouted_def)
qed

lemma active_page:
  assumes "app_router True r" and "\<not> update_failed r" and "(p, g) \<in> set app_routes" and "location r = js p"
  shows "page_of (active r) = Some g"
proof -
  have "p \<in> set (map fst app_routes)" using assms(3) by force
  then obtain m where m: "pick (table_routes (map fst app_routes)) (js p) = Inr (Some m)" "own_path (route m) = js p"
    using pick_table [OF app_paths] by blast
  have "routes r = table_routes (map fst app_routes)" "pick (routes r) (location r) = Inr (active r)"
    using assms(1,2) unfolding app_router_def router_inv_def settled_def by simp_all metis
  then have "active r = Some m" using assms(4) m(1) by simp
  moreover have "distinct (map fst app_routes)" by (simp add: app_routes_def)
  ultimately show ?thesis using page_of_path [OF m(2)] assms(3) by simp
qed

lemma navigate_location: "router_inv r \<Longrightarrow> location (router_step r (Navigate rep to)) = pathname to"
  by (auto simp: router_inv_def navigate_def notify_location_def pushState_def replaceState_def current_def
      nth_append)

lemma popstate_location:
  "router_inv r \<Longrightarrow> i < length (entries (history r)) \<Longrightarrow>
     location (router_step r (PopState i)) = pathname (entries (history r) ! i)"
  by (simp add: router_inv_def popstate_def notify_location_def current_def)

lemma pathname_routes: "(p, g) \<in> set app_routes \<Longrightarrow> pathname (js p) = js p"
  by (auto simp: app_routes_def pathname_def js_Cons)

section \<open>Moves\<close>

definition app_ok :: "app \<Rightarrow> bool" where
  "app_ok s \<longleftrightarrow> app_router (loaded s) (router s)"

lemma moved_simps [simp]:
  "loaded (moved r s) = loaded s" "signed_in (moved r s) = signed_in s" "router (moved r s) = r"
  by (simp_all add: moved_def mount_login_def set_storage_def signed_in_def Let_def)

lemma go_simps [simp]:
  "loaded (go to s) = loaded s" "signed_in (go to s) = signed_in s"
  "router (go to s) = router_step (router s) (Navigate False (js to))"
  by (simp_all add: go_def del: router_step.simps)

lemma go_ok:
  assumes "app_ok s"
  shows "app_ok (go to s)" and "frozen (go to s) = frozen s"
  using app_router_move(1) move_failed(1) assms by (auto simp: app_ok_def frozen_def simp del: router_step.simps)

lemma go_page:
  assumes "app_ok s" and "loaded s" and "\<not> frozen s" and "(p, g) \<in> set app_routes"
  shows "page_of (active (router (go p s))) = Some g"
proof (rule active_page [OF _ _ assms(4)])
  show "app_router True (router (go p s))" "\<not> update_failed (router (go p s))"
    using go_ok [OF assms(1), of p] assms(2,3) by (simp_all add: app_ok_def frozen_def del: router_step.simps)
  show "location (router (go p s)) = js p"
    using assms(1) navigate_location pathname_routes [OF assms(4)]
    by (simp add: app_ok_def app_router_def del: router_step.simps)
qed

lemma at_login_go:
  assumes "app_ok s" and "loaded s" and "\<not> frozen s"
  shows "at_login (go ''/login'' s)" and "\<not> at_login (go ''/'' s)"
  using go_page [OF assms, of "''/login''" Login] go_page [OF assms, of "''/''" Home]
  by (simp_all add: at_login_def app_routes_def del: go_simps)

lemma verify_call_keeps:
  "signed_in (s\<lparr>ui := ui_call verifyToken (ui s), app_calls := cs\<rparr>) = signed_in s"
  by (simp add: signed_in_def ui_call_def verifyToken_def doCallRaw_def getHeaders_def Let_def)

lemma app_react_cases:
  obtains s' where "router s' = router s" "loaded s' = loaded s" "signed_in s' = signed_in s"
    "app_storage s' = app_storage s"
    and "app_react s = (if loaded s \<and> \<not> signed_in s then go ''/login'' s' else s')"
proof
  let ?s = "if loaded s \<and> \<not> tokenVerified s
    then s\<lparr>ui := ui_call verifyToken (ui s), app_calls := app_calls s @ [VerifyCall]\<rparr> else s"
  show "router ?s = router s" "loaded ?s = loaded s" "signed_in ?s = signed_in s"
    by (simp_all add: verify_call_keeps)
  show "app_storage ?s = app_storage s"
    by (simp add: app_storage_def ui_call_def verifyToken_def doCallRaw_def getHeaders_def Let_def)
  show "app_react s = (if loaded s \<and> \<not> signed_in s then go ''/login'' ?s else ?s)"
    by (simp add: app_react_def verify_call_keeps Let_def)
qed

section \<open>The active page and the session\<close>

definition app_inv :: "app \<Rightarrow> bool" where
  "app_inv s \<longleftrightarrow> app_ok s \<and> (loaded s \<and> \<not> frozen s \<and> signed_in s \<longrightarrow> \<not> at_login s)"

definition guarded :: "app \<Rightarrow> bool" where
  "guarded s \<longleftrightarrow> app_inv s \<and> (loaded s \<and> \<not> frozen s \<and> \<not> signed_in s \<longrightarrow> at_login s)"

lemma guarded_cong:
  "router s' = router s \<Longrightarrow> loaded s' = loaded s \<Longrightarrow> signed_in s' = signed_in s \<Longrightarrow>
     (guarded s' \<longleftrightarrow> guarded s) \<and> (app_inv s' \<longleftrightarrow> app_inv s)"
  by (simp add: guarded_def app_inv_def app_ok_def at_login_def frozen_def)

lemma login_updated_guard:
  assumes "app_ok s"
  shows "app_inv (login_updated s)" and "frozen (login_updated s) = frozen s"
    and "signed_in (login_updated s) = signed_in s" and "loaded (login_updated s) = loaded s"
    and "signed_in s \<Longrightarrow> guarded (login_updated s)"
  using assms go_ok [OF assms] at_login_go(2) [OF assms]
  by (auto simp: login_updated_def guarded_def app_inv_def simp del: go_simps(3))

text \<open>After an update of the loaded application the login page is active exactly when signed out.\<close>

lemma rerender_guard:
  assumes "app_ok s"
  shows "guarded (rerender s)" and "frozen (rerender s) = frozen s"
    and "signed_in (rerender s) = signed_in s" and "loaded (rerender s) = loaded s"
proof -
  obtain s' where s': "router s' = router s" "loaded s' = loaded s" "signed_in s' = signed_in s"
    and r: "app_react s = (if loaded s \<and> \<not> signed_in s then go ''/login'' s' else s')"
    by (rule app_react_cases)
  then have ok: "app_ok s'" and fr: "frozen s' = frozen s" using assms by (simp_all add: app_ok_def frozen_def)
  have "guarded (rerender s) \<and> frozen (rerender s) = frozen s \<and> signed_in (rerender s) = signed_in s \<and>
    loaded (rerender s) = loaded s"
  proof (cases "frozen s")
    case True
    then show ?thesis using assms by (simp add: rerender_def guarded_def app_inv_def)
  next
    case False
    show ?thesis
    proof (cases "loaded s \<and> \<not> signed_in s")
      case True
      with False r s' show ?thesis
        using go_ok [OF ok, of "''/login''"] at_login_go(1) [OF ok] fr
        by (simp add: rerender_def login_updated_def guarded_def app_inv_def del: go_simps(3))
    next
      case off: False
      with r have "rerender s = login_updated s'" using False by (auto simp: rerender_def)
      with login_updated_guard [OF ok] off s' fr show ?thesis by (auto simp: guarded_def)
    qed
  qed
  then show "guarded (rerender s)" "frozen (rerender s) = frozen s" "signed_in (rerender s) = signed_in s"
    "loaded (rerender s) = loaded s" by simp_all
qed

lemma rerender_ok: "app_ok s \<Longrightarrow> app_ok (rerender s)"
  using rerender_guard(1) by (simp add: guarded_def app_inv_def)

lemma doCall_settled_store:
  "doCall_settled r st = (st', v) \<Longrightarrow> st' = st \<or> st' = logout st"
  by (auto simp: doCall_settled_def onUnauthorizedcallMe_def split: reply.splits if_splits
      unauthorized_hook.splits)

lemma logout_published [simp]: "published (logout s) = Suc (published s)"
  by (simp add: logout_def update_store_def)

lemma settled_ui:
  assumes "ui_settle doCall_settled r u = (u', v)"
  shows "(u' = u \<and> published (Ui_Base.store u') = published (Ui_Base.store u)) \<or>
    (u' = u\<lparr>store := logout (Ui_Base.store u)\<rparr> \<and>
     published (Ui_Base.store u') \<noteq> published (Ui_Base.store u))"
  using assms doCall_settled_store [of r "Ui_Base.store u"]
  by (auto simp: ui_settle_def split: prod.splits)

lemma settled_guarded:
  assumes "app_ok s" and "ui_settle doCall_settled r (ui s) = (u, v)"
  defines "s' \<equiv> (if published (Ui_Base.store u) \<noteq> published (Ui_Base.store (ui s))
    then rerender (s\<lparr>ui := u\<rparr>) else s\<lparr>ui := u\<rparr>)"
  shows "guarded s \<Longrightarrow> guarded s'" and "app_inv s \<Longrightarrow> app_inv s'" and "app_ok s'"
proof -
  have ok: "app_ok (s\<lparr>ui := u\<rparr>)" using assms(1) by (simp add: app_ok_def)
  consider (same) "s' = s" | (out) "s' = rerender (s\<lparr>ui := u\<rparr>)"
    using settled_ui [OF assms(2)] by (auto simp: s'_def)
  then show "guarded s \<Longrightarrow> guarded s'" "app_inv s \<Longrightarrow> app_inv s'" "app_ok s'"
    by (cases; use assms(1) rerender_guard(1) [OF ok] in \<open>auto simp: guarded_def app_inv_def\<close>)+
qed

lemma accept_login_guarded: "app_ok s \<Longrightarrow> guarded (accept_login d s)"
  by (simp add: accept_login_def Let_def) (rule rerender_guard, simp add: set_storage_def app_ok_def)

lemma handleLogin_settled_guarded:
  assumes "app_inv s"
  shows "(guarded s \<longrightarrow> guarded (handleLogin_settled tx r s)) \<and> app_inv (handleLogin_settled tx r s)"
proof -
  obtain u v where uv: "ui_settle doCall_settled r (ui s) = (u, v)"
    by (cases "ui_settle doCall_settled r (ui s)")
  let ?s = "if published (Ui_Base.store u) \<noteq> published (Ui_Base.store (ui s))
    then rerender (s\<lparr>ui := u\<rparr>) else s\<lparr>ui := u\<rparr>"
  have "app_ok s" using assms by (simp add: app_inv_def)
  note g = settled_guarded [OF this uv]
  have "guarded (accept_login d ?s)" for d by (rule accept_login_guarded [OF g(3)])
  moreover have "(guarded (?s\<lparr>form := f\<rparr>) \<longleftrightarrow> guarded ?s) \<and> (app_inv (?s\<lparr>form := f\<rparr>) \<longleftrightarrow> app_inv ?s)" for f
    by (rule guarded_cong) (simp_all add: signed_in_def)
  moreover have "(guarded (?s\<lparr>ui := notify m (ui ?s)\<rparr>) \<longleftrightarrow> guarded ?s) \<and>
      (app_inv (?s\<lparr>ui := notify m (ui ?s)\<rparr>) \<longleftrightarrow> app_inv ?s)" for m
    by (rule guarded_cong) (simp_all add: signed_in_def)
  moreover have "guarded s \<longrightarrow> guarded ?s" and "app_inv ?s" using g(1,2) assms by blast+
  ultimately show ?thesis
    unfolding handleLogin_settled_def Let_def uv prod.case
    by (cases v) (auto simp: guarded_def)
qed

lemma verify_settled_guarded:
  assumes "app_inv s"
  shows "(guarded s \<longrightarrow> guarded (verify_settled r s)) \<and> app_inv (verify_settled r s)"
proof -
  obtain u v where uv: "ui_settle verifyToken_settled r (ui s) = (u, v)"
    by (cases "ui_settle verifyToken_settled r (ui s)")
  show ?thesis
  proof (cases v)
    case (Inl e)
    then have "u = ui s"
      using uv by (auto simp: ui_settle_def verifyToken_settled_def Let_def split: reply.splits if_splits)
    with uv Inl assms show ?thesis by (simp add: verify_settled_def)
  next
    case (Inr b)
    have "guarded (verify_settled r s)"
      using assms unfolding verify_settled_def uv Inr prod.case sum.case Let_def
      by (intro rerender_guard) (simp add: app_inv_def app_ok_def)
    then show ?thesis by (simp add: guarded_def)
  qed
qed

lemma page_settled_guarded:
  assumes "app_inv s"
  shows "(guarded s \<longrightarrow> guarded (page_settled r s)) \<and> app_inv (page_settled r s)"
proof -
  obtain u v where uv: "ui_settle doCall_settled r (ui s) = (u, v)"
    by (cases "ui_settle doCall_settled r (ui s)")
  have "app_ok s" using assms by (simp add: app_inv_def)
  note g = settled_guarded [OF this uv]
  show ?thesis unfolding page_settled_def uv prod.case using g(1,2) assms by blast
qed

lemma signed_out_after_logout:
  "\<not> signed_in (s\<lparr>ui := (ui s)\<lparr>store := logout (Ui_Base.store (ui s))\<rparr>\<rparr>)"
  by (simp add: signed_in_def logout_def update_store_def setLoggedOut_def)

lemma onLogout_guarded: "app_ok s \<Longrightarrow> guarded (onLogout s)"
proof -
  let ?s = "s\<lparr>ui := (ui s)\<lparr>store := logout (Ui_Base.store (ui s))\<rparr>\<rparr>"
  assume "app_ok s"
  then have ok: "app_ok ?s" by (simp add: app_ok_def)
  note g = rerender_guard [OF ok] and r = rerender_ok [OF ok]
  show ?thesis
    using g go_ok [OF r, of "''/login''"] at_login_go(1) [OF r] signed_out_after_logout [of s]
    by (auto simp: onLogout_def guarded_def app_inv_def simp del: go_simps(3))
qed

lemma calls_keep_session:
  "signed_in (s\<lparr>ui := ui_call (doCall e m d x) (ui s), app_calls := cs\<rparr>) = signed_in s"
  by (simp add: signed_in_def ui_call_def case_prod_beta')

lemma simple_steps_keep:
  "guarded (form_changed f s) = guarded s \<and> app_inv (form_changed f s) = app_inv s"
  "guarded (handleLogin s) = guarded s \<and> app_inv (handleLogin s) = app_inv s"
  "guarded (page_call e s) = guarded s \<and> app_inv (page_call e s) = app_inv s"
  "guarded (s\<lparr>app_calls := cs\<rparr>) = guarded s \<and> app_inv (s\<lparr>app_calls := cs\<rparr>) = app_inv s"
     apply (rule guarded_cong; simp add: form_changed_def Let_def set_storage_def signed_in_def)
    apply (rule guarded_cong; simp add: handleLogin_def calls_keep_session)
   apply (rule guarded_cong; simp add: page_call_def calls_keep_session)
  apply (rule guarded_cong; simp add: signed_in_def)
  done

lemma setup_done_guarded: "app_ok s \<Longrightarrow> \<not> loaded s \<Longrightarrow> guarded (setup_done s)"
  unfolding setup_done_def Let_def
  by (rule rerender_guard)
    (simp add: mount_login_def set_storage_def app_ok_def app_router_registered Let_def)

fun is_history_move :: "app_event \<Rightarrow> bool" where
  "is_history_move (HistoryMove i) = True"
| "is_history_move _ = False"

lemma raises_guarded:
  assumes "app_inv s"
  shows "guarded (app_step tx s UpdateRaises) \<or> app_step tx s UpdateRaises = s"
  using assms by (auto simp: guarded_def app_inv_def app_ok_def app_router_def router_inv_def settled_def frozen_def)

lemma app_step_inv:
  assumes "app_inv s"
  shows "app_inv (app_step tx s e) \<and>
    (guarded s \<and> \<not> is_history_move e \<longrightarrow> guarded (app_step tx s e))"
proof -
  have ok: "app_ok s" using assms by (simp add: app_inv_def)
  show ?thesis
  proof (cases e)
    case SetupDone
    with assms setup_done_guarded [OF ok] show ?thesis by (simp add: guarded_def)
  next
    case (CallSettled k r)
    let ?s = "s\<lparr>app_calls := drop_nth k (app_calls s)\<rparr>"
    have "app_inv ?s" and "guarded ?s = guarded s" using assms simple_steps_keep(4) by blast+
    then show ?thesis
      using CallSettled assms verify_settled_guarded [of ?s] handleLogin_settled_guarded [of ?s]
        page_settled_guarded [of ?s]
      by (auto simp: Let_def split: app_call.splits)
  next
    case LogoutClick
    with assms onLogout_guarded [OF ok] show ?thesis by (simp add: guarded_def)
  next
    case (MenuClick h)
    note g = login_updated_guard [OF go_ok(1) [OF ok, of h]]
    have "guarded (login_updated (go h s))" if "signed_in s \<or> frozen s"
      using that g go_ok(2) [OF ok, of h] by (auto simp: guarded_def)
    with MenuClick assms show ?thesis by (simp add: guarded_def)
  next
    case (HistoryMove i)
    have "app_ok (moved (router_step (router s) (PopState i)) s)"
      using app_router_move(2) ok by (simp add: app_ok_def del: router_step.simps)
    with HistoryMove assms login_updated_guard(1) show ?thesis by (simp del: router_step.simps)
  next
    case UpdateRaises
    with raises_guarded [OF assms, of tx] assms show ?thesis by (auto simp: guarded_def)
  qed (use assms in \<open>simp_all add: simple_steps_keep onCancel_def\<close>)
qed

lemma app_inv_init: "guarded (app_init st url)"
  by (simp add: app_init_def guarded_def app_inv_def app_ok_def app_router_def router_inv_init opened_on_def
      unrouted_init init_working)

interpretation session: event_machine "app_init st url" "app_step tx" app_inv for st url tx
  using app_inv_init app_step_inv by unfold_locales (auto simp: guarded_def)

lemma guarded_run:
  "guarded s \<Longrightarrow> \<forall>e \<in> set es. \<not> is_history_move e \<Longrightarrow> guarded (run_events (app_step tx) s es)"
proof (induction es arbitrary: s)
  case (Cons e es)
  have "guarded (app_step tx s e)"
    using Cons.prems app_step_inv [of s tx e] by (simp add: guarded_def)
  with Cons show ?case by simp
qed simp

lemma rerender_storage:
  assumes "k \<notin> {js ''username'', js ''password'', js ''rememberMe''}"
  shows "app_storage (rerender s) k = app_storage s k"
proof -
  have go: "app_storage (go to s) k = app_storage s k" for to s
    using assms by (simp add: go_def moved_def mount_login_def set_storage_def app_storage_def
        remember_def Let_def)
  obtain s' where "app_storage s' = app_storage s"
    and "app_react s = (if loaded s \<and> \<not> signed_in s then go ''/login'' s' else s')"
    by (rule app_react_cases)
  then show ?thesis by (simp add: rerender_def login_updated_def go)
qed

lemma unauthorized_reply:
  fixes b :: "jsval option"
  assumes "app_inv s" and "loaded s" and "unauthorized (api (Ui_Base.store (ui s))) = CallLogout"
  defines "t \<equiv> page_settled (Reply 401 b) s"
  shows "(\<not> frozen s \<longrightarrow> at_login t) \<and> \<not> signed_in t \<and> app_storage t jwt_key = None"
proof -
  let ?s = "s\<lparr>ui := (ui s)\<lparr>store := logout (Ui_Base.store (ui s))\<rparr>\<rparr>"
  have p: "t = rerender ?s"
    using assms(3)
    by (simp add: t_def page_settled_def ui_settle_def doCall_settled_def onUnauthorizedcallMe_def)
  have "app_ok ?s" using assms(1) by (simp add: app_inv_def app_ok_def)
  note g = rerender_guard [OF this]
  have "app_storage (rerender ?s) jwt_key = app_storage ?s jwt_key"
    by (rule rerender_storage) (simp add: jwt_key_def)
  moreover have "app_storage ?s jwt_key = None"
    by (simp add: app_storage_def logout_def update_store_def setLoggedOut_def)
  moreover have "frozen ?s = frozen s" by (simp add: frozen_def)
  ultimately show ?thesis using g signed_out_after_logout [of s] assms(2) by (simp add: p guarded_def)
qed

section \<open>The handler of unauthorized replies stays installed\<close>

definition hook :: "app \<Rightarrow> unauthorized_hook" where
  "hook s = unauthorized (api (Ui_Base.store (ui s)))"

lemma hook_calls [simp]:
  "unauthorized (api (fst (doCall e m d x st))) = unauthorized (api st)"
  "unauthorized (api (fst (verifyToken st))) = unauthorized (api st)"
  "unauthorized (api (logout st)) = unauthorized (api st)"
  "unauthorized (api (refresh st)) = unauthorized (api st)"
  "unauthorized (api (loginSuccesful tok st)) = unauthorized (api st)"
  by (simp_all add: doCall_def verifyToken_def doCallRaw_def getHeaders_def Let_def logout_def
      refresh_def loginSuccesful_def update_store_def setLoggedOut_def setLoggedIn_def)

lemma hook_ui_call [simp]:
  "unauthorized (api (Ui_Base.store (ui_call f u))) = unauthorized (api (fst (f (Ui_Base.store u))))"
  by (simp add: ui_call_def case_prod_beta')

lemma hook_moves [simp]:
  "hook (set_storage st s) = hook s" "hook (go to s) = hook s" "hook (moved r s) = hook s"
  "hook (mount_login s) = hook s"
  by (simp_all add: hook_def set_storage_def go_def moved_def mount_login_def Let_def)

lemma hook_rerender [simp]: "hook (rerender s) = hook s"
proof -
  have "hook (app_react s) = hook s"
    by (simp add: app_react_def Let_def) (simp add: hook_def)
  then show ?thesis by (simp add: rerender_def login_updated_def)
qed

lemma hook_settled:
  "ui_settle doCall_settled r u = (u', v) \<Longrightarrow>
     unauthorized (api (Ui_Base.store u')) = unauthorized (api (Ui_Base.store u))"
  using settled_ui [of r u u' v] by auto

lemma hook_ui [simp]: "hook (s\<lparr>ui := u\<rparr>) = unauthorized (api (Ui_Base.store u))"
  by (simp add: hook_def)

lemma hook_other [simp]:
  "hook (s\<lparr>app_calls := cs\<rparr>) = hook s" "hook (s\<lparr>form := f\<rparr>) = hook s"
  "hook (s\<lparr>loaded := b\<rparr>) = hook s" "hook (s\<lparr>router := r\<rparr>) = hook s"
  "hook (s\<lparr>tokenVerified := b\<rparr>) = hook s"
  by (simp_all add: hook_def)

lemma hook_verify: "hook (verify_settled r s) = hook s"
proof -
  obtain u v where uv: "ui_settle verifyToken_settled r (ui s) = (u, v)"
    by (cases "ui_settle verifyToken_settled r (ui s)")
  then have "unauthorized (api (Ui_Base.store u)) = unauthorized (api (Ui_Base.store (ui s)))"
    by (auto simp: ui_settle_def verifyToken_settled_def setLoggedIn_def Let_def
        split: reply.splits if_splits)
  with uv show ?thesis
    by (simp add: verify_settled_def Let_def split: sum.splits) (simp add: hook_def)
qed

lemma hook_login: "hook (handleLogin_settled tx r s) = hook s"
proof -
  obtain u v where uv: "ui_settle doCall_settled r (ui s) = (u, v)"
    by (cases "ui_settle doCall_settled r (ui s)")
  let ?s = "if published (Ui_Base.store u) \<noteq> published (Ui_Base.store (ui s))
    then rerender (s\<lparr>ui := u\<rparr>) else s\<lparr>ui := u\<rparr>"
  have h: "hook ?s = hook s" using hook_settled [OF uv] by (simp add: hook_def [of s])
  have a: "hook (accept_login d t) = hook t" for d t
    by (simp add: accept_login_def Let_def) (simp add: set_storage_def hook_def)
  have n: "hook (t\<lparr>ui := notify m (ui t)\<rparr>) = hook t" for m t by (simp add: hook_def)
  show ?thesis
    unfolding handleLogin_settled_def Let_def uv prod.case
    by (cases v) (simp_all only: sum.case h a n hook_other if_split split: if_split, simp_all add: h)
qed

lemma hook_page: "hook (page_settled r s) = hook s"
proof -
  obtain u v where uv: "ui_settle doCall_settled r (ui s) = (u, v)"
    by (cases "ui_settle doCall_settled r (ui s)")
  from hook_settled [OF uv] show ?thesis
    by (simp add: page_settled_def uv) (simp add: hook_def)
qed

lemma hook_logout: "hook (onLogout s) = hook s"
  by (simp add: onLogout_def) (simp add: hook_def)

lemma hook_step: "hook (app_step tx s e) = hook s"
proof (cases e)
  case SetupDone
  then show ?thesis by (simp add: setup_done_def Let_def)
next
  case (FormChange f)
  then show ?thesis by (simp add: form_changed_def Let_def)
next
  case CancelClick
  then show ?thesis by (simp add: onCancel_def form_changed_def Let_def)
next
  case LoginSubmit
  then show ?thesis by (simp add: handleLogin_def) (simp add: hook_def)
next
  case (PageRequest x)
  then show ?thesis by (simp add: page_call_def) (simp add: hook_def)
next
  case (CallSettled k r)
  then show ?thesis
    by (simp add: Let_def hook_verify hook_login hook_page split: app_call.split)
next
  case (HistoryMove i)
  then show ?thesis by (simp add: login_updated_def del: router_step.simps)
qed (simp_all add: hook_logout login_updated_def)

lemma hook_run: "hook (run_events (app_step tx) s es) = hook s"
  by (induction es arbitrary: s) (simp_all add: hook_step del: app_step.simps)

section \<open>Properties\<close>

text \<open>
  Claim C3: consider the loaded application in any reachable state in which no update of the page has
  raised. While the user is signed in, the login page is not active. While the user is signed out and
  the history of the browser has not been used, it is. A signed-out user who goes back to the address
  of a page, however, gets that page. In every state, also after a failed update, an unauthorized
  reply to the call of a page signs the user out and removes the stored token, and unless an update
  has failed the login page is active then.
\<close>

theorem session_guard:
  fixes es :: "app_event list" and st :: storage and url :: jsstr and tx :: texts
  defines "s \<equiv> run_events (app_step tx) (app_init st url) es"
  assumes "loaded s"
  shows "(\<not> frozen s \<longrightarrow>
      (signed_in s \<longrightarrow> \<not> at_login s) \<and>
      (\<not> signed_in s \<and> (\<forall>e \<in> set es. \<not> is_history_move e) \<longrightarrow> at_login s) \<and>
      (\<not> signed_in s \<and> i < length (entries (history (router s))) \<and>
         entries (history (router s)) ! i = js p \<and> (p, g) \<in> set app_routes \<longrightarrow>
         (let s' = app_step tx s (HistoryMove i) in \<not> signed_in s' \<and> page_of (active (router s')) = Some g))) \<and>
    (k < length (app_calls s) \<and> app_calls s ! k = PageCall \<longrightarrow>
      (let s' = app_step tx s (CallSettled k (Reply 401 b))
       in \<not> signed_in s' \<and> app_storage s' jwt_key = None \<and> (\<not> frozen s \<longrightarrow> at_login s')))"
proof -
  have inv: "app_inv s" unfolding s_def by (rule session.inv_run)
  then have ok: "app_ok s" by (simp add: app_inv_def)
  have "guarded s" if "\<forall>e \<in> set es. \<not> is_history_move e"
    unfolding s_def by (rule guarded_run [OF app_inv_init that])
  moreover have "let s' = app_step tx s (HistoryMove i) in \<not> signed_in s' \<and> page_of (active (router s')) = Some g"
    if h: "\<not> frozen s" "\<not> signed_in s" "i < length (entries (history (router s)))"
      "entries (history (router s)) ! i = js p" "(p, g) \<in> set app_routes"
  proof -
    let ?r = "router_step (router s) (PopState i)"
    have "page_of (active ?r) = Some g"
    proof (rule active_page [OF _ _ h(5)])
      show "app_router True ?r" "\<not> update_failed ?r"
        using app_router_move(2) move_failed(2) ok assms(2) h(1)
        by (simp_all add: app_ok_def frozen_def del: router_step.simps)
      show "location ?r = js p"
        using ok h(3,4) pathname_routes [OF h(5)] popstate_location
        by (simp add: app_ok_def app_router_def del: router_step.simps)
    qed
    then show ?thesis using assms(2) h(2) by (simp add: login_updated_def Let_def del: router_step.simps)
  qed
  ultimately have page: "\<not> frozen s \<longrightarrow>
      (signed_in s \<longrightarrow> \<not> at_login s) \<and>
      (\<not> signed_in s \<and> (\<forall>e \<in> set es. \<not> is_history_move e) \<longrightarrow> at_login s) \<and>
      (\<not> signed_in s \<and> i < length (entries (history (router s))) \<and>
         entries (history (router s)) ! i = js p \<and> (p, g) \<in> set app_routes \<longrightarrow>
         (let s' = app_step tx s (HistoryMove i) in \<not> signed_in s' \<and> page_of (active (router s')) = Some g))"
    using inv assms(2) unfolding guarded_def app_inv_def by blast
  have "hook s = CallLogout" unfolding s_def
    by (simp add: hook_run) (simp add: hook_def app_init_def ui_init_def store_init_def onUnauthorized_def)
  moreover have "app_inv (s\<lparr>app_calls := drop_nth k (app_calls s)\<rparr>)" using inv simple_steps_keep(4) by blast
  moreover have "frozen (s\<lparr>app_calls := cs\<rparr>) = frozen s" for cs by (simp add: frozen_def)
  ultimately have "k < length (app_calls s) \<and> app_calls s ! k = PageCall \<longrightarrow>
      (let s' = app_step tx s (CallSettled k (Reply 401 b))
       in \<not> signed_in s' \<and> app_storage s' jwt_key = None \<and> (\<not> frozen s \<longrightarrow> at_login s'))"
    using unauthorized_reply [of "s\<lparr>app_calls := drop_nth k (app_calls s)\<rparr>" b] assms(2)
    by (simp add: Let_def hook_def)
  with page show ?thesis ..
qed

text \<open>The state after the texts are loaded, for a user who is not signed in.\<close>

lemma rerender_signed_out:
  assumes "loaded s" and "\<not> frozen s" and "\<not> signed_in s"
  shows "router (rerender s) = router_step (router s) (Navigate False (js ''/login''))"
proof -
  obtain s' where "router s' = router s" "signed_in s' = signed_in s"
    and "app_react s = (if loaded s \<and> \<not> signed_in s then go ''/login'' s' else s')"
    by (rule app_react_cases)
  with assms show ?thesis by (simp add: rerender_def login_updated_def del: router_step.simps)
qed

lemma register_history: "history (run_events router_step r (map Register ps)) = history r"
  by (induction ps arbitrary: r) (simp_all add: registerRoute_def)

lemma setup_signed_out:
  fixes st :: storage and url :: jsstr and tx :: texts
  defines "s \<equiv> app_step tx (app_init st url) SetupDone"
  shows "loaded s" "\<not> frozen s" "\<not> signed_in s" "entries (history (router s)) = [url, js ''/login'']"
proof -
  let ?i = "app_init st url"
  let ?l = "?i\<lparr>loaded := True, router := register_all (router ?i)\<rparr>"
  define t where "t = (if at_login ?l then mount_login ?l else ?l)"
  have s: "s = rerender t" by (simp add: s_def setup_done_def t_def app_init_def Let_def)
  have i: "app_router False (router ?i)" "history (router ?i) = opened_on url" "\<not> signed_in ?i"
    using app_inv_init [of st url]
    by (simp_all add: guarded_def app_inv_def app_ok_def app_init_def router_init_def signed_in_def ui_init_def
        store_init_def onUnauthorized_def AppAPI_def Let_def)
  have t: "loaded t" "router t = register_all (router ?i)" "signed_in t = signed_in ?i"
    by (simp_all add: t_def mount_login_def set_storage_def signed_in_def Let_def)
  have f: "\<not> frozen t" using app_router_registered(2) [OF i(1)] t(2) by (simp add: frozen_def)
  have "app_ok t" using app_router_registered(1) [OF i(1)] t(1,2) by (simp add: app_ok_def)
  note g = rerender_guard [OF this]
  have "history (router t) = opened_on url"
    using register_history [of "router ?i" "map (js \<circ> fst) app_routes"] i(2) t(2) by (simp add: register_all_def comp_def)
  then show "entries (history (router s)) = [url, js ''/login'']"
    using rerender_signed_out [OF t(1) f] i(3) t(3)
    by (simp add: s navigate_def notify_location_def pushState_def opened_on_def)
  show "loaded s" "\<not> frozen s" "\<not> signed_in s" using g t f i(3) by (simp_all add: s)
qed

theorem session_guard_witness:
  "let s = run_events (app_step plain_texts) (app_init Map.empty (js ''/logs'')) [SetupDone];
       s' = app_step plain_texts s (HistoryMove 0)
   in loaded s \<and> at_login s \<and> \<not> signed_in s' \<and> page_of (active (router s')) = Some Logs"
proof -
  let ?i = "app_init Map.empty (js ''/logs'')"
  let ?s = "run_events (app_step plain_texts) ?i [SetupDone]"
  note st = setup_signed_out [of plain_texts Map.empty "js ''/logs''"]
  have l: "loaded ?s" and h: "\<not> frozen ?s" "\<not> signed_in ?s"
      "entries (history (router ?s)) = [js ''/logs'', js ''/login'']"
    using st by (simp_all del: app_step.simps)
  from session_guard [of plain_texts Map.empty "js ''/logs''" "[SetupDone]" 0 "''/logs''" Logs 0 None, OF l] h
  show ?thesis using l by (simp add: app_routes_def Let_def del: app_step.simps)
qed

text \<open>
  Claim C16: from every reachable state in which the texts are loaded, the user is signed in and no
  update of the page has raised, a click on a link of the menu, at the top level or in a group, keeps
  the user signed in, makes the link the location and makes the route active whose page the table of
  routes has for it. After an update that raised, the click changes the location only: the active
  route stays.
\<close>

theorem menu_click_opens_page:
  fixes es :: "app_event list" and st :: storage and url :: jsstr and tx :: texts
  defines "s \<equiv> run_events (app_step tx) (app_init st url) es"
  assumes "loaded s" and "signed_in s" and "h \<in> set (concat (map item_hrefs menuItems))"
  defines "s' \<equiv> app_step tx s (MenuClick h)"
  shows "signed_in s' \<and> location (router s') = js h \<and>
    (if frozen s then active (router s') = active (router s)
     else \<exists>g. map_of app_routes h = Some g \<and> page_of (active (router s')) = Some g)"
proof -
  have ok: "app_ok s" using session.inv_run [of tx st url es] by (simp add: s_def app_inv_def)
  obtain g where g: "map_of app_routes h = Some g"
    using assms(4) links_are_routes by (metis map_of_eq_None_iff not_Some_eq set_map subsetD)
  then have mem: "(h, g) \<in> set app_routes" by (rule map_of_SomeD)
  have "js h \<noteq> js ''/login''" using assms(4) links_leave_login by (metis imageI)
  moreover have "map_of app_routes p = Some Login \<Longrightarrow> p = ''/login''" for p
    by (auto simp: app_routes_def split: if_splits)
  ultimately have "g \<noteq> Login" using g by auto
  with go_page [OF ok assms(2) _ mem] have s': "s' = go h s"
    using assms(2-4) go_ok(2) [OF ok, of h]
    by (auto simp: s'_def login_updated_def at_login_def simp del: go_simps(3))
  have "location (router s') = js h"
    using ok navigate_location pathname_routes [OF mem] by (simp add: s' app_ok_def app_router_def del: router_step.simps)
  moreover have "active (router s') = active (router s)" if "frozen s"
    using that by (simp add: s' frozen_def Router.router_update_def move_fields)
  ultimately show ?thesis using go_page [OF ok assms(2) _ mem] g assms(3) by (simp add: s' del: go_simps(3))
qed

lemma verified_signs_in:
  fixes b :: "jsval option"
  assumes "app_ok s"
  defines "t \<equiv> verify_settled (Reply 200 b) s"
  shows "signed_in t" "loaded t = loaded s" "frozen t = frozen s"
proof -
  obtain u where u: "ui_settle verifyToken_settled (Reply 200 b) (ui s) = (u, Inr True)"
    and l: "truthy_val (loggedIn (api (Ui_Base.store u)))"
    by (simp add: ui_settle_def verifyToken_settled_def setLoggedIn_def Let_def)
  let ?s = "s\<lparr>tokenVerified := True, ui := u\<lparr>store := refresh (Ui_Base.store u)\<rparr>\<rparr>"
  have t: "t = rerender ?s" by (simp add: t_def verify_settled_def u)
  have "app_ok ?s" using assms(1) by (simp add: app_ok_def)
  note g = rerender_guard [OF this]
  have "signed_in ?s" using l by (simp add: signed_in_def refresh_def update_store_def)
  with g show "signed_in t" "loaded t = loaded s" "frozen t = frozen s" by (simp_all add: t frozen_def)
qed

lemma setup_verifies: "VerifyCall \<in> set (app_calls (app_step tx (app_init st url) SetupDone))"
proof -
  let ?i = "app_init st url"
  have go: "app_calls (go to t) = app_calls t" for to t
    by (simp add: go_def moved_def mount_login_def set_storage_def Let_def)
  have "\<not> update_failed (register_all (router ?i))"
    using app_router_registered(2) [of "router ?i"] app_inv_init [of st url]
    by (simp add: guarded_def app_inv_def app_ok_def app_init_def)
  then show ?thesis
    by (simp add: app_init_def setup_done_def rerender_def login_updated_def app_react_def Let_def go frozen_def)
      (simp add: mount_login_def set_storage_def Let_def)
qed

theorem menu_click_opens_page_witness:
  "\<exists>k. let s = run_events (app_step plain_texts) (app_init Map.empty (js ''/logs''))
              [SetupDone, CallSettled k (Reply 200 None)];
           s' = app_step plain_texts s (MenuClick ''/blockedurls'')
       in \<not> frozen s \<and> signed_in s' \<and> location (router s') = js ''/blockedurls'' \<and>
          page_of (active (router s')) = Some (FilterPage ''blockedurls'')"
proof -
  let ?i = "app_init Map.empty (js ''/logs'')"
  let ?o = "app_step plain_texts ?i SetupDone"
  obtain k where k: "k < length (app_calls ?o)" "app_calls ?o ! k = VerifyCall"
    using setup_verifies by (metis in_set_conv_nth)
  let ?s = "?o\<lparr>app_calls := drop_nth k (app_calls ?o)\<rparr>"
  let ?es = "[SetupDone, CallSettled k (Reply 200 None)]"
  have e: "run_events (app_step plain_texts) ?i ?es = verify_settled (Reply 200 None) ?s"
    using k by (simp del: app_step.simps(1))
  have "app_ok ?s"
    using session.inv_run [of plain_texts Map.empty "js ''/logs''" "[SetupDone]"]
    by (simp add: app_inv_def app_ok_def del: app_step.simps)
  note v = verified_signs_in [OF this, of None]
  have "loaded (run_events (app_step plain_texts) ?i ?es)" "signed_in (run_events (app_step plain_texts) ?i ?es)"
    and f: "\<not> frozen (run_events (app_step plain_texts) ?i ?es)"
    using v setup_signed_out [of plain_texts Map.empty "js ''/logs''"]
    unfolding e by (simp_all add: frozen_def del: app_step.simps)
  moreover have "''/blockedurls'' \<in> set (concat (map item_hrefs menuItems))" by (simp add: menuItems_def)
  ultimately show ?thesis
    using menu_click_opens_page [of plain_texts Map.empty "js ''/logs''" ?es "''/blockedurls''"] f
    unfolding Let_def by (intro exI [of _ k]) (auto simp: app_routes_def simp del: app_step.simps run_events.simps)
qed

end
