(* ===== verification/Dns_Records.thy ===== *)
theory Dns_Records
  imports Ui_Base
begin

text \<open>
  The table of custom DNS records (\<open>ui/src/components/dnsArecords.svelte\<close>): rows, the form,
  the row that is edited, and the calls that load and save. The test \<open>isIPv4\<close> of the package
  \<open>is-ip\<close>, which enables the button of the form, is an argument.
\<close>

record dns_row =
  dns_id :: int
  domain :: jsval
  ip :: jsval

datatype dns_call = DnsLoad | DnsSave

record dns_records =
  data :: "dns_row list option"
  domainText :: jsval
  ipText :: jsval
  editingRowId :: "int option"
  showForm :: bool
  calls :: "dns_call list"
  dispatched :: nat
  ui :: ui

definition dns_url :: jsstr where
  "dns_url = js ''/dns/custom_entries''"

section \<open>Loading and saving\<close>

definition item_field :: "jsval \<Rightarrow> jsstr \<Rightarrow> jsval" where
  "item_field v k = (case v of Obj m \<Rightarrow> get_prop m k | _ \<Rightarrow> Undef)"

definition dns_item_row :: "int \<Rightarrow> jsval \<Rightarrow> dns_row" where
  "dns_item_row i item =
     \<lparr>dns_id = i, domain = item_field item (js ''domain''), ip = item_field item (js ''ip'')\<rparr>"

definition dns_rows :: "jsval \<Rightarrow> js_exn + dns_row list" where
  "dns_rows json =
     bind_exn (prop_of json (js ''data'')) (\<lambda>d.
     bind_exn (elements_of d) (\<lambda>items. Inr (numbered dns_item_row items)))"

definition loadAPIData_record :: "dns_records \<Rightarrow> dns_records" where
  "loadAPIData_record s =
     s\<lparr>data := Some [], ui := ui_call (doCall dns_url (js ''get'') (Obj []) []) (ui s),
       calls := calls s @ [DnsLoad]\<rparr>"

definition loadAPIData_record_settled :: "reply \<Rightarrow> dns_records \<Rightarrow> dns_records" where
  "loadAPIData_record_settled r s =
     (case ui_settle doCall_settled r (ui s) of
        (u, v) \<Rightarrow>
          (case bind_exn v dns_rows of
             Inr rows \<Rightarrow> s\<lparr>ui := u, data := Some rows\<rparr>
           | Inl err \<Rightarrow> s\<lparr>ui := u\<rparr>))"

definition dns_payload :: "dns_row list \<Rightarrow> jsval" where
  "dns_payload rows =
     Arr (map (\<lambda>r. Obj [(js ''domain'', domain r), (js ''ip'', ip r)]) rows)"

definition content_type :: props where
  "content_type = [(js ''Content-Type'', str ''application/json'')]"

definition saveAPIData_record :: "dns_records \<Rightarrow> dns_records" where
  "saveAPIData_record s =
     (case data s of
        None \<Rightarrow> s
      | Some rows \<Rightarrow>
          s\<lparr>ui := ui_call (doCall dns_url (js ''post'') (dns_payload rows) content_type) (ui s),
            calls := calls s @ [DnsSave]\<rparr>)"

text \<open>\<open>k in json\<close>, a type error when the value is not an object.\<close>

fun in_object :: "jsstr \<Rightarrow> jsval \<Rightarrow> js_exn + bool" where
  "in_object k (Obj m) = Inr (has_prop m k)"
| "in_object k (Arr vs) = Inr (is_proto_name k)"
| "in_object k _ = Inl TypeError"

definition dns_saved :: "texts \<Rightarrow> dns_records \<Rightarrow> dns_records" where
  "dns_saved tx s =
     (let s = loadAPIData_record s
      in s\<lparr>domainText := Str [], ipText := Str [], showForm := False,
           dispatched := Suc (dispatched s),
           ui := notify \<lparr>kind = str ''success'', title = tr tx (js ''Success:''),
             subtitle = tr tx (js ''Successfully saved data to the api''), timeout = Undef\<rparr> (ui s)\<rparr>)"

definition dns_refused :: "texts \<Rightarrow> jsval \<Rightarrow> dns_records \<Rightarrow> dns_records" where
  "dns_refused tx err s =
     loadAPIData_record (s\<lparr>ui := notify (createNotificationError
       (empty_message\<lparr>title := tr tx (js ''Error''), subtitle := err\<rparr>) (tr tx)) (ui s)\<rparr>)"

definition dns_failed :: "texts \<Rightarrow> js_exn \<Rightarrow> dns_records \<Rightarrow> dns_records" where
  "dns_failed tx err s =
     loadAPIData_record (s\<lparr>ui := notify \<lparr>kind = str ''error'', title = tr tx (js ''Error:''),
       subtitle = plus_text (tr tx (js ''Unable to save data to the api : '')) (message_of tx err),
       timeout = Num 30000\<rparr> (ui s)\<rparr>)"

definition saveAPIData_record_settled :: "texts \<Rightarrow> reply \<Rightarrow> dns_records \<Rightarrow> dns_records" where
  "saveAPIData_record_settled tx r s =
     (case ui_settle doCall_settled r (ui s) of
        (u, v) \<Rightarrow>
          (let s = s\<lparr>ui := u\<rparr>
           in case bind_exn v (\<lambda>json. bind_exn (prop_of json (js ''ok'')) (\<lambda>ok. Inr (json, ok))) of
                Inl err \<Rightarrow> dns_failed tx err s
              | Inr (json, ok) \<Rightarrow>
                  if loose_true ok then dns_saved tx s
                  else (case in_object (js ''error'') json of
                          Inl err \<Rightarrow> dns_failed tx err s
                        | Inr True \<Rightarrow> dns_refused tx (item_field json (js ''error'')) s
                        | Inr False \<Rightarrow> s)))"

section \<open>The form\<close>

definition append_dns_row :: "jsval \<times> jsval \<Rightarrow> dns_row list \<Rightarrow> dns_row list" where
  "append_dns_row d rows =
     rows @ [\<lparr>dns_id = int (length rows) + 1, domain = fst d, ip = snd d\<rparr>]"

definition delete_dns_row :: "int \<Rightarrow> dns_row list \<Rightarrow> dns_row list" where
  "delete_dns_row i rows = filter (\<lambda>r. dns_id r \<noteq> i) rows"

text \<open>
  \<open>data[editingRowId - 1]\<close> is read by position; outside the list the assignment is a type
  error, which ends the handler.
\<close>

definition addSaveRow_record :: "dns_records \<Rightarrow> dns_records" where
  "addSaveRow_record s =
     (case data s of
        None \<Rightarrow> s
      | Some rows \<Rightarrow>
          (case editingRowId s of
             Some i \<Rightarrow>
               if i \<noteq> 0 then
                 (if 1 \<le> i \<and> nat (i - 1) < length rows
                  then saveAPIData_record
                    (s\<lparr>data := Some (rows[nat (i - 1) :=
                         (rows ! nat (i - 1))\<lparr>domain := domainText s, ip := ipText s\<rparr>]),
                       editingRowId := None\<rparr>)
                  else s)
               else saveAPIData_record (s\<lparr>data := Some (append_dns_row (domainText s, ipText s) rows)\<rparr>)
           | None \<Rightarrow> saveAPIData_record (s\<lparr>data := Some (append_dns_row (domainText s, ipText s) rows)\<rparr>)))"

definition editRow_record :: "int \<Rightarrow> dns_records \<Rightarrow> dns_records" where
  "editRow_record i s =
     (let s = s\<lparr>editingRowId := Some i\<rparr>
      in case data s of
           None \<Rightarrow> s
         | Some rows \<Rightarrow>
             (case find (\<lambda>r. dns_id r = i) rows of
                None \<Rightarrow> s
              | Some row \<Rightarrow> s\<lparr>domainText := domain row, ipText := ip row, showForm := True\<rparr>))"

definition deleteRow_record :: "int \<Rightarrow> dns_records \<Rightarrow> dns_records" where
  "deleteRow_record i s =
     (case data s of
        None \<Rightarrow> s
      | Some rows \<Rightarrow> saveAPIData_record (s\<lparr>data := Some (delete_dns_row i rows)\<rparr>))"

definition close_form_record :: "dns_records \<Rightarrow> dns_records" where
  "close_form_record s = s\<lparr>showForm := False, domainText := Str [], ipText := Str []\<rparr>"

definition dns_init :: "ui \<Rightarrow> dns_records" where
  "dns_init u =
     loadAPIData_record \<lparr>data = None, domainText = Str [], ipText = Str [], editingRowId = None,
       showForm = False, calls = [], dispatched = 0, ui = u\<rparr>"

datatype dns_event =
    EditClick int
  | DeleteClick int
  | InsertClick
  | DomainInput jsval
  | IpInput jsval
  | SubmitForm
  | CloseForm
  | DnsSettled nat reply

text \<open>
  The buttons of a row exist while the row is shown, the edit button is disabled on the row being
  edited, the insert button is hidden while the form is open, and the inputs exist with the form.
\<close>

fun dns_step :: "(jsval \<Rightarrow> bool) \<Rightarrow> texts \<Rightarrow> dns_records \<Rightarrow> dns_event \<Rightarrow> dns_records" where
  "dns_step isIPv4 tx s (EditClick i) =
     (if editingRowId s \<noteq> Some i then editRow_record i s else s)"
| "dns_step isIPv4 tx s (DeleteClick i) = deleteRow_record i s"
| "dns_step isIPv4 tx s InsertClick = (if showForm s then s else s\<lparr>showForm := True\<rparr>)"
| "dns_step isIPv4 tx s (DomainInput v) = (if showForm s then s\<lparr>domainText := v\<rparr> else s)"
| "dns_step isIPv4 tx s (IpInput v) = (if showForm s then s\<lparr>ipText := v\<rparr> else s)"
| "dns_step isIPv4 tx s SubmitForm = (if showForm s \<and> isIPv4 (ipText s) then addSaveRow_record s else s)"
| "dns_step isIPv4 tx s CloseForm = (if showForm s then close_form_record s else s)"
| "dns_step isIPv4 tx s (DnsSettled k r) =
     (if k < length (calls s)
      then (let s' = s\<lparr>calls := drop_nth k (calls s)\<rparr>
            in case calls s ! k of
                 DnsLoad \<Rightarrow> loadAPIData_record_settled r s'
               | DnsSave \<Rightarrow> saveAPIData_record_settled tx r s')
      else s)"

definition dns_table :: "dns_row list \<Rightarrow> dns_row list" where
  "dns_table rows = sort_key (\<lambda>r. - dns_id r) rows"

interpretation dns_table: numbered_rows dns_id append_dns_row delete_dns_row "\<lambda>i. i"
  by unfold_locales (auto simp: append_dns_row_def delete_dns_row_def)

section \<open>Properties\<close>

lemma find_dense:
  assumes "dense dns_id rows" and "i < length rows"
  shows "find (\<lambda>r. dns_id r = int i + 1) rows = Some (rows ! i)"
proof -
  have "\<forall>j < length rows. dns_id (rows ! j) = int i + 1 \<longleftrightarrow> j = i"
    using assms(1) by (simp add: dense_nth)
  with assms(2) show ?thesis by (auto simp: find_Some_iff)
qed

definition fill_form :: "jsval \<Rightarrow> jsval \<Rightarrow> dns_event list" where
  "fill_form d p = [DomainInput d, IpInput p, SubmitForm]"

lemma saveAPIData_record_simps [simp]:
  "data (saveAPIData_record s) = data s" "editingRowId (saveAPIData_record s) = editingRowId s"
  "showForm (saveAPIData_record s) = showForm s"
  by (simp_all add: saveAPIData_record_def split: option.split)

lemma saveAPIData_record_body:
  "data s = Some rows \<Longrightarrow>
     body_of (last (sent (ui (saveAPIData_record s)))) = JSON_stringify (dns_payload rows)"
  by (simp add: saveAPIData_record_def)

lemma submit_form:
  assumes "showForm s" and "isIPv4 p"
  shows "run_events (dns_step isIPv4 tx) s (fill_form d p) =
    addSaveRow_record (s\<lparr>domainText := d, ipText := p\<rparr>)"
  using assms by (simp add: fill_form_def)

lemma editRow_record_dense:
  assumes "data s = Some rows" and "dense dns_id rows" and "i < length rows"
  shows "editRow_record (int i + 1) s =
    s\<lparr>editingRowId := Some (int i + 1), domainText := domain (rows ! i), ipText := ip (rows ! i),
      showForm := True\<rparr>"
  using assms by (simp add: editRow_record_def Let_def find_dense)

lemma addSaveRow_record_edit:
  assumes "data s = Some rows" and "i < length rows" and "editingRowId s = Some (int i + 1)"
  shows "addSaveRow_record s =
    saveAPIData_record (s\<lparr>data := Some (rows[i := (rows ! i)\<lparr>domain := domainText s, ip := ipText s\<rparr>]),
      editingRowId := None\<rparr>)"
  using assms by (simp add: addSaveRow_record_def)

text \<open>
  Claim C29: in a table numbered from 1 as it is loaded, while no row is being edited and the form is
  closed, editing a row, filling the form with an address that passes the test and submitting replaces
  exactly that row, and inserting one appends it; either way the table is posted as it then is.
\<close>

theorem dns_edit_saves_row:
  assumes "data s = Some rows" and "dense dns_id rows" and "i < length rows"
    and "editingRowId s = None" and "\<not> showForm s" and "isIPv4 p"
  shows "(let s' = run_events (dns_step isIPv4 tx) s (EditClick (int i + 1) # fill_form d p);
              rows' = rows[i := (rows ! i)\<lparr>domain := d, ip := p\<rparr>]
          in data s' = Some rows' \<and> editingRowId s' = None \<and>
             body_of (last (sent (ui s'))) = JSON_stringify (dns_payload rows')) \<and>
         (let s' = run_events (dns_step isIPv4 tx) s (InsertClick # fill_form d p);
              rows' = append_dns_row (d, p) rows
          in data s' = Some rows' \<and> dense dns_id rows' \<and>
             body_of (last (sent (ui s'))) = JSON_stringify (dns_payload rows'))"
  using assms dns_table.append_dense [OF assms(2)]
  by (simp add: Let_def editRow_record_dense submit_form addSaveRow_record_edit addSaveRow_record_def saveAPIData_record_body)

definition sample_dns :: dns_records where
  "sample_dns =
     (dns_init (ui_init Map.empty))
       \<lparr>data := Some (numbered dns_item_row
          [Obj [(js ''domain'', str ''a.lan''), (js ''ip'', str ''10.0.0.1'')],
           Obj [(js ''domain'', str ''b.lan''), (js ''ip'', str ''10.0.0.2'')]])\<rparr>"

lemma sample_dns_rows:
  "data sample_dns =
     Some [\<lparr>dns_id = 1, domain = str ''a.lan'', ip = str ''10.0.0.1''\<rparr>,
           \<lparr>dns_id = 2, domain = str ''b.lan'', ip = str ''10.0.0.2''\<rparr>]"
  by (simp add: sample_dns_def numbered_def dns_item_row_def item_field_def get_prop_def)

lemma sample_dns_idle: "editingRowId sample_dns = None" "\<not> showForm sample_dns"
  by (simp_all add: sample_dns_def dns_init_def loadAPIData_record_def)

definition some_ipv4 :: "jsval \<Rightarrow> bool" where
  "some_ipv4 v \<longleftrightarrow> v \<in> {str ''10.0.0.1'', str ''10.0.0.2'', str ''10.0.0.9''}"

theorem dns_edit_saves_row_witness:
  "map_option (map ip) (data (run_events (dns_step some_ipv4 plain_texts) sample_dns
     (EditClick 2 # fill_form (str ''b.lan'') (str ''10.0.0.9'')))) =
     Some [str ''10.0.0.1'', str ''10.0.0.9'']"
  using dns_edit_saves_row [OF sample_dns_rows _ _ sample_dns_idle, of 1 some_ipv4 "str ''10.0.0.9''"
      plain_texts "str ''b.lan''"]
  by (simp add: dense_def some_ipv4_def Let_def)

text \<open>
  Claim C40: closing the form does not end the edit that opened it. In a table numbered from 1, after
  the edit of a row was opened and closed again, a row that is inserted is not added: submitting
  overwrites the row whose edit was cancelled, and that table is posted.
\<close>

theorem cancelled_edit_overwrites_row:
  assumes "data s = Some rows" and "dense dns_id rows" and "i < length rows"
    and "editingRowId s = None" and "\<not> showForm s" and "isIPv4 p"
  shows "let s' = run_events (dns_step isIPv4 tx) s
                    (EditClick (int i + 1) # CloseForm # InsertClick # fill_form d p);
             rows' = rows[i := (rows ! i)\<lparr>domain := d, ip := p\<rparr>]
         in data s' = Some rows' \<and> length rows' = length rows \<and>
            body_of (last (sent (ui s'))) = JSON_stringify (dns_payload rows')"
  using assms
  by (simp add: Let_def editRow_record_dense close_form_record_def submit_form addSaveRow_record_edit saveAPIData_record_body)

theorem cancelled_edit_overwrites_row_witness:
  "map_option (map domain) (data (run_events (dns_step some_ipv4 plain_texts) sample_dns
     (EditClick 1 # CloseForm # InsertClick # fill_form (str ''c.lan'') (str ''10.0.0.9'')))) =
     Some [str ''c.lan'', str ''b.lan'']"
  using cancelled_edit_overwrites_row [OF sample_dns_rows _ _ sample_dns_idle, of 0 some_ipv4
      "str ''10.0.0.9''" plain_texts "str ''c.lan''"]
  by (simp add: dense_def some_ipv4_def Let_def)

end
