(* ===== verification/Dns_Lists.thy ===== *)
theory Dns_Lists
  imports Ui_Base
begin

text \<open>
  The editor of the DNS block lists (\<open>ui/src/components/dnslists.svelte\<close>), which keeps the
  list as the JSON text of one setting, and the panel of the DNS page that shows the server's
  state (\<open>ui/src/routes/dns/dns.svelte\<close>). Entries are compared with \<open>==\<close> and
  \<open>===\<close>, which agree with equality on texts.
\<close>

section \<open>Block lists\<close>

datatype list_call = ListLoad | ListSave | ListSaveForm

record dns_lists =
  data :: jsval
  editingRowId :: jsval
  editingItemValue :: jsval
  showForm :: bool
  calls :: "list_call list"
  dispatched :: nat
  ui :: ui

definition list_setting :: jsstr where
  "list_setting = js ''dns_custom_entries''"

definition lists_mount :: "ui \<Rightarrow> dns_lists" where
  "lists_mount u =
     \<lparr>data = Null, editingRowId = Null, editingItemValue = Str [], showForm = False,
      calls = [ListLoad], dispatched = 0, ui = ui_call (getSetting list_setting) u\<rparr>"

definition lists_mount_settled :: "reply \<Rightarrow> dns_lists \<Rightarrow> dns_lists" where
  "lists_mount_settled r s =
     (case ui_settle doCall_settled r (ui s) of
        (u, Inl err) \<Rightarrow> s\<lparr>ui := u\<rparr>
      | (u, Inr json) \<Rightarrow>
          if truthy_val json
          then (case bind_exn (prop_of json (js ''Value'')) JSON_parse of
                  Inr v \<Rightarrow> s\<lparr>ui := u, data := v\<rparr>
                | Inl err \<Rightarrow> s\<lparr>ui := u\<rparr>)
          else s\<lparr>ui := u\<rparr>)"

definition saveAPIData_list :: "list_call \<Rightarrow> dns_lists \<Rightarrow> dns_lists" where
  "saveAPIData_list k s =
     s\<lparr>ui := ui_call (setSetting list_setting (JSON_stringify (data s)) None) (ui s),
       calls := calls s @ [k]\<rparr>"

definition saveAPIData_list_settled :: "texts \<Rightarrow> reply \<Rightarrow> dns_lists \<Rightarrow> dns_lists" where
  "saveAPIData_list_settled tx r s =
     (case ui_settle setSetting_settled r (ui s) of
        (u, Inr _) \<Rightarrow>
          s\<lparr>dispatched := Suc (dispatched s),
            ui := notify (createNotificationSuccess
              (empty_message\<lparr>title := tr tx (js ''Success''),
                 subtitle := tr tx (js ''Block list updated'')\<rparr>) (tr tx)) u\<rparr>
      | (u, Inl err) \<Rightarrow>
          s\<lparr>ui := notify (createNotificationError
              (empty_message\<lparr>title := tr tx (js ''Error''),
                 subtitle := tr tx (js ''Unable to save block list'')\<rparr>) (tr tx)) u\<rparr>)"

definition addRow_list :: "dns_lists \<Rightarrow> dns_lists" where
  "addRow_list s = s\<lparr>showForm := True\<rparr>"

definition find_item :: "jsval \<Rightarrow> jsval list \<Rightarrow> jsval" where
  "find_item i vs = (case find (\<lambda>v. v = i) vs of Some v \<Rightarrow> v | None \<Rightarrow> Undef)"

definition editRow_list :: "jsval \<Rightarrow> dns_lists \<Rightarrow> dns_lists" where
  "editRow_list i s =
     (case data s of
        Arr vs \<Rightarrow>
          if truthy_val (editingRowId s) \<and> editingRowId s = i
          then (saveAPIData_list ListSave
                  (s\<lparr>data := Arr (map (\<lambda>v. if v = i then editingItemValue s else v) vs)\<rparr>))
               \<lparr>editingRowId := Null, editingItemValue := Str []\<rparr>
          else s\<lparr>editingRowId := i, editingItemValue := find_item i vs\<rparr>
      | _ \<Rightarrow> s)"

definition removeRow_list :: "jsval \<Rightarrow> dns_lists \<Rightarrow> dns_lists" where
  "removeRow_list i s =
     (case data s of
        Arr vs \<Rightarrow> saveAPIData_list ListSave (s\<lparr>data := Arr (filter (\<lambda>v. v \<noteq> i) vs)\<rparr>)
      | _ \<Rightarrow> s)"

definition handleContentChange_list :: "jsval \<Rightarrow> dns_lists \<Rightarrow> dns_lists" where
  "handleContentChange_list newValue s = s\<lparr>editingItemValue := newValue\<rparr>"

definition addSaveRow_list :: "dns_lists \<Rightarrow> dns_lists" where
  "addSaveRow_list s =
     (case data s of
        Arr vs \<Rightarrow>
          if truthy_val (editingItemValue s)
          then saveAPIData_list ListSaveForm (s\<lparr>data := Arr (vs @ [editingItemValue s])\<rparr>)
          else s
      | _ \<Rightarrow> s)"

text \<open>After the awaited save of the form, whatever its outcome.\<close>

definition addSaveRow_list_saved :: "dns_lists \<Rightarrow> dns_lists" where
  "addSaveRow_list_saved s = s\<lparr>editingItemValue := Str [], showForm := False\<rparr>"

definition close_form_list :: "dns_lists \<Rightarrow> dns_lists" where
  "close_form_list s = s\<lparr>showForm := False, editingItemValue := Str []\<rparr>"

datatype list_event =
    InsertClick
  | EditClick jsval
  | RemoveClick jsval
  | ContentInput jsval
  | UrlInput jsval
  | SubmitForm
  | CloseForm
  | ListSettled nat reply

text \<open>The input of a row exists while that row is edited, the input of the form with the form.\<close>

fun list_step :: "texts \<Rightarrow> dns_lists \<Rightarrow> list_event \<Rightarrow> dns_lists" where
  "list_step tx s InsertClick = addRow_list s"
| "list_step tx s (EditClick i) = editRow_list i s"
| "list_step tx s (RemoveClick i) = removeRow_list i s"
| "list_step tx s (ContentInput v) =
     (if truthy_val (editingRowId s) then handleContentChange_list v s else s)"
| "list_step tx s (UrlInput v) = (if showForm s then s\<lparr>editingItemValue := v\<rparr> else s)"
| "list_step tx s SubmitForm = (if showForm s then addSaveRow_list s else s)"
| "list_step tx s CloseForm = (if showForm s then close_form_list s else s)"
| "list_step tx s (ListSettled k r) =
     (if k < length (calls s)
      then (let s' = s\<lparr>calls := drop_nth k (calls s)\<rparr>
            in case calls s ! k of
                 ListLoad \<Rightarrow> lists_mount_settled r s'
               | ListSave \<Rightarrow> saveAPIData_list_settled tx r s'
               | ListSaveForm \<Rightarrow> addSaveRow_list_saved (saveAPIData_list_settled tx r s'))
      else s)"

section \<open>The panel of the DNS page\<close>

record dns_page =
  dnsInfo :: jsval
  info_calls :: nat
  timers :: "nat list"
  now :: nat
  page_ui :: ui

definition loadDnsInfo :: "dns_page \<Rightarrow> dns_page" where
  "loadDnsInfo s =
     s\<lparr>dnsInfo := Null, info_calls := Suc (info_calls s),
       page_ui := ui_call (doCall (js ''/dns/info'') (js ''get'') (Obj []) []) (page_ui s)\<rparr>"

definition loadDnsInfo_settled :: "reply \<Rightarrow> dns_page \<Rightarrow> dns_page" where
  "loadDnsInfo_settled r s =
     (case ui_settle doCall_settled r (page_ui s) of
        (u, Inr v) \<Rightarrow> s\<lparr>page_ui := u, info_calls := info_calls s - 1, dnsInfo := v\<rparr>
      | (u, Inl err) \<Rightarrow> s\<lparr>page_ui := u, info_calls := info_calls s - 1\<rparr>)"

definition onUpdateDnsInfo :: "dns_page \<Rightarrow> dns_page" where
  "onUpdateDnsInfo s = s\<lparr>dnsInfo := Null, timers := timers s @ [now s + 3000]\<rparr>"

datatype dns_page_event = DnsUpdated | InfoTimer nat | InfoSettled reply | RestartClick | Elapse nat

fun page_step :: "dns_page \<Rightarrow> dns_page_event \<Rightarrow> dns_page" where
  "page_step s DnsUpdated = onUpdateDnsInfo s"
| "page_step s (InfoTimer k) =
     (if k < length (timers s) \<and> timers s ! k \<le> now s
      then loadDnsInfo (s\<lparr>timers := drop_nth k (timers s)\<rparr>) else s)"
| "page_step s (InfoSettled r) = (if 0 < info_calls s then loadDnsInfo_settled r s else s)"
| "page_step s RestartClick = (if nullish (dnsInfo s) then s else loadDnsInfo s)"
| "page_step s (Elapse d) = s\<lparr>now := now s + d\<rparr>"

definition page_init :: "ui \<Rightarrow> dns_page" where
  "page_init u =
     loadDnsInfo \<lparr>dnsInfo = Null, info_calls = 0, timers = [], now = 0, page_ui = u\<rparr>"

section \<open>Properties\<close>

lemma stringify_json_value: "json_value v \<Longrightarrow> json_value (JSON_stringify v)"
  by (simp add: JSON_stringify_def json_value_printable)

text \<open>
  The block list that a save posts, JSON in the value of a setting, is the list that the
  editor shows when the server returns that value for the setting.
\<close>

theorem saved_lists_load_back:
  assumes "data s = Arr vs" and "list_all json_value vs"
  shows "\<exists>msg v. JSON_parse (body_of (last (sent (ui (saveAPIData_list k s))))) = Inr msg \<and>
    prop_of msg (js ''value'') = Inr v \<and>
    data (lists_mount_settled (Reply 200 (Some (Obj [(js ''Value'', v)]))) (lists_mount u)) = Arr vs"
proof -
  let ?v = "JSON_stringify (Arr vs)"
  have j: "json_value (Arr vs)" using assms(2) by simp
  let ?msg = "Obj [(js ''key'', Str list_setting), (js ''value'', ?v)]"
  have "JSON_parse (body_of (last (sent (ui (saveAPIData_list k s))))) = Inr ?msg"
    using stringify_json_value [OF j]
    by (simp add: saveAPIData_list_def setSetting_request assms(1) json_round_trip)
  moreover have "prop_of ?msg (js ''value'') = Inr ?v" by (simp add: get_prop_def)
  moreover have "data (lists_mount_settled (Reply 200 (Some (Obj [(js ''Value'', ?v)])))
      (lists_mount u)) = Arr vs"
    using json_round_trip [OF j]
    by (simp add: lists_mount_settled_def ui_settle_def doCall_settled_def get_prop_def)
  ultimately show ?thesis by blast
qed

definition two_lists :: "jsval list" where
  "two_lists = [str ''a.txt'', str ''b.txt'']"

definition sample_lists :: dns_lists where
  "sample_lists = (lists_mount (ui_init Map.empty))\<lparr>data := Arr two_lists\<rparr>"

theorem saved_lists_load_back_witness:
  "\<exists>msg v. JSON_parse (body_of (last (sent (ui (saveAPIData_list ListSave sample_lists))))) = Inr msg \<and>
    prop_of msg (js ''value'') = Inr v \<and>
    data (lists_mount_settled (Reply 200 (Some (Obj [(js ''Value'', v)])))
      (lists_mount (ui_init Map.empty))) = Arr two_lists"
  by (rule saved_lists_load_back) (simp_all add: sample_lists_def two_lists_def str_def)

text \<open>
  The form for a new list and the row being edited share one text. Saving an edited row
  replaces exactly its entries and posts the list; but when the form was opened and closed in
  between, the row is replaced by the empty text and that list is posted.
\<close>

theorem list_edit_and_form:
  assumes "data s = Arr vs" and "i \<in> set vs" and "truthy_val i" and "editingRowId s \<noteq> i"
  shows "(let s' = run_events (list_step tx) s [EditClick i, ContentInput v, EditClick i];
              vs' = map (\<lambda>x. if x = i then v else x) vs
          in data s' = Arr vs' \<and> editingRowId s' = Null) \<and>
         (let s' = run_events (list_step tx) s
                     [EditClick i, ContentInput v, InsertClick, CloseForm, EditClick i];
              vs' = map (\<lambda>x. if x = i then Str [] else x) vs
          in data s' = Arr vs' \<and>
             body_of (last (sent (ui s'))) =
               JSON_stringify (Obj [(js ''key'', Str list_setting),
                 (js ''value'', JSON_stringify (Arr vs'))]))"
  using assms
  by (simp add: Let_def editRow_list_def handleContentChange_list_def addRow_list_def close_form_list_def saveAPIData_list_def
      setSetting_request cong: if_cong)

theorem list_edit_and_form_witness:
  "data (run_events (list_step plain_texts) sample_lists
     [EditClick (str ''a.txt''), ContentInput (str ''c.txt''), InsertClick, CloseForm,
      EditClick (str ''a.txt'')]) = Arr [Str [], str ''b.txt'']"
  using list_edit_and_form [of sample_lists two_lists "str ''a.txt''"
      plain_texts "str ''c.txt''"]
  by (simp add: sample_lists_def two_lists_def lists_mount_def str_def Let_def
      del: run_events.simps)

end
