(* ===== verification/Settings_Inputs.thy ===== *)
theory Settings_Inputs
  imports Ui_Base
begin

text \<open>
  The inputs that are connected to a setting of the server: the switch
  (\<open>ui/src/components/toggle.svelte\<close>, with the notice of \<open>httpsToggle.svelte\<close>), the
  input of one setting (\<open>connectedSettingInput.svelte\<close>), the input of a field of the general
  settings (\<open>connectedGeneralSettingInputs.svelte\<close>, also the password form of
  \<open>headerrightnav.svelte\<close>) and the certificate boxes (\<open>connectedCertificateBasic.svelte\<close>).
  No caller gives the switch a \<open>preClickEvent\<close>.
\<close>

section \<open>The switch\<close>

datatype toggle_call = ToggleLoad | ToggleSave

record toggle =
  settingName :: jsstr
  settingValue :: jsval
  noNotification :: bool
  toggle_calls :: "toggle_call list"
  toggle_ui :: ui

definition toggle_load :: "toggle \<Rightarrow> toggle" where
  "toggle_load s =
     s\<lparr>toggle_ui := ui_call (doCall (js ''/settings/'' @ settingName s) (js ''get'') (Obj []) [])
                     (toggle_ui s),
       toggle_calls := toggle_calls s @ [ToggleLoad]\<rparr>"

definition toggle_load_settled :: "reply \<Rightarrow> toggle \<Rightarrow> toggle" where
  "toggle_load_settled r s =
     (case ui_settle doCall_settled r (toggle_ui s) of
        (u, v) \<Rightarrow>
          (case bind_exn v (\<lambda>json. prop_of json (js ''Value'')) of
             Inr w \<Rightarrow> s\<lparr>toggle_ui := u, settingValue := w\<rparr>
           | Inl err \<Rightarrow> s\<lparr>toggle_ui := u\<rparr>))"

definition toggled_value :: "jsval \<Rightarrow> jsval" where
  "toggled_value v = (if loose_eq_text v ''true'' then str ''false'' else str ''true'')"

definition toggleSettingStatus :: "toggle \<Rightarrow> toggle" where
  "toggleSettingStatus s =
     s\<lparr>toggle_ui := ui_call (doCall (js ''/settings/'' @ settingName s) (js ''post'')
         (Obj [(js ''key'', Str (settingName s)), (js ''value'', toggled_value (settingValue s))]) [])
         (toggle_ui s),
       toggle_calls := toggle_calls s @ [ToggleSave]\<rparr>"

definition toggle_saved :: "texts \<Rightarrow> reply \<Rightarrow> toggle \<Rightarrow> toggle" where
  "toggle_saved tx r s =
     (case ui_settle doCall_settled r (toggle_ui s) of
        (u, Inl err) \<Rightarrow> s\<lparr>toggle_ui := u\<rparr>
      | (u, Inr json) \<Rightarrow>
          (let s = toggle_load (s\<lparr>toggle_ui := u\<rparr>)
           in if noNotification s then s
              else s\<lparr>toggle_ui := notify (createNotificationSuccess
                     (empty_message\<lparr>title := tr tx (js ''Success''),
                        subtitle := tr tx (js ''Setting updated'')\<rparr>) (tr tx)) (toggle_ui s)\<rparr>))"

text \<open>One load when the component is created and one when it is mounted.\<close>

definition toggle_mount :: "jsstr \<Rightarrow> bool \<Rightarrow> ui \<Rightarrow> toggle" where
  "toggle_mount n quiet u =
     toggle_load (toggle_load \<lparr>settingName = n, settingValue = Str [], noNotification = quiet,
       toggle_calls = [], toggle_ui = u\<rparr>)"

datatype toggle_view = Hidden | Spinner | Switch bool

definition toggle_shown :: "bool \<Rightarrow> toggle \<Rightarrow> toggle_view" where
  "toggle_shown hide s =
     (if hide then Hidden
      else if settingValue s = Str [] then Spinner
      else Switch (loose_eq_text (settingValue s) ''true''))"

text \<open>The privacy notice opens when the switch is clicked while filtering is off.\<close>

definition https_click :: "toggle \<Rightarrow> bool \<Rightarrow> bool" where
  "https_click s modalOpen = (loose_eq_text (settingValue s) ''false'' \<or> modalOpen)"

section \<open>The input of one setting\<close>

datatype input_call = InputLoad | InputSave

record setting_input =
  keyName :: jsstr
  disableOnblur :: bool
  data :: jsval
  internalFormValue :: jsval
  loaded :: bool
  calls :: "input_call list"
  ui :: ui

definition input_mount :: "jsstr \<Rightarrow> bool \<Rightarrow> ui \<Rightarrow> setting_input" where
  "input_mount k off u =
     \<lparr>keyName = k, disableOnblur = off, data = Null, internalFormValue = Null, loaded = False,
      calls = [InputLoad], ui = ui_call (getSetting k) u\<rparr>"

definition input_load_settled :: "reply \<Rightarrow> setting_input \<Rightarrow> setting_input" where
  "input_load_settled r s =
     (case ui_settle doCall_settled r (ui s) of
        (u, v) \<Rightarrow>
          (case bind_exn v (\<lambda>json. prop_of json (js ''Value'')) of
             Inr w \<Rightarrow> s\<lparr>ui := u, data := w, loaded := True\<rparr>
           | Inl err \<Rightarrow> s\<lparr>ui := u, loaded := True\<rparr>))"

definition updateNetwork :: "jsval \<Rightarrow> setting_input \<Rightarrow> setting_input" where
  "updateNetwork keyValue s =
     s\<lparr>ui := ui_call (setSetting (keyName s) keyValue None) (ui s), calls := calls s @ [InputSave]\<rparr>"

definition save_notice :: "texts \<Rightarrow> string \<Rightarrow> string \<Rightarrow> jsval \<Rightarrow> message" where
  "save_notice tx bad good response =
     (if response = JBool False
      then createNotificationError (empty_message\<lparr>subtitle := tr tx (js bad)\<rparr>) (tr tx)
      else createNotificationSuccess (empty_message\<lparr>subtitle := tr tx (js good)\<rparr>) (tr tx))"

definition updateNetwork_settled :: "texts \<Rightarrow> reply \<Rightarrow> setting_input \<Rightarrow> setting_input" where
  "updateNetwork_settled tx r s =
     (case ui_settle setSetting_settled r (ui s) of
        (u, Inl err) \<Rightarrow> s\<lparr>ui := u\<rparr>
      | (u, Inr response) \<Rightarrow>
          s\<lparr>ui := notify (save_notice tx ''Unable to save setting'' ''Setting updated'' response) u\<rparr>)"

definition updateField :: "jsstr \<Rightarrow> setting_input \<Rightarrow> setting_input" where
  "updateField value s =
     (if text_eq value (data s) then s
      else (let s = s\<lparr>internalFormValue := Str value\<rparr>
            in if disableOnblur s then s else updateNetwork (internalFormValue s) s))"

definition updateFieldRadio :: "setting_input \<Rightarrow> setting_input" where
  "updateFieldRadio s =
     (let s = s\<lparr>internalFormValue := data s\<rparr>
      in if disableOnblur s then s else updateNetwork (internalFormValue s) s)"

definition updateDataOnBackend :: "setting_input \<Rightarrow> setting_input" where
  "updateDataOnBackend s = updateNetwork (internalFormValue s) s"

definition input_destroy :: "setting_input \<Rightarrow> setting_input" where
  "input_destroy s = s\<lparr>data := Null, internalFormValue := Null, loaded := False\<rparr>"

datatype input_event = Blur jsstr | Radio jsval | InputSettled nat reply

text \<open>The radio buttons write the bound value before the change handler runs.\<close>

fun input_step :: "texts \<Rightarrow> setting_input \<Rightarrow> input_event \<Rightarrow> setting_input" where
  "input_step tx s (Blur v) = (if loaded s then updateField v s else s)"
| "input_step tx s (Radio v) = (if loaded s then updateFieldRadio (s\<lparr>data := v\<rparr>) else s)"
| "input_step tx s (InputSettled k r) =
     (if k < length (calls s)
      then (let s' = s\<lparr>calls := drop_nth k (calls s)\<rparr>
            in case calls s ! k of
                 InputLoad \<Rightarrow> input_load_settled r s'
               | InputSave \<Rightarrow> updateNetwork_settled tx r s')
      else s)"

section \<open>A field of the general settings\<close>

record general_input =
  field :: jsstr
  keep_on_blur :: bool
  settings :: jsval
  form_value :: jsval
  general_calls :: "input_call list"
  general_ui :: ui

definition general_key :: jsstr where
  "general_key = js ''general_settings''"

definition general_load :: "general_input \<Rightarrow> general_input" where
  "general_load s =
     s\<lparr>general_ui := ui_call (getSetting general_key) (general_ui s),
       general_calls := general_calls s @ [InputLoad]\<rparr>"

definition general_load_settled :: "reply \<Rightarrow> general_input \<Rightarrow> general_input" where
  "general_load_settled r s =
     (case ui_settle doCall_settled r (general_ui s) of
        (u, v) \<Rightarrow>
          (case bind_exn v (\<lambda>json. bind_exn (prop_of json (js ''Value'')) JSON_parse) of
             Inr w \<Rightarrow> s\<lparr>general_ui := u, settings := w\<rparr>
           | Inl err \<Rightarrow> s\<lparr>general_ui := u\<rparr>))"

definition general_update :: "jsval \<Rightarrow> general_input \<Rightarrow> general_input" where
  "general_update updateData s =
     s\<lparr>general_ui := ui_call (setSetting general_key (JSON_stringify updateData) None) (general_ui s),
       general_calls := general_calls s @ [InputSave]\<rparr>"

definition general_update_settled :: "texts \<Rightarrow> reply \<Rightarrow> general_input \<Rightarrow> general_input" where
  "general_update_settled tx r s =
     (case ui_settle setSetting_settled r (general_ui s) of
        (u, Inl err) \<Rightarrow> s\<lparr>general_ui := u\<rparr>
      | (u, Inr response) \<Rightarrow>
          general_load (s\<lparr>general_ui :=
            notify (save_notice tx ''Unable to save setting'' ''Setting updated'' response) u\<rparr>))"

text \<open>\<open>{...data, [keyName]: value}\<close>.\<close>

definition own_props :: "jsval \<Rightarrow> props" where
  "own_props d =
     (case d of
        Obj m \<Rightarrow> m
      | Arr vs \<Rightarrow> map (\<lambda>(i, v). (digits_of i, v)) (enumerate 0 vs)
      | Str s \<Rightarrow> map (\<lambda>(i, c). (digits_of i, Str [c])) (enumerate 0 s)
      | _ \<Rightarrow> [])"

definition with_field :: "jsval \<Rightarrow> jsstr \<Rightarrow> jsval \<Rightarrow> jsval" where
  "with_field d k v = Obj (AList.update k v (own_props d))"

definition general_updateField :: "jsstr \<Rightarrow> general_input \<Rightarrow> general_input" where
  "general_updateField value s =
     (case prop_of (settings s) (field s) of
        Inl err \<Rightarrow> s
      | Inr old \<Rightarrow>
          if text_eq value old then s
          else (let updateData = with_field (settings s) (field s) (Str value);
                    s = s\<lparr>form_value := updateData\<rparr>
                in if keep_on_blur s then s else general_update updateData s))"

definition general_mount :: "jsstr \<Rightarrow> bool \<Rightarrow> ui \<Rightarrow> general_input" where
  "general_mount k keep u =
     general_load \<lparr>field = k, keep_on_blur = keep, settings = Null, form_value = Null,
       general_calls = [], general_ui = u\<rparr>"

text \<open>The button of the password form calls the bound \<open>updateDataOnBackend\<close>.\<close>

definition proceed_password :: "general_input \<Rightarrow> general_input" where
  "proceed_password s = general_update (form_value s) s"

definition password_form :: "ui \<Rightarrow> general_input" where
  "password_form u = general_mount (js ''admin_password'') True u"

section \<open>Certificate boxes\<close>

text \<open>Both boxes of \<open>connectedCertificateComposed.svelte\<close> name their setting.\<close>

record certificate_box =
  cert_setting :: jsstr
  cert_value :: jsval
  cert_calls :: "input_call list"
  cert_ui :: ui

definition cert_load :: "certificate_box \<Rightarrow> certificate_box" where
  "cert_load s =
     s\<lparr>cert_ui := ui_call (getSetting (cert_setting s)) (cert_ui s),
       cert_calls := cert_calls s @ [InputLoad]\<rparr>"

definition cert_load_settled :: "reply \<Rightarrow> certificate_box \<Rightarrow> certificate_box" where
  "cert_load_settled r s =
     (case ui_settle doCall_settled r (cert_ui s) of
        (u, v) \<Rightarrow>
          (case bind_exn v (\<lambda>json. prop_of json (js ''Value'')) of
             Inr w \<Rightarrow> s\<lparr>cert_ui := u, cert_value := w\<rparr>
           | Inl err \<Rightarrow> s\<lparr>cert_ui := u\<rparr>))"

definition onBlur :: "jsstr \<Rightarrow> certificate_box \<Rightarrow> certificate_box" where
  "onBlur value s =
     s\<lparr>cert_ui := ui_call (setSetting (cert_setting s) (Str value) None) (cert_ui s),
       cert_calls := cert_calls s @ [InputSave]\<rparr>"

definition onBlur_settled :: "texts \<Rightarrow> reply \<Rightarrow> certificate_box \<Rightarrow> certificate_box" where
  "onBlur_settled tx r s =
     (case ui_settle setSetting_settled r (cert_ui s) of
        (u, Inl err) \<Rightarrow> s\<lparr>cert_ui := u\<rparr>
      | (u, Inr response) \<Rightarrow>
          cert_load (s\<lparr>cert_ui := notify (save_notice tx ''Unable to save certificate data''
            ''Certificate data saved'' response) u\<rparr>))"

section \<open>Properties\<close>

lemma setSetting_settled_result:
  "snd (setSetting_settled r s) =
     (case r of Failed \<Rightarrow> Inl FetchError | Reply status body \<Rightarrow>
        if status = 200 \<and> body = None then Inl SyntaxError else Inr (JBool True))"
  by (auto simp: setSetting_settled_def doCall_settled_def split: reply.splits option.splits)

lemma success_notice_kind: "kind (createNotificationSuccess m t) = str ''success''"
  by (simp add: createNotificationSuccess_def buildNotification_def js_nullish_def nullish_def str_def)

lemma settled_notices:
  "ui_settle setSetting_settled r u = (u', v) \<Longrightarrow>
     notices u' = notices u \<and> v = snd (setSetting_settled r (Ui_Base.store u))"
  by (auto simp: ui_settle_def split: prod.splits)

text \<open>
  When the save of a setting settles, the user is told that it succeeded whatever status
  the server answered, 401 and 500 included, and is told nothing when the request itself failed.
  The message that the setting could not be saved is never shown.
\<close>

theorem setting_save_notices:
  "let s' = updateNetwork_settled tx r s
   in if r = Failed \<or> r = Reply 200 None then notices (ui s') = notices (ui s)
      else \<exists>n. notices (ui s') = notices (ui s) @ [n] \<and> kind n = str ''success''"
  using settled_notices [of r "ui s"]
  by (cases r; cases "ui_settle setSetting_settled r (ui s)")
    (auto simp: updateNetwork_settled_def Let_def setSetting_settled_result save_notice_def add_def
        success_notice_kind)

lemma input_settled_keeps:
  assumes "InputLoad \<notin> set (calls s)"
  shows "let s' = run_events (input_step tx) s (map (\<lambda>(k, r). InputSettled k r) krs)
    in data s' = data s \<and> loaded s' = loaded s \<and> sent (ui s') = sent (ui s)"
  using assms
proof (induction krs arbitrary: s)
  case Nil
  show ?case by simp
next
  case (Cons kr krs)
  obtain k r where kr: "kr = (k, r)" by (cases kr)
  let ?s = "input_step tx s (InputSettled k r)"
  have "k < length (calls s) \<Longrightarrow> calls s ! k = InputSave"
    using Cons.prems by (metis input_call.exhaust nth_mem)
  moreover have "set (drop_nth k (calls s)) \<subseteq> set (calls s)"
    by (auto simp: drop_nth_def dest: in_set_takeD in_set_dropD)
  ultimately have "data ?s = data s \<and> loaded ?s = loaded s \<and> sent (ui ?s) = sent (ui s) \<and>
      InputLoad \<notin> set (calls ?s)"
    using Cons.prems
    by (auto simp: Let_def updateNetwork_settled_def split: prod.splits sum.splits)
  with Cons.IH [of ?s] show ?case by (simp add: kr Let_def)
qed

text \<open>
  A changed text is posted when its input loses the focus. The loaded value is kept as it
  was, so changing the text back to it later posts nothing, whatever the replies in between: the
  server keeps the changed value.
\<close>

theorem reverted_setting_not_saved:
  assumes "loaded s" and "data s = Str a" and "a \<noteq> b" and "\<not> disableOnblur s"
    and "InputLoad \<notin> set (calls s)"
  shows "let s' = run_events (input_step tx) s
                    (Blur b # map (\<lambda>(k, r). InputSettled k r) krs @ [Blur a])
    in \<exists>c. sent (ui s') = sent (ui s) @ [c] \<and>
       body_of c = JSON_stringify (Obj [(js ''key'', Str (keyName s)), (js ''value'', Str b)])"
proof -
  let ?s1 = "input_step tx s (Blur b)"
  let ?s2 = "run_events (input_step tx) ?s1 (map (\<lambda>(k, r). InputSettled k r) krs)"
  have s1: "loaded ?s1" "data ?s1 = Str a" "InputLoad \<notin> set (calls ?s1)"
      "\<exists>c. sent (ui ?s1) = sent (ui s) @ [c] \<and>
        body_of c = JSON_stringify (Obj [(js ''key'', Str (keyName s)), (js ''value'', Str b)])"
    using assms by (auto simp: updateField_def updateNetwork_def Let_def setSetting_request)
  from input_settled_keeps [OF s1(3), of tx krs] s1
  have "loaded ?s2" "data ?s2 = Str a" "sent (ui ?s2) = sent (ui ?s1)" by (simp_all add: Let_def)
  then have "input_step tx ?s2 (Blur a) = ?s2" by (simp add: updateField_def)
  with s1(4) \<open>sent (ui ?s2) = sent (ui ?s1)\<close> show ?thesis
    by (simp add: Let_def run_events_append del: input_step.simps)
qed

definition sample_input :: setting_input where
  "sample_input =
     (input_mount (js ''strictness'') False (ui_init Map.empty))
       \<lparr>data := str ''10'', loaded := True, calls := []\<rparr>"

theorem reverted_setting_not_saved_witness:
  "\<exists>c. sent (ui (run_events (input_step plain_texts) sample_input
       [Blur (js ''20''), InputSettled 0 (Reply 200 (Some Null)), Blur (js ''10'')])) =
     sent (ui sample_input) @ [c] \<and>
     body_of c = JSON_stringify (Obj [(js ''key'', str ''strictness''), (js ''value'', str ''20'')])"
  using reverted_setting_not_saved [of sample_input "js ''10''" "js ''20''" plain_texts
      "[(0, Reply 200 (Some Null))]"]
  by (simp add: sample_input_def input_mount_def str_def Let_def del: run_events.simps)

lemma AList_update_json:
  "json_value (Obj m) \<Longrightarrow> json_value v \<Longrightarrow> json_value (Obj (AList.update k v m))"
  by (induction m) (auto simp: AList.dom_update)

text \<open>
  Leaving a field of the general settings with a new text posts all the settings, as JSON
  in the value of one setting: the field has the new text and every other field the value it was
  loaded with.
\<close>

theorem general_update_keeps_fields:
  assumes "settings s = Obj m" and "json_value (Obj m)" and "\<not> keep_on_blur s"
    and "\<not> text_eq value (get_prop m (field s))"
  shows "\<exists>msg v m'. JSON_parse (body_of (last (sent (general_ui (general_updateField value s))))) = Inr msg \<and>
    prop_of msg (js ''value'') = Inr v \<and> JSON_parse v = Inr (Obj m') \<and>
    (\<forall>j. get_prop m' j = (if j = field s then Str value else get_prop m j))"
proof -
  let ?m = "AList.update (field s) (Str value) m"
  have j: "json_value (Obj ?m)" by (rule AList_update_json [OF assms(2)]) simp
  let ?msg = "Obj [(js ''key'', Str general_key), (js ''value'', JSON_stringify (Obj ?m))]"
  have "json_value (JSON_stringify (Obj ?m))"
    using j by (simp add: JSON_stringify_def)
  then have "JSON_parse (body_of (last (sent (general_ui (general_updateField value s))))) = Inr ?msg"
    using assms
    by (simp add: general_updateField_def general_update_def Let_def with_field_def own_props_def
        setSetting_request json_round_trip)
  moreover have "prop_of ?msg (js ''value'') = Inr (JSON_stringify (Obj ?m))"
    by (simp add: get_prop_def)
  moreover have "JSON_parse (JSON_stringify (Obj ?m)) = Inr (Obj ?m)" by (rule json_round_trip [OF j])
  moreover have "\<forall>j. get_prop ?m j = (if j = field s then Str value else get_prop m j)" by simp
  ultimately show ?thesis by blast
qed

definition sample_general :: "jsstr \<Rightarrow> bool \<Rightarrow> general_input" where
  "sample_general k keep =
     (general_mount k keep (ui_init Map.empty))
       \<lparr>settings := Obj [(js ''log_location'', str ''./log.db''), (js ''admin_password'', Str []),
          (js ''admin_username'', str ''admin'')]\<rparr>"

theorem general_update_keeps_fields_witness:
  "\<exists>msg v m'. JSON_parse (body_of (last (sent (general_ui (general_updateField (js ''/tmp/log.db'')
       (sample_general (js ''log_location'') False)))))) = Inr msg \<and>
     prop_of msg (js ''value'') = Inr v \<and> JSON_parse v = Inr (Obj m') \<and>
     get_prop m' (js ''log_location'') = str ''/tmp/log.db'' \<and>
     get_prop m' (js ''admin_username'') = str ''admin''"
proof -
  let ?s = "sample_general (js ''log_location'') False"
  let ?m = "[(js ''log_location'', str ''./log.db''), (js ''admin_password'', Str []),
          (js ''admin_username'', str ''admin'')]"
  have s: "settings ?s = Obj ?m" "\<not> keep_on_blur ?s" "field ?s = js ''log_location''"
    by (simp_all add: sample_general_def general_mount_def general_load_def)
  have "json_value (Obj ?m)" by (simp add: str_def)
  moreover have "\<not> text_eq (js ''/tmp/log.db'') (get_prop ?m (field ?s))"
    by (simp add: s get_prop_def str_def)
  ultimately obtain msg v m' where
    r: "JSON_parse (body_of (last (sent (general_ui (general_updateField (js ''/tmp/log.db'') ?s))))) = Inr msg"
      "prop_of msg (js ''value'') = Inr v" "JSON_parse v = Inr (Obj m')"
    and f: "\<forall>j. get_prop m' j = (if j = field ?s then str ''/tmp/log.db'' else get_prop ?m j)"
    using general_update_keeps_fields [OF s(1) _ s(2)] unfolding str_def by blast
  have "get_prop m' (js ''log_location'') = str ''/tmp/log.db''"
    and "get_prop m' (js ''admin_username'') = str ''admin''"
    by (simp_all only: f s js_inject) (simp_all add: get_prop_def)
  with r show ?thesis by blast
qed

lemma stringify_null: "JSON_stringify Null = str ''null''"
  by (simp add: JSON_stringify_def str_def)

text \<open>
  Leaving the password blank and proceeding, with the blank password that the server
  reports, does not keep the settings: it posts the text null as the value of the general settings.
\<close>

theorem blank_password_posts_null:
  assumes "settings s = Obj m" and "get_prop m (field s) = Str []" and "form_value s = Null"
  shows "body_of (last (sent (general_ui (proceed_password (general_updateField [] s))))) =
    JSON_stringify (Obj [(js ''key'', Str general_key), (js ''value'', str ''null'')])"
  using assms
  by (simp add: general_updateField_def proceed_password_def general_update_def setSetting_request
      stringify_null)

theorem blank_password_posts_null_witness:
  "body_of (last (sent (general_ui (proceed_password (general_updateField []
     (sample_general (js ''admin_password'') True)))))) =
    JSON_stringify (Obj [(js ''key'', Str general_key), (js ''value'', str ''null'')])"
  by (rule blank_password_posts_null [where m = "[(js ''log_location'', str ''./log.db''),
        (js ''admin_password'', Str []), (js ''admin_username'', str ''admin'')]"])
    (simp_all add: sample_general_def general_mount_def general_load_def get_prop_def)

text \<open>
  A click on a switch posts the other value; when the server then reports the posted value
  the switch shows the other side, and a second click posts the value it had first.
\<close>

theorem toggle_flips:
  assumes "settingValue s \<in> {str ''true'', str ''false''}"
  shows "let s' = toggle_load_settled
                    (Reply 200 (Some (Obj [(js ''Value'', toggled_value (settingValue s))])))
                    (toggle_saved tx (Reply 200 (Some json)) (toggleSettingStatus s))
    in (\<exists>b. toggle_shown False s = Switch b \<and> toggle_shown False s' = Switch (\<not> b)) \<and>
       toggled_value (settingValue s') = settingValue s \<and>
       body_of (last (sent (toggle_ui (toggleSettingStatus s)))) =
         JSON_stringify (Obj [(js ''key'', Str (settingName s)),
           (js ''value'', toggled_value (settingValue s))])"
  using assms
  by (auto simp: Let_def toggle_load_settled_def toggle_saved_def toggleSettingStatus_def ui_settle_def
      doCall_settled_def get_prop_def toggle_load_def toggled_value_def toggle_shown_def
      loose_eq_text_def str_def)


theorem toggle_flips_witness:
  "toggled_value (toggled_value (str ''true'')) = str ''true'' \<and>
   (\<exists>b. toggle_shown False
      ((toggle_mount (js ''enable_dns_server'') False (ui_init Map.empty))
         \<lparr>settingValue := str ''true''\<rparr>) = Switch b)"
proof -
  let ?s = "(toggle_mount (js ''enable_dns_server'') False (ui_init Map.empty))
    \<lparr>settingValue := str ''true''\<rparr>"
  from toggle_flips [of ?s plain_texts Null] show ?thesis
    by (auto simp: Let_def toggled_value_def loose_eq_text_def str_def)
qed

end
