(* ===== verification/Users.thy ===== *)
theory Users
  imports Ui_Base
begin

text \<open>
  The users page (\<open>ui/src/routes/users/users.svelte\<close>) and its form
  (\<open>ui/src/routes/users/usermodal.svelte\<close>). The answer of the confirmation dialog is part
  of the event that asks for it.
\<close>

section \<open>The form\<close>

record user_form =
  user :: jsval
  username :: jsval
  password :: jsval
  allowAccess :: jsval

text \<open>\<open>user?.k\<close> is undefined when there is no user.\<close>

definition user_field :: "jsval \<Rightarrow> string \<Rightarrow> jsval" where
  "user_field u k = (case prop_of u (js k) of Inr v \<Rightarrow> v | Inl _ \<Rightarrow> Undef)"

definition form_init :: "jsval \<Rightarrow> user_form" where
  "form_init u =
     \<lparr>user = u,
      username = js_nullish (user_field u ''username'') (Str []),
      password = js_nullish (user_field u ''password'') (Str []),
      allowAccess =
        (if truthy_val (user_field u ''allowaccess'') \<and> loose_true (user_field u ''allowaccess'')
         then str ''true'' else str ''false'')\<rparr>"

definition form_data :: "user_form \<Rightarrow> jsval" where
  "form_data f =
     Obj [(js ''username'', username f), (js ''password'', password f),
          (js ''allowaccess'', JBool (loose_eq_text (allowAccess f) ''true''))]"

definition form_destroyed :: "user_form \<Rightarrow> user_form" where
  "form_destroyed f = f\<lparr>username := Str [], password := Str [], allowAccess := str ''true''\<rparr>"

definition submit_request :: "user_form \<Rightarrow> store \<Rightarrow> store \<times> fetch_call" where
  "submit_request f =
     (if truthy_val (user f) then updateUser (form_data f) else createUser (form_data f))"

definition showError :: "texts \<Rightarrow> jsstr \<Rightarrow> ui \<Rightarrow> ui" where
  "showError tx m u =
     notify (createNotificationError
       (empty_message\<lparr>title := tr tx (js ''Error''), subtitle := tr tx (js ''Error : '' @ m)\<rparr>) (tr tx)) u"

datatype form_result = UpdateUser | CreateUser | Refused

text \<open>
  What the handler does when the call settles: an event for the page, or an error message. A reply
  that is no object, as after a status other than 200, makes \<open>response.ok\<close> throw, which the
  handler catches.
\<close>

definition submit_settled :: "texts \<Rightarrow> user_form \<Rightarrow> reply \<Rightarrow> ui \<Rightarrow> ui \<times> form_result" where
  "submit_settled tx f r u =
     (case ui_settle doCall_settled r u of
        (u, v) \<Rightarrow>
          (case bind_exn v (\<lambda>resp. bind_exn (prop_of resp (js ''ok'')) (\<lambda>ok. Inr (resp, ok))) of
             Inl err \<Rightarrow> (showError tx (message_of tx err) u, Refused)
           | Inr (resp, ok) \<Rightarrow>
               if truthy_val ok
               then (u, if truthy_val (user f) then UpdateUser else CreateUser)
               else (case prop_of resp (js ''error'') of
                       Inr e \<Rightarrow> (showError tx (js_text e) u, Refused)
                     | Inl err \<Rightarrow> (showError tx (message_of tx err) u, Refused))))"

section \<open>The page\<close>

datatype users_call = UsersLoad | UsersDelete | UsersUpdate | UsersSubmit user_form

record users_page =
  showForm :: bool
  users :: jsval
  editingUser :: jsval
  form :: "user_form option"
  calls :: "users_call list"
  ui :: ui

definition loadUsers :: "users_page \<Rightarrow> users_page" where
  "loadUsers s =
     s\<lparr>users := Null, ui := ui_call getUsers (ui s), calls := calls s @ [UsersLoad]\<rparr>"

definition loadUsers_settled :: "reply \<Rightarrow> users_page \<Rightarrow> users_page" where
  "loadUsers_settled r s =
     (case ui_settle doCall_settled r (ui s) of
        (u, v) \<Rightarrow>
          (case bind_exn v (\<lambda>json. prop_of json (js ''users'')) of
             Inr us \<Rightarrow> s\<lparr>ui := u, users := js_nullish us (Arr [])\<rparr>
           | Inl err \<Rightarrow> s\<lparr>ui := u\<rparr>))"

definition find_user :: "jsstr \<Rightarrow> jsval \<Rightarrow> jsval" where
  "find_user n us =
     (case us of
        Arr vs \<Rightarrow> (case find (\<lambda>v. user_field v ''username'' = Str n) vs of Some v \<Rightarrow> v | None \<Rightarrow> Undef)
      | _ \<Rightarrow> Undef)"

text \<open>The form component is created when it is shown and reads its user then.\<close>

definition editUser :: "jsstr \<Rightarrow> users_page \<Rightarrow> users_page" where
  "editUser n s =
     (let u = find_user n (users s)
      in s\<lparr>editingUser := u, showForm := True,
           form := (if showForm s then form s else Some (form_init u))\<rparr>)"

definition addUser :: "users_page \<Rightarrow> users_page" where
  "addUser s =
     s\<lparr>editingUser := Null, showForm := True,
       form := (if showForm s then form s else Some (form_init Null))\<rparr>"

definition deleteUser_click :: "jsstr \<Rightarrow> bool \<Rightarrow> users_page \<Rightarrow> users_page" where
  "deleteUser_click n confirmed s =
     (if confirmed
      then s\<lparr>ui := ui_call (deleteUser n) (ui s), calls := calls s @ [UsersDelete]\<rparr> else s)"

definition setAccess :: "jsstr \<Rightarrow> bool \<Rightarrow> users_page \<Rightarrow> users_page" where
  "setAccess n b s =
     s\<lparr>ui := ui_call (updateUser (Obj [(js ''username'', Str n), (js ''password'', Str []),
                (js ''allowaccess'', JBool b)])) (ui s),
       calls := calls s @ [UsersUpdate]\<rparr>"

text \<open>A call that was awaited and did not throw is followed by a reload.\<close>

definition reload_settled :: "reply \<Rightarrow> users_page \<Rightarrow> users_page" where
  "reload_settled r s =
     (case ui_settle doCall_settled r (ui s) of
        (u, Inr v) \<Rightarrow> loadUsers (s\<lparr>ui := u\<rparr>)
      | (u, Inl err) \<Rightarrow> s\<lparr>ui := u\<rparr>)"

definition submit_click :: "users_page \<Rightarrow> users_page" where
  "submit_click s =
     (case form s of
        None \<Rightarrow> s
      | Some f \<Rightarrow> s\<lparr>ui := ui_call (submit_request f) (ui s), calls := calls s @ [UsersSubmit f]\<rparr>)"

text \<open>\<open>handleCreateUser\<close> and \<open>handleUpdateUser\<close> of the page are the same code.\<close>

definition handle_form_event :: "users_page \<Rightarrow> users_page" where
  "handle_form_event s = loadUsers (s\<lparr>showForm := False, form := None\<rparr>)"

definition submit_click_settled :: "texts \<Rightarrow> user_form \<Rightarrow> reply \<Rightarrow> users_page \<Rightarrow> users_page" where
  "submit_click_settled tx f r s =
     (case submit_settled tx f r (ui s) of
        (u, Refused) \<Rightarrow> s\<lparr>ui := u\<rparr>
      | (u, _) \<Rightarrow> handle_form_event (s\<lparr>ui := u\<rparr>))"

definition users_mount :: "ui \<Rightarrow> users_page" where
  "users_mount u =
     loadUsers \<lparr>showForm = False, users = Null, editingUser = Null, form = None, calls = [], ui = u\<rparr>"

datatype users_event =
    AddClick
  | EditClick jsstr
  | DeleteClick jsstr bool
  | AccessClick jsstr bool
  | FormInput "user_form \<Rightarrow> user_form"
  | SubmitForm
  | CloseModal
  | UsersSettled nat reply

fun users_step :: "texts \<Rightarrow> users_page \<Rightarrow> users_event \<Rightarrow> users_page" where
  "users_step tx s AddClick = addUser s"
| "users_step tx s (EditClick n) = editUser n s"
| "users_step tx s (DeleteClick n b) = deleteUser_click n b s"
| "users_step tx s (AccessClick n b) = setAccess n b s"
| "users_step tx s (FormInput g) = s\<lparr>form := map_option g (form s)\<rparr>"
| "users_step tx s SubmitForm = submit_click s"
| "users_step tx s CloseModal = s\<lparr>showForm := False, form := None\<rparr>"
| "users_step tx s (UsersSettled k r) =
     (if k < length (calls s)
      then (let s' = s\<lparr>calls := drop_nth k (calls s)\<rparr>
            in case calls s ! k of
                 UsersLoad \<Rightarrow> loadUsers_settled r s'
               | UsersDelete \<Rightarrow> reload_settled r s'
               | UsersUpdate \<Rightarrow> reload_settled r s'
               | UsersSubmit f \<Rightarrow> submit_click_settled tx f r s')
      else s)"

section \<open>The table\<close>

record user_row =
  user_id :: jsval
  consumed :: jsval
  access :: jsval

definition user_row_of :: "jsval \<Rightarrow> js_exn + user_row" where
  "user_row_of v =
     bind_exn (prop_of v (js ''username'')) (\<lambda>n.
       Inr \<lparr>user_id = n, consumed = user_field v ''dataconsumed'',
            access = user_field v ''allowaccess''\<rparr>)"

definition users_table :: "jsval \<Rightarrow> js_exn + user_row list" where
  "users_table us = bind_exn (elements_of us) (map_exn user_row_of)"

definition access_button :: "user_row \<Rightarrow> bool" where
  "access_button r = (\<not> truthy_val (access r))"

section \<open>Properties\<close>

lemma error_notice_kind: "kind (createNotificationError m t) = str ''error''"
  by (simp add: createNotificationError_def buildNotification_def js_nullish_def nullish_def str_def)

lemma showError_notices:
  "notices (showError tx m u) = add (createNotificationError
     (empty_message\<lparr>title := tr tx (js ''Error''), subtitle := tr tx (js ''Error : '' @ m)\<rparr>) (tr tx))
     (notices u)"
  by (simp add: showError_def)

lemma ok_of_object:
  "bind_exn (prop_of x k) (\<lambda>ok. Inr (x, ok)) = Inr (a, b) \<Longrightarrow> truthy_val b \<Longrightarrow>
     \<exists>m. x = Obj m \<and> truthy_val (get_prop m k)"
  by (cases x) auto

text \<open>
  When the call of the user form settles, whatever the reply, exactly one of two things
  happens: the server accepted it, then nothing is shown as an error and the page gets the event of
  the kind of call that was made; or one error message is shown and the form stays.
\<close>

theorem user_form_settles:
  "let (u', res) = submit_settled tx f r u
   in if \<exists>m. r = Reply 200 (Some (Obj m)) \<and> truthy_val (get_prop m (js ''ok''))
      then notices u' = notices u \<and>
        res = (if truthy_val (user f) then UpdateUser else CreateUser)
      else res = Refused \<and> (\<exists>n. notices u' = notices u @ [n] \<and> kind n = str ''error'')"
  using ok_of_object
  by (cases r)
    (auto simp: submit_settled_def ui_settle_def doCall_settled_def Let_def showError_notices
        add_def error_notice_kind onUnauthorizedcallMe_def split: option.splits sum.splits)

end
