(* ===== verification/Rules.thy ===== *)
theory Rules
  imports Ui_Base
begin

text \<open>
  The rules page: the list of rules (\<open>ui/src/routes/rules/rulelist.svelte\<close>) and the form of one
  rule (\<open>ui/src/routes/rules/rform.svelte\<close>). A form writes into the rule object of its
  position in the list.
\<close>

record time_restriction =
  from_time :: jsval
  to_time :: jsval
  action :: jsval

record rule =
  domain :: jsval
  timeRestriction :: time_restriction
  rule_user :: jsval
  contentSize :: jsval
  contentType :: jsval

section \<open>The list\<close>

text \<open>A new rule has its action only; the other properties are missing.\<close>

definition new_rule :: rule where
  "new_rule =
     \<lparr>domain = Undef, timeRestriction = \<lparr>from_time = Undef, to_time = Undef, action = str ''block''\<rparr>,
      rule_user = Undef, contentSize = Undef, contentType = Undef\<rparr>"

definition addRule :: "rule list \<Rightarrow> rule list" where
  "addRule rules = rules @ [new_rule]"

definition removeRule :: "nat \<Rightarrow> rule list \<Rightarrow> rule list" where
  "removeRule index rules = map snd (filter (\<lambda>(i, r). i \<noteq> index) (enumerate 0 rules))"

section \<open>The form\<close>

text \<open>The rule a form shows when it is given none.\<close>

definition default_rule :: rule where
  "default_rule =
     \<lparr>domain = Str [], timeRestriction = \<lparr>from_time = Str [], to_time = Str [], action = str ''block''\<rparr>,
      rule_user = Str [], contentSize = Num 0, contentType = Str []\<rparr>"

text \<open>
  A binding to a missing property writes the default of the bound input, the empty text, into the
  rule when the form is mounted.
\<close>

definition bind_default :: "jsval \<Rightarrow> jsval" where
  "bind_default v = (if v = Undef then Str [] else v)"

definition form_mounted :: "rule \<Rightarrow> rule" where
  "form_mounted r =
     \<lparr>domain = bind_default (domain r),
      timeRestriction = \<lparr>from_time = bind_default (from_time (timeRestriction r)),
        to_time = bind_default (to_time (timeRestriction r)), action = action (timeRestriction r)\<rparr>,
      rule_user = bind_default (rule_user r), contentSize = bind_default (contentSize r),
      contentType = bind_default (contentType r)\<rparr>"

datatype rule_input =
    ActionSelect jsval | DomainInput jsval | FromInput jsval | ToInput jsval
  | UserInput jsval | SizeInput jsval | TypeInput jsval

fun rule_write :: "rule_input \<Rightarrow> rule \<Rightarrow> rule" where
  "rule_write (ActionSelect v) r = r\<lparr>timeRestriction := (timeRestriction r)\<lparr>action := v\<rparr>\<rparr>"
| "rule_write (DomainInput v) r = r\<lparr>domain := v\<rparr>"
| "rule_write (FromInput v) r = r\<lparr>timeRestriction := (timeRestriction r)\<lparr>from_time := v\<rparr>\<rparr>"
| "rule_write (ToInput v) r = r\<lparr>timeRestriction := (timeRestriction r)\<lparr>to_time := v\<rparr>\<rparr>"
| "rule_write (UserInput v) r = r\<lparr>rule_user := v\<rparr>"
| "rule_write (SizeInput v) r = r\<lparr>contentSize := v\<rparr>"
| "rule_write (TypeInput v) r = r\<lparr>contentType := v\<rparr>"

text \<open>\<open>v != ""\<close>; a number 0 and the value false equal the empty text.\<close>

fun not_empty_text :: "jsval \<Rightarrow> bool" where
  "not_empty_text (Str s) = (s \<noteq> [])"
| "not_empty_text (Num n) = (n \<noteq> 0)"
| "not_empty_text (JBool b) = b"
| "not_empty_text (Arr vs) = (js_text (Arr vs) \<noteq> [])"
| "not_empty_text _ = True"

datatype comment =
    DomainIs jsstr | TimeBetween jsstr jsstr | UserIs jsstr | SizeOver jsstr | TypeIs jsstr

text \<open>The remarks that the form shows beside its inputs.\<close>

definition rule_comments :: "rule \<Rightarrow> comment list" where
  "rule_comments r =
     (if not_empty_text (domain r) then [DomainIs (js_text (domain r))] else []) @
     (if not_empty_text (from_time (timeRestriction r)) \<and> not_empty_text (to_time (timeRestriction r))
      then [TimeBetween (js_text (from_time (timeRestriction r)))
              (js_text (to_time (timeRestriction r)))] else []) @
     (if not_empty_text (rule_user r) then [UserIs (js_text (rule_user r))] else []) @
     (if contentSize r \<noteq> Num 0 \<and> contentSize r \<noteq> Null
      then [SizeOver (js_text (contentSize r))] else []) @
     (if not_empty_text (contentType r) then [TypeIs (js_text (contentType r))] else [])"

datatype rules_event = AddRule | RemoveRule nat | FormWrite nat rule_input

fun rules_step :: "rule list \<Rightarrow> rules_event \<Rightarrow> rule list" where
  "rules_step rules AddRule = map form_mounted (addRule rules)"
| "rules_step rules (RemoveRule i) = removeRule i rules"
| "rules_step rules (FormWrite i w) =
     (if i < length rules then rules[i := rule_write w (rules ! i)] else rules)"

section \<open>Properties\<close>

lemma filter_index_out:
  "i < n \<Longrightarrow> map snd (filter (\<lambda>(j, r). j \<noteq> i) (enumerate n rs)) = rs"
  by (induction rs arbitrary: n) auto

lemma removeRule_from:
  "map snd (filter (\<lambda>(j, r). j \<noteq> n + i) (enumerate n rs)) = take i rs @ drop (Suc i) rs"
proof (induction rs arbitrary: n i)
  case Nil
  show ?case by simp
next
  case (Cons r rs)
  show ?case
  proof (cases i)
    case 0
    then show ?thesis by (simp add: filter_index_out)
  next
    case (Suc j)
    with Cons.IH [of "Suc n" j] show ?thesis by simp
  qed
qed

lemma removeRule_nth: "removeRule i rs = take i rs @ drop (Suc i) rs"
  using removeRule_from [of 0 i rs] by (simp add: removeRule_def)

lemma form_mounted_idem: "form_mounted (form_mounted r) = form_mounted r"
  by (simp add: form_mounted_def bind_default_def)

lemma remove_write:
  assumes "i < length rules"
  shows "removeRule i (rules[j := r]) =
    (if j < i then (removeRule i rules)[j := r]
     else if i < j then (removeRule i rules)[j - 1 := r] else removeRule i rules)"
  using assms
  by (auto simp: removeRule_nth list_update_append take_update_swap drop_update_swap Suc_diff_le
      min_def list_update_beyond)

text \<open>
  Removing a rule removes the rule of that position and no other, and what was typed into
  the other forms is kept. The form of a rule that was just added remarks on a content size although
  none was entered, unlike the form of its own default rule.
\<close>

theorem rules_editing:
  "(i < length rules \<longrightarrow>
      rules_step (rules_step rules (FormWrite j w)) (RemoveRule i) =
        (if j < i then (rules_step rules (RemoveRule i))[j := rule_write w (rules ! j)]
         else if i < j \<and> j < length rules
         then (rules_step rules (RemoveRule i))[j - 1 := rule_write w (rules ! j)]
         else rules_step rules (RemoveRule i))) \<and>
   rule_comments (last (rules_step rules AddRule)) = [SizeOver []] \<and>
   rule_comments default_rule = []"
  by (auto simp: remove_write addRule_def new_rule_def rule_comments_def form_mounted_def
      bind_default_def default_rule_def)

theorem rules_editing_witness:
  "rules_step (rules_step [default_rule, new_rule] (FormWrite 1 (DomainInput (str ''a.com''))))
     (RemoveRule 0) = [new_rule\<lparr>domain := str ''a.com''\<rparr>]"
  using rules_editing [of 0 "[default_rule, new_rule]" 1 "DomainInput (str ''a.com'')"]
  by (simp add: removeRule_nth)

end
