(* ===== verification/Data_Table.thy ===== *)
theory Data_Table
  imports Ui_Base "HOL-Library.Product_Lexorder"
begin

declare js_Cons [simp del]

text \<open>
  The table widget that every list of the interface is shown in, with its search box
  (\<open>bundle.js\<close>, \<open>c6\<close>, lines 6506--6754, and \<open>y6\<close>, lines 7750--7859): columns, sorting by a click
  on a header, pages, expanded and selected rows, and the search that filters the rows. The
  theorems compare the rows on the page with a reference: a stable sort of the rows that match,
  empty cells last; and they show that the search never loses rows.
\<close>

section \<open>Rows and columns\<close>

text \<open>
  What the widget uses of the platform: the collation of \<open>localeCompare\<close> with numeric order, lower
  case, and the text of objects.
\<close>

record table_env =
  collate :: "jsstr \<Rightarrow> jsstr \<Rightarrow> int"
  lower :: "jsstr \<Rightarrow> jsstr"
  object_text :: "jsval \<Rightarrow> jsstr"

type_synonym table_row = props

datatype header_sort = DefaultSort | SortOff | SortBy "jsval \<Rightarrow> jsval \<Rightarrow> int"

record header =
  header_key :: jsstr
  header_sort :: header_sort
  display :: jsval
  width :: jsstr
  min_width :: jsstr

definition id_of :: "table_row \<Rightarrow> jsval" where
  "id_of r = get_prop r (js ''id'')"

fun split_where :: "('a \<Rightarrow> bool) \<Rightarrow> 'a list \<Rightarrow> 'a list list" where
  "split_where P [] = [[]]"
| "split_where P (x # xs) =
     (if P x then [] # split_where P xs
      else (case split_where P xs of [] \<Rightarrow> [[x]] | w # ws \<Rightarrow> (x # w) # ws))"

text \<open>A member of an object or of an array, whose members have the numerals as names.\<close>

fun member_of :: "jsval \<Rightarrow> jsstr \<Rightarrow> jsval" where
  "member_of (Obj m) k = get_prop m k"
| "member_of (Arr vs) k =
     get_prop (zip (map digits_of [0..<length vs]) vs @ [(js ''length'', Num (int (length vs)))]) k"
| "member_of _ k = Undef"

definition resolvePath :: "table_row \<Rightarrow> jsstr \<Rightarrow> jsval" where
  "resolvePath r k =
     (if has_prop r k then get_prop r k
      else foldl (\<lambda>v p. if truthy_val v \<and> typeof_object v then member_of v p else v) (Obj r)
             (filter (\<lambda>p. p \<noteq> []) (split_where (\<lambda>c. c \<in> {0x2E, 0x5B, 0x5D, 0x27, 0x22}) k)))"

record cell =
  cell_key :: jsstr
  cell_value :: jsval
  cell_display :: jsval

definition row_cells :: "header list \<Rightarrow> table_row \<Rightarrow> cell list" where
  "row_cells hs r =
     map (\<lambda>h. \<lparr>cell_key = header_key h, cell_value = resolvePath r (header_key h), cell_display = display h\<rparr>) hs"

text \<open>The cells of all rows, under the text of their ids: a later row replaces an earlier one.\<close>

definition cells_by_id :: "table_env \<Rightarrow> header list \<Rightarrow> table_row list \<Rightarrow> (jsstr \<times> cell list) list" where
  "cells_by_id env hs rs =
     foldl (\<lambda>m r. AList.update (to_string (object_text env) (id_of r)) (row_cells hs r) m) [] rs"

definition formatHeaderWidth :: "header \<Rightarrow> jsstr option" where
  "formatHeaderWidth h =
     (let ws = (if width h \<noteq> [] then [js ''width: '' @ width h] else []) @
               (if min_width h \<noteq> [] then [js ''min-width: '' @ min_width h] else [])
      in if ws = [] then None else Some (join_with (js '';'') ws))"

definition hasCustomHeaderWidth :: "header list \<Rightarrow> bool" where
  "hasCustomHeaderWidth hs = list_ex (\<lambda>h. width h \<noteq> [] \<or> min_width h \<noteq> []) hs"

section \<open>Order\<close>

datatype direction = Unsorted | Ascending | Descending

fun next_direction :: "direction \<Rightarrow> direction" where
  "next_direction Unsorted = Ascending"
| "next_direction Ascending = Descending"
| "next_direction Descending = Unsorted"

definition is_empty_cell :: "jsval \<Rightarrow> bool" where
  "is_empty_cell v \<longleftrightarrow> \<not> truthy_val v \<and> v \<noteq> Num 0"

text \<open>The comparison of two cells; a difference that is \<open>NaN\<close> counts as zero.\<close>

definition compare_cells :: "table_env \<Rightarrow> bool \<Rightarrow> jsval \<Rightarrow> jsval \<Rightarrow> int" where
  "compare_cells env ascending a b =
     (if is_number a \<and> is_number b
      then (case (a, b) of (Num m, Num n) \<Rightarrow> m - n | _ \<Rightarrow> 0)
      else if is_empty_cell a \<and> is_empty_cell b then 0
      else if is_empty_cell a then (if ascending then 1 else -1)
      else if is_empty_cell b then (if ascending then -1 else 1)
      else collate env (to_string (object_text env) a) (to_string (object_text env) b))"

definition compare_rows ::
  "table_env \<Rightarrow> header option \<Rightarrow> direction \<Rightarrow> jsstr \<Rightarrow> table_row \<Rightarrow> table_row \<Rightarrow> int" where
  "compare_rows env h d k r q =
     (let ascending = (d = Ascending);
          a = resolvePath (if ascending then r else q) k;
          b = resolvePath (if ascending then q else r) k
      in case map_option header_sort h of
           Some (SortBy f) \<Rightarrow> f a b
         | _ \<Rightarrow> compare_cells env ascending a b)"

text \<open>\<open>Array.prototype.sort\<close>: stable, for comparisons that are consistent.\<close>

fun insert_by :: "('a \<Rightarrow> 'a \<Rightarrow> int) \<Rightarrow> 'a \<Rightarrow> 'a list \<Rightarrow> 'a list" where
  "insert_by cmp x [] = [x]"
| "insert_by cmp x (y # ys) = (if cmp x y \<le> 0 then x # y # ys else y # insert_by cmp x ys)"

definition js_sort :: "('a \<Rightarrow> 'a \<Rightarrow> int) \<Rightarrow> 'a list \<Rightarrow> 'a list" where
  "js_sort cmp xs = foldr (insert_by cmp) xs []"

section \<open>The state of a table\<close>

datatype row_filter = NoFilter | TextFilter | FunFilter "table_row \<Rightarrow> jsstr \<Rightarrow> bool"

datatype table_dispatch =
    HeaderExpand bool
  | HeaderSelect bool bool
  | Click
  | ClickHeader jsstr "direction option"
  | RowExpand jsval bool
  | RowSelect jsval bool
  | ClickCell jsval jsstr
  | ClickRow jsval

record table =
  headers :: "header list"
  rows :: "table_row list"
  tableRows :: "table_row list"
  sortable :: bool
  sortKey :: "jsstr option"
  sortDirection :: direction
  expandable :: bool
  batchExpansion :: bool
  expandedRowIds :: "jsval list"
  nonExpandableRowIds :: "jsval list"
  radio :: bool
  selectable :: bool
  batchSelection :: bool
  selectedRowIds :: "jsval list"
  nonSelectableRowIds :: "jsval list"
  pageSize :: nat
  table_page :: nat
  all_expanded :: bool
  parentRowId :: "jsval option"
  search_text :: jsstr
  shouldFilterRows :: row_filter
  originalRows :: "table_row list"
  filteredRowIds :: "jsval list"
  dispatched :: "table_dispatch list"

definition sorting :: "table \<Rightarrow> bool" where
  "sorting s \<longleftrightarrow> sortable s \<and> sortKey s \<noteq> None"

definition sortedRows :: "table_env \<Rightarrow> table \<Rightarrow> table_row list" where
  "sortedRows env s =
     (case sortKey s of
        None \<Rightarrow> tableRows s
      | Some k \<Rightarrow>
          if sortable s \<and> sortDirection s \<noteq> Unsorted
          then js_sort (compare_rows env (find (\<lambda>h. header_key h = k) (headers s)) (sortDirection s) k) (tableRows s)
          else tableRows s)"

definition getDisplayedRows :: "'a list \<Rightarrow> nat \<Rightarrow> nat \<Rightarrow> 'a list" where
  "getDisplayedRows rs page n =
     (if page \<noteq> 0 \<and> n \<noteq> 0 then slice ((page - 1) * n) (page * n) rs else rs)"

definition shown_rows :: "table_env \<Rightarrow> table \<Rightarrow> table_row list" where
  "shown_rows env s =
     getDisplayedRows (if sorting s then sortedRows env s else tableRows s) (table_page s) (pageSize s)"

definition row_ids :: "table \<Rightarrow> jsval list" where
  "row_ids s = map id_of (tableRows s)"

definition expandableRowIds :: "table \<Rightarrow> jsval list" where
  "expandableRowIds s = filter (\<lambda>i. i \<notin> set (nonExpandableRowIds s)) (row_ids s)"

definition selectableRowIds :: "table \<Rightarrow> jsval list" where
  "selectableRowIds s = filter (\<lambda>i. i \<notin> set (nonSelectableRowIds s)) (row_ids s)"

definition selectAll :: "table \<Rightarrow> bool" where
  "selectAll s \<longleftrightarrow>
     selectableRowIds s \<noteq> [] \<and> length (selectedRowIds s) = length (selectableRowIds s)"

definition indeterminate :: "table \<Rightarrow> bool" where
  "indeterminate s \<longleftrightarrow>
     selectedRowIds s \<noteq> [] \<and> length (selectedRowIds s) < length (selectableRowIds s)"

definition row_expanded :: "table_env \<Rightarrow> table \<Rightarrow> jsval \<Rightarrow> bool" where
  "row_expanded env s i \<longleftrightarrow>
     (let k = to_string (object_text env) i
      in k \<in> set (map (to_string (object_text env)) (expandedRowIds s)) \<or> is_proto_name k)"

section \<open>Operations\<close>

definition dispatch :: "table_dispatch list \<Rightarrow> table \<Rightarrow> table" where
  "dispatch ds s = s\<lparr>dispatched := dispatched s @ ds\<rparr>"

definition expand_header :: "table \<Rightarrow> table" where
  "expand_header s =
     (let b = \<not> all_expanded s
      in dispatch [HeaderExpand b]
           (s\<lparr>all_expanded := b, expandedRowIds := (if b then expandableRowIds s else [])\<rparr>))"

text \<open>The check box of the header, with the state it has just been given by the click.\<close>

definition select_header :: "bool \<Rightarrow> table \<Rightarrow> table" where
  "select_header checked s =
     dispatch [HeaderSelect (indeterminate s) (\<not> indeterminate s \<and> checked)]
       (s\<lparr>selectedRowIds := (if \<not> indeterminate s \<and> checked then selectableRowIds s else [])\<rparr>)"

definition click_header :: "header \<Rightarrow> table \<Rightarrow> table" where
  "click_header h s =
     (if header_sort h = SortOff then dispatch [Click, ClickHeader (header_key h) None] s
      else (let d = next_direction (if sortKey s = Some (header_key h) then sortDirection s else Unsorted)
            in dispatch [Click, ClickHeader (header_key h) (Some d)]
                 (s\<lparr>sortDirection := d, sortKey := (if d = Unsorted then None else Some (header_key h))\<rparr>)))"

definition expand_row :: "table_env \<Rightarrow> table_row \<Rightarrow> table \<Rightarrow> table" where
  "expand_row env r s =
     (let e = row_expanded env s (id_of r)
      in dispatch [RowExpand (id_of r) (\<not> e)]
           (s\<lparr>expandedRowIds := (if e then filter (\<lambda>i. i \<noteq> id_of r) (expandedRowIds s)
                                 else expandedRowIds s @ [id_of r])\<rparr>))"

definition select_radio :: "table_row \<Rightarrow> table \<Rightarrow> table" where
  "select_radio r s = dispatch [RowSelect (id_of r) True] (s\<lparr>selectedRowIds := [id_of r]\<rparr>)"

definition select_row :: "table_row \<Rightarrow> table \<Rightarrow> table" where
  "select_row r s =
     (if id_of r \<in> set (selectedRowIds s)
      then dispatch [RowSelect (id_of r) False]
             (s\<lparr>selectedRowIds := filter (\<lambda>i. i \<noteq> id_of r) (selectedRowIds s)\<rparr>)
      else dispatch [RowSelect (id_of r) True] (s\<lparr>selectedRowIds := selectedRowIds s @ [id_of r]\<rparr>))"

definition click_cell :: "table_row \<Rightarrow> jsstr \<Rightarrow> table \<Rightarrow> table" where
  "click_cell r k s = dispatch [Click, ClickCell (id_of r) k] s"

text \<open>A click inside a menu, a check box or a radio button of the row is not a click on the row.\<close>

definition click_row :: "table_row \<Rightarrow> jsstr list \<Rightarrow> table \<Rightarrow> table" where
  "click_row r classes s =
     (if list_ex (\<lambda>c. list_ex (\<lambda>p. take (length p) c = p)
           [js ''bx--overflow-menu'', js ''bx--checkbox'', js ''bx--radio-button'']) classes
      then s else dispatch [Click, ClickRow (id_of r)] s)"

definition hover_row :: "bool \<Rightarrow> table_row \<Rightarrow> table \<Rightarrow> table" where
  "hover_row enter r s =
     (if id_of r \<in> set (nonExpandableRowIds s) then s
      else s\<lparr>parentRowId := (if enter then Some (id_of r) else None)\<rparr>)"

definition resetSelectedRowIds :: "table \<Rightarrow> table" where
  "resetSelectedRowIds s = s\<lparr>selectedRowIds := []\<rparr>"

text \<open>What the reactive statements set by themselves.\<close>

definition table_update :: "table \<Rightarrow> table" where
  "table_update s =
     (let s = (if batchExpansion s
               then s\<lparr>expandable := True,
                      all_expanded := (length (expandedRowIds s) = length (expandableRowIds s))\<rparr> else s)
      in if radio s \<or> batchSelection s then s\<lparr>selectable := True\<rparr> else s)"

section \<open>Search\<close>

definition row_matches :: "table_env \<Rightarrow> jsstr \<Rightarrow> table_row \<Rightarrow> bool" where
  "row_matches env q r =
     list_ex (\<lambda>(k, v). (is_string v \<or> is_number v) \<and>
         has_sub (lower env (trim_blank q)) (lower env (to_string (object_text env) v)))
       (filter (\<lambda>(k, v). k \<noteq> js ''id'') r)"

definition search_rows :: "table_env \<Rightarrow> row_filter \<Rightarrow> jsstr \<Rightarrow> table_row list \<Rightarrow> table_row list" where
  "search_rows env m q rs =
     (if trim_blank q = [] then rs
      else (case m of
              NoFilter \<Rightarrow> rs
            | TextFilter \<Rightarrow> filter (row_matches env q) rs
            | FunFilter f \<Rightarrow> filter (\<lambda>r. f r q) rs))"

text \<open>
  The search filters the copy \<open>originalRows\<close> and publishes the result. The widget renews the copy when
  it finds the published rows marked as changed; the mark that the search itself sets is taken back at
  the end of the update in which it runs, so only rows given from outside renew the copy.
\<close>

definition run_search :: "table_env \<Rightarrow> table \<Rightarrow> table" where
  "run_search env s =
     (if shouldFilterRows s = NoFilter then s
      else (let rs = search_rows env (shouldFilterRows s) (search_text s) (originalRows s)
            in s\<lparr>tableRows := rs, filteredRowIds := map id_of rs\<rparr>))"

definition search_changed_to :: "table_env \<Rightarrow> jsstr \<Rightarrow> table \<Rightarrow> table" where
  "search_changed_to env q s = run_search env (s\<lparr>search_text := q\<rparr>)"

text \<open>New rows are published to the search box, which keeps a copy and filters again.\<close>

definition set_rows :: "table_env \<Rightarrow> table_row list \<Rightarrow> table \<Rightarrow> table" where
  "set_rows env rs s = run_search env (s\<lparr>rows := rs, tableRows := rs, originalRows := rs\<rparr>)"

definition set_page :: "nat \<Rightarrow> nat \<Rightarrow> table \<Rightarrow> table" where
  "set_page p n s = s\<lparr>table_page := p, pageSize := n\<rparr>"

definition table_init :: "table_env \<Rightarrow> header list \<Rightarrow> bool \<Rightarrow> row_filter \<Rightarrow> table_row list \<Rightarrow> table" where
  "table_init env hs srt flt rs =
     set_rows env rs
       \<lparr>headers = hs, rows = [], tableRows = [], sortable = srt, sortKey = None, sortDirection = Unsorted,
        expandable = False, batchExpansion = False, expandedRowIds = [], nonExpandableRowIds = [],
        radio = False, selectable = False, batchSelection = False, selectedRowIds = [],
        nonSelectableRowIds = [], pageSize = 0, table_page = 0, all_expanded = False, parentRowId = None,
        search_text = [], shouldFilterRows = flt, originalRows = [], filteredRowIds = [], dispatched = []\<rparr>"

datatype table_event =
    TableRows "table_row list"
  | TableSearch jsstr
  | TablePage nat nat
  | HeaderClick header
  | HeaderExpandClick
  | HeaderSelectClick bool
  | RowExpandClick table_row
  | RowRadioClick table_row
  | RowSelectClick table_row
  | CellClick table_row jsstr
  | RowClick table_row "jsstr list"
  | RowHover bool table_row
  | SelectionReset

fun table_step :: "table_env \<Rightarrow> table \<Rightarrow> table_event \<Rightarrow> table" where
  "table_step env s (TableRows rs) = table_update (set_rows env rs s)"
| "table_step env s (TableSearch q) = table_update (search_changed_to env q s)"
| "table_step env s (TablePage p n) = table_update (set_page p n s)"
| "table_step env s (HeaderClick h) = table_update (click_header h s)"
| "table_step env s HeaderExpandClick = table_update (expand_header s)"
| "table_step env s (HeaderSelectClick b) = table_update (select_header b s)"
| "table_step env s (RowExpandClick r) = table_update (expand_row env r s)"
| "table_step env s (RowRadioClick r) = table_update (select_radio r s)"
| "table_step env s (RowSelectClick r) = table_update (select_row r s)"
| "table_step env s (CellClick r k) = table_update (click_cell r k s)"
| "table_step env s (RowClick r cs) = table_update (click_row r cs s)"
| "table_step env s (RowHover b r) = table_update (hover_row b r s)"
| "table_step env s SelectionReset = table_update (resetSelectedRowIds s)"

section \<open>Sorted tables\<close>

lemma js_sort_key:
  assumes "\<And>x y. x \<in> set xs \<Longrightarrow> y \<in> set xs \<Longrightarrow> (cmp x y \<le> 0) = (f x \<le> f y)"
  shows "js_sort cmp xs = sort_key f xs"
  using assms
proof (induction xs)
  case (Cons x xs)
  have ins: "insert_by cmp x ys = insort_key f x ys" if "set ys \<subseteq> set xs" for ys
    using that Cons.prems by (induction ys) auto
  have "js_sort cmp (x # xs) = insert_by cmp x (js_sort cmp xs)" by (simp add: js_sort_def)
  also have "js_sort cmp xs = sort_key f xs" using Cons by simp
  also have "insert_by cmp x (sort_key f xs) = insort_key f x (sort_key f xs)" by (rule ins) simp
  finally show ?case by simp
qed (simp add: js_sort_def)

lemma sort_key_flag:
  fixes g :: "'a \<Rightarrow> int"
  shows "sort_key (\<lambda>x. (e x, if e x then 0 else g x)) xs =
    sort_key g (filter (\<lambda>x. \<not> e x) xs) @ filter e xs"
proof (induction xs)
  case (Cons x xs)
  let ?f = "\<lambda>x. (e x, if e x then 0 else g x)"
  let ?as = "sort_key g (filter (\<lambda>x. \<not> e x) xs)" and ?bs = "filter e xs"
  have ins: "insort_key ?f x (as @ bs) = (if e x then as @ x # bs else insort_key g x as @ bs)"
    if "\<forall>a \<in> set as. \<not> e a" "\<forall>b \<in> set bs. e b" for as bs
    using that
  proof (induction as)
    case Nil
    then show ?case by (cases bs) auto
  qed auto
  have "sort_key ?f (x # xs) = insort_key ?f x (sort_key ?f xs)" by (rule sort_key_simps)
  also have "\<dots> = (if e x then ?as @ x # ?bs else insort_key g x ?as @ ?bs)"
    unfolding Cons.IH by (rule ins) auto
  also have "\<dots> = sort_key g (filter (\<lambda>x. \<not> e x) (x # xs)) @ filter e (x # xs)" by simp
  finally show ?case .
qed simp

text \<open>
  What the documentation of \<open>localeCompare\<close> says: the sign changes when the texts are exchanged, and
  coming no later is transitive. Different texts may compare as equal.
\<close>

definition collation_ok :: "table_env \<Rightarrow> bool" where
  "collation_ok env \<longleftrightarrow>
     (\<forall>a b. (collate env a b < 0) = (collate env b a > 0)) \<and>
     (\<forall>a b c. collate env a b \<le> 0 \<longrightarrow> collate env b c \<le> 0 \<longrightarrow> collate env a c \<le> 0)"

text \<open>
  The reference: the rows whose cell is not empty in a stable order by the rank of the cell, then the
  others. A number ranks by itself, a text by how many cells of the column come before it.
\<close>

definition text_rank :: "table_env \<Rightarrow> jsval list \<Rightarrow> jsstr \<Rightarrow> int" where
  "text_rank env vs t = int (length (filter (\<lambda>w. collate env (to_string (object_text env) w) t < 0) vs))"

definition cell_rank :: "table_env \<Rightarrow> jsval list \<Rightarrow> jsval \<Rightarrow> int" where
  "cell_rank env vs v = (case v of Num n \<Rightarrow> n | _ \<Rightarrow> text_rank env vs (to_string (object_text env) v))"

definition reference_order :: "table_env \<Rightarrow> bool \<Rightarrow> jsstr \<Rightarrow> table_row list \<Rightarrow> table_row list" where
  "reference_order env ascending k rs =
     sort_key (\<lambda>r. (if ascending then 1 else -1) * cell_rank env (map (\<lambda>r. resolvePath r k) rs) (resolvePath r k))
       (filter (\<lambda>r. \<not> is_empty_cell (resolvePath r k)) rs) @
     filter (\<lambda>r. is_empty_cell (resolvePath r k)) rs"

text \<open>A column of numbers, or one without numbers; empty cells are allowed in both.\<close>

definition column_ok :: "jsval list \<Rightarrow> bool" where
  "column_ok vs \<longleftrightarrow>
     NaN \<notin> set vs \<and>
     (list_all (\<lambda>v. is_empty_cell v \<or> is_number v) vs \<or> list_all (\<lambda>v. \<not> is_number v) vs)"

lemma collation_total: "collation_ok env \<Longrightarrow> collate env a b \<le> 0 \<or> collate env b a < 0"
  by (auto simp: collation_ok_def)

lemma collation_less_trans:
  assumes "collation_ok env" and "collate env a b < 0" and "collate env b c \<le> 0"
  shows "collate env a c < 0"
proof (rule ccontr)
  assume "\<not> collate env a c < 0"
  then have "collate env c a \<le> 0" using assms(1) collation_total by (meson linorder_not_less)
  with assms(1,3) have "collate env b a \<le> 0" by (auto simp: collation_ok_def)
  moreover have "collate env b a > 0" using assms(1,2) by (simp add: collation_ok_def)
  ultimately show False by simp
qed

lemma text_rank_order:
  assumes "collation_ok env" and "b \<in> set vs"
  shows "(collate env (to_string (object_text env) a) (to_string (object_text env) b) \<le> 0) =
    (text_rank env vs (to_string (object_text env) a) \<le> text_rank env vs (to_string (object_text env) b))"
proof -
  let ?t = "to_string (object_text env)"
  let ?below = "\<lambda>x w. collate env (?t w) (?t x) < 0"
  have mono: "length (filter P xs) \<le> length (filter Q xs)" if "\<And>x. P x \<Longrightarrow> Q x" for P Q and xs :: "jsval list"
    using that by (induction xs) (auto intro: le_SucI)
  show ?thesis
  proof (cases "collate env (?t a) (?t b) \<le> 0")
    case True
    then show ?thesis using mono [of "?below a" "?below b" vs] collation_less_trans [OF assms(1)]
      by (auto simp: text_rank_def)
  next
    case False
    then have b: "collate env (?t b) (?t a) < 0" using collation_total [OF assms(1)] by blast
    have "\<not> collate env (?t b) (?t b) < 0"
      using assms(1) unfolding collation_ok_def by (meson not_less_iff_gr_or_eq)
    moreover have sub: "?below b w \<Longrightarrow> ?below a w" for w using collation_less_trans [OF assms(1)] b by fastforce
    moreover obtain xs ys where "vs = xs @ b # ys" using assms(2) by (meson split_list)
    ultimately have "length (filter (?below b) vs) < length (filter (?below a) vs)"
      using b mono [of "?below b" "?below a" xs] mono [of "?below b" "?below a" ys] by simp
    with False show ?thesis by (simp add: text_rank_def)
  qed
qed

definition sort_rank :: "table_env \<Rightarrow> jsval list \<Rightarrow> bool \<Rightarrow> jsval \<Rightarrow> bool \<times> int" where
  "sort_rank env vs ascending v =
     (is_empty_cell v, if is_empty_cell v then 0 else (if ascending then 1 else -1) * cell_rank env vs v)"

lemma compare_cells_rank:
  assumes "collation_ok env" and "column_ok vs" and "a \<in> set vs" and "b \<in> set vs"
  shows "(compare_cells env True a b \<le> 0) = (sort_rank env vs True a \<le> sort_rank env vs True b)"
    and "(compare_cells env False a b \<le> 0) = (sort_rank env vs False b \<le> sort_rank env vs False a)"
proof -
  have nn: "a \<noteq> NaN" "b \<noteq> NaN" using assms by (auto simp: column_ok_def)
  have num: "is_number v \<Longrightarrow> v \<noteq> NaN \<Longrightarrow> \<exists>n. v = Num n \<and> \<not> is_empty_cell v" for v
    by (cases v) (auto simp: is_empty_cell_def)
  have mixed: "is_number a \<longleftrightarrow> is_number b" if "\<not> is_empty_cell a" "\<not> is_empty_cell b"
    using that assms(2-4) by (auto simp: column_ok_def list_all_iff)
  have rank: "cell_rank env vs v = text_rank env vs (to_string (object_text env) v)" if "\<not> is_number v" for v
    using that by (cases v) (simp_all add: cell_rank_def)
  note co = text_rank_order [OF assms(1,4)]
  have "(compare_cells env True a b \<le> 0) = (sort_rank env vs True a \<le> sort_rank env vs True b) \<and>
    (compare_cells env False a b \<le> 0) = (sort_rank env vs False b \<le> sort_rank env vs False a)"
  proof (cases "is_number a \<and> is_number b")
    case True
    with nn num obtain m n where "a = Num m" "b = Num n" "\<not> is_empty_cell a" "\<not> is_empty_cell b" by metis
    then show ?thesis by (simp add: compare_cells_def sort_rank_def cell_rank_def)
  next
    case False
    with mixed have "\<not> is_empty_cell a \<Longrightarrow> \<not> is_empty_cell b \<Longrightarrow> \<not> is_number a \<and> \<not> is_number b"
      by blast
    with False rank show ?thesis
      by (cases "is_empty_cell a"; cases "is_empty_cell b") (auto simp: compare_cells_def sort_rank_def co)
  qed
  then show "(compare_cells env True a b \<le> 0) = (sort_rank env vs True a \<le> sort_rank env vs True b)"
    and "(compare_cells env False a b \<le> 0) = (sort_rank env vs False b \<le> sort_rank env vs False a)"
    by simp_all
qed

lemma sorted_reference:
  assumes "collation_ok env" and "column_ok (map (\<lambda>r. resolvePath r k) rs)"
    and "d \<noteq> Unsorted" and "\<forall>h'. h = Some h' \<longrightarrow> (\<forall>f. header_sort h' \<noteq> SortBy f)"
  shows "js_sort (compare_rows env h d k) rs = reference_order env (d = Ascending) k rs"
proof -
  let ?vs = "map (\<lambda>r. resolvePath r k) rs"
  have plain: "compare_rows env h d k r q =
      compare_cells env (d = Ascending) (resolvePath (if d = Ascending then r else q) k)
        (resolvePath (if d = Ascending then q else r) k)" for r q
    using assms(4) by (cases h) (auto simp: compare_rows_def Let_def split: header_sort.splits)
  have "js_sort (compare_rows env h d k) rs =
      sort_key (\<lambda>r. sort_rank env ?vs (d = Ascending) (resolvePath r k)) rs"
  proof (rule js_sort_key)
    fix r q
    assume "r \<in> set rs" "q \<in> set rs"
    then have "resolvePath r k \<in> set ?vs" "resolvePath q k \<in> set ?vs" by simp_all
    then show "(compare_rows env h d k r q \<le> 0) =
        (sort_rank env ?vs (d = Ascending) (resolvePath r k) \<le> sort_rank env ?vs (d = Ascending) (resolvePath q k))"
      unfolding plain using compare_cells_rank [OF assms(1,2)] by (cases "d = Ascending") simp_all
  qed
  also have "\<dots> = reference_order env (d = Ascending) k rs"
    using sort_key_flag [of "\<lambda>r. is_empty_cell (resolvePath r k)"
        "\<lambda>r. (if d = Ascending then 1 else -1) * cell_rank env ?vs (resolvePath r k)" rs]
    by (simp add: sort_rank_def reference_order_def)
  finally show ?thesis .
qed

lemma table_update_keeps [simp]:
  "headers (table_update s) = headers s" "rows (table_update s) = rows s"
  "tableRows (table_update s) = tableRows s" "sortable (table_update s) = sortable s"
  "sortKey (table_update s) = sortKey s" "sortDirection (table_update s) = sortDirection s"
  "table_page (table_update s) = table_page s" "pageSize (table_update s) = pageSize s"
  "search_text (table_update s) = search_text s" "shouldFilterRows (table_update s) = shouldFilterRows s"
  "originalRows (table_update s) = originalRows s" "filteredRowIds (table_update s) = filteredRowIds s"
  by (simp_all add: table_update_def Let_def)

text \<open>
  Claim C24: clicking a sortable header of a table shows the rows in rising order of the column, a
  second click in falling order, and a third click in the order they were given, on the current
  page. Both orders are stable and put empty cells last. This is for columns of numbers and for
  columns without numbers; of the collation it uses only that it is a consistent comparison.
\<close>

theorem header_clicks_sort:
  assumes "sortable s" and "find (\<lambda>h'. header_key h' = k) (headers s) = Some h"
    and "header_sort h = DefaultSort" and "sortKey s \<noteq> Some k"
    and "collation_ok env" and "column_ok (map (\<lambda>r. resolvePath r k) (tableRows s))"
  shows "let s1 = table_step env s (HeaderClick h); s2 = table_step env s1 (HeaderClick h);
             s3 = table_step env s2 (HeaderClick h);
             on_page = (\<lambda>rs. getDisplayedRows rs (table_page s) (pageSize s))
         in shown_rows env s1 = on_page (reference_order env True k (tableRows s)) \<and>
            shown_rows env s2 = on_page (reference_order env False k (tableRows s)) \<and>
            shown_rows env s3 = on_page (tableRows s)"
proof -
  have k: "header_key h = k" using assms(2) by (auto simp: find_Some_iff)
  note sorted = sorted_reference [OF assms(5,6), where h = "Some h"]
  show ?thesis
    using assms(1-4) sorted [of Ascending] sorted [of Descending]
    by (simp add: click_header_def dispatch_def shown_rows_def sorting_def sortedRows_def k Let_def)
qed

text \<open>Three rows with a name, one of them empty; texts are collated by their code units.\<close>

fun unit_collate :: "jsstr \<Rightarrow> jsstr \<Rightarrow> int" where
  "unit_collate [] [] = 0"
| "unit_collate [] (b # bs) = - 1"
| "unit_collate (a # as) [] = 1"
| "unit_collate (a # as) (b # bs) = (if a < b then - 1 else if b < a then 1 else unit_collate as bs)"

lemma unit_collate_swap: "(unit_collate a b < 0) = (unit_collate b a > 0)"
  by (induction a b rule: unit_collate.induct) auto

lemma unit_collate_trans: "unit_collate a b \<le> 0 \<Longrightarrow> unit_collate b c \<le> 0 \<Longrightarrow> unit_collate a c \<le> 0"
proof (induction a b arbitrary: c rule: unit_collate.induct)
  case (1 c)
  then show ?case by simp
next
  case (2 b bs)
  then show ?case by (cases c) simp_all
next
  case (4 a as b bs)
  then show ?case by (cases c) (auto split: if_splits)
qed simp

definition sample_env :: table_env where
  "sample_env = \<lparr>collate = unit_collate, lower = id, object_text = (\<lambda>v. [])\<rparr>"

lemma sample_collation: "collation_ok sample_env"
  unfolding collation_ok_def sample_env_def using unit_collate_swap unit_collate_trans by simp

definition sample_header :: header where
  "sample_header = \<lparr>header_key = js ''name'', header_sort = DefaultSort, display = Undef, width = [],
     min_width = []\<rparr>"

definition sample_rows :: "table_row list" where
  "sample_rows = [[(js ''name'', Str (js ''ab''))], [(js ''name'', Null)], [(js ''name'', Str (js ''aa''))]]"

theorem header_clicks_sort_witness:
  "let s = table_init sample_env [sample_header] True TextFilter sample_rows;
       s1 = table_step sample_env s (HeaderClick sample_header)
   in sortable s \<and> column_ok (map (\<lambda>r. resolvePath r (js ''name'')) (tableRows s)) \<and>
      shown_rows sample_env s1 = [sample_rows ! 2, sample_rows ! 0, sample_rows ! 1]"
proof -
  define s where "s = table_init sample_env [sample_header] True TextFilter sample_rows"
  have s: "sortable s" "headers s = [sample_header]" "sortKey s = None" "tableRows s = sample_rows"
    "table_page s = 0"
    by (simp_all add: s_def table_init_def set_rows_def run_search_def search_rows_def trim_blank_def Let_def)
  have cells: "map (\<lambda>r. resolvePath r (js ''name'')) sample_rows = [Str (js ''ab''), Null, Str (js ''aa'')]"
    by (simp add: sample_rows_def resolvePath_def has_prop_def get_prop_def)
  then have col: "column_ok (map (\<lambda>r. resolvePath r (js ''name'')) (tableRows s))"
    by (simp add: s column_ok_def is_empty_cell_def)
  have "shown_rows sample_env (table_step sample_env s (HeaderClick sample_header)) =
      getDisplayedRows (reference_order sample_env True (js ''name'') (tableRows s)) 0 (pageSize s)"
    using header_clicks_sort [of s "js ''name''" sample_header sample_env] s col sample_collation
    by (simp add: sample_header_def Let_def)
  also have "\<dots> = [sample_rows ! 2, sample_rows ! 0, sample_rows ! 1]"
    using cells by (simp add: s reference_order_def sample_rows_def getDisplayedRows_def is_empty_cell_def
        cell_rank_def text_rank_def sample_env_def js_Cons)
  finally show ?thesis using s col by (simp add: s_def [symmetric] Let_def)
qed

section \<open>Search and pages\<close>

definition search_inv :: "table_env \<Rightarrow> row_filter \<Rightarrow> table \<Rightarrow> bool" where
  "search_inv env flt s \<longleftrightarrow>
     shouldFilterRows s = flt \<and> originalRows s = rows s \<and>
     tableRows s = search_rows env flt (search_text s) (rows s)"

lemma search_rows_NoFilter [simp]: "search_rows env NoFilter q rs = rs"
  by (simp add: search_rows_def)

lemma search_inv_set_rows: "shouldFilterRows s = flt \<Longrightarrow> search_inv env flt (set_rows env rs s)"
  by (simp add: search_inv_def set_rows_def run_search_def Let_def)

lemma search_inv_step:
  assumes "search_inv env flt s"
  shows "search_inv env flt (table_step env s e)"
proof (cases e)
  case (TableRows rs)
  with assms search_inv_set_rows [of s flt env rs] show ?thesis by (simp add: search_inv_def)
next
  case (TableSearch q)
  with assms show ?thesis by (simp add: search_inv_def search_changed_to_def run_search_def Let_def)
qed (use assms in \<open>simp_all add: search_inv_def set_page_def click_header_def expand_header_def
      select_header_def expand_row_def select_radio_def select_row_def click_cell_def click_row_def
      hover_row_def resetSelectedRowIds_def dispatch_def Let_def\<close>)

interpretation table_search: event_machine "table_init env hs srt flt rs" "table_step env" "search_inv env flt"
proof unfold_locales
  show "search_inv env flt (table_init env hs srt flt rs)"
    unfolding table_init_def by (rule search_inv_set_rows) simp
qed (rule search_inv_step)

lemma slice_pages:
  assumes "0 < n"
  shows "concat (map (\<lambda>p. getDisplayedRows rs p n) [1..<Suc m]) = take (m * n) rs"
proof (induction m)
  case (Suc m)
  have "getDisplayedRows rs (Suc m) n = take n (drop (m * n) rs)"
    using assms by (simp add: getDisplayedRows_def slice_def)
  moreover have "take (Suc m * n) rs = take (m * n) rs @ take n (drop (m * n) rs)"
    by (simp add: take_add [symmetric] add.commute)
  ultimately show ?case using Suc by simp
qed simp

text \<open>
  Claim C25: whatever is clicked and typed and whatever rows the table is given, its rows are those
  of the last rows given that match the search text, in their order, and all of them when the text
  is blank. The pages of a table, one after the other, are its rows.
\<close>

theorem search_never_loses_rows:
  "let s = run_events (table_step env) (table_init env hs srt flt rs) es
   in tableRows s = search_rows env flt (search_text s) (rows s) \<and>
      tableRows (table_step env s (TableSearch [])) = rows s \<and>
      concat (map (\<lambda>p. getDisplayedRows (tableRows s) p (Suc n))
        [1..<Suc (Suc (length (tableRows s) div Suc n))]) = tableRows s"
proof -
  define s where "s = run_events (table_step env) (table_init env hs srt flt rs) es"
  have inv: "search_inv env flt s" unfolding s_def by (rule table_search.inv_run)
  have "tableRows (table_step env s (TableSearch [])) = rows s"
    using search_inv_step [OF inv, of "TableSearch []"]
    by (simp add: search_inv_def search_rows_def search_changed_to_def run_search_def Let_def trim_blank_def)
  moreover have "length (tableRows s) \<le> Suc (length (tableRows s) div Suc n) * Suc n"
    using dividend_less_div_times [of "Suc n" "length (tableRows s)"] by simp
  then have "concat (map (\<lambda>p. getDisplayedRows (tableRows s) p (Suc n))
      [1..<Suc (Suc (length (tableRows s) div Suc n))]) = tableRows s"
    using slice_pages [of "Suc n" "tableRows s" "Suc (length (tableRows s) div Suc n)"] by (simp only: take_all)
  ultimately show ?thesis using inv unfolding s_def [symmetric] by (simp add: search_inv_def Let_def)
qed

end
