(* ===== verification/Filter_Table.thy ===== *)
theory Filter_Table
  imports Filter_Editor Data_Table
begin

declare js_Cons [simp del]

text \<open>
  The filter editor inside the table widget: the rows that the editor hands to the table and the
  cells that the table keeps for a row, by the id of the row. A row on the page reads its cells from
  there; the rows of the page are themselves a list that goes by the ids.
\<close>

section \<open>Rows of the editor as rows of the table\<close>

definition data_row :: "filter_row \<Rightarrow> table_row" where
  "data_row r =
     [(js ''id'', Num (row_id r)), (js ''content'', content r), (js ''score'', score r), (js ''actions'', Str [])]"

definition filter_data_rows :: "filter_row list \<Rightarrow> table_row list" where
  "filter_data_rows rs = map data_row (filter_table rs)"

text \<open>The cells kept under a number, which every row of that number reads.\<close>

definition kept_cells :: "table_env \<Rightarrow> header list \<Rightarrow> filter_row list \<Rightarrow> int \<Rightarrow> cell list option" where
  "kept_cells env hs rs i = map_of (cells_by_id env hs (filter_data_rows rs)) (js_of_int i)"

section \<open>Which row a cell is from\<close>

lemma js_of_int_inject [simp]: "js_of_int a = js_of_int b \<longleftrightarrow> a = b"
proof
  have read: "read_value (Suc 0) (js_of_int k) = Some (Num k, [])" for k
    using read_int_value [of "[]" 0 k] by (simp add: number_end_def)
  assume "js_of_int a = js_of_int b"
  with read [of a] read [of b] show "a = b" by simp
qed simp

lemma map_of_cells_by_id:
  "map_of (cells_by_id env hs rs) k =
     map_option (row_cells hs) (find (\<lambda>r. to_string (object_text env) (id_of r) = k) (rev rs))"
proof (induction rs rule: rev_induct)
  case (snoc r rs)
  then show ?case by (simp add: cells_by_id_def update_conv')
qed (simp add: cells_by_id_def)

lemma find_rev: "find P (rev xs) = (if filter P xs = [] then None else Some (last (filter P xs)))"
proof (induction xs rule: rev_induct)
  case (snoc x xs)
  then show ?case by simp
qed simp

lemma id_of_data_row [simp]: "id_of (data_row r) = Num (row_id r)"
  by (simp add: id_of_def data_row_def get_prop_def)

text \<open>The cells under a number are those of the last row of that number.\<close>

lemma kept_cells_last:
  "kept_cells env hs rs i =
     (let same = filter (\<lambda>r. row_id r = i) rs
      in if same = [] then None else Some (row_cells hs (data_row (last same))))"
proof -
  let ?P = "\<lambda>r. to_string (object_text env) (id_of r) = js_of_int i"
  have "filter ?P (filter_data_rows rs) = map data_row (filter (\<lambda>r. row_id r = i) (filter_table rs))"
    by (simp add: filter_data_rows_def filter_map o_def)
  also have "filter (\<lambda>r. row_id r = i) (filter_table rs) = filter (\<lambda>r. row_id r = i) rs"
    using sort_key_stable [of "\<lambda>r. - row_id r" "- i" rs] by (simp add: filter_table_def)
  finally have same: "filter ?P (filter_data_rows rs) = map data_row (filter (\<lambda>r. row_id r = i) rs)" .
  show ?thesis
    unfolding kept_cells_def map_of_cells_by_id find_rev same by (simp add: last_map Let_def)
qed

lemma filter_key_singleton:
  assumes "distinct (map f xs)" and "i < length xs"
  shows "filter (\<lambda>x. f x = f (xs ! i)) xs = [xs ! i]"
proof -
  have xs: "xs = take i xs @ xs ! i # drop (Suc i) xs" using assms(2) by (simp add: id_take_nth_drop)
  have "distinct (map f (take i xs @ xs ! i # drop (Suc i) xs))" using assms(1) xs by simp
  then have "f (xs ! i) \<notin> f ` set (take i xs)" "f (xs ! i) \<notin> f ` set (drop (Suc i) xs)" by auto
  then have "filter (\<lambda>x. f x = f (xs ! i)) (take i xs) = []"
    "filter (\<lambda>x. f x = f (xs ! i)) (drop (Suc i) xs) = []"
    by (auto simp: filter_empty_conv) (metis imageI)+
  then show ?thesis by (subst (2) xs) simp
qed

text \<open>After a removal the number of a new row is that of the last old one.\<close>

lemma reused_number:
  assumes "dense row_id rs" and "Suc i < length rs"
  shows "delete_filter_row (int i + 1) rs = take i rs @ drop (Suc i) rs"
    and "row_id ((take i rs @ drop (Suc i) rs) ! (length rs - 2)) = int (length rs)"
proof -
  show "delete_filter_row (int i + 1) rs = take i rs @ drop (Suc i) rs"
    using assms by (intro filter_table.delete_dense_nth) auto
  have "(take i rs @ drop (Suc i) rs) ! (length rs - 2) = rs ! (length rs - 1)"
    using assms(2) by (auto simp: nth_append min_def Suc_diff_Suc numeral_2_eq_2)
  then show "row_id ((take i rs @ drop (Suc i) rs) ! (length rs - 2)) = int (length rs)"
    using assms dense_nth [of row_id rs "length rs - 1"] by simp
qed

lemma cells_by_id_keys:
  "distinct (map fst (cells_by_id env hs rs)) \<and>
   set (map fst (cells_by_id env hs rs)) = (\<lambda>r. to_string (object_text env) (id_of r)) ` set rs"
proof (induction rs rule: rev_induct)
  case (snoc r rs)
  then show ?case by (auto simp: cells_by_id_def distinct_update dom_update)
qed (simp add: cells_by_id_def)

lemma kept_count: "length (cells_by_id env hs (filter_data_rows rs)) = card (row_id ` set rs)"
proof -
  let ?m = "cells_by_id env hs (filter_data_rows rs)"
  have "(\<lambda>r. to_string (object_text env) (id_of r)) ` set (filter_data_rows rs) = js_of_int ` row_id ` set rs"
    by (simp add: filter_data_rows_def filter_table_def image_image)
  then have "length ?m = card (js_of_int ` row_id ` set rs)"
    using cells_by_id_keys [of env hs "filter_data_rows rs"] distinct_card [of "map fst ?m"] by simp
  also have "\<dots> = card (row_id ` set rs)" by (intro card_image inj_onI) simp
  finally show ?thesis .
qed

text \<open>
  Claim C26: in a filter numbered from 1 as it is loaded, the table keeps under the number of each row
  the cells of that row. When a row other than the last is removed and one is inserted before the
  reload, the last old row and the new row have the same number, the table keeps the cells of one row
  fewer than there are, and under the shared number those of the new row.
\<close>

theorem filter_cells_kept:
  assumes "dense row_id (data s)" and "i < length (data s)"
  shows "kept_cells env hs (data s) (int i + 1) = Some (row_cells hs (data_row (data s ! i))) \<and>
    (Suc i < length (data s) \<longrightarrow>
      (let s' = addRow tx (removeRow (int i + 1) s); n = length (data s)
       in length (data s') = n \<and> row_id (data s' ! (n - 1)) = int n \<and> row_id (data s' ! (n - 2)) = int n \<and>
          length (cells_by_id env hs (filter_data_rows (data s'))) = n - 1 \<and>
          kept_cells env hs (data s') (int n) = Some (row_cells hs (data_row (data s' ! (n - 1))))))"
proof -
  let ?n = "length (data s)"
  have dist: "distinct (map row_id (data s))" by (rule dense_distinct [OF assms(1)])
  have "filter (\<lambda>r. row_id r = row_id (data s ! i)) (data s) = [data s ! i]"
    using dist assms(2) by (rule filter_key_singleton)
  then have kept: "kept_cells env hs (data s) (int i + 1) = Some (row_cells hs (data_row (data s ! i)))"
    by (simp add: kept_cells_last dense_nth [OF assms])
  have "let s' = addRow tx (removeRow (int i + 1) s); n = ?n
       in length (data s') = n \<and> row_id (data s' ! (n - 1)) = int n \<and> row_id (data s' ! (n - 2)) = int n \<and>
          length (cells_by_id env hs (filter_data_rows (data s'))) = n - 1 \<and>
          kept_cells env hs (data s') (int n) = Some (row_cells hs (data_row (data s' ! (n - 1))))"
    if i: "Suc i < ?n"
  proof -
    define d where "d = take i (data s) @ drop (Suc i) (data s)"
    define s' where "s' = addRow tx (removeRow (int i + 1) s)"
    note re = reused_number [OF assms(1) i, folded d_def]
    have len: "length d = ?n - 1" using i by (simp add: d_def)
    have s': "data s' = append_filter_row (tr tx (js ''New item'')) d"
      by (simp add: s'_def addRow_def removeRow_def editRow_def saveData_def re(1))
    let ?r = "\<lparr>row_id = int ?n, content = tr tx (js ''New item''), score = Num 0\<rparr>"
    have app: "data s' = d @ [?r]" using i len unfolding s' append_filter_row_def by (simp add: of_nat_diff)
    have at: "length (data s') = ?n" "data s' ! (?n - 1) = ?r" "data s' ! (?n - 2) = d ! (?n - 2)"
      using i len by (auto simp: app nth_append)
    have "d ! (?n - 2) \<in> set d" using i len by (intro nth_mem) simp
    then have "row_id ` set (data s') = row_id ` set d" using re(2) by (auto simp: app) (metis imageI)
    moreover have "distinct (map row_id d)"
      using dist unfolding d_def
      by (subst (asm) id_take_nth_drop [OF assms(2)]) simp
    then have "card (row_id ` set d) = ?n - 1" using distinct_card [of "map row_id d"] len by simp
    ultimately have "length (cells_by_id env hs (filter_data_rows (data s'))) = ?n - 1" by (simp add: kept_count)
    with at re(2) show ?thesis
      unfolding s'_def [symmetric] by (simp add: Let_def kept_cells_last) (simp add: app)
  qed
  with kept show ?thesis by blast
qed

definition sample_filter :: "ui \<Rightarrow> filter_editor" where
  "sample_filter u = (filter_init (js ''a'') u)\<lparr>data := numbered (\<lambda>i c. \<lparr>row_id = i, content = c, score = Num 0\<rparr>)
     [str ''a'', str ''b'', str ''c'']\<rparr>"

theorem filter_cells_kept_witness:
  "let s = sample_filter (ui_init (\<lambda>k. None))
   in dense row_id (data s) \<and> 0 < length (data s) \<and>
      kept_cells sample_env [sample_header] (data s) 1 =
        Some (row_cells [sample_header] (data_row (data s ! 0)))"
proof -
  define s where "s = sample_filter (ui_init (\<lambda>k. None))"
  have "data s = numbered (\<lambda>i c. \<lparr>row_id = i, content = c, score = Num 0\<rparr>) [str ''a'', str ''b'', str ''c'']"
    by (simp add: s_def sample_filter_def)
  then have s: "dense row_id (data s)" "0 < length (data s)" by (auto intro: dense_numbered)
  from s filter_cells_kept [OF s, of sample_env "[sample_header]" plain_texts] show ?thesis
    by (simp add: s_def [symmetric] Let_def)
qed

end
