(* ===== verification/Toasts.thy ===== *)
theory Toasts
  imports Notifications
begin

text \<open>
  The toasts of the interface: the list of \<open>ui/src/components/notifications.svelte\<close>, whose \<open>each\<close> block
  has no keys (compiled: \<open>bundle.js\<close> lines 28851--28890), and the widget of one toast
  (\<open>xk\<close>, lines 9801--9870) with its timer. A component belongs to a position of the list and not to a
  notification: when a notification is removed the components after it get the properties of their
  successors, the last component goes, and a component that was closed stays closed. The theorem says
  what is on the page after a toast is closed: the toast behind it is gone too.

  Times are milliseconds. The timeout of a notification is a number, as the helpers make it.
\<close>

declare js_Cons [simp del]

section \<open>Components of the list\<close>

text \<open>A component: the notification it was given last, whether it is open, and when its timer ends.\<close>

record toast =
  toast_note :: notification
  toast_open :: bool
  toast_timer :: "nat option"

text \<open>\<open>timeout && setTimeout(..., timeout)\<close>; a negative delay is none.\<close>

definition close_delay :: "jsval \<Rightarrow> nat option" where
  "close_delay v = (case v of Num n \<Rightarrow> if n = 0 then None else Some (nat n) | _ \<Rightarrow> None)"

definition mount_toast :: "nat \<Rightarrow> notification \<Rightarrow> toast" where
  "mount_toast now n =
     \<lparr>toast_note = n, toast_open = True, toast_timer = map_option (\<lambda>d. now + d) (close_delay (timeout n))\<rparr>"

text \<open>
  The update of the list: components that exist get new properties, missing ones are created at the
  end, and those that are left over are destroyed with their timers.
\<close>

fun render_toasts :: "nat \<Rightarrow> notification list \<Rightarrow> toast list \<Rightarrow> toast list" where
  "render_toasts now [] ts = []"
| "render_toasts now (n # ns) [] = mount_toast now n # render_toasts now ns []"
| "render_toasts now (n # ns) (t # ts) = t\<lparr>toast_note := n\<rparr> # render_toasts now ns ts"

record toast_page =
  note_store :: "notification list"
  toast_list :: "toast list"
  toast_clock :: nat

definition visible_toasts :: "toast_page \<Rightarrow> notification list" where
  "visible_toasts s = map toast_note (filter toast_open (toast_list s))"

section \<open>Events\<close>

definition publish_notes :: "notification list \<Rightarrow> toast_page \<Rightarrow> toast_page" where
  "publish_notes ns s =
     s\<lparr>note_store := ns, toast_list := render_toasts (toast_clock s) ns (toast_list s)\<rparr>"

text \<open>
  Closing: the listener of the list removes the notification that the component has now; then the
  component closes itself, since nothing cancels the event.
\<close>

definition close_component :: "nat \<Rightarrow> toast_page \<Rightarrow> toast_page" where
  "close_component k s =
     (let t = toast_list s ! k
      in publish_notes (remove (toast_note t) (note_store s))
           (s\<lparr>toast_list := (toast_list s)[k := t\<lparr>toast_open := False\<rparr>]\<rparr>))"

datatype toast_event = AddNote message | CloseClick nat | TimePasses nat | TimerFires nat

text \<open>The button is on the page while the component is open; its timer runs in any case.\<close>

fun toast_step :: "toast_page \<Rightarrow> toast_event \<Rightarrow> toast_page" where
  "toast_step s (AddNote m) = publish_notes (add m (note_store s)) s"
| "toast_step s (CloseClick k) =
     (if k < length (toast_list s) \<and> toast_open (toast_list s ! k) then close_component k s else s)"
| "toast_step s (TimePasses d) = s\<lparr>toast_clock := toast_clock s + d\<rparr>"
| "toast_step s (TimerFires k) =
     (if k < length (toast_list s)
      then (case toast_timer (toast_list s ! k) of
              Some d \<Rightarrow>
                if d \<le> toast_clock s
                then close_component k
                       (s\<lparr>toast_list := (toast_list s)[k := (toast_list s ! k)\<lparr>toast_timer := None\<rparr>]\<rparr>)
                else s
            | None \<Rightarrow> s)
      else s)"

definition toasts_init :: toast_page where
  "toasts_init = \<lparr>note_store = [], toast_list = [], toast_clock = 0\<rparr>"

section \<open>What is on the page\<close>

definition toasts_inv :: "toast_page \<Rightarrow> bool" where
  "toasts_inv s \<longleftrightarrow> map toast_note (toast_list s) = note_store s"

lemma render_notes: "map toast_note (render_toasts now ns ts) = ns"
  by (induction now ns ts rule: render_toasts.induct) (simp_all add: mount_toast_def)

lemma toasts_inv_publish: "toasts_inv (publish_notes ns s)"
  by (simp add: toasts_inv_def publish_notes_def render_notes)

lemma toasts_inv_close: "toasts_inv (close_component k s)"
  by (simp add: close_component_def Let_def toasts_inv_publish)

lemma toasts_inv_step: "toasts_inv s \<Longrightarrow> toasts_inv (toast_step s e)"
proof (cases e)
  case (TimePasses d)
  assume "toasts_inv s"
  with TimePasses show ?thesis by (simp add: toasts_inv_def)
qed (simp_all add: toasts_inv_publish toasts_inv_close split: option.splits)

interpretation toast_run: event_machine toasts_init toast_step toasts_inv
  using toasts_inv_step by unfold_locales (simp_all add: toasts_inv_def toasts_init_def)

lemma render_shorter:
  "length ns \<le> length ts \<Longrightarrow>
     render_toasts now ns ts = map (\<lambda>(n, t). t\<lparr>toast_note := n\<rparr>) (zip ns ts)"
  by (induction now ns ts rule: render_toasts.induct) simp_all

lemma render_longer:
  "length ts \<le> length ns \<Longrightarrow>
     render_toasts now ns ts =
       map (\<lambda>(n, t). t\<lparr>toast_note := n\<rparr>) (zip ns ts) @ map (mount_toast now) (drop (length ts) ns)"
proof (induction now ns ts rule: render_toasts.induct)
  case (2 now n ns)
  then show ?case by (cases ns) auto
qed simp_all

lemma render_same: "map toast_note ts = ns \<Longrightarrow> map (\<lambda>(n, t). t\<lparr>toast_note := n\<rparr>) (zip ns ts) = ts"
  by (induction ts arbitrary: ns) auto

text \<open>A new notification is shown after those that are.\<close>

lemma added_toast_visible:
  assumes "toasts_inv s"
  shows "visible_toasts (toast_step s (AddNote m)) = visible_toasts s @ [last (add m (note_store s))]"
proof -
  have l: "length (toast_list s) = length (note_store s)"
    using assms by (metis toasts_inv_def length_map)
  obtain n where n: "add m (note_store s) = note_store s @ [n]" by (simp add: add_def)
  have "render_toasts (toast_clock s) (note_store s @ [n]) (toast_list s) =
      toast_list s @ [mount_toast (toast_clock s) n]"
    using assms l by (simp add: render_longer zip_append1 render_same toasts_inv_def)
  then show ?thesis by (simp add: visible_toasts_def publish_notes_def n mount_toast_def)
qed

lemma open_part:
  "list_all toast_open ts \<Longrightarrow> length ns \<le> length ts \<Longrightarrow>
     map toast_note (filter toast_open (map (\<lambda>(n, t). t\<lparr>toast_note := n\<rparr>) (zip ns ts))) = ns"
  by (induction ns arbitrary: ts) (auto simp: Suc_le_length_iff)

lemma remove_distinct:
  assumes "distinct (map ident ns)" and "k < length ns"
  shows "remove (ns ! k) ns = take k ns @ drop (Suc k) ns"
proof -
  have ns: "ns = take k ns @ ns ! k # drop (Suc k) ns" using assms(2) by (rule id_take_nth_drop)
  then have "distinct (map ident (take k ns @ ns ! k # drop (Suc k) ns))" using assms(1) by simp
  then have "\<forall>x \<in> set (take k ns) \<union> set (drop (Suc k) ns). ident x \<noteq> ident (ns ! k)"
    by (auto simp: image_iff)
  then have "remove (ns ! k) (take k ns @ ns ! k # drop (Suc k) ns) = take k ns @ drop (Suc k) ns"
    by (simp add: remove_def filter_id_conv)
  with ns show ?thesis by simp
qed

lemma closed_part:
  assumes "length ns = length ts" and "k < length ts" and "list_all toast_open ts" and "\<not> toast_open c"
  shows "map toast_note (filter toast_open
      (map (\<lambda>(n, t). t\<lparr>toast_note := n\<rparr>) (zip (take k ns @ drop (Suc k) ns) (ts[k := c])))) =
    take k ns @ drop (Suc (Suc k)) ns"
proof -
  let ?f = "map (\<lambda>(n, t). t\<lparr>toast_note := n\<rparr>)"
  have o: "list_all toast_open (take k ts)" "list_all toast_open (drop (Suc k) ts)"
    using assms(3) by (auto simp: list_all_iff dest: in_set_takeD in_set_dropD)
  have "zip (take k ns @ drop (Suc k) ns) (ts[k := c]) =
      zip (take k ns) (take k ts) @ zip (drop (Suc k) ns) (c # drop (Suc k) ts)"
    using assms(1,2) by (simp add: upd_conv_take_nth_drop zip_append)
  moreover have "map toast_note (filter toast_open (?f (zip (drop (Suc k) ns) (c # drop (Suc k) ts)))) =
      drop (Suc (Suc k)) ns"
  proof (cases "drop (Suc k) ns")
    case Nil
    then show ?thesis by simp
  next
    case (Cons x xs)
    then have "xs = drop (Suc (Suc k)) ns" by (metis drop_Suc list.sel(3) tl_drop)
    with Cons assms(1,4) open_part [OF o(2), of xs] show ?thesis by simp
  qed
  moreover have "map toast_note (filter toast_open (?f (zip (take k ns) (take k ts)))) = take k ns"
    using open_part [OF o(1), of "take k ns"] assms(1) by simp
  ultimately show ?thesis by simp
qed

lemma close_all_open:
  assumes "toasts_inv s" and "distinct (map ident (note_store s))" and "k < length (note_store s)"
    and "list_all toast_open (toast_list s)"
  shows "note_store (close_component k s) = take k (note_store s) @ drop (Suc k) (note_store s) \<and>
    visible_toasts (close_component k s) = take k (note_store s) @ drop (Suc (Suc k)) (note_store s)"
proof -
  let ?ns = "note_store s" and ?ts = "toast_list s"
  have l: "length ?ns = length ?ts" using assms(1) by (metis toasts_inv_def length_map)
  then have n: "toast_note (?ts ! k) = ?ns ! k" using assms(1,3) by (metis toasts_inv_def nth_map)
  have r: "remove (?ns ! k) ?ns = take k ?ns @ drop (Suc k) ?ns" by (rule remove_distinct [OF assms(2,3)])
  have "length (take k ?ns @ drop (Suc k) ?ns) \<le> length (?ts[k := c])" for c using l by simp
  note rs = render_shorter [OF this]
  have "k < length ?ts" using l assms(3) by simp
  from closed_part [OF l this assms(4), of "(?ts ! k)\<lparr>toast_open := False\<rparr>"] show ?thesis
    by (simp add: close_component_def publish_notes_def visible_toasts_def n r rs Let_def)
qed

lemma timer_kept:
  assumes "toasts_inv s" and "distinct (map ident (note_store s))" and "Suc k < length (note_store s)"
  shows "toast_timer (toast_list (close_component k s) ! k) = toast_timer (toast_list s ! k)"
    and "toast_clock (close_component k s) = toast_clock s"
proof -
  let ?ns = "note_store s" and ?ts = "toast_list s"
  have l: "length ?ns = length ?ts" using assms(1) by (metis toasts_inv_def length_map)
  then have n: "toast_note (?ts ! k) = ?ns ! k" using assms(1,3) by (metis Suc_lessD toasts_inv_def nth_map)
  have r: "remove (?ns ! k) ?ns = take k ?ns @ drop (Suc k) ?ns"
    using assms(3) by (intro remove_distinct [OF assms(2)]) simp
  have "length (take k ?ns @ drop (Suc k) ?ns) \<le> length (?ts[k := c])" for c using l by simp
  note rs = render_shorter [OF this]
  show "toast_timer (toast_list (close_component k s) ! k) = toast_timer (toast_list s ! k)"
    using assms(3) l by (simp add: close_component_def publish_notes_def n r rs Let_def)
  show "toast_clock (close_component k s) = toast_clock s"
    by (simp add: close_component_def publish_notes_def Let_def)
qed

text \<open>
  Claim C39: in every reachable state a new notification is shown after the toasts that are. When all
  toasts are open and have distinct numbers, closing one, by its button or by its timer, removes
  its notification from the store but takes two toasts off the page, the closed one and the one
  behind it.
\<close>

theorem closing_hides_next_toast:
  fixes m :: message and es :: "toast_event list"
  defines "s \<equiv> run_events toast_step toasts_init es"
  shows "visible_toasts (toast_step s (AddNote m)) = visible_toasts s @ [last (add m (note_store s))] \<and>
    (list_all toast_open (toast_list s) \<and> distinct (map ident (note_store s)) \<and> k < length (note_store s) \<longrightarrow>
       (let t = toast_step s (CloseClick k)
        in note_store t = take k (note_store s) @ drop (Suc k) (note_store s) \<and>
           visible_toasts t = take k (note_store s) @ drop (Suc (Suc k)) (note_store s)) \<and>
       (toast_timer (toast_list s ! k) = Some d \<and> d \<le> toast_clock s \<longrightarrow>
          (let t = toast_step s (TimerFires k)
           in note_store t = take k (note_store s) @ drop (Suc k) (note_store s) \<and>
              visible_toasts t = take k (note_store s) @ drop (Suc (Suc k)) (note_store s))))"
proof -
  have inv: "toasts_inv s" unfolding s_def by (rule toast_run.inv_run)
  then have l: "length (toast_list s) = length (note_store s)" by (metis toasts_inv_def length_map)
  let ?s = "s\<lparr>toast_list := (toast_list s)[k := (toast_list s ! k)\<lparr>toast_timer := None\<rparr>]\<rparr>"
  have "toasts_inv ?s" if "k < length (note_store s)"
    using inv that l by (simp add: toasts_inv_def map_update) (metis list_update_id nth_map)
  moreover have "list_all toast_open (toast_list ?s)"
    if "list_all toast_open (toast_list s)" "k < length (note_store s)"
    using that l by (auto simp: list_all_iff dest!: set_update_subset_insert [THEN subsetD])
  ultimately show ?thesis
    using added_toast_visible [OF inv] close_all_open [OF inv, of k] close_all_open [of ?s k] l
    by (auto simp: list_all_length)
qed

text \<open>A success and an error: when the success closes the page is empty although the error is kept.\<close>

definition two_notes :: "toast_event list" where
  "two_notes = [AddNote (empty_message\<lparr>timeout := Num 2000\<rparr>), AddNote (empty_message\<lparr>timeout := Num 30000\<rparr>),
     TimePasses 2000]"

theorem closing_hides_next_toast_witness:
  "let t = toast_step (run_events toast_step toasts_init two_notes) (TimerFires 0)
   in length (note_store t) = 1 \<and> visible_toasts t = []"
proof -
  let ?s = "run_events toast_step toasts_init two_notes"
  have "list_all toast_open (toast_list ?s)" "distinct (map ident (note_store ?s))" "length (note_store ?s) = 2"
    "toast_timer (toast_list ?s ! 0) = Some 2000" "toast_clock ?s = 2000"
    by (simp_all add: two_notes_def toasts_init_def publish_notes_def add_def mount_toast_def empty_message_def
        close_delay_def)
  with closing_hides_next_toast [of two_notes empty_message 0 2000] show ?thesis by (auto simp: Let_def)
qed

text \<open>The timer of a toast that was closed by hand still runs, and removes the notification behind it.\<close>

lemma closed_timer_removes_next:
  assumes "toasts_inv s" and "distinct (map ident (note_store s))" and "Suc k < length (note_store s)"
    and "list_all toast_open (toast_list s)" and "toast_timer (toast_list s ! k) = Some d" and "d \<le> toast_clock s"
  shows "note_store (toast_step (toast_step s (CloseClick k)) (TimerFires k)) =
    take k (note_store s) @ drop (Suc (Suc k)) (note_store s)"
proof -
  let ?t = "close_component k s"
  have l: "length (toast_list s) = length (note_store s)" using assms(1) by (metis toasts_inv_def length_map)
  have st: "note_store ?t = take k (note_store s) @ drop (Suc k) (note_store s)"
    using close_all_open [OF assms(1,2) _ assms(4)] assms(3) by simp
  have it: "toasts_inv ?t" by (rule toasts_inv_close)
  then have lt: "length (toast_list ?t) = length (note_store ?t)" by (metis toasts_inv_def length_map)
  have k: "k < length (note_store ?t)" using assms(3) by (simp add: st)
  then have n: "toast_note (toast_list ?t ! k) = note_store ?t ! k" using it lt by (metis toasts_inv_def nth_map)
  have "distinct (map ident (note_store ?t))"
    using assms(2) by (simp add: st distinct_map_filter take_map [symmetric] drop_map [symmetric] set_take_disj_set_drop_if_distinct)
  from remove_distinct [OF this k] have "remove (note_store ?t ! k) (note_store ?t) =
      take k (note_store s) @ drop (Suc (Suc k)) (note_store s)"
    using assms(3) by (simp add: st)
  then have "note_store (close_component k (?t\<lparr>toast_list := (toast_list ?t)[k := (toast_list ?t ! k)\<lparr>toast_timer := None\<rparr>]\<rparr>)) =
      take k (note_store s) @ drop (Suc (Suc k)) (note_store s)"
    using k lt n by (simp add: close_component_def publish_notes_def Let_def)
  moreover have "toast_open (toast_list s ! k)" using assms(3,4) l by (simp add: list_all_length)
  ultimately show ?thesis
    using assms(3,5,6) k l lt timer_kept [OF assms(1-3)] by simp
qed

end
