(* ===== verification/Activity.thy ===== *)
theory Activity
  imports Ui_Base
begin

text \<open>
  The pages that poll the server: the log viewer (\<open>ui/src/routes/logs/logs.svelte\<close>) and the
  statistics (\<open>ui/src/routes/stats/stats.svelte\<close>), with the timers of \<open>setInterval\<close>. The
  functions of the packages they call, \<open>format\<close> of \<open>timeago.js\<close>, \<open>truncate\<close> of
  \<open>lodash\<close> and the dates' \<open>toISOString\<close>, are arguments.
\<close>

section \<open>Interval timers\<close>

text \<open>Timer ids start at 1; clearing an id that is not running does nothing.\<close>

record intervals =
  running :: "nat list"
  next_id :: nat

definition setInterval :: "intervals \<Rightarrow> intervals \<times> nat" where
  "setInterval t = (t\<lparr>running := running t @ [next_id t], next_id := Suc (next_id t)\<rparr>, next_id t)"

definition clearInterval :: "nat option \<Rightarrow> intervals \<Rightarrow> intervals" where
  "clearInterval i t =
     (case i of Some k \<Rightarrow> t\<lparr>running := filter (\<lambda>j. j \<noteq> k) (running t)\<rparr> | None \<Rightarrow> t)"

definition restart :: "nat option \<Rightarrow> intervals \<Rightarrow> intervals \<times> nat" where
  "restart i t = setInterval (clearInterval i t)"

definition no_intervals :: intervals where
  "no_intervals = \<lparr>running = [], next_id = 1\<rparr>"

section \<open>The log viewer\<close>

text \<open>\<open>a + b\<close> and \<open>v * 1000\<close>.\<close>

fun to_num :: "jsval \<Rightarrow> int option" where
  "to_num Null = Some 0"
| "to_num (JBool b) = Some (if b then 1 else 0)"
| "to_num (Num n) = Some n"
| "to_num (Str s) = text_number s"
| "to_num (Arr vs) = text_number (js_text (Arr vs))"
| "to_num _ = None"

fun is_prim_number :: "jsval \<Rightarrow> bool" where
  "is_prim_number Undef = True"
| "is_prim_number Null = True"
| "is_prim_number (JBool b) = True"
| "is_prim_number (Num n) = True"
| "is_prim_number NaN = True"
| "is_prim_number _ = False"

definition num_val :: "int option \<Rightarrow> jsval" where
  "num_val i = (case i of Some n \<Rightarrow> Num n | None \<Rightarrow> NaN)"

definition js_plus :: "jsval \<Rightarrow> jsval \<Rightarrow> jsval" where
  "js_plus a b =
     (if is_prim_number a \<and> is_prim_number b
      then num_val (Option.bind (to_num a) (\<lambda>x. map_option (\<lambda>y. x + y) (to_num b)))
      else Str (js_text a @ js_text b))"

definition times_1000 :: "jsval \<Rightarrow> jsval" where
  "times_1000 v = num_val (map_option (\<lambda>n. n * 1000) (to_num v))"

record log_row =
  log_id :: jsval
  log_ip :: jsval
  log_time :: jsval
  log_url :: jsval
  response_type :: jsval

record log_texts =
  format_time :: "jsval \<Rightarrow> jsval"
  truncate_url :: "jsval \<Rightarrow> jsval"

definition itemToDataItem :: "log_texts \<Rightarrow> nat \<times> jsval \<Rightarrow> js_exn + log_row" where
  "itemToDataItem lx p =
     (let item = snd p; get = (\<lambda>k. prop_of item (js k))
      in bind_exn (get ''ip'') (\<lambda>ip. bind_exn (get ''time'') (\<lambda>t. bind_exn (get ''url'') (\<lambda>url.
         bind_exn (get ''proxyResponseType'') (\<lambda>ty.
           Inr \<lparr>log_id = js_plus (js_plus (js_plus ip t) (Num (int (fst p)))) url,
                log_ip = ip, log_time = format_time lx (times_1000 t), log_url = truncate_url lx url,
                response_type = ty\<rparr>)))))"

definition log_rows :: "log_texts \<Rightarrow> jsval \<Rightarrow> js_exn + log_row list" where
  "log_rows lx v =
     bind_exn (elements_of v) (\<lambda>items. map_exn (itemToDataItem lx) (enumerate 0 (take 30 items)))"

record logs_page =
  search :: jsstr
  interval :: "nat option"
  logs :: jsval
  logsToRender :: "log_row list"
  timers :: intervals
  log_calls :: nat
  destroyed :: bool
  logs_ui :: ui

definition queryParams :: "jsstr \<Rightarrow> jsstr" where
  "queryParams q = (if length q > 0 then js ''?search='' @ q else [])"

definition loadLogs :: "logs_page \<Rightarrow> logs_page" where
  "loadLogs s =
     s\<lparr>logs_ui := ui_call (doCall (js ''/logs/viewlive'' @ queryParams (search s)) (js ''get'') (Obj []) [])
                   (logs_ui s),
       log_calls := Suc (log_calls s)\<rparr>"

definition loadLogs_settled :: "log_texts \<Rightarrow> reply \<Rightarrow> logs_page \<Rightarrow> logs_page" where
  "loadLogs_settled lx r s =
     (case ui_settle doCall_settled r (logs_ui s) of
        (u, v) \<Rightarrow>
          (let s = s\<lparr>logs_ui := u, log_calls := log_calls s - 1\<rparr>
           in case bind_exn v (\<lambda>json. bind_exn (prop_of json (js ''Items'')) JSON_parse) of
                Inl err \<Rightarrow> s
              | Inr items \<Rightarrow>
                  (let s = s\<lparr>logs := items\<rparr>
                   in case log_rows lx items of
                        Inr rows \<Rightarrow> s\<lparr>logsToRender := rows\<rparr>
                      | Inl err \<Rightarrow> s)))"

definition startInterval :: "logs_page \<Rightarrow> logs_page" where
  "startInterval s =
     (case restart (interval s) (timers s) of (t, i) \<Rightarrow> s\<lparr>timers := t, interval := Some i\<rparr>)"

text \<open>The reactive block; it runs when the page is created and when the search text changes.\<close>

definition search_changed :: "logs_page \<Rightarrow> logs_page" where
  "search_changed s =
     (if length (search s) > 0
      then startInterval (loadLogs (s\<lparr>timers := clearInterval (interval s) (timers s)\<rparr>))
      else startInterval (loadLogs s))"

definition clearSearch :: "log_texts \<Rightarrow> logs_page \<Rightarrow> logs_page" where
  "clearSearch lx s =
     (let s = s\<lparr>search := []\<rparr>
      in search_changed
           (case log_rows lx (logs s) of Inr rows \<Rightarrow> s\<lparr>logsToRender := rows\<rparr> | Inl err \<Rightarrow> s))"

text \<open>
  Mounting starts the timer again, which changes \<open>interval\<close>, a variable that the reactive block
  reads: the block runs once more.
\<close>

definition logs_mount :: "ui \<Rightarrow> logs_page" where
  "logs_mount u =
     search_changed (startInterval (loadLogs (search_changed
       \<lparr>search = [], interval = None, logs = Arr [], logsToRender = [], timers = no_intervals,
        log_calls = 0, destroyed = False, logs_ui = u\<rparr>)))"

definition logs_destroy :: "logs_page \<Rightarrow> logs_page" where
  "logs_destroy s = s\<lparr>timers := clearInterval (interval s) (timers s), destroyed := True\<rparr>"

datatype logs_event =
    SearchInput jsstr
  | ClearClick
  | Tick nat
  | LogsSettled reply
  | LeavePage

fun logs_step :: "log_texts \<Rightarrow> logs_page \<Rightarrow> logs_event \<Rightarrow> logs_page" where
  "logs_step lx s (SearchInput q) =
     (if destroyed s \<or> q = search s then s else search_changed (s\<lparr>search := q\<rparr>))"
| "logs_step lx s ClearClick = (if destroyed s then s else clearSearch lx s)"
| "logs_step lx s (Tick i) = (if i \<in> set (running (timers s)) then loadLogs s else s)"
| "logs_step lx s (LogsSettled r) = (if 0 < log_calls s then loadLogs_settled lx r s else s)"
| "logs_step lx s LeavePage = (if destroyed s then s else logs_destroy s)"

section \<open>The statistics\<close>

record host_data =
  host :: jsstr
  count :: int

record day_data =
  total :: int
  hosts :: "host_data list"

type_synonym series = "(jsstr \<times> day_data) list"

record stats_row =
  stats_id :: jsstr
  stats_host :: jsstr
  stats_count :: int

definition blocked_rows :: "series \<Rightarrow> stats_row list" where
  "blocked_rows ds =
     take 5 (concat (map (\<lambda>(key, item).
       map (\<lambda>h. \<lparr>stats_id = host h, stats_host = host h, stats_count = count h\<rparr>) (hosts item)) ds))"

definition all_entries :: "series \<Rightarrow> stats_row list" where
  "all_entries ds =
     concat (map (\<lambda>(key, item).
       map (\<lambda>(index, h). \<lparr>stats_id = host h @ js ''all'' @ digits_of index,
              stats_host = host h, stats_count = count h\<rparr>) (enumerate 0 (hosts item))) ds)"

text \<open>\<open>filter((item, index, self) => index === self.findIndex((t) => t.id === item.id))\<close>.\<close>

definition find_index :: "('a \<Rightarrow> bool) \<Rightarrow> 'a list \<Rightarrow> nat" where
  "find_index P xs = length (takeWhile (\<lambda>x. \<not> P x) xs)"

definition first_of_id :: "stats_row list \<Rightarrow> stats_row list" where
  "first_of_id self =
     map snd (filter (\<lambda>(index, item). index = find_index (\<lambda>t. stats_id t = stats_id item) self)
                (enumerate 0 self))"

definition all_rows :: "series \<Rightarrow> stats_row list" where
  "all_rows ds = take 5 (sort_key (\<lambda>r. - stats_count r) (first_of_id (all_entries ds)))"

record chart_point =
  group :: jsstr
  date :: jsstr
  point_value :: int

definition chart_series :: "(jsstr \<Rightarrow> jsstr option) \<Rightarrow> string \<Rightarrow> series \<Rightarrow> chart_point list option" where
  "chart_series toISO g ds =
     those (map (\<lambda>(key, item). map_option (\<lambda>d. \<lparr>group = js g, date = d, point_value = total item\<rparr>) (toISO key)) ds)"

definition chart_data ::
  "(jsstr \<Rightarrow> jsstr option) \<Rightarrow> series option \<Rightarrow> series option \<Rightarrow> chart_point list option" where
  "chart_data toISO blocked all =
     (case (blocked, all) of
        (Some b, Some a) \<Rightarrow>
          Option.bind (chart_series toISO ''Blocked Requests'' b) (\<lambda>xs.
            map_option (\<lambda>ys. xs @ ys) (chart_series toISO ''All Requests'' a))
      | _ \<Rightarrow> Some [])"

record stats_page =
  stats_interval :: "nat option"
  chart :: "chart_point list option"
  responseData :: "(series option \<times> series option) option"
  stats_timers :: intervals
  stats_calls :: nat
  failed_destroy :: bool

text \<open>
  The body of a reply: nothing (a status other than 200), or the two series, each of which may be
  missing. An invalid date throws, which the handler catches before the chart is touched.
\<close>

definition updateChartData_settled ::
  "(jsstr \<Rightarrow> jsstr option) \<Rightarrow> (series option \<times> series option) option \<Rightarrow> stats_page \<Rightarrow> stats_page" where
  "updateChartData_settled toISO json s =
     (let s = s\<lparr>stats_calls := stats_calls s - 1\<rparr>
      in case json of
           None \<Rightarrow> s
         | Some (blocked, all) \<Rightarrow>
             (let s = s\<lparr>responseData := Some (blocked, all)\<rparr>
              in case chart_data toISO blocked all of
                   None \<Rightarrow> s
                 | Some d \<Rightarrow> s\<lparr>chart := Some d\<rparr>))"

definition stats_mount :: stats_page where
  "stats_mount =
     (case setInterval no_intervals of
        (t, i) \<Rightarrow> \<lparr>stats_interval = Some i, chart = None, responseData = None, stats_timers = t,
                   stats_calls = 1, failed_destroy = False\<rparr>)"

text \<open>\<open>chart.destroy()\<close> throws when no data has arrived yet.\<close>

definition stats_destroy :: "stats_page \<Rightarrow> stats_page" where
  "stats_destroy s =
     s\<lparr>stats_timers := clearInterval (stats_interval s) (stats_timers s),
       failed_destroy := (chart s = None)\<rparr>"


section \<open>Properties of the log viewer\<close>

definition logs_inv :: "logs_page \<Rightarrow> bool" where
  "logs_inv s \<longleftrightarrow>
     (if destroyed s then running (timers s) = []
      else \<exists>i. interval s = Some i \<and> running (timers s) = [i]) \<and>
     length (logsToRender s) \<le> 30"

lemma loadLogs_keeps [simp]:
  "timers (loadLogs s) = timers s" "interval (loadLogs s) = interval s"
  "destroyed (loadLogs s) = destroyed s" "logsToRender (loadLogs s) = logsToRender s"
  "search (loadLogs s) = search s"
  by (simp_all add: loadLogs_def)

lemma restart_running:
  "running t = (case i of Some k \<Rightarrow> [k] | None \<Rightarrow> []) \<Longrightarrow> restart i t = (t', j) \<Longrightarrow> running t' = [j]"
  by (auto simp: restart_def setInterval_def clearInterval_def split: option.splits)

lemma clear_running:
  "running t = (case i of Some k \<Rightarrow> [k] | None \<Rightarrow> []) \<Longrightarrow> running (clearInterval i t) = []"
  by (simp add: clearInterval_def split: option.splits)

lemma restart_cleared:
  "running t = [] \<Longrightarrow> restart i t = (t', j) \<Longrightarrow> running t' = [j]"
  by (auto simp: restart_def setInterval_def clearInterval_def split: option.splits)

text \<open>The timer of the page is the only one that runs, if any does.\<close>

definition one_timer :: "logs_page \<Rightarrow> bool" where
  "one_timer s \<longleftrightarrow> running (timers s) = (case interval s of Some k \<Rightarrow> [k] | None \<Rightarrow> [])"

definition started :: "logs_page \<Rightarrow> logs_page \<Rightarrow> bool" where
  "started s s' \<longleftrightarrow>
     (\<exists>i. interval s' = Some i \<and> running (timers s') = [i]) \<and>
     destroyed s' = destroyed s \<and> logsToRender s' = logsToRender s"

lemma startInterval_running:
  assumes "one_timer s \<or> running (timers s) = []"
  shows "started s (startInterval s)"
proof -
  obtain t i where r: "restart (interval s) (timers s) = (t, i)" by (cases "restart (interval s) (timers s)")
  have "running t = [i]"
    using assms restart_running [OF _ r] restart_cleared [OF _ r] by (auto simp: one_timer_def)
  with r show ?thesis by (simp add: started_def startInterval_def)
qed

lemma search_changed_running:
  assumes "one_timer s"
  shows "started s (search_changed s)"
proof -
  let ?s = "loadLogs (s\<lparr>timers := clearInterval (interval s) (timers s)\<rparr>)"
  have "running (timers ?s) = []" using assms clear_running by (simp add: one_timer_def)
  then have "started ?s (startInterval ?s)" by (intro startInterval_running) simp
  moreover have "started (loadLogs s) (startInterval (loadLogs s))"
    using assms by (intro startInterval_running) (simp add: one_timer_def)
  ultimately show ?thesis by (simp add: search_changed_def started_def)
qed

lemma started_one_timer: "started s s' \<Longrightarrow> one_timer s'"
  by (auto simp: started_def one_timer_def)

lemma log_rows_bound: "log_rows lx v = Inr rows \<Longrightarrow> length rows \<le> 30"
  by (auto simp: log_rows_def bind_exn_def dest!: map_exn_length split: sum.splits)

lemma logs_inv_mount: "logs_inv (logs_mount u)"
proof -
  let ?s0 = "\<lparr>search = [], interval = None, logs = Arr [], logsToRender = [], timers = no_intervals,
        log_calls = 0, destroyed = False, logs_ui = u\<rparr>"
  let ?s1 = "search_changed ?s0"
  have s1: "started ?s0 ?s1"
    by (rule search_changed_running) (simp add: one_timer_def no_intervals_def)
  let ?s2 = "startInterval (loadLogs ?s1)"
  have s2: "started (loadLogs ?s1) ?s2"
    using started_one_timer [OF s1] by (intro startInterval_running) (simp add: one_timer_def)
  have "started ?s2 (search_changed ?s2)"
    by (rule search_changed_running [OF started_one_timer [OF s2]])
  with s1 s2 show ?thesis by (simp add: logs_mount_def logs_inv_def started_def)
qed

lemma logs_inv_one_timer: "logs_inv s \<Longrightarrow> \<not> destroyed s \<Longrightarrow> one_timer s"
  by (auto simp: logs_inv_def one_timer_def)

lemma logs_inv_changed:
  assumes "logs_inv s" and "\<not> destroyed s" and "length (logsToRender s') \<le> 30"
    and "timers s' = timers s" and "interval s' = interval s" and "destroyed s' = destroyed s"
  shows "logs_inv (search_changed s')"
proof -
  have "one_timer s'"
    using logs_inv_one_timer [OF assms(1,2)] assms(4,5) by (simp add: one_timer_def)
  from search_changed_running [OF this] assms show ?thesis
    by (simp add: logs_inv_def started_def)
qed

lemma logs_inv_step: "logs_inv s \<Longrightarrow> logs_inv (logs_step lx s e)"
proof (cases e)
  case ClearClick
  assume inv: "logs_inv s"
  have "logs_inv (clearSearch lx s)" if "\<not> destroyed s"
    unfolding clearSearch_def Let_def using log_rows_bound [of lx "logs s"] inv
    by (intro logs_inv_changed [OF inv that]) (auto simp: logs_inv_def split: sum.splits)
  with ClearClick inv show ?thesis by simp
next
  case (LogsSettled r)
  assume "logs_inv s"
  with LogsSettled show ?thesis
    using log_rows_bound [of lx]
    by (auto simp: loadLogs_settled_def Let_def logs_inv_def split: prod.splits sum.splits)
next
  case LeavePage
  assume "logs_inv s"
  with LeavePage show ?thesis
    using clear_running [of "timers s" "interval s"]
    by (auto simp: logs_destroy_def logs_inv_def)
next
  case (SearchInput q)
  assume "logs_inv s"
  with SearchInput show ?thesis
    using logs_inv_changed [of s "s\<lparr>search := q\<rparr>"] by (auto simp: logs_inv_def)
qed (auto simp: logs_inv_def)

interpretation log_viewer: event_machine "logs_mount u" "logs_step lx" logs_inv for u lx
  by unfold_locales (rule logs_inv_mount, rule logs_inv_step)

lemma after_leaving:
  "destroyed s \<Longrightarrow> running (timers s) = [] \<Longrightarrow>
     destroyed (run_events (logs_step lx) s es) \<and>
     sent (logs_ui (run_events (logs_step lx) s es)) = sent (logs_ui s)"
proof (induction es arbitrary: s)
  case Nil
  then show ?case by simp
next
  case (Cons e es)
  have "destroyed (logs_step lx s e) \<and> running (timers (logs_step lx s e)) = [] \<and>
      sent (logs_ui (logs_step lx s e)) = sent (logs_ui s)"
    using Cons.prems
    by (cases e) (auto simp: loadLogs_settled_def Let_def split: prod.splits sum.splits)
  with Cons.IH [of "logs_step lx s e"] show ?case by simp
qed

text \<open>
  Claim C31: whatever the user types and whatever the server answers, exactly one timer of the log
  viewer runs while the page is open and at most thirty rows are shown; once the page is left no
  timer runs and no further request is sent.
\<close>

theorem log_viewer_polls_once:
  "(let s = run_events (logs_step lx) (logs_mount u) es
    in length (logsToRender s) \<le> 30 \<and>
       (if destroyed s then running (timers s) = [] else length (running (timers s)) = 1)) \<and>
   sent (logs_ui (run_events (logs_step lx) (logs_mount u) (es @ LeavePage # fs))) =
     sent (logs_ui (run_events (logs_step lx) (logs_mount u) es))"
proof -
  let ?s = "run_events (logs_step lx) (logs_mount u) es"
  have inv: "logs_inv ?s" by (rule log_viewer.inv_run)
  let ?t = "logs_step lx ?s LeavePage"
  have "logs_inv ?t" by (rule logs_inv_step [OF inv])
  moreover have "destroyed ?t" and "sent (logs_ui ?t) = sent (logs_ui ?s)"
    by (simp_all add: logs_destroy_def)
  ultimately have "sent (logs_ui (run_events (logs_step lx) ?t fs)) = sent (logs_ui ?s)"
    using after_leaving [of ?t lx fs] by (simp add: logs_inv_def)
  with inv show ?thesis by (auto simp: run_events_append logs_inv_def Let_def)
qed


section \<open>Properties of the statistics\<close>

lemma find_index_old:
  "t \<in> set xs \<Longrightarrow> P t \<Longrightarrow> find_index P (xs @ ys) = find_index P xs"
  by (simp add: find_index_def takeWhile_append1)

lemma find_index_bound: "t \<in> set xs \<Longrightarrow> P t \<Longrightarrow> find_index P xs < length xs"
  by (induction xs) (auto simp: find_index_def)

lemma find_index_new:
  "find_index P (xs @ [x]) = length xs \<longleftrightarrow> (\<forall>t \<in> set xs. \<not> P t)" if "P x"
proof
  assume "find_index P (xs @ [x]) = length xs"
  then show "\<forall>t \<in> set xs. \<not> P t"
    using find_index_bound [of _ xs P] find_index_old [of _ xs P "[x]"] by fastforce
qed (use that in \<open>simp add: find_index_def takeWhile_append2\<close>)

lemma first_of_id_snoc:
  "first_of_id (xs @ [x]) =
     first_of_id xs @ (if stats_id x \<in> stats_id ` set xs then [] else [x])"
proof -
  have old: "filter (\<lambda>(i, item). i = find_index (\<lambda>t. stats_id t = stats_id item) (xs @ [x])) (enumerate 0 xs)
      = filter (\<lambda>(i, item). i = find_index (\<lambda>t. stats_id t = stats_id item) xs) (enumerate 0 xs)"
  proof (rule filter_cong)
    fix p assume "p \<in> set (enumerate 0 xs)"
    then have "xs ! fst p = snd p" and "fst p < length xs" by (auto simp: in_set_enumerate_eq)
    then have "snd p \<in> set xs" using nth_mem [of "fst p" xs] by simp
    then have "find_index (\<lambda>t. stats_id t = stats_id (snd p)) (xs @ [x]) =
        find_index (\<lambda>t. stats_id t = stats_id (snd p)) xs"
      by (rule find_index_old) simp
    then show "(case p of (i, item) \<Rightarrow> i = find_index (\<lambda>t. stats_id t = stats_id item) (xs @ [x])) =
        (case p of (i, item) \<Rightarrow> i = find_index (\<lambda>t. stats_id t = stats_id item) xs)"
      by (simp add: case_prod_beta')
  qed simp
  have "length xs = find_index (\<lambda>t. stats_id t = stats_id x) (xs @ [x]) \<longleftrightarrow>
      stats_id x \<notin> stats_id ` set xs"
    using find_index_new [of "\<lambda>t. stats_id t = stats_id x" x xs] by (auto simp: image_iff)
  then show ?thesis by (simp add: first_of_id_def enumerate_append_eq old)
qed

lemma first_of_id_ids:
  "distinct (map stats_id (first_of_id xs))"
  "stats_id ` set (first_of_id xs) = stats_id ` set xs"
  "set (first_of_id xs) \<subseteq> set xs"
proof -
  have "distinct (map stats_id (first_of_id xs)) \<and> stats_id ` set (first_of_id xs) = stats_id ` set xs \<and>
      set (first_of_id xs) \<subseteq> set xs"
  proof (induction xs rule: rev_induct)
    case Nil
    show ?case by (simp add: first_of_id_def)
  next
    case (snoc x xs)
    then show ?case by (auto simp: first_of_id_snoc)
  qed
  then show "distinct (map stats_id (first_of_id xs))"
    and "stats_id ` set (first_of_id xs) = stats_id ` set xs"
    and "set (first_of_id xs) \<subseteq> set xs" by auto
qed

lemma sorted_take_largest:
  fixes c :: "'a \<Rightarrow> int"
  assumes "x \<in> set xs" and "x \<notin> set (take n (sort_key (\<lambda>r. - c r) xs))"
  shows "n \<le> length xs \<and> (\<forall>q \<in> set (take n (sort_key (\<lambda>r. - c r) xs)). c x \<le> c q)"
proof -
  let ?ys = "sort_key (\<lambda>r. - c r) xs"
  have "x \<in> set (take n ?ys) \<union> set (drop n ?ys)"
    using assms(1) by (metis append_take_drop_id set_append set_sort)
  with assms(2) have x: "x \<in> set (drop n ?ys)" by blast
  have "sorted (map (\<lambda>r. - c r) (take n ?ys @ drop n ?ys))" by simp
  then have "\<forall>q \<in> set (take n ?ys). \<forall>y \<in> set (drop n ?ys). - c q \<le> - c y"
    by (simp only: map_append sorted_append) simp
  moreover have "n < length ?ys" using x by (metis drop_all empty_iff list.set(1) not_less)
  ultimately show ?thesis using x by auto
qed

definition busy_series :: series where
  "busy_series =
     [(js ''2024-01-01'', \<lparr>total = 15, hosts = [\<lparr>host = js ''a'', count = 1\<rparr>, \<lparr>host = js ''b'', count = 2\<rparr>,
         \<lparr>host = js ''c'', count = 1\<rparr>, \<lparr>host = js ''d'', count = 1\<rparr>, \<lparr>host = js ''e'', count = 1\<rparr>,
         \<lparr>host = js ''f'', count = 9\<rparr>]\<rparr>)]"

lemma busy_blocked:
  "map stats_host (blocked_rows busy_series) = map js [''a'', ''b'', ''c'', ''d'', ''e'']"
  "map stats_count (blocked_rows busy_series) = [1, 2, 1, 1, 1]"
  by (simp_all add: blocked_rows_def busy_series_def)

text \<open>
  The table of the top requests has at most five rows with distinct ids, in falling order
  of their counts, and a row of the data that is the first of its id is in the table or there are
  five rows with at least its count. The table of the top blocked requests is not ordered: it can
  leave out a host with a higher count than the hosts it shows.
\<close>

theorem top_requests:
  "(let rows = all_rows ds
    in length rows \<le> 5 \<and> distinct (map stats_id rows) \<and> sorted (map (\<lambda>r. - stats_count r) rows) \<and>
       set rows \<subseteq> set (all_entries ds) \<and>
       (\<forall>r \<in> set (first_of_id (all_entries ds)).
          r \<in> set rows \<or> length rows = 5 \<and> (\<forall>q \<in> set rows. stats_count r \<le> stats_count q))) \<and>
   (\<exists>ds h q. h \<in> set (hosts (snd (hd ds))) \<and> q \<in> set (blocked_rows ds) \<and>
      stats_count q < count h \<and> host h \<notin> set (map stats_host (blocked_rows ds)))"
proof (intro conjI)
  let ?xs = "first_of_id (all_entries ds)"
  let ?ys = "sort_key (\<lambda>r. - stats_count r) ?xs"
  have "distinct (map stats_id ?ys)"
    using first_of_id_ids(1) [of "all_entries ds"] by (auto simp: distinct_map)
  then have "distinct (map stats_id (all_rows ds))"
    by (simp add: all_rows_def take_map [symmetric])
  moreover have "sorted (map (\<lambda>r. - stats_count r) (all_rows ds))"
    unfolding all_rows_def take_map [symmetric] by (rule sorted_wrt_take) simp
  moreover have "set (all_rows ds) \<subseteq> set (all_entries ds)"
    using first_of_id_ids(3) [of "all_entries ds"] set_take_subset [of 5 ?ys]
    by (auto simp: all_rows_def)
  moreover have "\<forall>r \<in> set ?xs. r \<in> set (all_rows ds) \<or>
      length (all_rows ds) = 5 \<and> (\<forall>q \<in> set (all_rows ds). stats_count r \<le> stats_count q)"
    using sorted_take_largest [where n = 5 and xs = ?xs and c = stats_count]
    by (auto simp: all_rows_def)
  ultimately show "let rows = all_rows ds
    in length rows \<le> 5 \<and> distinct (map stats_id rows) \<and> sorted (map (\<lambda>r. - stats_count r) rows) \<and>
       set rows \<subseteq> set (all_entries ds) \<and>
       (\<forall>r \<in> set ?xs.
          r \<in> set rows \<or> length rows = 5 \<and> (\<forall>q \<in> set rows. stats_count r \<le> stats_count q))"
    by (simp add: Let_def all_rows_def)
  have "\<exists>q. q \<in> set (blocked_rows busy_series) \<and> stats_count q < 9"
    by (rule exI [of _ "\<lparr>stats_id = js ''a'', stats_host = js ''a'', stats_count = 1\<rparr>"])
      (simp add: blocked_rows_def busy_series_def)
  then show "\<exists>ds h q. h \<in> set (hosts (snd (hd ds))) \<and> q \<in> set (blocked_rows ds) \<and>
      stats_count q < count h \<and> host h \<notin> set (map stats_host (blocked_rows ds))"
    unfolding busy_blocked(1) [symmetric]
    by (intro exI [of _ busy_series] exI [of _ "\<lparr>host = js ''f'', count = 9\<rparr>"])
      (auto simp: busy_blocked(1) simp del: set_map, simp add: busy_series_def)
qed

theorem top_requests_witness:
  "length (all_rows busy_series) \<le> 5 \<and> sorted (map (\<lambda>r. - stats_count r) (all_rows busy_series))"
  using top_requests [of busy_series] by (simp add: Let_def)

end
