(* ===== verification/JS_Double.thy ===== *)
theory JS_Double
  imports Complex_Main "HOL-Library.Log_Nat"
begin

text \<open>
  Numbers of JavaScript that are not whole: the result of a division is the exact quotient rounded to
  the nearest number with 53 significant bits, to the even one of two that are equally near. Numbers
  so large or small that the exponent would not fit do not occur where this is used.
\<close>

section \<open>Rounding\<close>

definition round_even :: "rat \<Rightarrow> int" where
  "round_even y =
     (let n = \<lfloor>y\<rfloor>; f = y - of_int n
      in if f < 1 / 2 \<or> f = 1 / 2 \<and> even n then n else n + 1)"

text \<open>The exponent of a positive number: that of the largest power of two up to it.\<close>

definition exponent_of :: "rat \<Rightarrow> int" where
  "exponent_of x = (if 1 \<le> x then bitlen \<lfloor>x\<rfloor> - 1 else - bitlen (\<lceil>1 / x\<rceil> - 1))"

definition double :: "rat \<Rightarrow> rat" where
  "double x =
     (if x = 0 then 0
      else let u = 2 powi (exponent_of \<bar>x\<bar> - 52) in sgn x * (of_int (round_even (\<bar>x\<bar> / u)) * u))"

lemma round_even_cases:
  obtains "round_even y = \<lfloor>y\<rfloor>" "y - of_int \<lfloor>y\<rfloor> \<le> 1 / 2"
  | "round_even y = \<lfloor>y\<rfloor> + 1" "1 / 2 \<le> y - of_int \<lfloor>y\<rfloor>"
  by (cases "y - of_int \<lfloor>y\<rfloor> < 1 / 2 \<or> y - of_int \<lfloor>y\<rfloor> = 1 / 2 \<and> even \<lfloor>y\<rfloor>")
    (auto simp: round_even_def Let_def not_less)

lemma round_even_near: "\<bar>of_int (round_even y) - y\<bar> \<le> 1 / 2"
  by (cases y rule: round_even_cases) (use floor_correct [of y] in \<open>auto simp: abs_le_iff\<close>)

lemma round_even_ge: "of_int n \<le> y \<Longrightarrow> n \<le> round_even y"
  by (cases y rule: round_even_cases) (simp_all add: le_floor_iff [symmetric])

lemma round_even_le: "y \<le> of_int n \<Longrightarrow> round_even y \<le> n"
proof (cases y rule: round_even_cases)
  case 2
  assume "y \<le> of_int n"
  with 2(2) have "of_int \<lfloor>y\<rfloor> < (of_int n :: rat)" by linarith
  with 2(1) show ?thesis by simp
qed (simp add: floor_le_iff)

lemma bitlen_rat:
  assumes "0 < n"
  shows "2 powi (bitlen n - 1) \<le> (of_int n :: rat)" and "of_int n + 1 \<le> (2 :: rat) powi bitlen n"
proof -
  have b: "1 \<le> bitlen n" using assms bitlen_eq_zero_iff [of n] bitlen_nonneg [of n] by linarith
  have "(of_int (2 ^ nat (bitlen n - 1)) :: rat) \<le> of_int n" "(of_int (n + 1) :: rat) \<le> of_int (2 ^ nat (bitlen n))"
    using bitlen_bounds [OF assms] by (simp_all only: of_int_le_iff) linarith
  with b show "2 powi (bitlen n - 1) \<le> (of_int n :: rat)" "of_int n + 1 \<le> (2 :: rat) powi bitlen n"
    by (simp_all add: power_int_nonneg_exp)
qed

lemma exponent_bounds:
  assumes "0 < x"
  shows "2 powi exponent_of x \<le> x" and "x < 2 powi (exponent_of x + 1)"
proof -
  have "2 powi exponent_of x \<le> x \<and> x < 2 powi (exponent_of x + 1)"
  proof (cases "1 \<le> x")
    case True
    then have "0 < \<lfloor>x\<rfloor>" by simp
    note b = bitlen_rat [OF this]
    have "2 powi (bitlen \<lfloor>x\<rfloor> - 1) \<le> x" "x < 2 powi bitlen \<lfloor>x\<rfloor>" using b of_int_floor_le [of x] by linarith+
    with True show ?thesis by (simp add: exponent_of_def)
  next
    case False
    define m where "m = \<lceil>1 / x\<rceil> - 1"
    have "1 < 1 / x" using False assms by simp
    then have "0 < m" by (simp add: m_def)
    note b = bitlen_rat [OF this]
    have m: "of_int m < 1 / x" "1 / x \<le> of_int m + 1" using ceiling_correct [of "1 / x"] by (simp_all add: m_def)
    have "1 / x \<le> 2 powi bitlen m" "2 powi (bitlen m - 1) < 1 / x" using b m by linarith+
    then have "1 / 2 powi bitlen m \<le> x" "x < 1 / 2 powi (bitlen m - 1)"
      using assms by (simp_all add: field_simps)
    moreover have "exponent_of x + 1 = - (bitlen m - 1)" "exponent_of x = - bitlen m"
      using False by (simp_all add: exponent_of_def m_def)
    ultimately show ?thesis by (simp only: power_int_minus_divide)
  qed
  then show "2 powi exponent_of x \<le> x" and "x < 2 powi (exponent_of x + 1)" by auto
qed

section \<open>Error of rounding\<close>

lemma double_pos:
  assumes "0 < x"
  obtains e where "2 powi e \<le> x" "x < 2 powi (e + 1)"
    "double x = of_int (round_even (x / 2 powi (e - 52))) * 2 powi (e - 52)"
  using exponent_bounds [OF assms] assms by (intro that [of "exponent_of x"]) (simp_all add: double_def Let_def)

lemma double_0 [simp]: "double 0 = 0"
  by (simp add: double_def)

lemma double_minus: "double (- x) = - double x"
  by (simp add: double_def Let_def)

text \<open>A whole number of at most 53 bits that bounds a number bounds the rounded number.\<close>

lemma double_ge_int:
  assumes "0 < x" and "of_int n \<le> x" and "n \<le> 2 ^ 53"
  shows "of_int n \<le> double x"
proof -
  obtain e where e: "2 powi e \<le> x" "x < 2 powi (e + 1)"
    and d: "double x = of_int (round_even (x / 2 powi (e - 52))) * 2 powi (e - 52)"
    by (rule double_pos [OF assms(1)])
  have u: "(0 :: rat) < 2 powi (e - 52)" by simp
  show ?thesis
  proof (cases "e \<le> 52")
    case True
    define m where "m = n * 2 ^ nat (52 - e)"
    have m: "(of_int m :: rat) * 2 powi (e - 52) = of_int n"
      using True power_int_minus_divide [of "2 :: rat" "52 - e"] by (simp add: m_def power_int_nonneg_exp)
    then have "of_int m \<le> x / 2 powi (e - 52)" using assms(2) u by (simp add: pos_le_divide_eq)
    then have "m \<le> round_even (x / 2 powi (e - 52))" by (rule round_even_ge)
    then have "(of_int m :: rat) * 2 powi (e - 52) \<le> double x" using u by (simp add: d)
    with m show ?thesis by simp
  next
    case False
    have "(2 :: rat) powi (e - 52) * 2 ^ 52 = 2 powi e" by (simp add: power_int_diff)
    then have "of_int (2 ^ 52) \<le> x / 2 powi (e - 52)" using e(1) u by (simp add: pos_le_divide_eq mult.commute)
    then have "2 ^ 52 \<le> round_even (x / 2 powi (e - 52))" by (rule round_even_ge)
    then have "(of_int (2 ^ 52) :: rat) \<le> of_int (round_even (x / 2 powi (e - 52)))" by (simp only: of_int_le_iff)
    then have "(of_int (2 ^ 52) :: rat) * 2 powi (e - 52) \<le> double x" unfolding d using u
      by (intro mult_right_mono) simp_all
    moreover have "(of_int n :: rat) \<le> of_int (2 ^ 53)" using assms(3) by (simp only: of_int_le_iff)
    moreover have "(2 :: rat) powi 53 \<le> 2 powi e" using False by (intro power_int_increasing) simp_all
    ultimately show ?thesis by (simp add: power_int_diff)
  qed
qed

text \<open>The distance of two positive numbers, in factors of one step between neighbours.\<close>

definition ratio :: rat where
  "ratio = 1 + 1 / 2 ^ 52"

lemma ratio_pos [simp]: "0 < ratio" "1 \<le> ratio" "0 \<le> ratio"
  by (simp_all add: ratio_def)

definition near :: "nat \<Rightarrow> rat \<Rightarrow> rat \<Rightarrow> bool" where
  "near k x y \<longleftrightarrow> 0 < x \<and> 0 < y \<and> x \<le> y * ratio ^ k \<and> y \<le> x * ratio ^ k"

lemma double_near:
  assumes "0 < x"
  shows "near 1 x (double x)"
proof -
  obtain e where e: "2 powi e \<le> x" "x < 2 powi (e + 1)"
    and d: "double x = of_int (round_even (x / 2 powi (e - 52))) * 2 powi (e - 52)"
    by (rule double_pos [OF assms])
  let ?u = "2 powi (e - 52) :: rat"
  have u: "0 < ?u" "?u * 2 ^ 52 = 2 powi e" by (simp_all add: power_int_diff)
  have "\<bar>double x - x\<bar> = \<bar>of_int (round_even (x / ?u)) - x / ?u\<bar> * ?u"
    using u(1) by (simp add: d abs_mult [symmetric] field_simps)
  also have "\<dots> \<le> 1 / 2 * ?u" using u(1) by (intro mult_right_mono round_even_near) simp
  also have "\<dots> \<le> x / 2 ^ 53" using e(1) u(2) by simp
  finally have "double x - x \<le> x / 2 ^ 53" "x - double x \<le> x / 2 ^ 53" by linarith+
  with assms show ?thesis by (simp add: near_def ratio_def)
qed

lemma ratio_scaled: "a \<le> b \<Longrightarrow> a * ratio ^ k \<le> b * ratio ^ k"
  by (simp add: mult_right_mono)

lemma near_trans: "near j x y \<Longrightarrow> near k y z \<Longrightarrow> near (j + k) x z"
proof -
  assume a: "near j x y" and b: "near k y z"
  have "x \<le> y * ratio ^ j" using a by (simp add: near_def)
  also have "\<dots> \<le> z * ratio ^ k * ratio ^ j" using b by (intro ratio_scaled) (simp add: near_def)
  finally have "x \<le> z * ratio ^ (j + k)" by (simp add: power_add mult.assoc mult.commute [of "ratio ^ j"])
  moreover have "z \<le> y * ratio ^ k" using b by (simp add: near_def)
  then have "z \<le> x * ratio ^ j * ratio ^ k"
    using ratio_scaled [of y "x * ratio ^ j" k] a by (meson near_def order_trans)
  ultimately show ?thesis using a b by (simp add: near_def power_add mult.assoc)
qed

lemma near_divide: "near j x y \<Longrightarrow> near k a b \<Longrightarrow> near (j + k) (x / a) (y / b)"
proof -
  assume n: "near j x y" and m: "near k a b"
  have "x * b \<le> (y * ratio ^ j) * (a * ratio ^ k)" "y * a \<le> (x * ratio ^ j) * (b * ratio ^ k)"
    using n m by (auto simp: near_def intro!: mult_mono)
  then show ?thesis using n m by (simp add: near_def power_add field_simps)
qed

lemma near_mono: "near j x y \<Longrightarrow> j \<le> k \<Longrightarrow> near k x y"
proof -
  assume n: "near j x y" and "j \<le> k"
  then have "ratio ^ j \<le> ratio ^ k" by (intro power_increasing) simp_all
  then have "y * ratio ^ j \<le> y * ratio ^ k" "x * ratio ^ j \<le> x * ratio ^ k"
    using n by (auto simp: near_def intro: mult_left_mono)
  with n show ?thesis unfolding near_def by (meson order_trans)
qed

lemma near_refl: "0 < x \<Longrightarrow> near 0 x x"
  by (simp add: near_def)

end
