(* ===== verification/Log_Texts.thy ===== *)
theory Log_Texts
  imports Activity JS_Double
begin

declare js_Cons [simp del]

text \<open>
  The texts of the log viewer: the relative time of an entry (\<open>bundle.js\<close> lines 18505--18560) and
  the shortened address (\<open>truncate\<close>, lines 22964--22982, with the symbols of a text, lines
  18703--18761 and 19285--19363). The theorems are that the relative time names the largest unit
  that fits and the number of whole units, exactly up to weeks and up to the rounding of divisions for
  months and years, and that shortening keeps whole characters.
\<close>

section \<open>Relative times\<close>

definition units :: "string list" where
  "units = [''second'', ''minute'', ''hour'', ''day'', ''week'', ''month'', ''year'']"

text \<open>The texts for a number of units and twice the index of the unit, plus one for a plural.\<close>

definition en_US :: "int \<Rightarrow> nat \<Rightarrow> jsstr \<times> jsstr" where
  "en_US t e =
     (if e = 0 then (js ''just now'', js ''right now'')
      else (let n = js (units ! (e div 2)) @ (if 1 < t then js ''s'' else [])
            in (js_of_int t @ js '' '' @ n @ js '' ago'', js ''in '' @ js_of_int t @ js '' '' @ n)))"

text \<open>Every quotient is rounded to a double.\<close>

definition factors :: "rat list" where
  "factors = [60, 60, 24, 7, double (double (365 / 7) / 12), 12]"

fun unit_loop :: "rat list \<Rightarrow> rat \<Rightarrow> nat \<Rightarrow> rat \<times> nat" where
  "unit_loop [] t l = (t, l)"
| "unit_loop (f # fs) t l = (if f \<le> t then unit_loop fs (double (t / f)) (Suc l) else (t, l))"

text \<open>\<open>None\<close> is a difference that is not a number, which no comparison holds of.\<close>

definition formatDiff :: "rat option \<Rightarrow> jsstr" where
  "formatDiff d =
     (case d of
        None \<Rightarrow> fst (en_US 0 0)
      | Some t0 \<Rightarrow>
          (let (t, l) = unit_loop factors \<bar>t0\<bar> 0;
               n = \<lfloor>t\<rfloor>;
               e = 2 * l + (if (if l = 0 then 9 else 1) < n then 1 else 0)
           in (if t0 < 0 then snd else fst) (en_US n e)))"

text \<open>A time in milliseconds; times that no \<open>Date\<close> has are not numbers.\<close>

definition toDate :: "jsval \<Rightarrow> int option" where
  "toDate v = (case v of Num n \<Rightarrow> if \<bar>n\<bar> \<le> 8640000000000000 then Some n else None | _ \<Rightarrow> None)"

text \<open>A difference in milliseconds, in seconds.\<close>

definition seconds :: "int \<Rightarrow> rat" where
  "seconds d = double (double (of_int d) / 1000)"

definition diffSec :: "int \<Rightarrow> jsval \<Rightarrow> rat option" where
  "diffSec now v = map_option (\<lambda>n. seconds (now - n)) (toDate v)"

definition format_ago :: "int \<Rightarrow> jsval \<Rightarrow> jsval" where
  "format_ago now v = Str (formatDiff (diffSec now v))"

section \<open>Symbols of a text\<close>

definition in_units :: "code_unit \<Rightarrow> (code_unit \<times> code_unit) list \<Rightarrow> bool" where
  "in_units c rs = list_ex (\<lambda>(a, b). a \<le> c \<and> c \<le> b) rs"

definition is_surrogate :: "code_unit \<Rightarrow> bool" where
  "is_surrogate c = in_units c [(0xD800, 0xDFFF)]"

definition hi_surrogate :: "code_unit \<Rightarrow> bool" where
  "hi_surrogate c = in_units c [(0xD800, 0xDBFF)]"

definition lo_surrogate :: "code_unit \<Rightarrow> bool" where
  "lo_surrogate c = in_units c [(0xDC00, 0xDFFF)]"

definition is_combo :: "code_unit \<Rightarrow> bool" where
  "is_combo c = in_units c [(0x0300, 0x036F), (0xFE20, 0xFE2F), (0x20D0, 0x20FF)]"

definition is_var :: "code_unit \<Rightarrow> bool" where
  "is_var c = in_units c [(0xFE0E, 0xFE0F)]"

definition hasUnicode :: "jsstr \<Rightarrow> bool" where
  "hasUnicode s = list_ex (\<lambda>c. c = 0x200D \<or> is_surrogate c \<or> is_combo c \<or> is_var c) s"

text \<open>The lengths of what the parts of the expression match at the beginning of a text.\<close>

fun fitz :: "jsstr \<Rightarrow> bool" where
  "fitz (a # b # s) = (a = 0xD83C \<and> in_units b [(0xDFFB, 0xDFFF)])"
| "fitz _ = False"

fun regional :: "jsstr \<Rightarrow> bool" where
  "regional (a # b # c # d # s) =
     (a = 0xD83C \<and> in_units b [(0xDDE6, 0xDDFF)] \<and> c = 0xD83C \<and> in_units d [(0xDDE6, 0xDDFF)])"
| "regional _ = False"

fun surr_pair :: "jsstr \<Rightarrow> bool" where
  "surr_pair (a # b # s) = (hi_surrogate a \<and> lo_surrogate b)"
| "surr_pair _ = False"

definition opt_var :: "jsstr \<Rightarrow> nat" where
  "opt_var s = (case s of c # _ \<Rightarrow> if is_var c then 1 else 0 | [] \<Rightarrow> 0)"

definition opt_mod :: "jsstr \<Rightarrow> nat" where
  "opt_mod s = (case s of [] \<Rightarrow> 0 | c # _ \<Rightarrow> if is_combo c then 1 else if fitz s then 2 else 0)"

definition var_mod :: "jsstr \<Rightarrow> nat" where
  "var_mod s = (let v = opt_var s in v + opt_mod (drop v s))"

definition joined :: "jsstr \<Rightarrow> nat" where
  "joined s =
     (case s of
        [] \<Rightarrow> 0
      | c # _ \<Rightarrow> if \<not> is_surrogate c then 1 else if regional s then 4 else if surr_pair s then 2 else 0)"

function opt_join :: "jsstr \<Rightarrow> nat" where
  "opt_join s =
     (case s of
        [] \<Rightarrow> 0
      | c # r \<Rightarrow>
          if c = 0x200D \<and> joined r \<noteq> 0
          then (let k = 1 + joined r + var_mod (drop (joined r) r) in k + opt_join (drop k s))
          else 0)"
  by pat_completeness auto
termination
  by (relation "measure length") auto

declare opt_join.simps [simp del]

definition seq_length :: "jsstr \<Rightarrow> nat" where
  "seq_length s = (let k = var_mod s in k + opt_join (drop k s))"

text \<open>The length of the first symbol of a text that is not empty.\<close>

definition symbol_length :: "jsstr \<Rightarrow> nat" where
  "symbol_length s =
     (if fitz s \<and> fitz (drop 2 s) then 2
      else (let k = (case s of
                       [] \<Rightarrow> 0
                     | c # r \<Rightarrow>
                         if \<not> is_surrogate c
                         then 1 + (case r of d # _ \<Rightarrow> if is_combo d then 1 else 0 | [] \<Rightarrow> 0)
                         else if regional s then 4 else if surr_pair s then 2 else 1)
            in k + seq_length (drop k s)))"

lemma symbol_length_pos: "s \<noteq> [] \<Longrightarrow> 0 < symbol_length s"
  by (cases s) (auto simp: symbol_length_def Let_def)

function unicodeToArray :: "jsstr \<Rightarrow> jsstr list" where
  "unicodeToArray [] = []"
| "unicodeToArray (c # s) =
     take (symbol_length (c # s)) (c # s) # unicodeToArray (drop (symbol_length (c # s)) (c # s))"
  by pat_completeness auto
termination
  by (relation "measure length") (auto simp: symbol_length_pos)

definition stringToArray :: "jsstr \<Rightarrow> jsstr list" where
  "stringToArray s = (if hasUnicode s then unicodeToArray s else map (\<lambda>c. [c]) s)"

definition stringSize :: "jsstr \<Rightarrow> nat" where
  "stringSize s = (if hasUnicode s then length (unicodeToArray s) else length s)"

definition truncate_text :: "int \<Rightarrow> jsstr \<Rightarrow> jsstr \<Rightarrow> jsstr" where
  "truncate_text n omission s =
     (if int (stringSize s) \<le> n then s
      else (let k = n - int (stringSize omission)
            in if k < 1 then omission
               else (if hasUnicode s then concat (take (nat k) (unicodeToArray s)) else take (nat k) s)
                    @ omission))"

text \<open>\<open>toString\<close> of the library: nothing for a missing value, and elements of arrays in full.\<close>

fun base_text :: "(jsval \<Rightarrow> jsstr) \<Rightarrow> jsval \<Rightarrow> jsstr" where
  "base_text other (Arr vs) = join_with (js '','') (map (base_text other) vs)"
| "base_text other v = to_string other v"

definition truncate_value :: "(jsval \<Rightarrow> jsstr) \<Rightarrow> jsval \<Rightarrow> jsval" where
  "truncate_value other v =
     Str (truncate_text 50 (js ''...'') (if nullish v then [] else base_text other v))"

definition log_texts_at :: "(jsval \<Rightarrow> jsstr) \<Rightarrow> int \<Rightarrow> log_texts" where
  "log_texts_at other now = \<lparr>format_time = format_ago now, truncate_url = truncate_value other\<rparr>"

section \<open>Units of relative times\<close>

text \<open>The exact lengths of the units.\<close>

definition exact_factors :: "rat list" where
  "exact_factors = map of_int [60, 60, 24, 7] @ [365 / 7 / 12, 12]"

definition unit_seconds :: "nat \<Rightarrow> rat" where
  "unit_seconds l = prod_list (take l exact_factors)"

lemma unit_loop_grows: "unit_loop fs t l = (u, k) \<Longrightarrow> l \<le> k \<and> (k = l \<longrightarrow> u = t)"
proof (induction fs arbitrary: t l)
  case (Cons f fs)
  then show ?case by (cases "f \<le> t") fastforce+
qed simp

lemma unit_loop_near:
  assumes "unit_loop fs t l = (u, k)" and "list_all2 (near 2) es fs" and "near m x t"
  shows "\<exists>j. k = l + j \<and> j \<le> length fs \<and> near (m + 3 * j) (x / prod_list (take j es)) u \<and>
    (j < length fs \<longrightarrow> u < fs ! j) \<and> (0 < j \<longrightarrow> 1 \<le> u)"
  using assms
proof (induction fs arbitrary: t l es x m)
  case (Cons f fs)
  then obtain e es' where es: "es = e # es'" "near 2 e f" "list_all2 (near 2) es' fs" by (auto simp: list_all2_Cons2)
  show ?case
  proof (cases "f \<le> t")
    case False
    with Cons.prems show ?thesis by (intro exI [of _ 0]) auto
  next
    case True
    have q: "near (m + 2) (x / e) (t / f)" by (rule near_divide [OF Cons.prems(3) es(2)])
    then have p: "0 < t / f" by (simp add: near_def)
    have n: "near (m + 3) (x / e) (double (t / f))" using near_trans [OF q double_near [OF p]] by (simp add: numeral_3_eq_3)
    obtain j where j: "k = Suc l + j" "j \<le> length fs" "near (m + 3 + 3 * j) (x / e / prod_list (take j es')) u"
      "j < length fs \<longrightarrow> u < fs ! j" "0 < j \<longrightarrow> 1 \<le> u"
      using Cons.IH [OF _ es(3) n, of "Suc l"] Cons.prems(1) True by auto
    have "1 \<le> double (t / f)" using double_ge_int [OF p, of 1] True es(2) by (simp add: near_def)
    moreover have "u = double (t / f)" if "j = 0"
      using unit_loop_grows [of fs "double (t / f)" "Suc l" u k] Cons.prems(1) True that j(1) by simp
    ultimately show ?thesis using j es(1) by (intro exI [of _ "Suc j"]) (auto simp: algebra_simps)
  qed
qed simp

lemma prod_list_ge_1: "list_all (\<lambda>i. 1 \<le> i) xs \<Longrightarrow> 1 \<le> prod_list (xs :: int list)"
proof (induction xs)
  case (Cons x xs)
  with mult_mono [of 1 x 1 "prod_list xs"] show ?case by simp
qed simp

text \<open>Whole factors lose no whole unit.\<close>

lemma unit_loop_whole:
  assumes "unit_loop (map of_int ks @ gs) t l = (u, l + j)" and "j \<le> length ks" and "list_all (\<lambda>i. 1 \<le> i) ks"
    and "1 \<le> n" and "of_int (n * prod_list (take j ks)) \<le> t" and "n * prod_list (take j ks) \<le> 2 ^ 53"
  shows "of_int n \<le> u"
  using assms
proof (induction j arbitrary: ks t l)
  case 0
  then show ?case using unit_loop_grows [of "map of_int ks @ gs" t l u l] by simp
next
  case (Suc j)
  then obtain i ks' where ks: "ks = i # ks'" "1 \<le> i" "list_all (\<lambda>i. 1 \<le> i) ks'" by (cases ks) auto
  let ?p = "n * prod_list (take j ks')"
  have "list_all (\<lambda>i. 1 \<le> i) (take j ks')" using ks(3) by (auto simp: list_all_iff dest: in_set_takeD)
  then have "1 \<le> prod_list (take j ks')" by (rule prod_list_ge_1)
  then have p: "1 \<le> ?p" using Suc.prems(4) mult_mono [of 1 n 1 "prod_list (take j ks')"] by simp
  have le: "of_int (?p * i) \<le> t" "?p * i \<le> 2 ^ 53"
    using Suc.prems(5,6) by (simp_all add: ks(1) mult.assoc mult.commute mult.left_commute)
  have pi: "?p \<le> ?p * i" "i \<le> ?p * i" 
    using p ks(2) mult_left_mono [of 1 i ?p] mult_right_mono [of 1 ?p i] by simp_all
  have "(of_int i :: rat) \<le> of_int (?p * i)" using pi(2) by (simp only: of_int_le_iff)
  then have t1: "of_int i \<le> t" using le(1) by (rule order_trans)
  moreover have i0: "(0 :: rat) < of_int i" using ks(2) by simp
  ultimately have t: "of_int i \<le> t" "0 < t / of_int i" "of_int ?p \<le> t / of_int i"
    using le(1) by (simp_all add: pos_le_divide_eq less_le_trans)
  show ?case
  proof (rule Suc.IH [of ks' "double (t / of_int i)" "Suc l"])
    show "unit_loop (map of_int ks' @ gs) (double (t / of_int i)) (Suc l) = (u, Suc l + j)"
      using Suc.prems(1) t(1) by (simp add: ks(1))
    show "of_int ?p \<le> double (t / of_int i)"
      using double_ge_int [OF t(2,3)] pi(1) le(2) by linarith
    show "?p \<le> 2 ^ 53" using pi(1) le(2) by linarith
  qed (use Suc.prems ks in auto)
qed

lemma near_factors: "list_all2 (near 2) exact_factors factors"
proof -
  have "near 1 (365 / 7) (double (365 / 7))" by (rule double_near) simp
  from near_divide [OF this near_refl [of 12]] have q: "near 1 (365 / 7 / 12) (double (365 / 7) / 12)" by simp
  then have "near 2 (365 / 7 / 12) (double (double (365 / 7) / 12))"
    using near_trans [OF q double_near] by (simp add: near_def numeral_2_eq_2)
  moreover have "near 2 x x" if "0 < x" for x using near_mono [OF near_refl [OF that]] by simp
  ultimately show ?thesis by (simp add: exact_factors_def factors_def)
qed

lemma month_factor: "factors ! 4 \<le> 5"
proof -
  have "near 2 (365 / 7 / 12) (factors ! 4)" using near_factors by (simp add: exact_factors_def factors_def)
  then have "factors ! 4 \<le> 365 / 7 / 12 * ratio ^ 2" by (simp add: near_def)
  also have "\<dots> \<le> 5" by (simp add: ratio_def power2_eq_square)
  finally show ?thesis .
qed

lemma ratio_small: "ratio ^ 22 \<le> 1 + 1 / 2 ^ 47"
  by (simp add: ratio_def power_divide)

lemma near_bounds:
  assumes "near k x y" and "k \<le> 22"
  shows "x \<le> y * (1 + 1 / 2 ^ 47)" and "y \<le> x * (1 + 1 / 2 ^ 47)"
proof -
  have n: "near 22 x y" using assms by (rule near_mono)
  then have "y * ratio ^ 22 \<le> y * (1 + 1 / 2 ^ 47)" "x * ratio ^ 22 \<le> x * (1 + 1 / 2 ^ 47)"
    using ratio_small by (auto simp: near_def intro: mult_left_mono)
  then show "x \<le> y * (1 + 1 / 2 ^ 47)" and "y \<le> x * (1 + 1 / 2 ^ 47)"
    using n unfolding near_def by (meson order_trans)+
qed

section \<open>The number of units\<close>

lemma seconds_near: "0 < d \<Longrightarrow> near 2 (of_int d / 1000) (seconds d)"
proof -
  assume "0 < d"
  then have "near 1 (of_int d) (double (of_int d))" by (intro double_near) simp
  from near_divide [OF this near_refl [of 1000]] have q: "near 1 (of_int d / 1000) (double (of_int d) / 1000)" by simp
  then show ?thesis using near_trans [OF q double_near] by (simp add: near_def seconds_def numeral_2_eq_2)
qed

lemma seconds_ge:
  assumes "0 < q" and "1000 * q \<le> d" and "1000 * q \<le> 2 ^ 53"
  shows "of_int q \<le> seconds d"
proof -
  have d: "(0 :: rat) < of_int d" "(of_int (1000 * q) :: rat) \<le> of_int d" using assms(1,2) by simp_all
  have "of_int (1000 * q) \<le> double (of_int d)" by (rule double_ge_int [OF d assms(3)])
  then have "of_int q \<le> double (of_int d) / 1000" by simp
  moreover have "0 < double (of_int d) / 1000" using double_near [OF d(1)] by (simp add: near_def)
  ultimately show ?thesis unfolding seconds_def using assms(1,3) by (intro double_ge_int) simp_all
qed

lemma units_loop:
  assumes "0 < d" and "unit_loop factors (seconds d) 0 = (u, l)"
  shows "l \<le> 6" and "near 20 (of_int d / 1000 / unit_seconds l) u" and "l < 6 \<Longrightarrow> u < factors ! l"
    and "0 < l \<Longrightarrow> 1 \<le> u"
proof -
  obtain j where "l = j" "j \<le> length factors" "near (2 + 3 * j) (of_int d / 1000 / prod_list (take j exact_factors)) u"
    "j < length factors \<longrightarrow> u < factors ! j" "0 < j \<longrightarrow> 1 \<le> u"
    using unit_loop_near [OF assms(2) near_factors seconds_near [OF assms(1)]] by auto
  then show "l \<le> 6" "near 20 (of_int d / 1000 / unit_seconds l) u" "l < 6 \<Longrightarrow> u < factors ! l" "0 < l \<Longrightarrow> 1 \<le> u"
    using near_mono [of "2 + 3 * j" _ u 20] by (auto simp: unit_seconds_def factors_def)
qed

text \<open>Up to weeks: so many units are counted exactly when so many have passed.\<close>

definition whole_seconds :: "nat \<Rightarrow> int" where
  "whole_seconds l = prod_list (take l [60, 60, 24, 7])"

lemma whole_unit: "l \<le> 4 \<Longrightarrow> unit_seconds l = of_int (whole_seconds l)"
  by (auto simp: unit_seconds_def whole_seconds_def exact_factors_def le_Suc_eq numeral_eq_Suc)

lemma whole_seconds_range: "1 \<le> whole_seconds l" "whole_seconds l \<le> 604800"
proof -
  have "l \<in> {0, 1, 2, 3} \<or> 4 \<le> l" by auto
  then show "1 \<le> whole_seconds l" "whole_seconds l \<le> 604800"
    by (auto simp: whole_seconds_def numeral_eq_Suc)
qed

lemma whole_units:
  assumes "0 < d" and "unit_loop factors (seconds d) 0 = (u, l)" and "l \<le> 4" and "1 \<le> m" and "m \<le> 100"
  shows "of_int m \<le> u \<longleftrightarrow> m * whole_seconds l * 1000 \<le> d"
proof
  let ?U = "whole_seconds l"
  have U: "1 \<le> ?U" "m * ?U \<le> 100 * 604800"
    using whole_seconds_range [of l] assms(4,5) mult_mono [of m 100 ?U 604800] by simp_all
  show "of_int m \<le> u" if "m * ?U * 1000 \<le> d"
  proof (rule unit_loop_whole [of "[60, 60, 24, 7]" "drop 4 factors" "seconds d" 0 u l m])
    show "unit_loop (map of_int [60, 60, 24, 7] @ drop 4 factors) (seconds d) 0 = (u, 0 + l)"
      using assms(2) by (simp add: factors_def)
    have "0 < m * ?U" using U(1) assms(4) by simp
    then show "of_int (m * prod_list (take l [60, 60, 24, 7])) \<le> seconds d"
      using seconds_ge [of "m * ?U" d] that U(2) unfolding whole_seconds_def [symmetric] by simp
    show "m * prod_list (take l [60, 60, 24, 7]) \<le> 2 ^ 53"
      using U(2) unfolding whole_seconds_def [symmetric] by simp
  qed (use assms in auto)
  show "m * ?U * 1000 \<le> d" if m: "of_int m \<le> u"
  proof (rule ccontr)
    define M where "M = m * ?U * 1000"
    assume "\<not> m * ?U * 1000 \<le> d"
    then have "(of_int d :: rat) \<le> of_int (M - 1)" unfolding M_def of_int_le_iff by linarith
    moreover have "u \<le> of_int d / 1000 / of_int ?U * (1 + 1 / 2 ^ 47)"
      using near_bounds(2) [OF units_loop(2) [OF assms(1,2)]] whole_unit [OF assms(3)] by simp
    with m have "of_int m \<le> of_int d / 1000 / of_int ?U * (1 + 1 / 2 ^ 47 :: rat)" by (rule order_trans)
    then have "of_int M \<le> of_int d * (1 + 1 / 2 ^ 47 :: rat)" using U(1) by (simp add: M_def field_simps)
    ultimately have "of_int M \<le> (of_int M - 1) * (1 + 1 / 2 ^ 47 :: rat)"
      by (simp add: field_simps)
    moreover have "(of_int M :: rat) \<le> of_int 60480000000" unfolding of_int_le_iff M_def using U(2) by linarith
    ultimately show False by (simp add: field_simps)
  qed
qed

lemma just_now:
  assumes "d < 10000" and "0 \<le> d"
  shows "unit_loop factors (seconds d) 0 = (seconds d, 0)" and "\<lfloor>seconds d\<rfloor> \<le> 9"
proof -
  have "seconds d < 10"
  proof (cases "d = 0")
    case False
    then have "seconds d \<le> of_int d / 1000 * (1 + 1 / 2 ^ 47)"
      using near_bounds(2) [OF seconds_near] assms(2) by simp
    moreover have "(of_int d :: rat) \<le> of_int 9999" unfolding of_int_le_iff using assms(1) by simp
    ultimately show ?thesis by (simp add: field_simps)
  qed (simp add: seconds_def)
  then show "unit_loop factors (seconds d) 0 = (seconds d, 0)" "\<lfloor>seconds d\<rfloor> \<le> 9"
    by (simp_all add: factors_def floor_le_iff)
qed

lemma unit_seconds_pos: "0 < unit_seconds l"
proof -
  have "l \<in> {0, 1, 2, 3, 4, 5} \<or> 6 \<le> l" by auto
  then show ?thesis by (auto simp: unit_seconds_def exact_factors_def numeral_eq_Suc)
qed

lemma unit_seconds_Suc: "l < 6 \<Longrightarrow> unit_seconds (Suc l) = unit_seconds l * exact_factors ! l"
  using take_Suc_conv_app_nth [of l exact_factors] by (simp add: unit_seconds_def exact_factors_def)

lemma factor_bound: "l \<le> 4 \<Longrightarrow> factors ! l \<le> 60"
proof -
  assume "l \<le> 4"
  then have "l \<in> {0, 1, 2, 3, 4}" by auto
  with month_factor show ?thesis by (auto simp: factors_def numeral_eq_Suc)
qed

lemma whole_factor:
  assumes "l < 4"
  obtains i where "factors ! l = of_int i" "exact_factors ! l = of_int i" "1 \<le> i" "i \<le> 100"
proof
  let ?i = "[60, 60, 24, 7] ! l :: int"
  have "l \<in> {0, 1, 2, 3}" using assms by auto
  then show "factors ! l = of_int ?i" "exact_factors ! l = of_int ?i" "1 \<le> ?i" "?i \<le> 100"
    by (auto simp: factors_def exact_factors_def numeral_eq_Suc)
qed

text \<open>What a result of the loop says of the time that has passed.\<close>

lemma units_near:
  assumes "0 < d" and "unit_loop factors (seconds d) 0 = (u, l)"
  defines "t \<equiv> of_int d / 1000"
  shows "of_int \<lfloor>u\<rfloor> * unit_seconds l \<le> t * (1 + 1 / 2 ^ 47)"
    and "t \<le> (of_int \<lfloor>u\<rfloor> + 1) * unit_seconds l * (1 + 1 / 2 ^ 47)"
    and "l < 6 \<Longrightarrow> t \<le> unit_seconds (Suc l) * (1 + 1 / 2 ^ 47)"
proof -
  note L = units_loop [OF assms(1,2)] and U = unit_seconds_pos [of l]
  note N = near_bounds [OF L(2)]
  have "u * unit_seconds l \<le> t * (1 + 1 / 2 ^ 47)" using N(2) U by (simp add: t_def field_simps)
  moreover have "of_int \<lfloor>u\<rfloor> * unit_seconds l \<le> u * unit_seconds l"
    using U of_int_floor_le [of u] by (intro mult_right_mono) simp_all
  ultimately show "of_int \<lfloor>u\<rfloor> * unit_seconds l \<le> t * (1 + 1 / 2 ^ 47)" by linarith
  have hi: "t \<le> u * unit_seconds l * (1 + 1 / 2 ^ 47)" using N(1) U by (simp add: t_def field_simps)
  also have "\<dots> \<le> (of_int \<lfloor>u\<rfloor> + 1) * unit_seconds l * (1 + 1 / 2 ^ 47)"
    using U floor_correct [of u] by (intro mult_right_mono) simp_all
  finally show "t \<le> (of_int \<lfloor>u\<rfloor> + 1) * unit_seconds l * (1 + 1 / 2 ^ 47)" .
  show "t \<le> unit_seconds (Suc l) * (1 + 1 / 2 ^ 47)" if "l < 6"
  proof -
    have f: "near 2 (exact_factors ! l) (factors ! l)"
      using near_factors that by (simp add: list_all2_conv_all_nth factors_def)
    have "t / unit_seconds l \<le> u * ratio ^ 20" using L(2) by (simp add: near_def t_def)
    also have "\<dots> \<le> factors ! l * ratio ^ 20" using L(3) [OF that] by (intro ratio_scaled) simp
    also have "\<dots> \<le> exact_factors ! l * ratio ^ 2 * ratio ^ 20" using f by (intro ratio_scaled) (simp add: near_def)
    also have "\<dots> = exact_factors ! l * ratio ^ 22" by (simp add: mult.assoc power_add [symmetric])
    also have "\<dots> \<le> exact_factors ! l * (1 + 1 / 2 ^ 47)"
      using f ratio_small by (intro mult_left_mono) (simp_all add: near_def)
    finally show ?thesis using U unfolding unit_seconds_Suc [OF that] by (simp add: pos_divide_le_eq mult_ac)
  qed
qed

lemma units_exact:
  assumes "0 < d" and "unit_loop factors (seconds d) 0 = (u, l)" and "l \<le> 4" and "1 \<le> \<lfloor>u\<rfloor>"
  defines "t \<equiv> of_int d / 1000" and "m \<equiv> \<lfloor>u\<rfloor>"
  shows "of_int m * unit_seconds l \<le> t \<and> t < (of_int m + 1) * unit_seconds l"
    and "l < 4 \<Longrightarrow> t < unit_seconds (Suc l)"
proof -
  note W = whole_units [OF assms(1-3)]
  have m: "of_int m \<le> u" "\<not> of_int (m + 1) \<le> u" "1 \<le> m"
    using assms(4) floor_correct [of u] by (simp_all add: m_def not_le)
  have u: "u < factors ! l" using units_loop(3) [OF assms(1,2)] assms(3) by simp
  then have "(of_int m :: rat) < of_int 60" using m(1) factor_bound [OF assms(3)] by simp
  then have b: "m < 60" by (simp only: of_int_less_iff)
  have scale: "n * whole_seconds l * 1000 \<le> d \<longleftrightarrow> of_int n * unit_seconds l \<le> t" for n
  proof -
    have "n * whole_seconds l * 1000 \<le> d \<longleftrightarrow> (of_int (n * whole_seconds l * 1000) :: rat) \<le> of_int d"
      by (simp only: of_int_le_iff)
    then show ?thesis by (simp add: whole_unit [OF assms(3)] t_def pos_le_divide_eq)
  qed
  show "of_int m * unit_seconds l \<le> t \<and> t < (of_int m + 1) * unit_seconds l"
    using W [of m] W [of "m + 1"] m b unfolding scale by (simp add: not_le)
  show "t < unit_seconds (Suc l)" if l: "l < 4"
  proof -
    obtain i where i: "factors ! l = of_int i" "exact_factors ! l = of_int i" "1 \<le> i" "i \<le> 100"
      by (rule whole_factor [OF l])
    then have "\<not> of_int i * unit_seconds l \<le> t" using W [of i] u unfolding scale by simp
    then show ?thesis using l i(2) by (simp add: unit_seconds_Suc not_le mult.commute)
  qed
qed

text \<open>
  Claim C27: an entry of less than ten seconds ago is shown as just now. Any other entry of the past
  is shown as a number of units that is at least one. Up to weeks so many whole units have passed,
  not one more, and up to days the next larger unit has not passed. For months and years, and for the
  choice between weeks, months and years, the same holds up to a relative error of \<open>2\<^sup>-\<^sup>4\<^sup>7\<close>, since the
  quotients are rounded.
\<close>

theorem relative_time_correct:
  assumes "toDate v = Some n" and "n \<le> now"
  defines "t \<equiv> of_int (now - n) / 1000"
  shows "if t < 10 then format_ago now v = Str (js ''just now'')
    else \<exists>l < 7. \<exists>m \<ge> 1.
      format_ago now v = Str (js_of_int m @ js '' '' @ js (units ! l) @ (if 1 < m then js ''s'' else []) @ js '' ago'') \<and>
      (l \<le> 4 \<longrightarrow> of_int m * unit_seconds l \<le> t \<and> t < (of_int m + 1) * unit_seconds l) \<and>
      of_int m * unit_seconds l \<le> t * (1 + 1 / 2 ^ 47) \<and>
      t \<le> (of_int m + 1) * unit_seconds l * (1 + 1 / 2 ^ 47) \<and>
      (l < 4 \<longrightarrow> t < unit_seconds (Suc l)) \<and>
      (l < 6 \<longrightarrow> t \<le> unit_seconds (Suc l) * (1 + 1 / 2 ^ 47))"
proof -
  define d where "d = now - n"
  obtain u l where loop: "unit_loop factors (seconds d) 0 = (u, l)" by (cases "unit_loop factors (seconds d) 0")
  define e where "e = 2 * l + (if (if l = 0 then 9 else 1) < \<lfloor>u\<rfloor> then 1 else 0 :: nat)"
  have "0 \<le> seconds d" using seconds_near [of d] assms(2) by (cases "d = 0") (auto simp: near_def seconds_def d_def)
  moreover have "diffSec now v = Some (seconds d)" by (simp add: diffSec_def assms(1) d_def)
  ultimately have shown: "format_ago now v = Str (fst (en_US \<lfloor>u\<rfloor> e))"
    using loop by (simp add: format_ago_def formatDiff_def e_def Let_def)
  have "t < 10 \<longleftrightarrow> (of_int d :: rat) < of_int 10000" by (simp add: t_def d_def)
  then have small: "t < 10 \<longleftrightarrow> d < 10000" by (simp only: of_int_less_iff)
  show ?thesis
  proof (cases "d < 10000")
    case True
    with just_now [OF True] assms(2) loop shown small show ?thesis by (simp add: d_def e_def en_US_def)
  next
    case False
    then have d: "0 < d" by simp
    have ten: "10 \<le> \<lfloor>u\<rfloor>" if "l = 0"
      using whole_units [OF d loop, of 10] that False by (simp add: le_floor_iff whole_seconds_def)
    then have m: "1 \<le> \<lfloor>u\<rfloor>" using units_loop(4) [OF d loop] by (cases "l = 0") (auto simp: le_floor_iff)
    have f: "format_ago now v =
        Str (js_of_int \<lfloor>u\<rfloor> @ js '' '' @ js (units ! l) @ (if 1 < \<lfloor>u\<rfloor> then js ''s'' else []) @ js '' ago'')"
      using shown ten by (auto simp: en_US_def Let_def e_def)
    have l: "l < 7" using units_loop(1) [OF d loop] by simp
    have "t = of_int d / 1000" by (simp add: t_def d_def)
    note N = units_near [OF d loop, folded this] and X = units_exact [OF d loop _ m, folded this]
    have late: "\<not> t < 10" using False small by simp
    show ?thesis unfolding if_not_P [OF late]
      by (intro exI [of _ l] exI [of _ "\<lfloor>u\<rfloor>"] conjI impI l m f N X X(1) [THEN conjunct1] X(1) [THEN conjunct2])
        simp_all
  qed
qed

theorem relative_time_correct_witness:
  "toDate (Num 0) = Some 0 \<and> (0 :: int) \<le> 7200000 \<and>
   (\<exists>l < 7. \<exists>m \<ge> 1. format_ago 7200000 (Num 0) =
      Str (js_of_int m @ js '' '' @ js (units ! l) @ (if 1 < m then js ''s'' else []) @ js '' ago'') \<and>
      (l \<le> 4 \<longrightarrow> of_int m * unit_seconds l \<le> 7200 \<and> 7200 < (of_int m + 1) * unit_seconds l))"
proof -
  have d: "toDate (Num 0) = Some 0" by (simp add: toDate_def)
  have t: "of_int (7200000 - 0) / 1000 = (7200 :: rat)" "\<not> (7200 :: rat) < 10" by simp_all
  have z: "(0 :: int) \<le> 7200000" by simp
  from relative_time_correct [OF d z, unfolded t(1), unfolded if_not_P [OF t(2)]] d z show ?thesis by blast
qed

text \<open>The rounding shows: exactly seven months are shown as six, and exactly three years as two.\<close>

lemma seven_months: "format_ago 18396000000 (Num 0) = Str (js ''6 months ago'')"
  by code_simp

lemma three_years: "format_ago 94608000000 (Num 0) = Str (js ''2 years ago'')"
  by code_simp

section \<open>Whole characters\<close>

text \<open>Texts in which every surrogate belongs to a pair.\<close>

fun utf16_ok :: "jsstr \<Rightarrow> bool" where
  "utf16_ok [] = True"
| "utf16_ok (c # s) =
     (if hi_surrogate c then (case s of d # r \<Rightarrow> lo_surrogate d \<and> utf16_ok r | [] \<Rightarrow> False)
      else \<not> lo_surrogate c \<and> utf16_ok s)"

lemma surrogate_split: "is_surrogate c \<longleftrightarrow> hi_surrogate c \<or> lo_surrogate c"
  unfolding is_surrogate_def hi_surrogate_def lo_surrogate_def in_units_def by (simp, unat_arith)

lemma utf16_ok_append: "utf16_ok s \<Longrightarrow> utf16_ok t \<Longrightarrow> utf16_ok (s @ t)"
  by (induction s rule: utf16_ok.induct) (auto split: list.splits if_splits)

text \<open>A length at which a text can be cut between characters.\<close>

definition cut_at :: "jsstr \<Rightarrow> nat \<Rightarrow> bool" where
  "cut_at s n \<longleftrightarrow> utf16_ok (take n s) \<and> utf16_ok (drop n s)"

lemma cut_0: "utf16_ok s \<Longrightarrow> cut_at s 0"
  by (simp add: cut_at_def)

lemma cut_add: "cut_at s n \<Longrightarrow> cut_at (drop n s) m \<Longrightarrow> cut_at s (n + m)"
  by (auto simp: cut_at_def take_add utf16_ok_append add.commute [of m n])

lemma cut_1: "utf16_ok (c # s) \<Longrightarrow> \<not> is_surrogate c \<Longrightarrow> cut_at (c # s) (Suc 0)"
  by (simp add: cut_at_def surrogate_split)

lemma cut_pair: "utf16_ok s \<Longrightarrow> surr_pair s \<Longrightarrow> cut_at s 2"
  by (induction s rule: surr_pair.induct) (auto simp: cut_at_def numeral_2_eq_2)

lemma no_surrogates:
  "is_var c \<Longrightarrow> \<not> is_surrogate c" "is_combo c \<Longrightarrow> \<not> is_surrogate c" "\<not> is_surrogate 0x200D"
  unfolding is_surrogate_def is_var_def is_combo_def in_units_def by (simp_all, unat_arith+)

declare utf16_ok.simps [simp del]

lemma lo_range: "0xDC00 \<le> a \<Longrightarrow> b \<le> 0xDFFF \<Longrightarrow> in_units c [(a, b)] \<Longrightarrow> lo_surrogate c"
  by (auto simp: in_units_def lo_surrogate_def)

lemma hi_d83c: "hi_surrogate 0xD83C"
  by (simp add: hi_surrogate_def in_units_def)

lemma fitz_pair: "fitz s \<Longrightarrow> surr_pair s"
  by (induction s rule: fitz.induct) (auto simp: hi_d83c intro: lo_range [rotated 2])

lemma lo_regional: "in_units c [(0xDDE6, 0xDDFF)] \<Longrightarrow> lo_surrogate c"
  by (rule lo_range [of "0xDDE6" "0xDDFF"]) simp_all

lemma regional_pairs: "regional s \<Longrightarrow> surr_pair s \<and> surr_pair (drop 2 s)"
  by (induction s rule: regional.induct) (auto simp: hi_d83c numeral_2_eq_2 lo_regional)

lemma cut_ok: "cut_at s n \<Longrightarrow> utf16_ok (drop n s)"
  by (simp add: cut_at_def)

lemma cut_regional: "utf16_ok s \<Longrightarrow> regional s \<Longrightarrow> cut_at s 4"
  using cut_add [of s 2 2] cut_pair [of s] cut_pair [of "drop 2 s"] regional_pairs [of s] cut_ok [of s 2]
  by simp

lemma cut_opt_var: "utf16_ok s \<Longrightarrow> cut_at s (opt_var s)"
  by (cases s) (auto simp: opt_var_def cut_0 intro: cut_1 dest: no_surrogates(1))

lemma cut_opt_mod: "utf16_ok s \<Longrightarrow> cut_at s (opt_mod s)"
  by (cases s) (auto simp: opt_mod_def cut_0 intro: cut_1 cut_pair fitz_pair dest: no_surrogates(2))

lemma cut_var_mod: "utf16_ok s \<Longrightarrow> cut_at s (var_mod s)"
  by (simp add: var_mod_def Let_def cut_add cut_opt_var cut_opt_mod cut_ok)

lemma cut_joined: "utf16_ok s \<Longrightarrow> cut_at s (joined s)"
  by (cases s) (auto simp: joined_def cut_0 intro: cut_1 cut_pair cut_regional)

lemma cut_opt_join: "utf16_ok s \<Longrightarrow> cut_at s (opt_join s)"
proof (induction s rule: opt_join.induct)
  case (1 s)
  show ?case
  proof (cases "\<exists>r. s = 0x200D # r \<and> joined r \<noteq> 0")
    case True
    then obtain r where r: "s = 0x200D # r" "joined r \<noteq> 0" by blast
    let ?k = "1 + joined r + var_mod (drop (joined r) r)"
    have c1: "cut_at s 1" using 1(2) r(1) no_surrogates(3) by (auto intro: cut_1)
    then have r_ok: "utf16_ok r" using cut_ok [OF c1] r(1) by simp
    have "cut_at r (joined r + var_mod (drop (joined r) r))"
      using cut_joined [OF r_ok] by (intro cut_add cut_var_mod) (auto intro: cut_ok)
    then have k: "cut_at s ?k" using cut_add [OF c1] r(1) by simp
    have "cut_at (drop ?k s) (opt_join (drop ?k s))"
      using 1(1) [OF r(1) _ refl] r(2) cut_ok [OF k] by simp
    then have "cut_at s (?k + opt_join (drop ?k s))" by (rule cut_add [OF k])
    then show ?thesis using r by (simp add: opt_join.simps [of "0x200D # r"] Let_def)
  next
    case False
    then have "opt_join s = 0" by (subst opt_join.simps) (auto split: list.splits)
    with 1(2) show ?thesis by (simp add: cut_0)
  qed
qed

lemma cut_seq: "utf16_ok s \<Longrightarrow> cut_at s (seq_length s)"
  by (simp add: seq_length_def Let_def cut_add cut_var_mod cut_opt_join cut_ok)

lemma cut_symbol:
  assumes "utf16_ok s"
  shows "cut_at s (symbol_length s)"
proof -
  have then_seq: "cut_at s (k + seq_length (drop k s))" if "cut_at s k" for k
    using that cut_seq [OF cut_ok [OF that]] by (rule cut_add)
  show ?thesis
  proof (cases s)
    case Nil
    then show ?thesis using then_seq [of 0] cut_0 [OF assms] by (simp add: symbol_length_def)
  next
    case (Cons c r)
    have lone: "is_surrogate c \<Longrightarrow> surr_pair s"
      using assms Cons by (cases r) (auto simp: surrogate_split utf16_ok.simps split: if_splits)
    have one: "cut_at s 1" if "\<not> is_surrogate c" using assms Cons that by (auto intro: cut_1)
    have two: "cut_at s 2" if "\<not> is_surrogate c" "r = d # r'" "is_combo d" for d r'
    proof -
      have "utf16_ok r" using cut_ok [OF one [OF that(1)]] Cons by simp
      then have "cut_at (drop 1 s) 1" using that(2,3) no_surrogates(2) Cons by (auto intro: cut_1)
      with cut_add [OF one [OF that(1)]] show ?thesis by (metis one_add_one)
    qed
    show ?thesis
      using then_seq [OF one] then_seq [OF two] then_seq [OF cut_regional [OF assms]]
        then_seq [OF cut_pair [OF assms]] lone cut_pair [OF assms] fitz_pair [of s] Cons
      by (auto simp: symbol_length_def Let_def split: list.splits)
  qed
qed

lemma concat_unicodeToArray [simp]: "concat (unicodeToArray s) = s"
  by (induction s rule: unicodeToArray.induct) simp_all

lemma unicodeToArray_ok: "utf16_ok s \<Longrightarrow> \<forall>p \<in> set (unicodeToArray s). utf16_ok p"
proof (induction s rule: unicodeToArray.induct)
  case (2 c s)
  from cut_symbol [OF 2(2)] 2(1) show ?case by (simp add: cut_at_def)
qed simp

lemma utf16_ok_concat: "\<forall>p \<in> set ps. utf16_ok p \<Longrightarrow> utf16_ok (concat ps)"
  by (induction ps) (auto simp: utf16_ok_append utf16_ok.simps)

lemma utf16_ok_plain: "\<forall>c \<in> set s. \<not> is_surrogate c \<Longrightarrow> utf16_ok s"
  by (induction s) (auto simp: utf16_ok.simps surrogate_split)

lemma plain_text: "\<not> hasUnicode s \<Longrightarrow> \<forall>c \<in> set s. \<not> is_surrogate c"
  by (auto simp: hasUnicode_def list_ex_iff)

lemma stringSize_symbols: "stringSize s = length (stringToArray s)"
  by (simp add: stringSize_def stringToArray_def)

lemma concat_take_prefix: "\<exists>q. concat ps = concat (take n ps) @ q"
  by (metis append_take_drop_id concat_append)

text \<open>
  Claim C28: the address of a log entry is shown in full when it has at most fifty symbols; otherwise
  its first 47 symbols are shown, followed by three dots. A symbol is what the user sees as one
  character, and no character is cut in two: a text of whole characters stays one.
\<close>

theorem truncated_url_whole:
  assumes "utf16_ok s"
  shows "\<exists>r. truncate_value other (Str s) = Str r \<and> utf16_ok r \<and>
    (if length (stringToArray s) \<le> 50 then r = s
     else \<exists>q. s = concat (take 47 (stringToArray s)) @ q \<and> r = concat (take 47 (stringToArray s)) @ js ''...'')"
proof -
  let ?p = "concat (take 47 (stringToArray s))"
  have dots: "stringSize (js ''...'') = 3 \<and> utf16_ok (js ''...'')"
  proof -
    have "\<not> hasUnicode (js ''...'')"
      by (simp add: hasUnicode_def js_Cons is_surrogate_def is_combo_def is_var_def in_units_def)
    then show ?thesis using utf16_ok_plain plain_text by (simp add: stringSize_def)
  qed
  have whole: "concat (stringToArray s) = s" by (simp add: stringToArray_def)
  have p: "utf16_ok ?p"
  proof (cases "hasUnicode s")
    case True
    then show ?thesis using unicodeToArray_ok [OF assms]
      by (intro utf16_ok_concat) (auto simp: stringToArray_def dest: in_set_takeD)
  next
    case False
    then show ?thesis using plain_text [OF False]
      by (intro utf16_ok_plain) (auto simp: stringToArray_def take_map dest: in_set_takeD)
  qed
  have cut: "truncate_text 50 (js ''...'') s = (if length (stringToArray s) \<le> 50 then s else ?p @ js ''...'')"
    using dots stringSize_symbols [of s] by (simp add: truncate_text_def stringToArray_def take_map Let_def)
  moreover have "\<exists>q. s = ?p @ q" using concat_take_prefix [of "stringToArray s" 47] whole by simp
  ultimately show ?thesis
    using assms p dots utf16_ok_append by (auto simp: truncate_value_def nullish_def)
qed

theorem truncated_url_whole_witness:
  "utf16_ok (js ''http'') \<and> (\<exists>r. truncate_value (\<lambda>v. []) (Str (js ''http'')) = Str r \<and> utf16_ok r)"
proof -
  have "\<not> hasUnicode (js ''http'')"
    by (simp add: hasUnicode_def js_Cons is_surrogate_def is_combo_def is_var_def in_units_def)
  then have "utf16_ok (js ''http'')" using utf16_ok_plain plain_text by blast
  with truncated_url_whole [OF this, of "\<lambda>v. []"] show ?thesis by blast
qed

end
