(* ===== verification/Formatters.thy ===== *)
theory Formatters
  imports JSON_Text
begin

text \<open>
  The caches of formatters of the translation library: the memoizing function of the messages
  (\<open>bundle.js\<close> lines 26883--26933 and 27148--27201), that of \<open>svelte-i18n\<close> (27541--27547),
  and the number, date and time formatters with their named formats (27427--27466, 27548--27582,
  27629--27631). The constructors of \<open>Intl\<close> are an argument. Both memoizing functions satisfy
  one contract, the locale \<open>memo\<close>: arguments with equal keys have equal results. The theorem is
  that cached formatters are those that would be made anew.
\<close>

declare js_Cons [simp del]

section \<open>Memoization\<close>

text \<open>A call that throws leaves the cache as it is.\<close>

definition memo_call :: "('a \<Rightarrow> jsstr) \<Rightarrow> ('a \<Rightarrow> 'e + 'r) \<Rightarrow> 'a \<Rightarrow> (jsstr \<times> 'r) list \<Rightarrow> ('e + 'r) \<times> (jsstr \<times> 'r) list"
where
  "memo_call key f x c =
     (case map_of c (key x) of
        Some r \<Rightarrow> (Inr r, c)
      | None \<Rightarrow> (case f x of Inl e \<Rightarrow> (Inl e, c) | Inr r \<Rightarrow> (Inr r, (key x, r) # c)))"

locale memo =
  fixes key :: "'a \<Rightarrow> jsstr"
    and f :: "'a \<Rightarrow> 'e + 'r"
    and domain :: "'a \<Rightarrow> bool"
  assumes key_decides: "domain x \<Longrightarrow> domain y \<Longrightarrow> key x = key y \<Longrightarrow> f x = f y"
begin

definition memo_coherent :: "(jsstr \<times> 'r) list \<Rightarrow> bool" where
  "memo_coherent c \<longleftrightarrow> (\<forall>k r. map_of c k = Some r \<longrightarrow> (\<exists>x. domain x \<and> key x = k \<and> f x = Inr r))"

lemma coherent_empty: "memo_coherent []"
  by (simp add: memo_coherent_def)

lemma memo_call_correct:
  assumes "memo_coherent c" and "domain x"
  shows "fst (memo_call key f x c) = f x" and "memo_coherent (snd (memo_call key f x c))"
proof -
  show "fst (memo_call key f x c) = f x"
  proof (cases "map_of c (key x)")
    case (Some r)
    then obtain y where "domain y" "key y = key x" "f y = Inr r" using assms(1) by (auto simp: memo_coherent_def)
    with key_decides [OF assms(2) this(1)] Some show ?thesis by (simp add: memo_call_def)
  qed (simp add: memo_call_def split: sum.splits)
  show "memo_coherent (snd (memo_call key f x c))"
    using assms by (auto simp: memo_call_def memo_coherent_def split: option.splits sum.splits)
qed

end

section \<open>Formatters of messages\<close>

text \<open>
  \<open>$S\<close>, the text of all arguments in an object, and \<open>gd\<close>, the memoizing function of \<open>uo\<close> for
  any number of arguments.
\<close>

definition variadic_key :: "jsval list \<Rightarrow> jsstr" where
  "variadic_key args = json_print (Obj [(js ''0'', Arr args)])"

definition variadic :: "(jsval list \<Rightarrow> 'e + 'r) \<Rightarrow> jsval list \<Rightarrow> (jsstr \<times> 'r) list \<Rightarrow> ('e + 'r) \<times> (jsstr \<times> 'r) list"
where
  "variadic f args c = memo_call variadic_key f args c"

text \<open>The classes of \<open>Intl\<close> and what their constructors give, an argument of the model.\<close>

datatype intl_class = NumberFormat | DateTimeFormat | PluralRules

datatype fmt_error = LocaleMissing string | UnknownFormat jsstr string | IntlError

type_synonym 'f constructors = "intl_class \<Rightarrow> jsval list \<Rightarrow> fmt_error + 'f"

record 'f icu_formatters =
  number_formats :: "(jsstr \<times> 'f) list"
  dateTime_formats :: "(jsstr \<times> 'f) list"
  plural_rules :: "(jsstr \<times> 'f) list"

definition cache_of :: "intl_class \<Rightarrow> 'f icu_formatters \<Rightarrow> (jsstr \<times> 'f) list" where
  "cache_of k c =
     (case k of NumberFormat \<Rightarrow> number_formats c | DateTimeFormat \<Rightarrow> dateTime_formats c | PluralRules \<Rightarrow> plural_rules c)"

definition set_cache :: "intl_class \<Rightarrow> (jsstr \<times> 'f) list \<Rightarrow> 'f icu_formatters \<Rightarrow> 'f icu_formatters" where
  "set_cache k m c =
     (case k of
        NumberFormat \<Rightarrow> c\<lparr>number_formats := m\<rparr>
      | DateTimeFormat \<Rightarrow> c\<lparr>dateTime_formats := m\<rparr>
      | PluralRules \<Rightarrow> c\<lparr>plural_rules := m\<rparr>)"

definition get_formatter :: "'f constructors \<Rightarrow> intl_class \<Rightarrow> jsval list \<Rightarrow> 'f icu_formatters \<Rightarrow> (fmt_error + 'f) \<times> 'f icu_formatters"
where
  "get_formatter mk k args c =
     (let (r, m) = variadic (mk k) args (cache_of k c) in (r, set_cache k m c))"

primrec get_formatters ::
  "'f constructors \<Rightarrow> 'f icu_formatters \<Rightarrow> (intl_class \<times> jsval list) list \<Rightarrow> (fmt_error + 'f) list"
where
  "get_formatters mk c [] = []"
| "get_formatters mk c (p # ps) =
     (let (r, c') = get_formatter mk (fst p) (snd p) c in r # get_formatters mk c' ps)"

definition no_formatters :: "'f icu_formatters" where
  "no_formatters = \<lparr>number_formats = [], dateTime_formats = [], plural_rules = []\<rparr>"

text \<open>A locale alone, or with options that are undefined or an object.\<close>

definition intl_options :: "jsval \<Rightarrow> bool" where
  "intl_options v \<longleftrightarrow> v = Undef \<or> (\<exists>m. v = Obj m) \<and> json_value v"

definition intl_args :: "jsval list \<Rightarrow> bool" where
  "intl_args args \<longleftrightarrow> (\<exists>l. args = [Str l] \<or> (\<exists>v. args = [Str l, v] \<and> intl_options v))"

lemma json_print_inject:
  assumes "json_value v" and "json_value w" and "json_print v = json_print w"
  shows "v = w"
proof -
  have "JSON_stringify v = JSON_stringify w"
    by (simp only: JSON_stringify_def json_value_printable [OF assms(1)] json_value_printable [OF assms(2)]
        assms(3))
  then have "Inr v = (Inr w :: js_exn + jsval)"
    using json_round_trip [OF assms(1)] json_round_trip [OF assms(2)] by (simp only:)
  then show ?thesis by simp
qed

text \<open>What the text of undefined options reads as; no options are \<open>null\<close>.\<close>

definition as_printed :: "jsval \<Rightarrow> jsval" where
  "as_printed v = (if v = Undef then Null else v)"

lemma variadic_key_decides:
  assumes "intl_args x" and "intl_args y" and "variadic_key x = variadic_key y"
  shows "x = y"
proof -
  have j: "json_value (Obj [(js ''0'', Arr (map as_printed z))])" if "intl_args z" for z
    using that by (auto simp: intl_args_def intl_options_def as_printed_def)
  have p: "variadic_key z = json_print (Obj [(js ''0'', Arr (map as_printed z))])" if "intl_args z" for z
  proof -
    have "map json_print z = map json_print (map as_printed z)" by (simp add: as_printed_def)
    then show ?thesis by (simp add: variadic_key_def del: map_map)
  qed
  have "map as_printed x = map as_printed y"
    using json_print_inject [OF j [OF assms(1)] j [OF assms(2)]] assms(3)
    unfolding p [OF assms(1)] p [OF assms(2)] by blast
  moreover have dec: "a = b" if "as_printed a = as_printed b" "intl_options a" "intl_options b" for a b
    using that by (auto simp: as_printed_def intl_options_def split: if_splits)
  moreover have "as_printed (Str l) = Str l" for l by (simp add: as_printed_def)
  ultimately show ?thesis using assms(1,2) unfolding intl_args_def by (elim exE disjE conjE) auto
qed

interpretation icu_memo: memo variadic_key "mk k" intl_args for mk :: "'f constructors" and k
  by unfold_locales (auto dest: variadic_key_decides)

lemma cache_of_set [simp]: "cache_of k (set_cache k' m c) = (if k = k' then m else cache_of k c)"
  by (cases k; cases k') (simp_all add: cache_of_def set_cache_def)

lemma get_formatters_made:
  assumes "\<And>k. icu_memo.memo_coherent mk k (cache_of k c)" and "list_all (\<lambda>p. intl_args (snd p)) ps"
  shows "get_formatters mk c ps = map (\<lambda>(k, args). mk k args) ps"
  using assms
proof (induction ps arbitrary: c)
  case (Cons p ps)
  let ?v = "variadic (mk (fst p)) (snd p) (cache_of (fst p) c)"
  have "intl_args (snd p)" using Cons.prems(2) by simp
  note v = icu_memo.memo_call_correct [where mk = mk and k = "fst p", OF Cons.prems(1) this, folded variadic_def]
  have "icu_memo.memo_coherent mk k (cache_of k (set_cache (fst p) (snd ?v) c))" for k
    using Cons.prems(1) v(2) by simp
  with Cons have "get_formatters mk (set_cache (fst p) (snd ?v) c) ps = map (\<lambda>(k, args). mk k args) ps" by simp
  with v(1) show ?case by (simp add: get_formatter_def case_prod_beta' Let_def)
qed simp

section \<open>Named formats\<close>

text \<open>The formats of the configuration, \<open>pl\<close>; an object of objects of options.\<close>

definition text_opts :: "(string \<times> string) list \<Rightarrow> jsval" where
  "text_opts ps = Obj (map (\<lambda>(k, v). (js k, Str (js v))) ps)"

definition i18n_default_formats :: props where
  "i18n_default_formats =
     [(js ''number'', Obj
        [(js ''scientific'', text_opts [(''notation'', ''scientific'')]),
         (js ''engineering'', text_opts [(''notation'', ''engineering'')]),
         (js ''compactLong'', text_opts [(''notation'', ''compact''), (''compactDisplay'', ''long'')]),
         (js ''compactShort'', text_opts [(''notation'', ''compact''), (''compactDisplay'', ''short'')])]),
      (js ''date'', Obj
        [(js ''short'', text_opts [(''month'', ''numeric''), (''day'', ''numeric''), (''year'', ''2-digit'')]),
         (js ''medium'', text_opts [(''month'', ''short''), (''day'', ''numeric''), (''year'', ''numeric'')]),
         (js ''long'', text_opts [(''month'', ''long''), (''day'', ''numeric''), (''year'', ''numeric'')]),
         (js ''full'', text_opts [(''weekday'', ''long''), (''month'', ''long''), (''day'', ''numeric''),
            (''year'', ''numeric'')])]),
      (js ''time'', Obj
        [(js ''short'', text_opts [(''hour'', ''numeric''), (''minute'', ''numeric'')]),
         (js ''medium'', text_opts [(''hour'', ''numeric''), (''minute'', ''numeric''), (''second'', ''numeric'')]),
         (js ''long'', text_opts [(''hour'', ''numeric''), (''minute'', ''numeric''), (''second'', ''numeric''),
            (''timeZoneName'', ''short'')]),
         (js ''full'', text_opts [(''hour'', ''numeric''), (''minute'', ''numeric''), (''second'', ''numeric''),
            (''timeZoneName'', ''short'')])])]"

datatype fmt_kind = NumberKind | DateKind | TimeKind

definition kind_name :: "fmt_kind \<Rightarrow> string" where
  "kind_name k = (case k of NumberKind \<Rightarrow> ''number'' | DateKind \<Rightarrow> ''date'' | TimeKind \<Rightarrow> ''time'')"

definition class_of_kind :: "fmt_kind \<Rightarrow> intl_class" where
  "class_of_kind k = (case k of NumberKind \<Rightarrow> NumberFormat | _ \<Rightarrow> DateTimeFormat)"

text \<open>\<open>Tl\<close>: both tests are made with \<open>in\<close>, so inherited names are found too.\<close>

definition getIntlFormatterOptions :: "props \<Rightarrow> fmt_kind \<Rightarrow> jsstr \<Rightarrow> fmt_error + jsval" where
  "getIntlFormatterOptions fs k name =
     (case get_prop fs (js (kind_name k)) of
        Obj m \<Rightarrow> if has_prop m name then Inr (get_prop m name) else Inl (UnknownFormat name (kind_name k))
      | _ \<Rightarrow> Inl (UnknownFormat name (kind_name k)))"

text \<open>
  \<open>bT\<close>, \<open>gT\<close> and \<open>pT\<close> before they are memoized: the options without locale and format, those of a
  named format, and for dates and times the short format when there are none. A format is named
  by a text.
\<close>

definition rest_of :: "string list \<Rightarrow> props \<Rightarrow> props" where
  "rest_of ks m = filter (\<lambda>(k, v). k \<notin> js ` set ks) m"

definition formatter_options :: "props \<Rightarrow> fmt_kind \<Rightarrow> jsval \<Rightarrow> props \<Rightarrow> fmt_error + jsval" where
  "formatter_options fs k fmt rest =
     (if truthy_val fmt
      then getIntlFormatterOptions fs k (to_string (\<lambda>v. js ''[object Object]'') fmt)
      else if k \<noteq> NumberKind \<and> rest = [] then getIntlFormatterOptions fs k (js ''short'')
      else Inr (Obj rest))"

definition create_formatter :: "'f constructors \<Rightarrow> props \<Rightarrow> fmt_kind \<Rightarrow> props \<Rightarrow> fmt_error + 'f" where
  "create_formatter mk fs k m =
     (let t = get_prop m (js ''locale'')
      in if nullish t then Inl (LocaleMissing (kind_name k))
         else case formatter_options fs k (get_prop m (js ''format'')) (rest_of [''locale'', ''format''] m) of
                Inl e \<Rightarrow> Inl e
              | Inr opts \<Rightarrow> mk (class_of_kind k) [t, opts])"

text \<open>A name that is neither a format nor inherited is an error; an inherited one is taken.\<close>

lemma unknown_format:
  "get_prop fs (js (kind_name k)) = Obj m \<Longrightarrow> map_of m name = None \<Longrightarrow> \<not> is_proto_name name \<Longrightarrow>
     getIntlFormatterOptions fs k name = Inl (UnknownFormat name (kind_name k))"
  by (simp add: getIntlFormatterOptions_def has_prop_def)

lemma inherited_format:
  "getIntlFormatterOptions i18n_default_formats NumberKind (js ''constructor'') = Inr (Proto (js ''constructor''))"
  by (simp add: getIntlFormatterOptions_def i18n_default_formats_def kind_name_def get_prop_def has_prop_def
      is_proto_name_def proto_names_def js_Cons)

section \<open>Formatters by options\<close>

text \<open>\<open>yr\<close>: the key is the text of the only argument.\<close>

definition monadic_key :: "props \<Rightarrow> jsstr" where
  "monadic_key m = json_print (Obj m)"

record 'f i18n_formatters =
  formatters_of :: "fmt_kind \<Rightarrow> (jsstr \<times> 'f) list"
  app_locale :: "jsstr option"

definition i18n_formatters_init :: "'f i18n_formatters" where
  "i18n_formatters_init = \<lparr>formatters_of = (\<lambda>k. []), app_locale = None\<rparr>"

text \<open>\<open>vT\<close>, \<open>kT\<close> and \<open>wT\<close>: the locale defaults to the current one and comes first.\<close>

definition with_locale :: "jsstr option \<Rightarrow> props \<Rightarrow> props" where
  "with_locale cur m =
     (let l = get_prop m (js ''locale'');
          t = (if l = Undef then (case cur of Some s \<Rightarrow> Str s | None \<Rightarrow> Undef) else l)
      in (js ''locale'', t) # rest_of [''locale''] m)"

definition get_cached_formatter ::
  "'f constructors \<Rightarrow> props \<Rightarrow> fmt_kind \<Rightarrow> props \<Rightarrow> 'f i18n_formatters \<Rightarrow> (fmt_error + 'f) \<times> 'f i18n_formatters"
where
  "get_cached_formatter mk fs k m s =
     (let (r, c) = memo_call monadic_key (create_formatter mk fs k) (with_locale (app_locale s) m) (formatters_of s k)
      in (r, s\<lparr>formatters_of := (formatters_of s)(k := c)\<rparr>))"

text \<open>\<open>TT\<close>, \<open>ET\<close> and \<open>MT\<close>: a value with options, formatted by the method of the formatter.\<close>

datatype format_event = FormatValue fmt_kind jsval props | ChooseLocale "jsstr option"

fun format_step ::
  "'f constructors \<Rightarrow> ('f \<Rightarrow> jsval \<Rightarrow> jsstr) \<Rightarrow> props \<Rightarrow> 'f i18n_formatters \<Rightarrow> format_event \<Rightarrow>
     (fmt_error + jsstr) list \<times> 'f i18n_formatters"
where
  "format_step mk fmt fs s (FormatValue k v m) =
     (let (r, s') = get_cached_formatter mk fs k m s in ([map_sum id (\<lambda>f. fmt f v) r], s'))"
| "format_step mk fmt fs s (ChooseLocale l) = ([], s\<lparr>app_locale := l\<rparr>)"

primrec format_run ::
  "'f constructors \<Rightarrow> ('f \<Rightarrow> jsval \<Rightarrow> jsstr) \<Rightarrow> props \<Rightarrow> 'f i18n_formatters \<Rightarrow> format_event list \<Rightarrow>
     (fmt_error + jsstr) list"
where
  "format_run mk fmt fs s [] = []"
| "format_run mk fmt fs s (e # es) =
     (let (rs, s') = format_step mk fmt fs s e in rs @ format_run mk fmt fs s' es)"

text \<open>What the same calls give when every formatter is made anew.\<close>

primrec format_anew ::
  "'f constructors \<Rightarrow> ('f \<Rightarrow> jsval \<Rightarrow> jsstr) \<Rightarrow> props \<Rightarrow> jsstr option \<Rightarrow> format_event list \<Rightarrow> (fmt_error + jsstr) list"
where
  "format_anew mk fmt fs cur [] = []"
| "format_anew mk fmt fs cur (e # es) =
     (case e of
        FormatValue k v m \<Rightarrow>
          map_sum id (\<lambda>f. fmt f v) (create_formatter mk fs k (with_locale cur m)) # format_anew mk fmt fs cur es
      | ChooseLocale l \<Rightarrow> format_anew mk fmt fs l es)"

section \<open>Caches do not show\<close>

text \<open>Options that are JSON, beside a locale that may be missing.\<close>

definition plain_options :: "props \<Rightarrow> bool" where
  "plain_options m \<longleftrightarrow>
     distinct (map fst m) \<and> (\<forall>(k, v) \<in> set m. json_value v \<or> k = js ''locale'' \<and> v = Undef)"

definition drop_undef :: "props \<Rightarrow> props" where
  "drop_undef m = filter (\<lambda>(k, v). v \<noteq> Undef) m"

lemma print_drop_undef: "json_print (Obj m) = json_print (Obj (drop_undef m))"
proof -
  have "filter (printable \<circ> snd) m = filter (printable \<circ> snd) (drop_undef m)"
    unfolding drop_undef_def filter_filter by (rule filter_cong) auto
  then show ?thesis by (simp only: json_print.simps)
qed

lemma drop_undef_json: "plain_options m \<Longrightarrow> json_value (Obj (drop_undef m))"
  by (auto simp: plain_options_def drop_undef_def list_all_iff distinct_map_filter)

text \<open>A missing locale and an undefined one are one case.\<close>

lemma create_drop_undef:
  assumes "plain_options m"
  shows "create_formatter mk fs k m = create_formatter mk fs k (drop_undef m)"
proof -
  have u: "k' = js ''locale''" if "(k', Undef) \<in> set m" for k'
    using assms that by (fastforce simp: plain_options_def)
  have "rest_of [''locale'', ''format''] m = rest_of [''locale'', ''format''] (drop_undef m)"
    unfolding rest_of_def drop_undef_def filter_filter by (rule filter_cong) (use u in auto)
  moreover have "get_prop m k' = get_prop (drop_undef m) k'" if "\<not> is_proto_name k'" for k'
  proof -
    have "map_of (drop_undef m) k' = (case map_of m k' of Some v \<Rightarrow> if v = Undef then None else Some v | None \<Rightarrow> None)"
      using assms unfolding plain_options_def drop_undef_def
      by (induction m) (auto simp: map_of_eq_None_iff image_iff split: option.splits)
    then show ?thesis using that by (auto simp: get_prop_def split: option.splits)
  qed
  moreover have "\<not> is_proto_name (js ''locale'')" "\<not> is_proto_name (js ''format'')"
    by (simp_all add: is_proto_name_def proto_names_def js_Cons)
  ultimately show ?thesis by (simp add: create_formatter_def Let_def)
qed

lemma monadic_key_decides:
  assumes "plain_options m" and "plain_options m'" and "monadic_key m = monadic_key m'"
  shows "create_formatter mk fs k m = create_formatter mk fs k m'"
proof -
  have "json_print (Obj (drop_undef m)) = json_print (Obj (drop_undef m'))"
    using assms(3) unfolding monadic_key_def print_drop_undef [of m] print_drop_undef [of m'] .
  then have "drop_undef m = drop_undef m'"
    using json_print_inject [OF drop_undef_json [OF assms(1)] drop_undef_json [OF assms(2)]] by blast
  then show ?thesis by (simp add: create_drop_undef [OF assms(1)] create_drop_undef [OF assms(2)])
qed

interpretation i18n_memo: memo monadic_key "create_formatter mk fs k" plain_options
  for mk :: "'f constructors" and fs k
  by unfold_locales (rule monadic_key_decides)

lemma with_locale_plain:
  assumes "plain_options m"
  shows "plain_options (with_locale cur m)"
proof -
  have "get_prop m (js ''locale'') = Undef \<or> json_value (get_prop m (js ''locale''))"
  proof (cases "map_of m (js ''locale'')")
    case None
    have "\<not> is_proto_name (js ''locale'')" by (simp add: is_proto_name_def proto_names_def js_Cons)
    with None show ?thesis by (simp add: get_prop_def)
  next
    case (Some v)
    then have "(js ''locale'', v) \<in> set m" by (rule map_of_SomeD)
    with assms Some show ?thesis by (fastforce simp: plain_options_def get_prop_def)
  qed
  then show ?thesis
    using assms
    by (auto simp: with_locale_def plain_options_def rest_of_def Let_def distinct_map_filter split: option.splits)
qed

definition event_plain :: "format_event \<Rightarrow> bool" where
  "event_plain e = (case e of FormatValue k v m \<Rightarrow> plain_options m | ChooseLocale l \<Rightarrow> True)"

lemma format_run_anew:
  assumes "\<And>k. i18n_memo.memo_coherent mk fs k (formatters_of s k)" and "list_all event_plain es"
  shows "format_run mk fmt fs s es = format_anew mk fmt fs (app_locale s) es"
  using assms
proof (induction es arbitrary: s)
  case (Cons e es)
  show ?case
  proof (cases e)
    case (FormatValue k v m)
    let ?m = "with_locale (app_locale s) m"
    let ?c = "memo_call monadic_key (create_formatter mk fs k) ?m (formatters_of s k)"
    let ?s = "s\<lparr>formatters_of := (formatters_of s)(k := snd ?c)\<rparr>"
    have m: "plain_options ?m" using Cons.prems(2) FormatValue by (intro with_locale_plain) (simp add: event_plain_def)
    note c = i18n_memo.memo_call_correct [OF Cons.prems(1) m]
    have "i18n_memo.memo_coherent mk fs k' (formatters_of ?s k')" for k' using Cons.prems(1) c(2) by simp
    with Cons have "format_run mk fmt fs ?s es = format_anew mk fmt fs (app_locale ?s) es" by simp
    with c(1) show ?thesis
      by (simp add: FormatValue get_cached_formatter_def case_prod_beta' Let_def)
  next
    case (ChooseLocale l)
    with Cons show ?thesis by simp
  qed
qed simp

text \<open>
  Claim C23: formatting numbers, dates and times with cached formatters gives, for every sequence of
  calls whose options are JSON, without undefined values, with named formats and changes of the locale
  in between, exactly the texts and errors of formatters that are made anew for every call; and the
  formatters that messages use, which are cached by their arguments, are the ones the arguments would
  make. The cache of whole messages is another one.
\<close>

theorem cached_formatters_transparent:
  assumes "list_all event_plain es"
    and "list_all (\<lambda>p. intl_args (snd p)) ps"
  shows "format_run mk fmt fs i18n_formatters_init es = format_anew mk fmt fs None es \<and>
    get_formatters mk no_formatters ps = map (\<lambda>(k, args). mk k args) ps"
proof
  have "i18n_memo.memo_coherent mk fs k (formatters_of i18n_formatters_init k)" for k
    by (simp add: i18n_formatters_init_def i18n_memo.coherent_empty)
  from format_run_anew [OF this assms(1), of fmt]
  show "format_run mk fmt fs i18n_formatters_init es = format_anew mk fmt fs None es"
    by (simp add: i18n_formatters_init_def)
  have "icu_memo.memo_coherent mk k (cache_of k no_formatters)" for k
    by (cases k) (simp_all add: no_formatters_def cache_of_def icu_memo.coherent_empty)
  then show "get_formatters mk no_formatters ps = map (\<lambda>(k, args). mk k args) ps"
    by (rule get_formatters_made [OF _ assms(2)])
qed

text \<open>Two numbers in one format and one in another locale, and a message formatter asked for twice.\<close>

definition sample_events :: "format_event list" where
  "sample_events =
     [ChooseLocale (Some (js ''en'')), FormatValue NumberKind (Num 7) [(js ''format'', Str (js ''scientific''))],
      FormatValue NumberKind (Num 8) [(js ''format'', Str (js ''scientific''))],
      ChooseLocale (Some (js ''de'')), FormatValue DateKind (Num 0) []]"

definition sample_make :: "jsval list constructors" where
  "sample_make k args = Inr args"

theorem cached_formatters_transparent_witness:
  "format_run sample_make (\<lambda>f v. js ''x'') i18n_default_formats i18n_formatters_init sample_events =
     format_anew sample_make (\<lambda>f v. js ''x'') i18n_default_formats None sample_events \<and>
   get_formatters sample_make no_formatters
     [(NumberFormat, [Str (js ''en''), Undef]), (NumberFormat, [Str (js ''en''), Undef])] =
     [Inr [Str (js ''en''), Undef], Inr [Str (js ''en''), Undef]]"
proof
  let ?ps = "[(NumberFormat, [Str (js ''en''), Undef]), (NumberFormat, [Str (js ''en''), Undef])]"
  have es: "list_all event_plain sample_events"
    by (simp add: sample_events_def event_plain_def plain_options_def)
  have ps: "list_all (\<lambda>p. intl_args (snd p)) ?ps" by (simp add: intl_args_def intl_options_def)
  show "format_run sample_make (\<lambda>f v. js ''x'') i18n_default_formats i18n_formatters_init sample_events =
     format_anew sample_make (\<lambda>f v. js ''x'') i18n_default_formats None sample_events"
    using cached_formatters_transparent [OF es ps] by blast
  show "get_formatters sample_make no_formatters ?ps =
     [Inr [Str (js ''en''), Undef], Inr [Str (js ''en''), Undef]]"
    using cached_formatters_transparent [OF es ps, of sample_make] by (simp add: sample_make_def)
qed

text \<open>
  Options with undefined values are different: the text of the options leaves them out, so a date with
  an undefined month gets the cached formatter of a date without options, which is the short one.
\<close>

lemma undefined_option_cached:
  defines "l \<equiv> (js ''locale'', Str (js ''en''))" and "u \<equiv> (js ''month'', Undef)"
  shows "monadic_key [l, u] = monadic_key [l]"
    and "create_formatter sample_make i18n_default_formats DateKind [l, u] \<noteq>
      create_formatter sample_make i18n_default_formats DateKind [l]"
proof -
  show "monadic_key [l, u] = monadic_key [l]"
    unfolding monadic_key_def print_drop_undef [of "[l, u]"] by (simp add: drop_undef_def l_def u_def)
  show "create_formatter sample_make i18n_default_formats DateKind [l, u] \<noteq>
      create_formatter sample_make i18n_default_formats DateKind [l]"
    by (simp add: create_formatter_def formatter_options_def getIntlFormatterOptions_def l_def u_def get_prop_def
        has_prop_def rest_of_def nullish_def kind_name_def class_of_kind_def sample_make_def text_opts_def
        i18n_default_formats_def is_proto_name_def proto_names_def js_Cons)
qed

end
