(* ===== verification/I18n_Options.thy ===== *)
theory I18n_Options
  imports I18n
begin

text \<open>
  The options of the translations (\<open>bundle.js\<close> lines 27414--27485 and 27499--27507): what the
  initialization does with every option, the warning for a missing message, and the language that the
  document is given. The lemmas say that the warning is off unless the caller asks for it, although
  the defaults turn it on, and that the warning changes no text.
\<close>

declare js_Cons [simp del]

text \<open>The handler for missing messages: none, the warning of the package, or one of the caller.\<close>

datatype missing_handler = NoHandler | WarnHandler | OwnHandler nat

record i18n_config =
  conf_fallback :: "jsstr option"
  conf_initial :: "jsstr option"
  conf_warn :: bool
  conf_handler :: missing_handler
  conf_formats :: props

record i18n_options =
  opt_fallback :: "jsstr option"
  opt_initial :: "jsstr option"
  opt_warn :: "bool option"
  opt_handler :: missing_handler
  opt_formats :: "props option"

definition i18n_default_config :: "props \<Rightarrow> i18n_config" where
  "i18n_default_config fs =
     \<lparr>conf_fallback = None, conf_initial = None, conf_warn = True, conf_handler = NoHandler, conf_formats = fs\<rparr>"

text \<open>\<open>Object.assign\<close> on the formats of a kind, where the caller has some.\<close>

definition assign_formats :: "string \<Rightarrow> props \<Rightarrow> props \<Rightarrow> props" where
  "assign_formats k e fs =
     (if has_prop e (js k)
      then (case (get_prop fs (js k), get_prop e (js k)) of
              (Obj a, Obj b) \<Rightarrow> AList.update (js k) (Obj (foldl (\<lambda>a (n, v). AList.update n v a) a b)) fs
            | _ \<Rightarrow> fs)
      else fs)"

definition truthy_text :: "jsstr option \<Rightarrow> bool" where
  "truthy_text t \<longleftrightarrow> t \<noteq> None \<and> t \<noteq> Some []"

definition initial_locale :: "i18n_options \<Rightarrow> jsstr option" where
  "initial_locale t = (if truthy_text (opt_initial t) then opt_initial t else opt_fallback t)"

text \<open>
  \<open>mT\<close>: the option that asks for warnings sets the handler, or warns that it is deprecated. The second
  component tells whether that warning was printed.
\<close>

definition init_config :: "i18n_options \<Rightarrow> i18n_config \<Rightarrow> i18n_config \<times> bool" where
  "init_config t c =
     (let ask = (opt_warn t = Some True);
          handler = (if ask \<and> opt_handler t = NoHandler then WarnHandler else opt_handler t);
          c1 = c\<lparr>conf_fallback := (case opt_fallback t of Some f \<Rightarrow> Some f | None \<Rightarrow> conf_fallback c),
                 conf_initial := initial_locale t,
                 conf_warn := (if opt_warn t = Some False then False else conf_warn c),
                 conf_handler := (if handler = NoHandler then conf_handler c else handler),
                 conf_formats := (case opt_formats t of
                     None \<Rightarrow> conf_formats c
                   | Some e \<Rightarrow> assign_formats ''time'' e
                       (assign_formats ''date'' e (assign_formats ''number'' e (conf_formats c))))\<rparr>
      in (c1, ask \<and> opt_handler t \<noteq> NoHandler))"

text \<open>\<open>_T\<close>: the text of the warning, with a note when a loader of the current locale has not run.\<close>

definition missing_warning :: "i18n \<Rightarrow> jsstr \<Rightarrow> jsstr \<Rightarrow> jsstr" where
  "missing_warning st t e =
     js ''[svelte-i18n] The message '' @ [0x22] @ e @ [0x22] @ js '' was not found in '' @ [0x22] @
     join_with ([0x22] @ js '', '' @ [0x22]) (chain st t) @ [0x22] @ js ''.'' @
     (case current_locale st of
        None \<Rightarrow> []
      | Some l \<Rightarrow>
          if hasLocaleQueue st l
          then [0x0A, 0x0A] @
            js ''Note: there are at least one loader still registered to this locale that wasn'' @ [0x27] @
            js ''t executed.''
          else [])"

text \<open>The warnings a lookup that found nothing prints, and the handler as formatting sees it.\<close>

definition missing_warnings :: "i18n_config \<Rightarrow> i18n \<Rightarrow> jsstr \<Rightarrow> jsstr \<Rightarrow> jsstr list" where
  "missing_warnings c st t e = (if conf_handler c = WarnHandler then [missing_warning st t e] else [])"

definition handler_of ::
  "(nat \<Rightarrow> jsstr \<Rightarrow> jsstr \<Rightarrow> jsstr option \<Rightarrow> jsstr option) \<Rightarrow> i18n_config
     \<Rightarrow> (jsstr \<Rightarrow> jsstr \<Rightarrow> jsstr option \<Rightarrow> jsstr option) option" where
  "handler_of own c =
     (case conf_handler c of NoHandler \<Rightarrow> None | WarnHandler \<Rightarrow> Some (\<lambda>s t d. None) | OwnHandler f \<Rightarrow> Some (own f))"

text \<open>The current locale is republished, and a locale becomes the language of the document.\<close>

definition publish_locale :: "jsstr option \<Rightarrow> jsstr option \<times> jsstr option \<Rightarrow> jsstr option \<times> jsstr option" where
  "publish_locale t p = (t, case t of Some l \<Rightarrow> Some l | None \<Rightarrow> snd p)"

text \<open>The options of the application.\<close>

definition app_options :: i18n_options where
  "app_options =
     \<lparr>opt_fallback = Some (js ''en''), opt_initial = Some (js ''en''), opt_warn = None,
      opt_handler = NoHandler, opt_formats = None\<rparr>"

lemma app_options_setup:
  "(let c = fst (init_config app_options (i18n_default_config fs))
    in setupI18n st = i18n_setup (registerLocaleLoader st (js ''en'') 0) (conf_fallback c) (the (conf_initial c)))"
  by (simp add: init_config_def app_options_def i18n_default_config_def initial_locale_def truthy_text_def
      setupI18n_def js_Cons)

text \<open>
  Only the caller turns the warning on: the default, which says that missing messages are warned
  about, has no effect.
\<close>

lemma warning_needs_option:
  assumes "opt_warn t \<noteq> Some True" and "opt_handler t \<noteq> WarnHandler"
  shows "missing_warnings (fst (init_config t (i18n_default_config fs))) st l e = []"
    and "conf_warn (i18n_default_config fs)"
  using assms by (auto simp: missing_warnings_def init_config_def i18n_default_config_def Let_def)

lemma warning_changes_no_text:
  "missing_message (env\<lparr>handleMissingMessage := Some (\<lambda>s t d. None)\<rparr>) t s dflt =
   missing_message (env\<lparr>handleMissingMessage := None\<rparr>) t s dflt"
  by (simp add: missing_message_def)

lemma language_follows_locale:
  "foldl (\<lambda>p t. publish_locale t p) (None, None) (ts @ [Some l]) = (Some l, Some l)"
  by (simp add: publish_locale_def)

end
