(* ===== verification/Svelte_Each.thy ===== *)
theory Svelte_Each
  imports JS_Value
begin

text \<open>
  The update of a keyed \<open>each\<close> block by the runtime of the interface (\<open>bundle.js\<close> lines
  440--460 and 597--654): the old blocks are matched by key with the new items, and blocks are
  created, moved and removed among the children of their parent. The theorem is that, whatever
  the heuristic decides to move, the children end up in the order of the items, blocks whose key
  stays are kept, and the map from keys to blocks is again the one of the blocks on the page.
\<close>

section \<open>Blocks and their parent\<close>

text \<open>
  A block is identified by the node it begins with. The state has the children of the parent
  element, the map from keys to blocks, the callbacks of the current group of outros and a counter
  for new nodes. The blocks have no transitions, so a group counts no running outro.
\<close>

record block =
  node :: nat
  key :: jsstr

record each_state =
  children :: "nat list"
  by_key :: "(jsstr \<times> block) list"
  outros :: "block list"
  next_node :: nat

datatype removal = Destroy | OutroAndDestroy

definition insert_before :: "nat \<Rightarrow> nat option \<Rightarrow> nat list \<Rightarrow> nat list" where
  "insert_before x anchor xs =
     (let ys = filter (\<lambda>y. y \<noteq> x) xs
      in case anchor of
           None \<Rightarrow> ys @ [x]
         | Some a \<Rightarrow> takeWhile (\<lambda>y. y \<noteq> a) ys @ x # dropWhile (\<lambda>y. y \<noteq> a) ys)"

definition destroy_block :: "block \<Rightarrow> each_state \<Rightarrow> each_state" where
  "destroy_block x s =
     s\<lparr>children := filter (\<lambda>y. y \<noteq> node x) (children s), by_key := AList.delete (key x) (by_key s)\<rparr>"

definition outro_and_destroy_block :: "block \<Rightarrow> each_state \<Rightarrow> each_state" where
  "outro_and_destroy_block x s =
     (if node x \<in> set (map node (outros s)) then s else s\<lparr>outros := outros s @ [x]\<rparr>)"

definition remove_block :: "removal \<Rightarrow> block \<Rightarrow> each_state \<Rightarrow> each_state" where
  "remove_block md x s =
     (case md of Destroy \<Rightarrow> destroy_block x s | OutroAndDestroy \<Rightarrow> outro_and_destroy_block x s)"

definition group_outros :: "each_state \<Rightarrow> each_state" where
  "group_outros s = s\<lparr>outros := []\<rparr>"

definition check_outros :: "each_state \<Rightarrow> each_state" where
  "check_outros s = foldl (\<lambda>s x. destroy_block x s) (s\<lparr>outros := []\<rparr>) (outros s)"

section \<open>The update\<close>

text \<open>The blocks of the new items, from the last item to the first, and those to be updated.\<close>

primrec build_blocks :: "jsstr list \<Rightarrow> each_state \<Rightarrow> block list \<times> block list \<times> each_state" where
  "build_blocks [] s = ([], [], s)"
| "build_blocks (k # ks) s =
     (let (C, L, s) = build_blocks ks s
      in case map_of (by_key s) k of
           Some x \<Rightarrow> (x # C, L @ [x], s)
         | None \<Rightarrow> (\<lparr>node = next_node s, key = k\<rparr> # C, L, s\<lparr>next_node := Suc (next_node s)\<rparr>))"

text \<open>
  How far an item moves. A key without an old index has no distance; one that an object
  inherits has the distance \<open>NaN\<close>, and both compare as false.
\<close>

definition distance :: "block list \<Rightarrow> jsstr list \<Rightarrow> jsstr \<Rightarrow> nat option" where
  "distance t ks k =
     (case (index_from k ks 0, index_from k (map key t) 0) of
        (Some v, Some i) \<Rightarrow> Some (if v \<le> i then i - v else v - i)
      | _ \<Rightarrow> None)"

definition farther :: "nat option \<Rightarrow> nat option \<Rightarrow> bool" where
  "farther a b \<longleftrightarrow> (case (a, b) of (Some x, Some y) \<Rightarrow> y < x | _ \<Rightarrow> False)"

record sync =
  old_left :: nat
  new_left :: nat
  anchor :: "nat option"
  will_move :: "jsstr list"
  did_move :: "jsstr list"
  tree :: each_state

definition insert_block :: "block \<Rightarrow> sync \<Rightarrow> sync" where
  "insert_block x s =
     s\<lparr>tree := (tree s)\<lparr>children := insert_before (node x) (anchor s) (children (tree s)),
                       by_key := AList.update (key x) x (by_key (tree s))\<rparr>,
       anchor := Some (node x), new_left := new_left s - 1\<rparr>"

definition sync_step :: "removal \<Rightarrow> block list \<Rightarrow> jsstr list \<Rightarrow> block list \<Rightarrow> sync \<Rightarrow> sync" where
  "sync_step md t ks C s =
     (let x = C ! (new_left s - 1); y = t ! (old_left s - 1)
      in if node x = node y
         then s\<lparr>anchor := Some (node x), old_left := old_left s - 1, new_left := new_left s - 1\<rparr>
         else if key y \<in> set ks
         then (if map_of (by_key (tree s)) (key x) = None \<or> key x \<in> set (will_move s)
               then insert_block x s
               else if key y \<in> set (did_move s) then s\<lparr>old_left := old_left s - 1\<rparr>
               else if farther (distance t ks (key x)) (distance t ks (key y))
               then insert_block x (s\<lparr>did_move := key x # did_move s\<rparr>)
               else s\<lparr>will_move := key y # will_move s, old_left := old_left s - 1\<rparr>)
         else s\<lparr>tree := remove_block md y (tree s), old_left := old_left s - 1\<rparr>)"

lemma sync_step_less:
  assumes "0 < old_left s" and "0 < new_left s"
  shows "old_left (sync_step md t ks C s) + new_left (sync_step md t ks C s) < old_left s + new_left s"
  using assms by (auto simp: sync_step_def insert_block_def Let_def)

function sync_loop :: "removal \<Rightarrow> block list \<Rightarrow> jsstr list \<Rightarrow> block list \<Rightarrow> sync \<Rightarrow> sync" where
  "sync_loop md t ks C s =
     (if 0 < old_left s \<and> 0 < new_left s then sync_loop md t ks C (sync_step md t ks C s) else s)"
  by pat_completeness auto
termination
  by (relation "measure (\<lambda>(md, t, ks, C, s). old_left s + new_left s)") (auto intro: sync_step_less)

declare sync_loop.simps [simp del]

primrec remove_rest :: "removal \<Rightarrow> block list \<Rightarrow> jsstr list \<Rightarrow> nat \<Rightarrow> each_state \<Rightarrow> each_state" where
  "remove_rest md t ks 0 s = s"
| "remove_rest md t ks (Suc m) s =
     remove_rest md t ks m (if key (t ! m) \<in> set ks then s else remove_block md (t ! m) s)"

primrec insert_rest :: "block list \<Rightarrow> nat \<Rightarrow> sync \<Rightarrow> sync" where
  "insert_rest C 0 s = s"
| "insert_rest C (Suc b) s = insert_rest C b (insert_block (C ! b) s)"

definition update_keyed_each ::
  "removal \<Rightarrow> block list \<Rightarrow> jsstr list \<Rightarrow> nat option \<Rightarrow> each_state \<Rightarrow>
   block list \<times> block list \<times> each_state" where
  "update_keyed_each md t ks h st =
     (let (C, L, st) = build_blocks ks st;
          s = sync_loop md t ks C
                \<lparr>old_left = length t, new_left = length ks, anchor = h, will_move = [],
                 did_move = [], tree = st\<rparr>;
          s = s\<lparr>tree := remove_rest md t ks (old_left s) (tree s), old_left := 0\<rparr>
      in (C, L, tree (insert_rest C (new_left s) s)))"

text \<open>An \<open>each\<close> block calls it alone, or within a group of outros.\<close>

definition each_update ::
  "removal \<Rightarrow> block list \<Rightarrow> jsstr list \<Rightarrow> nat option \<Rightarrow> each_state \<Rightarrow>
   block list \<times> block list \<times> each_state" where
  "each_update md t ks h st =
     (case md of
        Destroy \<Rightarrow> update_keyed_each md t ks h st
      | OutroAndDestroy \<Rightarrow>
          (let (C, L, st) = update_keyed_each md t ks h (group_outros st)
           in (C, L, check_outros st)))"

section \<open>Insertion among the children\<close>

definition first_node :: "nat list \<Rightarrow> nat option" where
  "first_node xs = (case xs of [] \<Rightarrow> None | x # _ \<Rightarrow> Some x)"

lemma insert_before_parts:
  obtains A B where "insert_before x h xs = A @ x # B" and "A @ B = filter (\<lambda>y. y \<noteq> x) xs"
    and "\<forall>a. h = Some a \<longrightarrow> a \<notin> set A \<and> (a \<in> set (A @ B) \<longrightarrow> (\<exists>zs. B = a # zs))"
    and "h = None \<longrightarrow> B = []"
proof (cases h)
  case None
  then show ?thesis
    by (intro that [of "filter (\<lambda>y. y \<noteq> x) xs" "[]"]) (simp_all add: insert_before_def)
next
  case (Some a)
  let ?ys = "filter (\<lambda>y. y \<noteq> x) xs"
  show ?thesis
  proof (rule that [of "takeWhile (\<lambda>y. y \<noteq> a) ?ys" "dropWhile (\<lambda>y. y \<noteq> a) ?ys"])
    have "\<exists>zs. dropWhile (\<lambda>y. y \<noteq> a) ?ys = a # zs" if "a \<in> set ?ys"
      using split_list_first [OF that] by (auto simp: dropWhile_append)
    with Some show "\<forall>b. h = Some b \<longrightarrow> b \<notin> set (takeWhile (\<lambda>y. y \<noteq> a) ?ys) \<and>
        (b \<in> set (takeWhile (\<lambda>y. y \<noteq> a) ?ys @ dropWhile (\<lambda>y. y \<noteq> a) ?ys) \<longrightarrow>
          (\<exists>zs. dropWhile (\<lambda>y. y \<noteq> a) ?ys = b # zs))"
      by (auto dest: set_takeWhileD)
  qed (use Some in \<open>auto simp: insert_before_def Let_def\<close>)
qed

lemma set_insert_before [simp]: "set (insert_before x h xs) = insert x (set xs)"
proof -
  obtain A B where "insert_before x h xs = A @ x # B" and AB: "A @ B = filter (\<lambda>y. y \<noteq> x) xs"
    by (rule insert_before_parts)
  moreover have "set A \<union> set B = set xs - {x}" using arg_cong [OF AB, of set] by auto
  ultimately show ?thesis by auto
qed

lemma distinct_insert_before:
  assumes "distinct xs"
  shows "distinct (insert_before x h xs)"
proof -
  obtain A B where ins: "insert_before x h xs = A @ x # B" and AB: "A @ B = filter (\<lambda>y. y \<noteq> x) xs"
    by (rule insert_before_parts)
  have "x \<notin> set (A @ B)" and "distinct (A @ B)" unfolding AB using assms by simp_all
  then show ?thesis unfolding ins by auto
qed

lemma filter_insert_before:
  assumes "distinct xs" and "filter P (filter (\<lambda>y. y \<noteq> x) xs) = us @ vs"
  shows "filter (\<lambda>y. P y \<or> y = x) (insert_before x (first_node vs) xs) = us @ x # vs"
proof -
  obtain A B where ins: "insert_before x (first_node vs) xs = A @ x # B"
    and AB: "A @ B = filter (\<lambda>y. y \<noteq> x) xs"
    and anchor: "\<forall>a. first_node vs = Some a \<longrightarrow> a \<notin> set A \<and> (a \<in> set (A @ B) \<longrightarrow> (\<exists>zs. B = a # zs))"
    and none: "first_node vs = None \<longrightarrow> B = []"
    by (rule insert_before_parts)
  have PAB: "filter P A @ filter P B = us @ vs" using assms(2) unfolding AB [symmetric] by simp
  have "filter P A = us \<and> filter P B = vs"
  proof (cases vs)
    case Nil
    with none PAB show ?thesis by (simp add: first_node_def)
  next
    case (Cons a ws)
    have "a \<in> set (filter P (A @ B))" using PAB Cons by simp
    with anchor Cons obtain zs where zs: "B = a # zs" and "P a" by (auto simp: first_node_def)
    have "distinct (filter P A @ filter P B)" using AB assms(1) by (metis distinct_filter filter_append)
    then have "a \<notin> set us" using PAB Cons by simp
    moreover have "a \<notin> set (filter P A)" using anchor Cons by (simp add: first_node_def)
    moreover have "filter P A @ a # filter P zs = us @ a # ws" using PAB Cons zs \<open>P a\<close> by simp
    moreover have "a \<notin> set (filter P zs)"
      using \<open>distinct (filter P A @ filter P B)\<close> zs \<open>P a\<close> by simp
    ultimately have "filter P A = us \<and> filter P zs = ws"
      using append_Cons_eq_iff [of a "filter P A" "filter P zs" us ws] by blast
    with Cons zs \<open>P a\<close> show ?thesis by simp
  qed
  moreover have "x \<notin> set (A @ B)" unfolding AB by simp
  then have "filter (\<lambda>y. P y \<or> y = x) A = filter P A" "filter (\<lambda>y. P y \<or> y = x) B = filter P B"
    by (auto intro!: filter_cong)
  ultimately show ?thesis by (simp add: ins)
qed

section \<open>The order of the children\<close>

text \<open>
  What the order invariant says of a list of children: of the nodes around the blocks, the first
  \<open>m\<close> old ones and the finished new ones \<open>D\<close>, it has the nodes before the blocks, the old ones
  that are not finished, the finished ones in their order and the nodes behind.
\<close>

definition in_order :: "nat list \<Rightarrow> nat list \<Rightarrow> nat list \<Rightarrow> nat list \<Rightarrow> nat list \<Rightarrow> bool" where
  "in_order pre post T D cs \<longleftrightarrow>
     filter (\<lambda>x. x \<in> set pre \<union> set post \<union> set T \<union> set D) cs =
       pre @ filter (\<lambda>x. x \<notin> set D) T @ D @ post"

lemma filter_fresh:
  assumes "x \<notin> set xs"
  shows "filter (\<lambda>y. y \<noteq> x) xs = xs" and "filter (\<lambda>y. P y \<and> y \<noteq> x) xs = filter P xs"
  using assms by (auto simp: filter_id_conv intro!: filter_cong)

lemma in_order_drop_old:
  assumes "in_order pre post (T @ [y]) D cs" and "distinct (pre @ (T @ [y]) @ post)"
  shows "in_order pre post T D cs"
proof (cases "y \<in> set D")
  case True
  have "(\<lambda>x. x \<in> set pre \<union> set post \<union> set (T @ [y]) \<union> set D) =
      (\<lambda>x. x \<in> set pre \<union> set post \<union> set T \<union> set D)" using True by auto
  with assms(1) True show ?thesis by (simp add: in_order_def)
next
  case False
  let ?P = "\<lambda>T x. x \<in> set pre \<union> set post \<union> set T \<union> set D"
  have "filter (?P T) cs = filter (\<lambda>x. x \<noteq> y) (filter (?P (T @ [y])) cs)"
    using False assms(2) by (auto intro!: filter_cong)
  also have "\<dots> = filter (\<lambda>x. x \<noteq> y) (pre @ filter (\<lambda>x. x \<notin> set D) (T @ [y]) @ D @ post)"
    using assms(1) by (simp only: in_order_def)
  also have "\<dots> = pre @ filter (\<lambda>x. x \<notin> set D) T @ D @ post"
    using False assms(2) by (simp add: filter_fresh)
  finally show ?thesis by (simp add: in_order_def)
qed

lemma in_order_removed:
  assumes "in_order pre post T D cs" and "y \<notin> set pre \<union> set post \<union> set T \<union> set D"
  shows "in_order pre post T D (filter (\<lambda>x. x \<noteq> y) cs)"
proof -
  have "filter (\<lambda>x. x \<in> set pre \<union> set post \<union> set T \<union> set D) (filter (\<lambda>x. x \<noteq> y) cs) =
      filter (\<lambda>x. x \<in> set pre \<union> set post \<union> set T \<union> set D) cs"
    using assms(2) by (auto intro!: filter_cong)
  with assms(1) show ?thesis by (simp only: in_order_def)
qed

lemma in_order_inserted:
  assumes "in_order pre post T D cs" and "distinct cs" and "x \<notin> set pre \<union> set post \<union> set D"
  shows "in_order pre post T (x # D) (insert_before x (first_node (D @ post)) cs)"
proof -
  let ?P = "\<lambda>y. y \<in> set pre \<union> set post \<union> set T \<union> set D"
  have "filter ?P (filter (\<lambda>y. y \<noteq> x) cs) = filter (\<lambda>y. y \<noteq> x) (filter ?P cs)"
    by (simp add: conj_commute)
  also have "\<dots> = filter (\<lambda>y. y \<noteq> x) (pre @ filter (\<lambda>x. x \<notin> set D) T @ D @ post)"
    using assms(1) by (simp only: in_order_def)
  also have "\<dots> = (pre @ filter (\<lambda>y. y \<notin> set (x # D)) T) @ D @ post"
    using assms(3) by (simp add: filter_fresh conj_commute)
  finally have "filter (\<lambda>y. ?P y \<or> y = x) (insert_before x (first_node (D @ post)) cs) =
      (pre @ filter (\<lambda>y. y \<notin> set (x # D)) T) @ x # D @ post"
    by (rule filter_insert_before [OF assms(2)])
  moreover have "(\<lambda>y. ?P y \<or> y = x) = (\<lambda>y. y \<in> set pre \<union> set post \<union> set T \<union> set (x # D))" by auto
  ultimately show ?thesis by (simp add: in_order_def)
qed

lemma in_order_kept:
  assumes "in_order pre post (T @ [x]) D cs" and "x \<notin> set D \<union> set T"
  shows "in_order pre post T (x # D) cs"
proof -
  have "(\<lambda>y. y \<in> set pre \<union> set post \<union> set (T @ [x]) \<union> set D) =
      (\<lambda>y. y \<in> set pre \<union> set post \<union> set T \<union> set (x # D))" by auto
  moreover have "filter (\<lambda>y. y \<notin> set (x # D)) T = filter (\<lambda>y. y \<notin> set D) T"
    using assms(2) by (auto intro!: filter_cong)
  ultimately show ?thesis using assms by (simp add: in_order_def)
qed

section \<open>The invariant of the update\<close>

text \<open>What the update starts from: the old blocks, the new keys and the blocks built for them.\<close>

definition each_input ::
  "nat list \<Rightarrow> nat list \<Rightarrow> block list \<Rightarrow> jsstr list \<Rightarrow> block list \<Rightarrow> bool" where
  "each_input pre post t ks C \<longleftrightarrow>
     distinct (pre @ map node t @ post) \<and> distinct (map node C) \<and> map key C = ks \<and> distinct ks \<and>
     node ` set C \<inter> (set pre \<union> set post) = {} \<and>
     (\<forall>y \<in> set t. key y \<in> set ks \<longrightarrow> y \<in> set C) \<and>
     (\<forall>x \<in> set C. \<forall>y \<in> set t. node x = node y \<longrightarrow> x = y)"

text \<open>The children, with the first \<open>m\<close> old blocks to be looked at and \<open>b\<close> new ones to be placed.\<close>

definition children_ok ::
  "nat list \<Rightarrow> nat list \<Rightarrow> block list \<Rightarrow> block list \<Rightarrow> nat \<Rightarrow> nat \<Rightarrow> each_state \<Rightarrow> bool" where
  "children_ok pre post t C m b st \<longleftrightarrow>
     distinct (children st) \<and>
     in_order pre post (map node (take m t)) (map node (drop b C)) (children st) \<and>
     set (children st) \<subseteq> set pre \<union> set post \<union> node ` set C \<union> node ` set (take m t) \<union> node ` set (outros st)"

text \<open>The map from keys to blocks and the blocks that leave.\<close>

definition keys_ok ::
  "removal \<Rightarrow> block list \<Rightarrow> jsstr list \<Rightarrow> block list \<Rightarrow> nat \<Rightarrow> nat \<Rightarrow> each_state \<Rightarrow> bool" where
  "keys_ok md t ks C m b st \<longleftrightarrow>
     (md = Destroy \<longrightarrow> outros st = []) \<and>
     (\<forall>z \<in> set (outros st). z \<in> set t \<and> key z \<notin> set ks) \<and>
     (\<forall>x \<in> set C. x \<in> set t \<or> x \<in> set (drop b C) \<longrightarrow> map_of (by_key st) (key x) = Some x) \<and>
     (\<forall>k. k \<notin> set ks \<and> map_of (by_key st) k \<noteq> None \<longrightarrow>
        k \<in> key ` set (take m t) \<union> key ` set (outros st))"

definition sync_inv ::
  "nat list \<Rightarrow> nat list \<Rightarrow> removal \<Rightarrow> block list \<Rightarrow> jsstr list \<Rightarrow> block list \<Rightarrow> sync \<Rightarrow> bool" where
  "sync_inv pre post md t ks C s \<longleftrightarrow>
     old_left s \<le> length t \<and> new_left s \<le> length C \<and>
     children_ok pre post t C (old_left s) (new_left s) (tree s) \<and>
     keys_ok md t ks C (old_left s) (new_left s) (tree s) \<and>
     anchor s = first_node (map node (drop (new_left s) C) @ post) \<and>
     set (did_move s) \<subseteq> key ` set (drop (new_left s) C)"

text \<open>A block whose key stays is not removed; a block that is removed is no new block.\<close>

lemma removed_not_new:
  assumes "each_input pre post t ks C" and "y \<in> set t" and "key y \<notin> set ks"
  shows "node y \<notin> node ` set C"
proof
  assume "node y \<in> node ` set C"
  then obtain x where x: "x \<in> set C" "node x = node y" by auto
  with assms(1,2) have "x = y" by (auto simp: each_input_def)
  moreover from assms(1) x(1) have "key x \<in> set ks" by (auto simp: each_input_def)
  ultimately show False using assms(3) by simp
qed

lemma old_node_fresh:
  assumes "each_input pre post t ks C" and "m < length t"
  shows "distinct (pre @ (map node (take m t) @ [node (t ! m)]) @ post)"
proof -
  have "map node t = map node (take m t) @ node (t ! m) # map node (drop (Suc m) t)"
    using arg_cong [OF id_take_nth_drop [OF assms(2)], of "map node"] by simp
  then have "distinct (pre @ (map node (take m t) @ node (t ! m) # map node (drop (Suc m) t)) @ post)"
    using assms(1) by (simp only: each_input_def)
  then show ?thesis by auto
qed

lemma new_node_fresh:
  assumes "each_input pre post t ks C" and "b < length C"
  shows "node (C ! b) \<notin> set pre \<union> set post \<union> node ` set (drop (Suc b) C)"
    and "key (C ! b) \<notin> key ` set (drop (Suc b) C)"
proof -
  have dr: "drop b C = C ! b # drop (Suc b) C" using assms(2) by (simp add: Cons_nth_drop_Suc)
  have "distinct (map node (drop b C))" "distinct (map key (drop b C))"
    using assms(1) by (auto simp: each_input_def drop_map [symmetric])
  moreover have "node (C ! b) \<in> node ` set C" using assms(2) by simp
  ultimately show "node (C ! b) \<notin> set pre \<union> set post \<union> node ` set (drop (Suc b) C)"
    and "key (C ! b) \<notin> key ` set (drop (Suc b) C)"
    using assms(1) by (auto simp: each_input_def dr)
qed

lemma children_ok_insert:
  assumes "each_input pre post t ks C" and "b < length C"
    and "children_ok pre post t C m (Suc b) st"
    and "h = first_node (map node (drop (Suc b) C) @ post)"
  shows "children_ok pre post t C m b (st\<lparr>children := insert_before (node (C ! b)) h (children st)\<rparr>)"
proof -
  have dr: "drop b C = C ! b # drop (Suc b) C" using assms(2) by (simp add: Cons_nth_drop_Suc)
  have "in_order pre post (map node (take m t)) (node (C ! b) # map node (drop (Suc b) C))
      (insert_before (node (C ! b)) h (children st))"
    unfolding assms(4) using assms(3) new_node_fresh [OF assms(1,2)]
    by (intro in_order_inserted) (auto simp: children_ok_def)
  moreover have "node (C ! b) \<in> node ` set C" using assms(2) by simp
  ultimately show ?thesis
    using assms(3) by (auto simp: children_ok_def distinct_insert_before dr)
qed

lemma children_ok_keep:
  assumes "each_input pre post t ks C" and "m < length t" and "b < length C"
    and "node (C ! b) = node (t ! m)" and "children_ok pre post t C (Suc m) (Suc b) st"
  shows "children_ok pre post t C m b st"
proof -
  have tk: "take (Suc m) t = take m t @ [t ! m]" and dr: "drop b C = C ! b # drop (Suc b) C"
    using assms(2,3) by (simp_all add: take_Suc_conv_app_nth Cons_nth_drop_Suc)
  have ord: "in_order pre post (map node (take m t) @ [node (t ! m)]) (map node (drop (Suc b) C)) (children st)"
    using assms(5) by (simp add: children_ok_def tk)
  have "node (t ! m) \<notin> set (map node (drop (Suc b) C)) \<union> set (map node (take m t))"
    using new_node_fresh(1) [OF assms(1,3)] old_node_fresh [OF assms(1,2)] by (simp add: assms(4))
  with ord have "in_order pre post (map node (take m t)) (map node (drop b C)) (children st)"
    unfolding dr list.map assms(4) by (rule in_order_kept)
  moreover have "node (t ! m) \<in> node ` set C" using assms(3,4) by (metis imageI nth_mem)
  moreover have "set (children st) \<subseteq> set pre \<union> set post \<union> node ` set C \<union>
      insert (node (t ! m)) (node ` set (take m t)) \<union> node ` set (outros st)"
    using assms(5) by (simp add: children_ok_def tk)
  ultimately show ?thesis using assms(5) unfolding children_ok_def by blast
qed

lemma in_order_skip:
  assumes "each_input pre post t ks C" and "m < length t" and "children_ok pre post t C (Suc m) b st"
  shows "in_order pre post (map node (take m t)) (map node (drop b C)) (children st)"
proof -
  have "in_order pre post (map node (take m t) @ [node (t ! m)]) (map node (drop b C)) (children st)"
    using assms(2,3) by (simp add: children_ok_def take_Suc_conv_app_nth)
  then show ?thesis using old_node_fresh [OF assms(1,2)] by (rule in_order_drop_old)
qed

lemma children_ok_skip:
  assumes "each_input pre post t ks C" and "m < length t" and "key (t ! m) \<in> set ks"
    and "children_ok pre post t C (Suc m) b st"
  shows "children_ok pre post t C m b st"
proof -
  have tk: "take (Suc m) t = take m t @ [t ! m]" using assms(2) by (simp add: take_Suc_conv_app_nth)
  have "in_order pre post (map node (take m t)) (map node (drop b C)) (children st)"
    by (rule in_order_skip [OF assms(1,2,4)])
  moreover have "node (t ! m) \<in> node ` set C" using assms(1-3) by (simp add: each_input_def)
  moreover have "set (children st) \<subseteq> set pre \<union> set post \<union> node ` set C \<union>
      insert (node (t ! m)) (node ` set (take m t)) \<union> node ` set (outros st)"
    using assms(4) by (simp add: children_ok_def tk)
  ultimately show ?thesis using assms(4) unfolding children_ok_def by blast
qed

lemma children_ok_remove:
  assumes "each_input pre post t ks C" and "m < length t" and "key (t ! m) \<notin> set ks"
    and "children_ok pre post t C (Suc m) b st"
  shows "children_ok pre post t C m b (remove_block md (t ! m) st)"
proof -
  have tk: "take (Suc m) t = take m t @ [t ! m]" using assms(2) by (simp add: take_Suc_conv_app_nth)
  have ord: "in_order pre post (map node (take m t)) (map node (drop b C)) (children st)"
    by (rule in_order_skip [OF assms(1,2,4)])
  have new: "node (t ! m) \<notin> node ` set C" using removed_not_new assms(1-3) by simp
  show ?thesis
  proof (cases md)
    case Destroy
    have "in_order pre post (map node (take m t)) (map node (drop b C))
        (filter (\<lambda>x. x \<noteq> node (t ! m)) (children st))"
      using old_node_fresh [OF assms(1,2)] new
      by (intro in_order_removed [OF ord]) (auto dest: in_set_dropD)
    with assms(4) Destroy show ?thesis
      by (auto simp: children_ok_def remove_block_def destroy_block_def tk)
  next
    case OutroAndDestroy
    with assms(4) ord show ?thesis
      by (auto simp: children_ok_def remove_block_def outro_and_destroy_block_def tk)
  qed
qed

lemma keys_ok_insert:
  assumes "each_input pre post t ks C" and "b < length C" and "keys_ok md t ks C m (Suc b) st"
  shows "keys_ok md t ks C m b
    (st\<lparr>children := cs, by_key := AList.update (key (C ! b)) (C ! b) (by_key st)\<rparr>)"
proof -
  have dr: "drop b C = C ! b # drop (Suc b) C" using assms(2) by (simp add: Cons_nth_drop_Suc)
  have "inj_on key (set C)" and ks: "key (C ! b) \<in> set ks"
    using assms(1,2) by (auto simp: each_input_def distinct_map)
  then have "x = C ! b" if "x \<in> set C" "key x = key (C ! b)" for x
    using that assms(2) by (auto dest: inj_onD)
  with assms(3) ks show ?thesis unfolding keys_ok_def dr by (auto simp: update_conv')
qed

lemma keys_ok_skip:
  assumes "m < length t" and "key (t ! m) \<in> set ks" and "keys_ok md t ks C (Suc m) b st"
  shows "keys_ok md t ks C m b st"
proof -
  have "take (Suc m) t = take m t @ [t ! m]" using assms(1) by (simp add: take_Suc_conv_app_nth)
  with assms(2,3) show ?thesis unfolding keys_ok_def by auto
qed

lemma keys_ok_keep:
  assumes "each_input pre post t ks C" and "m < length t" and "b < length C"
    and "node (C ! b) = node (t ! m)" and "keys_ok md t ks C (Suc m) (Suc b) st"
  shows "keys_ok md t ks C m b st"
proof -
  have dr: "drop b C = C ! b # drop (Suc b) C" using assms(3) by (simp add: Cons_nth_drop_Suc)
  have same: "C ! b = t ! m" using assms(1-4) by (simp add: each_input_def)
  have ks: "key (t ! m) \<in> set ks" using assms(1,3) by (auto simp: each_input_def same [symmetric])
  have "t ! m \<in> set t" using assms(2) by simp
  with assms(5) have "keys_ok md t ks C (Suc m) b st" by (auto simp: keys_ok_def dr same)
  with assms(2) ks show ?thesis by (rule keys_ok_skip)
qed

lemma keys_ok_remove:
  assumes "m < length t" and "each_input pre post t ks C" and "key (t ! m) \<notin> set ks"
    and "keys_ok md t ks C (Suc m) b st"
  shows "keys_ok md t ks C m b (remove_block md (t ! m) st)"
proof -
  have tk: "take (Suc m) t = take m t @ [t ! m]" using assms(1) by (simp add: take_Suc_conv_app_nth)
  have "set ks = key ` set C" using assms(2) by (auto simp: each_input_def)
  then have ks: "key x \<noteq> key (t ! m)" if "x \<in> set C" for x
    using that assms(3) by (metis imageI)
  have "distinct (map node t)" using assms(2) by (simp add: each_input_def)
  then have inj: "z = t ! m" if "z \<in> set t" "node z = node (t ! m)" for z
    using that assms(1) by (auto simp: distinct_map dest: inj_onD)
  show ?thesis
  proof (cases md)
    case Destroy
    then show ?thesis using assms(4) ks
      by (auto simp: keys_ok_def tk remove_block_def destroy_block_def delete_conv')
  next
    case OutroAndDestroy
    have old: "z = t ! m" if "z \<in> set (outros st)" "node z = node (t ! m)" for z
      using that assms(4) inj by (auto simp: keys_ok_def)
    show ?thesis
    proof (cases "node (t ! m) \<in> node ` set (outros st)")
      case True
      then have "t ! m \<in> set (outros st)" using old by auto
      then show ?thesis using assms(4) OutroAndDestroy True
        by (auto simp: keys_ok_def tk remove_block_def outro_and_destroy_block_def)
    next
      case False
      then show ?thesis using assms OutroAndDestroy
        by (auto simp: keys_ok_def tk remove_block_def outro_and_destroy_block_def)
    qed
  qed
qed

section \<open>The loops\<close>

lemma sync_inv_insert:
  assumes "each_input pre post t ks C" and "sync_inv pre post md t ks C s" and "0 < new_left s"
  shows "sync_inv pre post md t ks C (insert_block (C ! (new_left s - 1)) s)"
    and "sync_inv pre post md t ks C
      (insert_block (C ! (new_left s - 1)) (s\<lparr>did_move := key (C ! (new_left s - 1)) # did_move s\<rparr>))"
proof -
  obtain b where b: "new_left s = Suc b" "b < length C"
    using assms(2,3) by (cases "new_left s") (auto simp: sync_inv_def)
  have dr: "drop b C = C ! b # drop (Suc b) C" using b by (simp add: Cons_nth_drop_Suc)
  have "children_ok pre post t C (old_left s) b
      ((tree s)\<lparr>children := insert_before (node (C ! b)) (anchor s) (children (tree s))\<rparr>)"
    using assms(2) b by (intro children_ok_insert [OF assms(1)]) (auto simp: sync_inv_def)
  moreover have "keys_ok md t ks C (old_left s) b
      ((tree s)\<lparr>children := insert_before (node (C ! b)) (anchor s) (children (tree s)),
        by_key := AList.update (key (C ! b)) (C ! b) (by_key (tree s))\<rparr>)"
    using assms(2) b by (intro keys_ok_insert [OF assms(1)]) (auto simp: sync_inv_def)
  ultimately show "sync_inv pre post md t ks C (insert_block (C ! (new_left s - 1)) s)"
    and "sync_inv pre post md t ks C
      (insert_block (C ! (new_left s - 1)) (s\<lparr>did_move := key (C ! (new_left s - 1)) # did_move s\<rparr>))"
    using assms(2) b
    by (auto simp: sync_inv_def insert_block_def children_ok_def first_node_def dr)
qed

lemma sync_inv_step:
  assumes "each_input pre post t ks C" and "sync_inv pre post md t ks C s"
    and "0 < new_left s" and "0 < old_left s"
  shows "sync_inv pre post md t ks C (sync_step md t ks C s)"
proof -
  obtain b where b: "new_left s = Suc b" "b < length C"
    using assms(2,3) by (cases "new_left s") (auto simp: sync_inv_def)
  obtain m where m: "old_left s = Suc m" "m < length t"
    using assms(2,4) by (cases "old_left s") (auto simp: sync_inv_def)
  have dr: "drop b C = C ! b # drop (Suc b) C" using b by (simp add: Cons_nth_drop_Suc)
  have ch: "children_ok pre post t C (Suc m) (Suc b) (tree s)"
    and ky: "keys_ok md t ks C (Suc m) (Suc b) (tree s)"
    and rest: "anchor s = first_node (map node (drop (Suc b) C) @ post)"
      "set (did_move s) \<subseteq> key ` set (drop (Suc b) C)"
    using assms(2) by (simp_all add: sync_inv_def b m)
  note ins = sync_inv_insert [OF assms(1,2,3), simplified b, simplified]
  show ?thesis
  proof (cases "node (C ! b) = node (t ! m)")
    case True
    have "children_ok pre post t C m b (tree s)" "keys_ok md t ks C m b (tree s)"
      using children_ok_keep [OF assms(1) m(2) b(2) True ch] keys_ok_keep [OF assms(1) m(2) b(2) True ky]
      by blast+
    with True rest b m show ?thesis
      by (auto simp: sync_inv_def sync_step_def first_node_def dr)
  next
    case other: False
    show ?thesis
    proof (cases "key (t ! m) \<in> set ks")
      case True
      have "children_ok pre post t C m (Suc b) (tree s)" "keys_ok md t ks C m (Suc b) (tree s)"
        using children_ok_skip [OF assms(1) m(2) True ch] keys_ok_skip [OF m(2) True ky] by blast+
      with rest b m have "sync_inv pre post md t ks C (s\<lparr>old_left := m\<rparr>)"
        "sync_inv pre post md t ks C (s\<lparr>will_move := key (t ! m) # will_move s, old_left := m\<rparr>)"
        by (simp_all add: sync_inv_def)
      with other True b m ins show ?thesis by (simp add: sync_step_def Let_def)
    next
      case False
      have "children_ok pre post t C m (Suc b) (remove_block md (t ! m) (tree s))"
        "keys_ok md t ks C m (Suc b) (remove_block md (t ! m) (tree s))"
        using children_ok_remove [OF assms(1) m(2) False ch] keys_ok_remove [OF m(2) assms(1) False ky]
        by blast+
      with other False rest b m show ?thesis by (simp add: sync_inv_def sync_step_def)
    qed
  qed
qed

lemma sync_inv_loop:
  assumes "each_input pre post t ks C" and "sync_inv pre post md t ks C s"
  shows "sync_inv pre post md t ks C (sync_loop md t ks C s) \<and>
    (old_left (sync_loop md t ks C s) = 0 \<or> new_left (sync_loop md t ks C s) = 0)"
  using assms
proof (induction md t ks C s rule: sync_loop.induct)
  case (1 md t ks C s)
  show ?case
  proof (cases "0 < old_left s \<and> 0 < new_left s")
    case True
    then have "sync_inv pre post md t ks C (sync_step md t ks C s)"
      using sync_inv_step [OF 1(2,3)] by simp
    from 1(1) [OF True 1(2) this] True show ?thesis by (simp add: sync_loop.simps [of md t ks C s])
  next
    case False
    with 1(3) show ?thesis by (auto simp: sync_loop.simps [of md t ks C s])
  qed
qed

lemma remove_rest_ok:
  assumes "each_input pre post t ks C" and "m \<le> length t"
    and "children_ok pre post t C m b st" and "keys_ok md t ks C m b st"
  shows "children_ok pre post t C 0 b (remove_rest md t ks m st) \<and>
    keys_ok md t ks C 0 b (remove_rest md t ks m st)"
  using assms(2-4)
proof (induction m arbitrary: st)
  case (Suc m)
  let ?st = "if key (t ! m) \<in> set ks then st else remove_block md (t ! m) st"
  have "m < length t" using Suc.prems(1) by simp
  then have "children_ok pre post t C m b ?st" "keys_ok md t ks C m b ?st"
    using children_ok_skip [OF assms(1)] children_ok_remove [OF assms(1)] keys_ok_skip
      keys_ok_remove [OF _ assms(1)] Suc.prems(2,3) by auto
  with Suc.IH [of ?st] Suc.prems(1) show ?case by simp
qed simp

lemma insert_rest_ok:
  assumes "each_input pre post t ks C" and "sync_inv pre post md t ks C s" and "new_left s = b"
  shows "sync_inv pre post md t ks C (insert_rest C b s) \<and> new_left (insert_rest C b s) = 0 \<and>
    old_left (insert_rest C b s) = old_left s"
  using assms(2,3)
proof (induction b arbitrary: s)
  case (Suc b)
  have "sync_inv pre post md t ks C (insert_block (C ! b) s)"
    using sync_inv_insert(1) [OF assms(1) Suc.prems(1)] Suc.prems(2) by simp
  moreover have "new_left (insert_block (C ! b) s) = b" "old_left (insert_block (C ! b) s) = old_left s"
    using Suc.prems(2) by (simp_all add: insert_block_def)
  ultimately show ?case using Suc.IH by simp
qed simp

section \<open>Correctness\<close>

text \<open>
  A state between updates: the children are the nodes around the blocks and the blocks in order, the
  map has exactly the blocks, under their keys, and new nodes are fresh.
\<close>

definition each_ok :: "nat list \<Rightarrow> block list \<Rightarrow> nat list \<Rightarrow> each_state \<Rightarrow> bool" where
  "each_ok pre t post st \<longleftrightarrow>
     children st = pre @ map node t @ post \<and> distinct (pre @ map node t @ post) \<and>
     (\<forall>x \<in> set (pre @ map node t @ post). x < next_node st) \<and> outros st = [] \<and>
     (\<forall>k x. map_of (by_key st) k = Some x \<longleftrightarrow> x \<in> set t \<and> key x = k)"

lemma build_blocks_ok:
  assumes "each_ok pre t post st" and "distinct ks" and "build_blocks ks st = (C, L, st')"
  shows "children st' = children st \<and> by_key st' = by_key st \<and> outros st' = [] \<and>
    next_node st \<le> next_node st' \<and> map key C = ks \<and> set L = set C \<inter> set t \<and> distinct (map node C) \<and>
    (\<forall>x \<in> set C. x \<in> set t \<or> next_node st \<le> node x \<and> node x < next_node st')"
  using assms(2,3)
proof (induction ks arbitrary: C L st')
  case Nil
  with assms(1) show ?case by (auto simp: each_ok_def)
next
  case (Cons k ks)
  obtain C1 L1 s1 where b: "build_blocks ks st = (C1, L1, s1)" by (metis prod_cases3)
  with Cons have IH: "children s1 = children st" "by_key s1 = by_key st" "outros s1 = []"
    "next_node st \<le> next_node s1" "map key C1 = ks" "set L1 = set C1 \<inter> set t" "distinct (map node C1)"
    "\<forall>x \<in> set C1. x \<in> set t \<or> next_node st \<le> node x \<and> node x < next_node s1" by simp_all
  have low: "node y < next_node st" if "y \<in> set t" for y
    using that assms(1) by (auto simp: each_ok_def)
  have inj: "y = z" if "y \<in> set t" "z \<in> set t" "node y = node z" for y z
    using that assms(1) by (auto simp: each_ok_def distinct_map dest: inj_onD)
  show ?case
  proof (cases "map_of (by_key st) k")
    case None
    then have new: "C = \<lparr>node = next_node s1, key = k\<rparr> # C1" "L = L1"
      "st' = s1\<lparr>next_node := Suc (next_node s1)\<rparr>"
      using Cons.prems(2) b IH(2) by simp_all
    have "\<forall>x \<in> set C1. node x < next_node s1" using IH(4,8) low by fastforce
    moreover have "\<lparr>node = next_node s1, key = k\<rparr> \<notin> set t" using low IH(4) by fastforce
    ultimately show ?thesis using IH unfolding new by auto
  next
    case (Some x)
    then have new: "C = x # C1" "L = L1 @ [x]" "st' = s1"
      using Cons.prems(2) b IH(2) by simp_all
    have x: "x \<in> set t" "key x = k" using Some assms(1) by (auto simp: each_ok_def)
    have "node x \<notin> node ` set C1"
    proof
      assume "node x \<in> node ` set C1"
      then obtain z where z: "z \<in> set C1" "node z = node x" by auto
      then have "z = x" using IH(8) inj x(1) low [OF x(1)] by fastforce
      then have "k \<in> set ks" using z(1) IH(5) x(2) by (metis imageI list.set_map)
      then show False using Cons.prems(1) by simp
    qed
    then show ?thesis using IH x unfolding new by auto
  qed
qed

lemma check_outros_eqs:
  "children (check_outros st) = filter (\<lambda>x. x \<notin> node ` set (outros st)) (children st)"
  "map_of (by_key (check_outros st)) k = (if k \<in> key ` set (outros st) then None else map_of (by_key st) k)"
  "outros (check_outros st) = []" "next_node (check_outros st) = next_node st"
proof -
  let ?f = "foldl (\<lambda>s x. destroy_block x s)"
  have "children (?f s zs) = filter (\<lambda>x. x \<notin> node ` set zs) (children s) \<and>
    map_of (by_key (?f s zs)) k = (if k \<in> key ` set zs then None else map_of (by_key s) k) \<and>
    outros (?f s zs) = outros s \<and> next_node (?f s zs) = next_node s" for s zs
    by (induction zs arbitrary: s) (auto simp: destroy_block_def delete_conv' intro!: filter_cong)
  then show "children (check_outros st) = filter (\<lambda>x. x \<notin> node ` set (outros st)) (children st)"
    "map_of (by_key (check_outros st)) k = (if k \<in> key ` set (outros st) then None else map_of (by_key st) k)"
    "outros (check_outros st) = []" "next_node (check_outros st) = next_node st"
    by (simp_all add: check_outros_def)
qed

lemma next_node_kept [simp]:
  "next_node (remove_block md x st) = next_node st"
  "next_node (tree (insert_block x s)) = next_node (tree s)"
  "next_node (tree (sync_step md t ks C s)) = next_node (tree s)"
  by (auto simp: remove_block_def destroy_block_def outro_and_destroy_block_def insert_block_def
      sync_step_def Let_def split: removal.split)

lemma next_node_sync_loop [simp]: "next_node (tree (sync_loop md t ks C s)) = next_node (tree s)"
  by (induction md t ks C s rule: sync_loop.induct) (subst sync_loop.simps, simp)

lemma next_node_remove_rest [simp]: "next_node (remove_rest md t ks m st) = next_node st"
  by (induction m arbitrary: st) auto

lemma next_node_insert_rest [simp]: "next_node (tree (insert_rest C b s)) = next_node (tree s)"
  by (induction b arbitrary: s) auto

lemma each_input_built:
  assumes "each_ok pre t post st" and "distinct ks" and "build_blocks ks st = (C, L, st')"
  shows "each_input pre post t ks C"
proof -
  note b = build_blocks_ok [OF assms]
  have low: "x < next_node st" if "x \<in> set pre \<union> node ` set t \<union> set post" for x
    using that assms(1) by (auto simp: each_ok_def)
  have kept: "y \<in> set C" if "y \<in> set t" "key y \<in> set ks" for y
    using that assms(3)
  proof (induction ks arbitrary: C L st')
    case (Cons k ks)
    obtain C1 L1 s1 where b1: "build_blocks ks st = (C1, L1, s1)" by (metis prod_cases3)
    have same: "by_key (snd (snd (build_blocks ks st))) = by_key st" for ks
      by (induction ks) (auto simp: Let_def split: prod.splits option.splits)
    have "map_of (by_key s1) (key y) = Some y"
      using same [of ks] b1 assms(1) that(1) by (simp add: each_ok_def)
    with Cons b1 show ?case by (cases "key y = k") (auto split: option.splits)
  qed simp
  have "distinct (pre @ map node t @ post)" using assms(1) by (simp add: each_ok_def)
  moreover have "node ` set C \<inter> (set pre \<union> set post) = {}"
    using b low \<open>distinct (pre @ map node t @ post)\<close> by fastforce
  moreover have "x = y" if "x \<in> set C" "y \<in> set t" "node x = node y" for x y
  proof -
    have "x \<in> set t" using b low [of "node y"] that by fastforce
    then show ?thesis using that \<open>distinct (pre @ map node t @ post)\<close>
      by (auto simp: distinct_map dest: inj_onD)
  qed
  ultimately show ?thesis using b kept assms(2) by (simp add: each_input_def)
qed

lemma update_keyed_each_ok:
  assumes "each_ok pre t post st" and "distinct ks" and "h = first_node post"
    and "update_keyed_each md t ks h st = (C, L, st')"
  shows "each_input pre post t ks C \<and> set L = set C \<inter> set t \<and>
    children_ok pre post t C 0 0 st' \<and> keys_ok md t ks C 0 0 st' \<and>
    (\<forall>x \<in> set pre \<union> set post \<union> node ` set C. x < next_node st')"
proof -
  obtain C1 L1 s1 where b: "build_blocks ks st = (C1, L1, s1)" by (metis prod_cases3)
  note built = build_blocks_ok [OF assms(1,2) b] and inp = each_input_built [OF assms(1,2) b]
  define s0 where "s0 = \<lparr>old_left = length t, new_left = length ks, anchor = h, will_move = [],
    did_move = [], tree = s1\<rparr>"
  have len: "length C1 = length ks" using built by (metis length_map)
  have cs: "children s1 = pre @ map node t @ post" "distinct (children s1)" "outros s1 = []"
    and ky: "map_of (by_key s1) k = Some x \<longleftrightarrow> x \<in> set t \<and> key x = k" for k x
    using assms(1) built by (simp_all add: each_ok_def)
  have "filter (\<lambda>x. x \<in> set pre \<union> set post \<union> set (map node t) \<union> set []) (children s1) = children s1"
    unfolding cs(1) by (rule filter_True) auto
  then have "in_order pre post (map node t) [] (children s1)" by (simp add: in_order_def cs(1))
  moreover have "set (children s1) \<subseteq> set pre \<union> set post \<union> node ` set t" by (auto simp: cs(1))
  ultimately have "children_ok pre post t C1 (length t) (length ks) s1"
    using cs(2) len by (auto simp: children_ok_def)
  moreover have "keys_ok md t ks C1 (length t) (length ks) s1"
    using len ky cs(3) by (auto simp: keys_ok_def)
  ultimately have inv: "sync_inv pre post md t ks C1 s0"
    using len by (simp add: sync_inv_def s0_def assms(3))
  define s2 where "s2 = sync_loop md t ks C1 s0"
  define s3 where "s3 = s2\<lparr>tree := remove_rest md t ks (old_left s2) (tree s2), old_left := 0\<rparr>"
  have inv2: "sync_inv pre post md t ks C1 s2"
    using sync_inv_loop [OF inp inv] by (simp add: s2_def)
  then have "sync_inv pre post md t ks C1 s3"
    using remove_rest_ok [OF inp, of "old_left s2" "new_left s2" "tree s2" md]
    by (auto simp: sync_inv_def s3_def)
  from insert_rest_ok [OF inp this refl]
  have fin: "children_ok pre post t C1 0 0 (tree (insert_rest C1 (new_left s3) s3))"
    "keys_ok md t ks C1 0 0 (tree (insert_rest C1 (new_left s3) s3))"
    by (auto simp: sync_inv_def s3_def)
  have "new_left s3 = new_left s2" by (simp add: s3_def)
  then have eqs: "C = C1" "L = L1" "st' = tree (insert_rest C1 (new_left s3) s3)"
    using assms(4) by (auto simp: update_keyed_each_def b s0_def [symmetric] s2_def [symmetric]
        s3_def [symmetric] Let_def)
  have "next_node st' = next_node s1" by (simp add: eqs s3_def s2_def s0_def)
  moreover have "x < next_node s1" if "x \<in> set pre \<union> set post \<union> node ` set C" for x
  proof -
    have "\<forall>y \<in> set (pre @ map node t @ post). y < next_node st" "next_node st \<le> next_node s1"
      using assms(1) built unfolding each_ok_def by blast+
    then have old: "y < next_node s1" if "y \<in> set pre \<union> node ` set t \<union> set post" for y
      using that order.strict_trans2 [of y "next_node st"] by auto
    from that consider "x \<in> set pre \<union> set post" | z where "z \<in> set C1" "x = node z" by (auto simp: eqs)
    then show ?thesis
    proof cases
      case 2
      with built have "z \<in> set t \<or> node z < next_node s1" by blast
      with 2 old show ?thesis by blast
    qed (use old in blast)
  qed
  ultimately show ?thesis using fin inp built by (simp add: eqs)
qed

lemma settled_children:
  assumes "each_input pre post t ks C" and "children_ok pre post t C 0 0 st" and "keys_ok md t ks C 0 0 st"
  shows "filter (\<lambda>x. x \<notin> node ` set (outros st)) (children st) = pre @ map node C @ post"
proof -
  have "\<forall>z \<in> set (outros st). z \<in> set t \<and> key z \<notin> set ks" using assms(3) by (simp add: keys_ok_def)
  then have "node ` set (outros st) \<inter> (set pre \<union> set post \<union> node ` set C) = {}"
    using removed_not_new [OF assms(1)] assms(1) by (fastforce simp: each_input_def)
  moreover have "set (children st) \<subseteq> set pre \<union> set post \<union> node ` set C \<union> node ` set (outros st)"
    using assms(2) by (simp add: children_ok_def)
  ultimately have "filter (\<lambda>x. x \<notin> node ` set (outros st)) (children st) =
      filter (\<lambda>x. x \<in> set pre \<union> set post \<union> set (map node (take 0 t)) \<union> set (map node (drop 0 C))) (children st)"
    by (intro filter_cong) auto
  with assms(2) show ?thesis by (simp add: children_ok_def in_order_def)
qed

lemma settled_keys:
  assumes "each_input pre post t ks C" and "keys_ok md t ks C 0 0 st"
  shows "(if k \<in> key ` set (outros st) then None else map_of (by_key st) k) = Some x \<longleftrightarrow>
    x \<in> set C \<and> key x = k"
proof -
  have new: "map_of (by_key st) (key x) = Some x" if "x \<in> set C" for x
    using assms(2) that by (simp add: keys_ok_def)
  have ks: "set ks = key ` set C" using assms(1) by (auto simp: each_input_def)
  show ?thesis
  proof (cases "k \<in> set ks")
    case True
    then have "k \<notin> key ` set (outros st)" using assms(2) by (auto simp: keys_ok_def)
    moreover obtain y where "y \<in> set C" "k = key y" using True ks by auto
    ultimately show ?thesis using new by (metis option.inject)
  next
    case False
    then have "k \<in> key ` set (outros st) \<or> map_of (by_key st) k = None"
      using assms(2) by (auto simp: keys_ok_def)
    moreover have "key x \<noteq> k" if "x \<in> set C" for x using that False ks by (metis imageI)
    ultimately show ?thesis by auto
  qed
qed

text \<open>
  Claim C11: an update of a keyed list of blocks puts the children into the order of the new items
  and leaves the nodes before and behind them alone, whatever the order was and whichever blocks the
  heuristic moves. Blocks whose key stays are kept and are exactly those that are updated, the
  others are removed, and the map from keys to blocks is again that of the blocks on the page. This
  holds with and without a group of outros.
\<close>

theorem keyed_each_reorders:
  assumes "each_ok pre t post st" and "distinct ks"
  shows "let (C, L, st') = each_update md t ks (first_node post) st
    in each_ok pre C post st' \<and> map key C = ks \<and> set L = set C \<inter> set t \<and>
       (\<forall>y \<in> set t. key y \<in> set ks \<longrightarrow> y \<in> set C)"
proof -
  have [simp]: "group_outros st = st" using assms(1) by (simp add: group_outros_def each_ok_def)
  obtain C L st1 where u: "update_keyed_each md t ks (first_node post) st = (C, L, st1)"
    by (metis prod_cases3)
  note ok = update_keyed_each_ok [OF assms refl u]
  have out: "each_update md t ks (first_node post) st = (C, L, case md of Destroy \<Rightarrow> st1 | _ \<Rightarrow> check_outros st1)"
    using u by (cases md) (simp_all add: each_update_def)
  have none: "md = Destroy \<Longrightarrow> outros st1 = []" using ok by (simp add: keys_ok_def)
  have inp: "each_input pre post t ks C" using ok by simp
  have "distinct (pre @ map node C @ post)"
    using inp by (auto simp: each_input_def)
  then have "each_ok pre C post (case md of Destroy \<Rightarrow> st1 | _ \<Rightarrow> check_outros st1)"
    using ok settled_children [OF inp, of st1 md] settled_keys [OF inp, of md st1] none
    by (cases md) (auto simp: each_ok_def check_outros_eqs)
  with out ok show ?thesis by (simp add: each_input_def)
qed

definition sample_blocks :: "block list" where
  "sample_blocks = [\<lparr>node = 0, key = [97]\<rparr>, \<lparr>node = 1, key = [98]\<rparr>, \<lparr>node = 2, key = [99]\<rparr>]"

definition sample_each :: each_state where
  "sample_each = \<lparr>children = [9, 0, 1, 2, 8], by_key = map (\<lambda>x. (key x, x)) sample_blocks,
     outros = [], next_node = 10\<rparr>"

theorem keyed_each_reorders_witness:
  "each_ok [9] sample_blocks [8] sample_each \<and> distinct [[99], [100], [97] :: jsstr] \<and>
   (let (C, L, st') = each_update OutroAndDestroy sample_blocks [[99], [100], [97]] (first_node [8]) sample_each
    in each_ok [9] C [8] st' \<and> map key C = [[99], [100], [97]] \<and> set L = set C \<inter> set sample_blocks)"
proof -
  have ok: "each_ok [9] sample_blocks [8] sample_each"
    by (auto simp: each_ok_def sample_each_def sample_blocks_def split: if_splits)
  have ks: "distinct [[99], [100], [97] :: jsstr]" by simp
  from ok ks keyed_each_reorders [OF ok ks, of OutroAndDestroy] show ?thesis by (simp add: case_prod_unfold Let_def)
qed

end
