(* ===== verification/Svelte_Store.thy ===== *)
theory Svelte_Store
  imports JS_Value "HOL-Library.Multiset"
begin

text \<open>
  The writable stores of the runtime (\<open>bundle.js\<close> lines 62--66 and 782--814), which hold the API
  client, the notifications and the state of the translations. Stores share one queue: a set
  inside a callback only adds to it, and the outermost set delivers until it is empty. The
  theorem is that delivery ends, and that every subscriber then knows the current value, whatever
  stores the callbacks set, as long as they set later ones.
\<close>

section \<open>Stores\<close>

text \<open>\<open>safe_not_equal\<close>: objects and functions count as changed.\<close>

definition safe_not_equal :: "jsval \<Rightarrow> jsval \<Rightarrow> bool" where
  "safe_not_equal a b \<longleftrightarrow>
     (if a = NaN then b \<noteq> NaN
      else a \<noteq> b \<or> truthy_val a \<and> typeof_object a \<or> (case a of Fun f \<Rightarrow> True | _ \<Rightarrow> False))"

record writable =
  held :: jsval
  subscribers :: "nat list"
  started :: bool

text \<open>
  The stores, the queue of callbacks with their values, and for each subscription what it was
  called with. A subscription is a number; \<open>owner\<close> is its store and \<open>react\<close> what its
  callback sets, given everything it was called with so far.
\<close>

record stores =
  cells :: "writable list"
  queue :: "(nat \<times> jsval) list"
  received :: "nat \<Rightarrow> jsval list"

type_synonym reaction = "nat \<Rightarrow> jsval list \<Rightarrow> (nat \<times> jsval) list"

definition assign :: "nat \<Rightarrow> jsval \<Rightarrow> stores \<Rightarrow> stores" where
  "assign i v s =
     (let w = cells s ! i
      in if i < length (cells s) \<and> safe_not_equal (held w) v
         then s\<lparr>cells := (cells s)[i := w\<lparr>held := v\<rparr>],
                queue := (if started w then queue s @ map (\<lambda>c. (c, v)) (subscribers w) else queue s)\<rparr>
         else s)"

definition receive :: "nat \<Rightarrow> jsval \<Rightarrow> stores \<Rightarrow> stores" where
  "receive c v s = s\<lparr>received := (received s)(c := received s c @ [v])\<rparr>"

text \<open>A callback that runs while the queue is delivered: what it sets is added to the queue.\<close>

definition deliver :: "reaction \<Rightarrow> nat \<Rightarrow> jsval \<Rightarrow> stores \<Rightarrow> stores" where
  "deliver react c v s =
     (let s = receive c v s in foldl (\<lambda>s (i, w). assign i w s) s (react c (received s c)))"

partial_function (option) drain_queue :: "reaction \<Rightarrow> stores \<Rightarrow> stores option" where
  "drain_queue react s =
     (case queue s of
        [] \<Rightarrow> Some s
      | (c, v) # q \<Rightarrow> drain_queue react (deliver react c v (s\<lparr>queue := q\<rparr>)))"

declare drain_queue.simps [code]

definition set_store :: "reaction \<Rightarrow> nat \<Rightarrow> jsval \<Rightarrow> stores \<Rightarrow> stores option" where
  "set_store react i v s = drain_queue react (assign i v s)"

definition update_value :: "reaction \<Rightarrow> nat \<Rightarrow> (jsval \<Rightarrow> jsval) \<Rightarrow> stores \<Rightarrow> stores option" where
  "update_value react i f s = set_store react i (f (held (cells s ! i))) s"

primrec set_all :: "reaction \<Rightarrow> (nat \<times> jsval) list \<Rightarrow> stores \<Rightarrow> stores option" where
  "set_all react [] s = Some s"
| "set_all react (p # ps) s =
     (case set_store react (fst p) (snd p) s of None \<Rightarrow> None | Some s' \<Rightarrow> set_all react ps s')"

text \<open>A subscription calls back at once, outside the queue: each set in it delivers by itself.\<close>

definition subscribe :: "reaction \<Rightarrow> nat \<Rightarrow> nat \<Rightarrow> stores \<Rightarrow> stores option" where
  "subscribe react i c s =
     (let w = cells s ! i;
          s = receive c (held w)
                (s\<lparr>cells := (cells s)[i := w\<lparr>subscribers := subscribers w @ [c], started := True\<rparr>]\<rparr>)
      in set_all react (react c (received s c)) s)"

definition unsubscribe :: "nat \<Rightarrow> nat \<Rightarrow> stores \<Rightarrow> stores" where
  "unsubscribe i c s =
     (let w = cells s ! i; cs = filter (\<lambda>d. d \<noteq> c) (subscribers w)
      in s\<lparr>cells := (cells s)[i := w\<lparr>subscribers := cs, started := cs \<noteq> []\<rparr>]\<rparr>)"

definition stores_init :: "jsval list \<Rightarrow> stores" where
  "stores_init vs =
     \<lparr>cells = map (\<lambda>v. \<lparr>held = v, subscribers = [], started = False\<rparr>) vs, queue = [],
      received = (\<lambda>c. [])\<rparr>"

datatype store_event = SetValue nat jsval | Subscribe nat | Unsubscribe nat

definition subscribed :: "(nat \<Rightarrow> nat) \<Rightarrow> stores \<Rightarrow> nat \<Rightarrow> bool" where
  "subscribed owner s c \<longleftrightarrow>
     owner c < length (cells s) \<and> c \<in> set (subscribers (cells s ! owner c))"

fun store_step :: "(nat \<Rightarrow> nat) \<Rightarrow> reaction \<Rightarrow> stores \<Rightarrow> store_event \<Rightarrow> stores option" where
  "store_step owner react s (SetValue i v) = set_store react i v s"
| "store_step owner react s (Subscribe c) =
     (if owner c < length (cells s) \<and> \<not> subscribed owner s c then subscribe react (owner c) c s else Some s)"
| "store_step owner react s (Unsubscribe c) =
     (if owner c < length (cells s) then Some (unsubscribe (owner c) c s) else Some s)"

primrec store_run :: "(nat \<Rightarrow> nat) \<Rightarrow> reaction \<Rightarrow> stores \<Rightarrow> store_event list \<Rightarrow> stores option" where
  "store_run owner react s [] = Some s"
| "store_run owner react s (e # es) =
     (case store_step owner react s e of None \<Rightarrow> None | Some s' \<Rightarrow> store_run owner react s' es)"

section \<open>What subscribers know\<close>

text \<open>What a subscription was called with and will be called with from the queue.\<close>

definition stream :: "stores \<Rightarrow> nat \<Rightarrow> jsval list" where
  "stream s c = received s c @ map snd (filter (\<lambda>p. fst p = c) (queue s))"

definition up_to_date :: "(nat \<Rightarrow> nat) \<Rightarrow> stores \<Rightarrow> bool" where
  "up_to_date owner s \<longleftrightarrow>
     (\<forall>i < length (cells s).
        started (cells s ! i) = (subscribers (cells s ! i) \<noteq> []) \<and>
        (\<forall>c \<in> set (subscribers (cells s ! i)).
           owner c = i \<and> stream s c \<noteq> [] \<and> last (stream s c) = held (cells s ! i)))"

lemma safe_equal: "\<not> safe_not_equal a b \<Longrightarrow> a = b"
  by (auto simp: safe_not_equal_def split: if_splits)

lemma filter_pairs: "filter (\<lambda>p. fst p = c) (map (\<lambda>d. (d, v)) cs) = map (\<lambda>d. (d, v)) (filter (\<lambda>d. d = c) cs)"
  by (induction cs) auto

lemma stream_assign:
  "stream (assign i v s) c =
     stream s c @
     (if i < length (cells s) \<and> safe_not_equal (held (cells s ! i)) v \<and> started (cells s ! i)
      then map (\<lambda>d. v) (filter (\<lambda>d. d = c) (subscribers (cells s ! i))) else [])"
  by (simp add: stream_def assign_def Let_def filter_pairs)

lemma up_to_date_assign:
  assumes "up_to_date owner s"
  shows "up_to_date owner (assign i v s)"
proof (cases "i < length (cells s) \<and> safe_not_equal (held (cells s ! i)) v")
  case True
  have other: "filter (\<lambda>d. d = c) (subscribers (cells s ! i)) = []"
    if "j < length (cells s)" "j \<noteq> i" "c \<in> set (subscribers (cells s ! j))" for j c
  proof -
    have "owner c = j" using that assms by (simp add: up_to_date_def)
    moreover have "owner d = i" if "d \<in> set (subscribers (cells s ! i))" for d
      using that assms True by (simp add: up_to_date_def)
    ultimately show ?thesis using \<open>j \<noteq> i\<close> by (auto simp: filter_empty_conv)
  qed
  have own: "filter (\<lambda>d. d = c) (subscribers (cells s ! i)) \<noteq> []"
    if "c \<in> set (subscribers (cells s ! i))" for c
    using that by (auto simp: filter_empty_conv)
  have "cells (assign i v s) = (cells s)[i := (cells s ! i)\<lparr>held := v\<rparr>]"
    using True by (simp add: assign_def Let_def)
  with assms True other own show ?thesis
    unfolding up_to_date_def stream_assign
    by (auto simp: nth_list_update last_map)
next
  case False
  then have "assign i v s = s" by (auto simp: assign_def Let_def)
  with assms show ?thesis by simp
qed

lemma up_to_date_assign_all:
  "up_to_date owner s \<Longrightarrow> up_to_date owner (foldl (\<lambda>s (i, w). assign i w s) s ps)"
  by (induction ps arbitrary: s) (auto simp: up_to_date_assign)

lemma stream_deliver_head:
  "queue s = (c, v) # q \<Longrightarrow> stream (receive c v (s\<lparr>queue := q\<rparr>)) d = stream s d"
  by (simp add: stream_def receive_def)

lemma up_to_date_deliver:
  assumes "up_to_date owner s" and "queue s = (c, v) # q"
  shows "up_to_date owner (deliver react c v (s\<lparr>queue := q\<rparr>))"
proof -
  have "cells (receive c v (s\<lparr>queue := q\<rparr>)) = cells s" by (simp add: receive_def)
  with assms have "up_to_date owner (receive c v (s\<lparr>queue := q\<rparr>))"
    by (simp add: up_to_date_def stream_deliver_head)
  then show ?thesis by (simp add: deliver_def Let_def up_to_date_assign_all)
qed

section \<open>Delivery ends\<close>

text \<open>
  The stores are numbered so that a callback sets only stores after its own. An entry of the queue
  weighs the more the earlier its store is.
\<close>

definition sets_later :: "nat \<Rightarrow> (nat \<Rightarrow> nat) \<Rightarrow> reaction \<Rightarrow> bool" where
  "sets_later n owner react \<longleftrightarrow> (\<forall>c vs. \<forall>(j, w) \<in> set (react c vs). owner c < j \<and> j < n)"

definition weight :: "nat \<Rightarrow> (nat \<Rightarrow> nat) \<Rightarrow> stores \<Rightarrow> nat multiset" where
  "weight n owner s = image_mset (\<lambda>(c, v). n - owner c) (mset (queue s))"

lemma length_cells_assign [simp]: "length (cells (assign i v s)) = length (cells s)"
  by (simp add: assign_def Let_def)

lemma length_cells_assign_all [simp]:
  "length (cells (foldl (\<lambda>s (i, w). assign i w s) s ps)) = length (cells s)"
  by (induction ps arbitrary: s) auto

lemma length_cells_deliver [simp]: "length (cells (deliver react c v s)) = length (cells s)"
  by (simp add: deliver_def receive_def Let_def)

lemma queue_assign:
  assumes "up_to_date owner s"
  obtains q where "queue (assign i v s) = queue s @ q" and "\<forall>(c, w) \<in> set q. owner c = i"
proof
  let ?w = "cells s ! i"
  let ?q = "if i < length (cells s) \<and> safe_not_equal (held ?w) v \<and> started ?w
    then map (\<lambda>c. (c, v)) (subscribers ?w) else []"
  show "queue (assign i v s) = queue s @ ?q" by (simp add: assign_def Let_def)
  show "\<forall>(c, w) \<in> set ?q. owner c = i" using assms by (auto simp: up_to_date_def)
qed

lemma queue_assign_all:
  assumes "up_to_date owner s"
  shows "\<exists>q. queue (foldl (\<lambda>s (i, w). assign i w s) s ps) = queue s @ q \<and>
    (\<forall>(c, w) \<in> set q. owner c \<in> fst ` set ps)"
  using assms
proof (induction ps arbitrary: s)
  case (Cons p ps)
  obtain i v where p: "p = (i, v)" by (cases p)
  obtain q where q: "queue (assign i v s) = queue s @ q" "\<forall>(c, w) \<in> set q. owner c = i"
    using queue_assign [OF Cons.prems] .
  from Cons.IH [OF up_to_date_assign [OF Cons.prems], of i v] obtain r
    where r: "queue (foldl (\<lambda>s (i, w). assign i w s) (assign i v s) ps) = queue (assign i v s) @ r"
      "\<forall>(c, w) \<in> set r. owner c \<in> fst ` set ps" by blast
  have "queue (foldl (\<lambda>s (i, w). assign i w s) s (p # ps)) = queue s @ q @ r"
    using q(1) r(1) by (simp add: p)
  moreover have "\<forall>(c, w) \<in> set (q @ r). owner c \<in> fst ` set (p # ps)" using q(2) r(2) p by auto
  ultimately show ?case by blast
qed simp

lemma weight_deliver:
  assumes "sets_later n owner react" and "up_to_date owner s" and "queue s = (c, v) # q"
  shows "(weight n owner (deliver react c v (s\<lparr>queue := q\<rparr>)), weight n owner s) \<in> mult less_than"
proof -
  let ?s = "receive c v (s\<lparr>queue := q\<rparr>)"
  have "up_to_date owner ?s"
    using assms(2,3) by (simp add: up_to_date_def stream_deliver_head) (simp add: receive_def)
  from queue_assign_all [OF this, of "react c (received ?s c)"] obtain r
    where r: "queue (deliver react c v (s\<lparr>queue := q\<rparr>)) = q @ r"
      "\<forall>(d, w) \<in> set r. owner d \<in> fst ` set (react c (received ?s c))"
    by (auto simp: deliver_def Let_def receive_def)
  let ?K = "image_mset (\<lambda>(d, w). n - owner d) (mset r)"
  let ?I = "image_mset (\<lambda>(d, w). n - owner d) (mset q)"
  have "\<forall>k \<in># ?K. \<exists>j \<in># {#n - owner c#}. (k, j) \<in> less_than"
    using r(2) assms(1) by (fastforce simp: sets_later_def)
  then have "(?I + ?K, ?I + {#n - owner c#}) \<in> mult less_than"
    by (intro one_step_implies_mult) auto
  then show ?thesis by (simp add: weight_def r(1) assms(3))
qed

text \<open>What an operation that returns has done: an empty queue, subscribers that are up to date.\<close>

definition settles :: "(nat \<Rightarrow> nat) \<Rightarrow> nat \<Rightarrow> stores option \<Rightarrow> bool" where
  "settles owner n r \<longleftrightarrow>
     (\<exists>s. r = Some s \<and> queue s = [] \<and> length (cells s) = n \<and> up_to_date owner s)"

lemma drain_queue_settles:
  assumes "sets_later n owner react" and "up_to_date owner s" and "length (cells s) = n"
  shows "settles owner n (drain_queue react s)"
  using assms(2,3)
proof (induction "weight n owner s" arbitrary: s rule: wf_induct_rule [OF wf_mult [OF wf_less_than]])
  case 1
  show ?case
  proof (cases "queue s")
    case Nil
    with 1 show ?thesis by (simp add: settles_def drain_queue.simps [of react s])
  next
    case (Cons p q)
    obtain c v where p: "queue s = (c, v) # q" using Cons by (cases p) auto
    have "settles owner n (drain_queue react (deliver react c v (s\<lparr>queue := q\<rparr>)))"
      using 1(1) [OF weight_deliver [OF assms(1) 1(2) p]] up_to_date_deliver [OF 1(2) p] 1(3) by simp
    then show ?thesis by (simp add: drain_queue.simps [of react s] p)
  qed
qed

lemma set_store_settles:
  assumes "sets_later n owner react" and "up_to_date owner s" and "length (cells s) = n"
  shows "settles owner n (set_store react i v s)"
  unfolding set_store_def
  by (rule drain_queue_settles [OF assms(1) up_to_date_assign [OF assms(2)]]) (simp add: assms(3))

lemma set_all_settles:
  assumes "sets_later n owner react" and "settles owner n (Some s)"
  shows "settles owner n (set_all react ps s)"
  using assms(2)
proof (induction ps arbitrary: s)
  case (Cons p ps)
  have "settles owner n (set_store react (fst p) (snd p) s)"
    using Cons.prems by (intro set_store_settles [OF assms(1)]) (auto simp: settles_def)
  then obtain s' where "set_store react (fst p) (snd p) s = Some s'" "settles owner n (Some s')"
    by (auto simp: settles_def)
  with Cons.IH show ?case by simp
qed simp

section \<open>Runs\<close>

lemma settled_subscribers:
  assumes "settles owner n (Some s)" and "subscribed owner s c"
  shows "received s c \<noteq> [] \<and> last (received s c) = held (cells s ! owner c)"
proof -
  have "owner c < length (cells s)" "c \<in> set (subscribers (cells s ! owner c))"
    using assms(2) by (simp_all add: subscribed_def)
  moreover have "up_to_date owner s" "queue s = []" using assms(1) by (simp_all add: settles_def)
  ultimately have "stream s c \<noteq> [] \<and> last (stream s c) = held (cells s ! owner c)"
    unfolding up_to_date_def by blast
  with \<open>queue s = []\<close> show ?thesis by (simp add: stream_def)
qed

lemma subscribe_settles:
  assumes "sets_later n owner react" and "settles owner n (Some s)"
    and "owner c < n" and "\<not> subscribed owner s c"
  shows "settles owner n (subscribe react (owner c) c s)"
proof -
  define w where "w = cells s ! owner c"
  define s1 where "s1 = receive c (held w)
    (s\<lparr>cells := (cells s)[owner c := w\<lparr>subscribers := subscribers w @ [c], started := True\<rparr>]\<rparr>)"
  have s: "queue s = []" "length (cells s) = n" "up_to_date owner s"
    using assms(2) by (auto simp: settles_def)
  have str: "stream s1 d = stream s d @ (if d = c then [held w] else [])" for d
    using s(1) by (simp add: stream_def s1_def receive_def)
  have cs: "cells s1 = (cells s)[owner c := w\<lparr>subscribers := subscribers w @ [c], started := True\<rparr>]"
    by (simp add: s1_def receive_def)
  have other: "d \<noteq> c" if "j < n" "d \<in> set (subscribers (cells s ! j))" for j d
    using that assms(3,4) s by (auto simp: up_to_date_def subscribed_def)
  have "up_to_date owner s1"
    unfolding up_to_date_def str
  proof (intro allI impI)
    fix j
    assume "j < length (cells s1)"
    then have j: "j < n" using s(2) by (simp add: cs)
    show "started (cells s1 ! j) = (subscribers (cells s1 ! j) \<noteq> []) \<and>
      (\<forall>d \<in> set (subscribers (cells s1 ! j)). owner d = j \<and>
         stream s d @ (if d = c then [held w] else []) \<noteq> [] \<and>
         last (stream s d @ (if d = c then [held w] else [])) = held (cells s1 ! j))"
      using s(2,3) assms(3) other j
      by (cases "j = owner c") (simp_all add: cs w_def up_to_date_def, (metis nth_list_update_neq)?)
  qed
  then have "settles owner n (Some s1)" using s by (simp add: settles_def cs) (simp add: s1_def receive_def)
  from set_all_settles [OF assms(1) this] show ?thesis
    by (simp add: subscribe_def Let_def w_def [symmetric] s1_def [symmetric])
qed

lemma unsubscribe_settles:
  assumes "settles owner n (Some s)" and "owner c < n"
  shows "settles owner n (Some (unsubscribe (owner c) c s))"
proof -
  have str: "stream (unsubscribe (owner c) c s) d = stream s d" for d
    by (simp add: stream_def unsubscribe_def Let_def)
  have "up_to_date owner (unsubscribe (owner c) c s)"
    unfolding up_to_date_def str
    using assms by (auto simp: settles_def up_to_date_def unsubscribe_def Let_def nth_list_update)
  with assms(1) show ?thesis by (simp add: settles_def) (simp add: unsubscribe_def Let_def)
qed

lemma store_step_settles:
  assumes "sets_later n owner react" and "settles owner n (Some s)"
  shows "settles owner n (store_step owner react s e)"
proof (cases e)
  case (SetValue i v)
  with assms show ?thesis by (auto simp: settles_def [of _ _ "Some s"] intro: set_store_settles)
next
  case (Subscribe c)
  with assms subscribe_settles [OF assms, of c] show ?thesis by (auto simp: settles_def [of _ _ "Some s"])
next
  case (Unsubscribe c)
  with assms unsubscribe_settles [OF assms(2), of c] show ?thesis
    by (auto simp: settles_def [of _ _ "Some s"])
qed

lemma store_run_settles:
  assumes "sets_later n owner react" and "settles owner n (Some s)"
  shows "settles owner n (store_run owner react s es)"
  using assms(2)
proof (induction es arbitrary: s)
  case (Cons e es)
  have "settles owner n (store_step owner react s e)" by (rule store_step_settles [OF assms(1) Cons.prems])
  then obtain s' where "store_step owner react s e = Some s'" "settles owner n (Some s')"
    by (auto simp: settles_def)
  with Cons.IH show ?case by simp
qed simp

lemma stores_init_settles: "settles owner (length vs) (Some (stores_init vs))"
  by (simp add: settles_def stores_init_def up_to_date_def)

text \<open>What is delivered for a store and later ones changes no store up to it.\<close>

lemma held_assign_all:
  "\<forall>(i, w) \<in> set ps. k < i \<Longrightarrow> j \<le> k \<Longrightarrow>
     held (cells (foldl (\<lambda>s (i, w). assign i w s) s ps) ! j) = held (cells s ! j)"
proof (induction ps arbitrary: s)
  case (Cons p ps)
  obtain i w where p: "p = (i, w)" by (cases p)
  have "held (cells (assign i w s) ! j) = held (cells s ! j)"
    using Cons.prems p by (auto simp: assign_def Let_def)
  with Cons p show ?case by simp
qed simp

lemma drain_keeps_earlier:
  assumes "sets_later n owner react" and "up_to_date owner s" and "drain_queue react s = Some s'"
    and "\<forall>(c, v) \<in> set (queue s). k \<le> owner c" and "j \<le> k"
  shows "held (cells s' ! j) = held (cells s ! j)"
  using assms(2-4)
proof (induction "weight n owner s" arbitrary: s rule: wf_induct_rule [OF wf_mult [OF wf_less_than]])
  case 1
  show ?case
  proof (cases "queue s")
    case Nil
    with 1 show ?thesis by (simp add: drain_queue.simps [of react s])
  next
    case (Cons p q)
    obtain c v where p: "queue s = (c, v) # q" using Cons by (cases p) auto
    let ?r = "receive c v (s\<lparr>queue := q\<rparr>)" and ?t = "deliver react c v (s\<lparr>queue := q\<rparr>)"
    have later: "\<forall>(i, w) \<in> set (react c (received ?r c)). k < i"
      using assms(1) 1(4) p by (fastforce simp: sets_later_def)
    have "up_to_date owner ?r"
      using 1(2) p by (simp add: up_to_date_def stream_deliver_head) (simp add: receive_def)
    from queue_assign_all [OF this, of "react c (received ?r c)"]
    have "\<forall>(d, w) \<in> set (queue ?t). k \<le> owner d"
      using later 1(4) p by (fastforce simp: deliver_def Let_def receive_def)
    moreover have "drain_queue react ?t = Some s'" using 1(3) p by (simp add: drain_queue.simps [of react s])
    moreover have "held (cells ?t ! j) = held (cells s ! j)"
      using held_assign_all [OF later assms(5), of ?r] by (simp add: deliver_def Let_def) (simp add: receive_def)
    ultimately show ?thesis
      using 1(1) [OF weight_deliver [OF assms(1) 1(2) p]] up_to_date_deliver [OF 1(2) p] by simp
  qed
qed

text \<open>
  Claim C12: when the callbacks of subscriptions set only stores after their own, every sequence of
  sets, subscriptions and cancellations returns with an empty queue and every subscription was last
  called with what its store holds. A store holds what it was set to last, and its subscriptions
  were called with that.
\<close>

theorem stores_settle:
  assumes "sets_later (length vs) owner react"
  shows "\<exists>s. store_run owner react (stores_init vs) es = Some s \<and> queue s = [] \<and>
    (\<forall>c. subscribed owner s c \<longrightarrow> received s c \<noteq> [] \<and> last (received s c) = held (cells s ! owner c)) \<and>
    (\<forall>i v. i < length vs \<longrightarrow> (\<exists>s'. store_step owner react s (SetValue i v) = Some s' \<and>
       held (cells s' ! i) = v \<and>
       (\<forall>c. subscribed owner s' c \<and> owner c = i \<longrightarrow> last (received s' c) = v)))"
proof -
  obtain s where s: "store_run owner react (stores_init vs) es = Some s"
    and ok: "settles owner (length vs) (Some s)"
    using store_run_settles [OF assms stores_init_settles, of es] by (auto simp: settles_def)
  have "\<exists>s'. store_step owner react s (SetValue i v) = Some s' \<and> held (cells s' ! i) = v \<and>
      (\<forall>c. subscribed owner s' c \<and> owner c = i \<longrightarrow> last (received s' c) = v)"
    if "i < length vs" for i v
  proof -
    obtain s' where s': "set_store react i v s = Some s'" and ok': "settles owner (length vs) (Some s')"
      using store_step_settles [OF assms ok, of "SetValue i v"] by (auto simp: settles_def)
    have up: "up_to_date owner s" "queue s = []" "i < length (cells s)"
      using ok that by (auto simp: settles_def)
    obtain q where q: "queue (assign i v s) = q" "\<forall>(c, w) \<in> set q. owner c = i"
      using queue_assign [OF up(1)] up(2) by (metis append_Nil)
    have "held (cells (assign i v s) ! i) = v"
      using up(3) safe_equal by (auto simp: assign_def Let_def)
    moreover have "held (cells s' ! i) = held (cells (assign i v s) ! i)"
    proof (rule drain_keeps_earlier [OF assms up_to_date_assign [OF up(1)] s' [unfolded set_store_def]])
      show "\<forall>(c, w) \<in> set (queue (assign i v s)). i \<le> owner c" using q by auto
    qed simp
    ultimately show ?thesis using s' settled_subscribers [OF ok'] by auto
  qed
  with s ok settled_subscribers [OF ok] show ?thesis by (auto simp: settles_def)
qed

text \<open>Two stores, where a subscription to the first copies its value into the second.\<close>

definition copy_owner :: "nat \<Rightarrow> nat" where
  "copy_owner c = c"

definition copy_react :: reaction where
  "copy_react c vs = (if c = 0 then [(1, last vs)] else [])"

theorem stores_settle_witness:
  "sets_later (length [Num 0, Num 0]) copy_owner copy_react \<and>
   (\<exists>s. store_run copy_owner copy_react (stores_init [Num 0, Num 0])
          [Subscribe 1, Subscribe 0, SetValue 0 (Num 7)] = Some s \<and> queue s = [] \<and>
      (\<forall>c. subscribed copy_owner s c \<longrightarrow> last (received s c) = held (cells s ! c)))"
proof -
  have later: "sets_later (length [Num 0, Num 0]) copy_owner copy_react"
    by (auto simp: sets_later_def copy_owner_def copy_react_def split: if_splits)
  from stores_settle [OF this, of "[Subscribe 1, Subscribe 0, SetValue 0 (Num 7)]"]
  obtain s where "store_run copy_owner copy_react (stores_init [Num 0, Num 0])
        [Subscribe 1, Subscribe 0, SetValue 0 (Num 7)] = Some s" "queue s = []"
    and "\<forall>c. subscribed copy_owner s c \<longrightarrow>
      received s c \<noteq> [] \<and> last (received s c) = held (cells s ! copy_owner c)"
    by (elim exE conjE) (rule that)
  moreover from this(3) have "\<forall>c. subscribed copy_owner s c \<longrightarrow> last (received s c) = held (cells s ! c)"
    by (simp add: copy_owner_def [of c for c])
  ultimately show ?thesis using later by blast
qed

end
