(* ===== verification/Svelte_Derived.thy ===== *)
theory Svelte_Derived
  imports Svelte_Store
begin

text \<open>
  A derived store of the runtime (\<open>bundle.js\<close> lines 815--851), in the form the translations use
  (27360, 27633--27637): a function of several stores, computed while there are subscribers. The
  stores it reads invalidate it at once and deliver through the common queue, where other
  deliveries may come in between. A pending input is a bit of a 32-bit word. The theorem is that
  with an empty queue the value is that of the current inputs, for any number of inputs, and that
  up to 32 inputs no value is computed from an input that was set and not delivered, as long as an
  input is not set again before its delivery.
\<close>

unbundle bit_operations_syntax

section \<open>The store and its inputs\<close>

text \<open>
  \<open>run_no\<close> numbers the runs of the start function, since a delivery knows the run that subscribed.
  \<open>seen_inputs\<close> are the inputs a value was computed from, with the inputs as they were then.
\<close>

record derived =
  inputs :: "jsval list"
  deliveries :: "(nat \<times> nat \<times> jsval) list"
  running :: bool
  run_no :: nat
  inited :: bool
  local_values :: "jsval list"
  pending :: "32 word"
  computed :: jsval
  seen_inputs :: "(jsval list \<times> jsval list) list"

definition derived_init :: "jsval list \<Rightarrow> jsval \<Rightarrow> derived" where
  "derived_init vs initial =
     \<lparr>inputs = vs, deliveries = [], running = False, run_no = 0, inited = False, local_values = [],
      pending = 0, computed = initial, seen_inputs = []\<rparr>"

text \<open>\<open>1 << S\<close>; the shift uses five bits of its operand.\<close>

definition input_bit :: "nat \<Rightarrow> 32 word" where
  "input_bit i = push_bit (i mod 32) 1"

text \<open>\<open>m\<close>, which computes the value unless an input is pending.\<close>

definition compute_derived :: "(jsval list \<Rightarrow> jsval) \<Rightarrow> derived \<Rightarrow> derived" where
  "compute_derived f s =
     (if pending s \<noteq> 0 then s
      else s\<lparr>computed := f (local_values s), seen_inputs := seen_inputs s @ [(local_values s, inputs s)]\<rparr>)"

text \<open>An input is set; a derived store that runs is invalidated and gets a delivery.\<close>

definition set_input :: "nat \<Rightarrow> jsval \<Rightarrow> derived \<Rightarrow> derived" where
  "set_input i v s =
     (if i < length (inputs s) \<and> safe_not_equal (inputs s ! i) v
      then (let s = s\<lparr>inputs := (inputs s)[i := v]\<rparr>
            in if running s
               then s\<lparr>pending := pending s OR input_bit i, deliveries := deliveries s @ [(run_no s, i, v)]\<rparr>
               else s)
      else s)"

definition deliver_next :: "(jsval list \<Rightarrow> jsval) \<Rightarrow> derived \<Rightarrow> derived" where
  "deliver_next f s =
     (case deliveries s of
        [] \<Rightarrow> s
      | (n, i, v) # q \<Rightarrow>
          (let s = s\<lparr>deliveries := q\<rparr>
           in if n = run_no s \<and> running s
              then (let s = s\<lparr>local_values := (local_values s)[i := v],
                             pending := pending s AND NOT (input_bit i)\<rparr>
                    in if inited s then compute_derived f s else s)
              else s))"

text \<open>The first subscriber: every input calls back with its value, then the value is computed.\<close>

definition start_derived :: "(jsval list \<Rightarrow> jsval) \<Rightarrow> derived \<Rightarrow> derived" where
  "start_derived f s =
     (if running s then s
      else compute_derived f (s\<lparr>running := True, run_no := Suc (run_no s), local_values := inputs s, pending := 0,
                     inited := True\<rparr>))"

text \<open>The last one leaves: what is still delivered is ignored.\<close>

definition stop_derived :: "derived \<Rightarrow> derived" where
  "stop_derived s = s\<lparr>running := False, inited := False\<rparr>"

datatype derived_event = SetInput nat jsval | DeliverNext | StartDerived | StopDerived

fun derived_step :: "(jsval list \<Rightarrow> jsval) \<Rightarrow> derived \<Rightarrow> derived_event \<Rightarrow> derived" where
  "derived_step f s (SetInput i v) = set_input i v s"
| "derived_step f s DeliverNext = deliver_next f s"
| "derived_step f s StartDerived = start_derived f s"
| "derived_step f s StopDerived = stop_derived s"

section \<open>Nothing is lost\<close>

text \<open>The deliveries of the current run, and what the local values are after them.\<close>

definition current_deliveries :: "derived \<Rightarrow> (nat \<times> jsval) list" where
  "current_deliveries s = map snd (filter (\<lambda>d. fst d = run_no s) (deliveries s))"

definition after_deliveries :: "derived \<Rightarrow> jsval list" where
  "after_deliveries s = foldl (\<lambda>vs (i, v). vs[i := v]) (local_values s) (current_deliveries s)"

text \<open>A pending bit has a delivery to clear it, and no bit is left when there is none.\<close>

definition derived_inv :: "(jsval list \<Rightarrow> jsval) \<Rightarrow> derived \<Rightarrow> bool" where
  "derived_inv f s \<longleftrightarrow>
     (\<forall>(n, i, v) \<in> set (deliveries s). n \<le> run_no s) \<and>
     (running s \<longrightarrow>
        inited s \<and> after_deliveries s = inputs s \<and> length (local_values s) = length (inputs s) \<and>
        (\<forall>j. bit (pending s) j \<longrightarrow> (\<exists>(i, v) \<in> set (current_deliveries s). i mod 32 = j)) \<and>
        (current_deliveries s = [] \<longrightarrow> computed s = f (inputs s)))"

lemma bit_input [simp]: "bit (input_bit i) j \<longleftrightarrow> j = i mod 32"
proof -
  have "i mod 32 < 32" by simp
  then show ?thesis by (auto simp: input_bit_def bit_simps)
qed

lemma no_pending: "pending s = 0" if "\<And>j. \<not> bit (pending s) j"
  using that by (simp add: bit_eq_iff)

lemma deliver_cases:
  obtains (none) "deliveries s = []" "deliver_next f s = s"
  | (ignored) n i v q where "deliveries s = (n, i, v) # q" "n \<noteq> run_no s \<or> \<not> running s"
      "deliver_next f s = s\<lparr>deliveries := q\<rparr>"
  | (taken) i v q where "deliveries s = (run_no s, i, v) # q" "running s"
      "deliver_next f s =
         (let s = s\<lparr>deliveries := q, local_values := (local_values s)[i := v],
                    pending := pending s AND NOT (input_bit i)\<rparr>
          in if inited s then compute_derived f s else s)"
proof (cases "deliveries s")
  case Nil
  then show ?thesis by (intro none) (simp_all add: deliver_next_def)
next
  case (Cons d q)
  obtain n i v where d: "d = (n, i, v)" by (cases d)
  show ?thesis
  proof (cases "n = run_no s \<and> running s")
    case True
    then show ?thesis using Cons d by (intro taken) (simp_all add: deliver_next_def Let_def)
  next
    case False
    then show ?thesis using Cons d by (intro ignored) (auto simp: deliver_next_def Let_def)
  qed
qed

lemma compute_frame [simp]:
  "deliveries (compute_derived f s) = deliveries s" "run_no (compute_derived f s) = run_no s" "inputs (compute_derived f s) = inputs s"
  "running (compute_derived f s) = running s" "inited (compute_derived f s) = inited s" "local_values (compute_derived f s) = local_values s"
  "pending (compute_derived f s) = pending s"
  by (simp_all add: compute_derived_def)

lemma current_deliveries_sync [simp]: "current_deliveries (compute_derived f s) = current_deliveries s"
  by (simp add: current_deliveries_def)

lemma inv_set_input:
  assumes "derived_inv f s"
  shows "derived_inv f (set_input i v s)"
proof (cases "i < length (inputs s) \<and> safe_not_equal (inputs s ! i) v \<and> running s")
  case True
  have c: "current_deliveries (set_input i v s) = current_deliveries s @ [(i, v)]"
    using True by (simp add: set_input_def current_deliveries_def Let_def)
  have a: "after_deliveries (set_input i v s) = (after_deliveries s)[i := v]"
    using True unfolding after_deliveries_def c by (simp add: set_input_def Let_def)
  have "\<exists>(k, w) \<in> set (current_deliveries s @ [(i, v)]). k mod 32 = j"
    if "bit (pending s OR input_bit i) j" for j
    using that assms True by (auto simp: derived_inv_def bit_or_iff)
  then show ?thesis
    using assms True a unfolding derived_inv_def c
    by (auto simp: set_input_def Let_def)
next
  case False
  then show ?thesis
    using assms by (auto simp: derived_inv_def set_input_def Let_def after_deliveries_def current_deliveries_def)
qed

lemma inv_deliver_next:
  assumes "derived_inv f s"
  shows "derived_inv f (deliver_next f s)"
proof (cases rule: deliver_cases [of s f])
  case none
  with assms show ?thesis by simp
next
  case (ignored n i v q)
  then have "running s \<Longrightarrow> current_deliveries (s\<lparr>deliveries := q\<rparr>) = current_deliveries s"
    by (simp add: current_deliveries_def)
  then show ?thesis
    using assms ignored by (simp add: derived_inv_def after_deliveries_def)
next
  case (taken i v q)
  let ?s = "s\<lparr>deliveries := q, local_values := (local_values s)[i := v], pending := pending s AND NOT (input_bit i)\<rparr>"
  have c: "current_deliveries s = (i, v) # current_deliveries ?s"
    using taken(1) by (simp add: current_deliveries_def)
  have i: "inited s" "after_deliveries s = inputs s" "length (local_values s) = length (inputs s)"
    "\<And>j. bit (pending s) j \<Longrightarrow> \<exists>(k, w) \<in> set (current_deliveries s). k mod 32 = j"
    using assms taken(2) by (simp_all add: derived_inv_def)
  have bits: "\<exists>(k, w) \<in> set (current_deliveries ?s). k mod 32 = j" if "bit (pending ?s) j" for j
    using i(4) [of j] that by (auto simp: c bit_simps)
  have a: "after_deliveries ?s = inputs s" using i(2) by (simp add: after_deliveries_def c)
  have "computed (compute_derived f ?s) = f (inputs s)" if "current_deliveries ?s = []"
  proof -
    have "pending ?s = 0" using bits that by (intro no_pending) auto
    moreover have "local_values ?s = inputs s" using a that by (simp add: after_deliveries_def)
    ultimately show ?thesis by (simp add: compute_derived_def)
  qed
  moreover have "deliver_next f s = compute_derived f ?s" using taken(3) i(1) by (simp add: Let_def)
  moreover have "after_deliveries (compute_derived f ?s) = inputs s"
    using a by (simp only: after_deliveries_def current_deliveries_sync compute_frame)
  ultimately show ?thesis
    using assms taken i bits
    by (simp add: derived_inv_def)
qed

lemma inv_start:
  assumes "derived_inv f s"
  shows "derived_inv f (start_derived f s)"
proof (cases "running s")
  case False
  let ?s = "s\<lparr>running := True, run_no := Suc (run_no s), local_values := inputs s, pending := 0, inited := True\<rparr>"
  have "\<forall>d \<in> set (deliveries s). fst d \<noteq> Suc (run_no s)"
    using assms by (fastforce simp: derived_inv_def)
  then have "current_deliveries ?s = []" by (simp add: current_deliveries_def filter_empty_conv)
  then have c: "current_deliveries (compute_derived f ?s) = []" by simp
  then have "after_deliveries (compute_derived f ?s) = inputs s" by (simp add: after_deliveries_def)
  with c False assms show ?thesis
    by (fastforce simp: derived_inv_def start_derived_def compute_derived_def)
qed (simp add: start_derived_def assms)

lemma derived_inv_step: "derived_inv f s \<Longrightarrow> derived_inv f (derived_step f s e)"
  by (cases e) (simp_all add: inv_set_input inv_deliver_next inv_start, simp add: stop_derived_def derived_inv_def)

interpretation derived_machine: event_machine "derived_init vs a" "derived_step f" "derived_inv f" for vs a f
  by unfold_locales (simp_all add: derived_inv_step, simp add: derived_inv_def derived_init_def)

section \<open>No value from an old input\<close>

text \<open>No input is set while a delivery of it is outstanding.\<close>

definition fresh_set :: "derived \<Rightarrow> derived_event \<Rightarrow> bool" where
  "fresh_set s e = (case e of SetInput i v \<Rightarrow> i \<notin> fst ` set (current_deliveries s) | _ \<Rightarrow> True)"

primrec sets_fresh :: "(jsval list \<Rightarrow> jsval) \<Rightarrow> derived \<Rightarrow> derived_event list \<Rightarrow> bool" where
  "sets_fresh f s [] = True"
| "sets_fresh f s (e # es) = (fresh_set s e \<and> sets_fresh f (derived_step f s e) es)"

definition pure_inv :: "derived \<Rightarrow> bool" where
  "pure_inv s \<longleftrightarrow>
     length (inputs s) \<le> 32 \<and> (\<forall>(l, vs) \<in> set (seen_inputs s). l = vs) \<and>
     (running s \<longrightarrow>
        length (local_values s) = length (inputs s) \<and>
        (\<forall>i < length (inputs s). local_values s ! i = inputs s ! i \<or> bit (pending s) i) \<and>
        (\<forall>p \<in> set (current_deliveries s). fst p < length (inputs s) \<and> inputs s ! fst p = snd p))"

lemma pure_sync:
  assumes "pure_inv s" and "running s"
  shows "pure_inv (compute_derived f s)"
proof (cases "pending s = 0")
  case True
  then have "local_values s = inputs s"
    using assms by (intro nth_equalityI) (auto simp: pure_inv_def)
  with True assms show ?thesis by (simp add: compute_derived_def pure_inv_def current_deliveries_def)
qed (simp add: compute_derived_def assms(1))

lemma pure_set_input:
  assumes "pure_inv s" and "i \<notin> fst ` set (current_deliveries s)"
  shows "pure_inv (set_input i v s)"
proof (cases "i < length (inputs s) \<and> safe_not_equal (inputs s ! i) v \<and> running s")
  case True
  have c: "current_deliveries (set_input i v s) = current_deliveries s @ [(i, v)]"
    using True by (simp add: set_input_def current_deliveries_def Let_def)
  have loc: "local_values s ! j = (inputs s)[i := v] ! j \<or> bit (pending s OR input_bit i) j"
    if "j < length (inputs s)" for j
  proof (cases "j = i")
    case True
    have "i mod 32 = i" using assms(1) True that by (simp add: pure_inv_def)
    with True show ?thesis by (simp add: bit_or_iff)
  next
    case False
    with assms(1) \<open>i < length (inputs s) \<and> _\<close> that show ?thesis by (auto simp: pure_inv_def bit_or_iff)
  qed
  have old: "fst p < length (inputs s) \<and> (inputs s)[i := v] ! fst p = snd p"
    if "p \<in> set (current_deliveries s)" for p
  proof -
    have "fst p \<noteq> i" using assms(2) that by blast
    with that assms(1) True show ?thesis by (simp add: pure_inv_def)
  qed
  have fields: "inputs (set_input i v s) = (inputs s)[i := v]" "pending (set_input i v s) = pending s OR input_bit i"
    "local_values (set_input i v s) = local_values s" "seen_inputs (set_input i v s) = seen_inputs s"
    using True by (simp_all add: set_input_def Let_def)
  show ?thesis
    unfolding pure_inv_def c fields length_list_update
    using assms(1) True loc old by (simp add: pure_inv_def)
next
  case False
  then consider "set_input i v s = s" | "\<not> running s" by (auto simp: set_input_def)
  then show ?thesis
  proof cases
    case 2
    then have "\<not> running (set_input i v s)" "length (inputs (set_input i v s)) = length (inputs s)"
      "seen_inputs (set_input i v s) = seen_inputs s"
      by (simp_all add: set_input_def Let_def)
    with assms(1) show ?thesis unfolding pure_inv_def by simp
  qed (simp add: assms(1))
qed

lemma pure_deliver_next:
  assumes "pure_inv s"
  shows "pure_inv (deliver_next f s)"
proof (cases rule: deliver_cases [of s f])
  case none
  with assms show ?thesis by simp
next
  case (ignored n i v q)
  then have "running s \<Longrightarrow> current_deliveries (s\<lparr>deliveries := q\<rparr>) = current_deliveries s"
    by (simp add: current_deliveries_def)
  with assms ignored show ?thesis by (simp add: pure_inv_def)
next
  case (taken i v q)
  let ?s = "s\<lparr>deliveries := q, local_values := (local_values s)[i := v], pending := pending s AND NOT (input_bit i)\<rparr>"
  have c: "current_deliveries s = (i, v) # current_deliveries ?s"
    using taken(1) by (simp add: current_deliveries_def)
  have iv: "i < length (inputs s)" "v = inputs s ! i" "length (inputs s) \<le> 32"
    using assms taken(2) by (simp_all add: pure_inv_def c)
  have "(local_values s)[i := v] ! j = inputs s ! j \<or> bit (pending ?s) j" if "j < length (inputs s)" for j
  proof (cases "j = i")
    case True
    with assms taken(2) iv show ?thesis by (simp add: pure_inv_def)
  next
    case False
    have "j < 32" "i mod 32 = i" using that iv by simp_all
    with False assms taken(2) that show ?thesis by (auto simp: pure_inv_def bit_simps)
  qed
  then have "pure_inv ?s" using assms taken(2) by (simp add: pure_inv_def c)
  with pure_sync [OF this, of f] taken(2,3) show ?thesis by (simp add: Let_def)
qed

lemma pure_start:
  assumes "pure_inv s" and "derived_inv f s"
  shows "pure_inv (start_derived f s)"
proof (cases "running s")
  case False
  let ?s = "s\<lparr>running := True, run_no := Suc (run_no s), local_values := inputs s, pending := 0, inited := True\<rparr>"
  have "\<forall>d \<in> set (deliveries s). fst d \<noteq> Suc (run_no s)" using assms(2) by (fastforce simp: derived_inv_def)
  then have "current_deliveries ?s = []" by (simp add: current_deliveries_def filter_empty_conv)
  with assms(1) have "pure_inv ?s" by (simp add: pure_inv_def)
  with pure_sync [OF this] False show ?thesis by (simp add: start_derived_def)
qed (simp add: start_derived_def assms(1))

lemma pure_step:
  assumes "pure_inv s" and "derived_inv f s" and "fresh_set s e"
  shows "pure_inv (derived_step f s e)"
proof (cases e)
  case (SetInput i v)
  with assms show ?thesis by (simp add: fresh_set_def pure_set_input)
next
  case StopDerived
  with assms(1) show ?thesis by (simp add: stop_derived_def pure_inv_def)
qed (use assms in \<open>simp_all add: pure_deliver_next pure_start\<close>)

lemma pure_run:
  "pure_inv s \<Longrightarrow> derived_inv f s \<Longrightarrow> sets_fresh f s es \<Longrightarrow> pure_inv (run_events (derived_step f) s es)"
  by (induction es arbitrary: s) (simp_all add: pure_step derived_inv_step)

text \<open>
  Claim C20: whatever inputs are set, delivered, started and stopped in whatever order, a derived
  store that has subscribers and no outstanding delivery holds the function of the current inputs.
  With at most 32 inputs, none of them set again before its delivery, every value that was ever
  computed was computed from the inputs as they were at that moment.
\<close>

theorem derived_value_current:
  fixes f :: "jsval list \<Rightarrow> jsval" and vs :: "jsval list" and a :: jsval
  defines "run \<equiv> run_events (derived_step f) (derived_init vs a)"
  shows "(running (run es) \<and> deliveries (run es) = [] \<longrightarrow> computed (run es) = f (inputs (run es))) \<and>
    (length vs \<le> 32 \<and> sets_fresh f (derived_init vs a) es \<longrightarrow>
       (\<forall>(l, xs) \<in> set (seen_inputs (run es)). l = xs))"
proof
  have inv: "derived_inv f (run es)" unfolding run_def by (rule derived_machine.inv_run)
  then show "running (run es) \<and> deliveries (run es) = [] \<longrightarrow> computed (run es) = f (inputs (run es))"
    by (auto simp: derived_inv_def current_deliveries_def)
  show "length vs \<le> 32 \<and> sets_fresh f (derived_init vs a) es \<longrightarrow> (\<forall>(l, xs) \<in> set (seen_inputs (run es)). l = xs)"
  proof
    assume h: "length vs \<le> 32 \<and> sets_fresh f (derived_init vs a) es"
    have "pure_inv (derived_init vs a)" using h by (simp add: pure_inv_def derived_init_def)
    then have "pure_inv (run es)" unfolding run_def using h derived_machine.inv_init by (intro pure_run) auto
    then show "\<forall>(l, xs) \<in> set (seen_inputs (run es)). l = xs" by (simp add: pure_inv_def)
  qed
qed

definition two_texts :: "jsval list \<Rightarrow> jsval" where
  "two_texts vs = Arr vs"

definition two_sets :: "derived_event list" where
  "two_sets = [StartDerived, SetInput 0 (Num 1), SetInput 1 (Num 2), DeliverNext, DeliverNext]"

theorem derived_value_current_witness:
  "let s = run_events (derived_step two_texts) (derived_init [Null, Null] Undef) two_sets
   in computed s = Arr [Num 1, Num 2] \<and> (\<forall>(l, xs) \<in> set (seen_inputs s). l = xs)"
proof -
  let ?s = "run_events (derived_step two_texts) (derived_init [Null, Null] Undef) two_sets"
  have s: "running ?s" "deliveries ?s = []" "inputs ?s = [Num 1, Num 2]"
    by (simp_all add: two_sets_def derived_init_def start_derived_def set_input_def deliver_next_def compute_derived_def
        safe_not_equal_def Let_def)
  have "sets_fresh two_texts (derived_init [Null, Null] Undef) two_sets"
    by (simp add: two_sets_def fresh_set_def current_deliveries_def derived_init_def start_derived_def
        set_input_def deliver_next_def compute_derived_def safe_not_equal_def Let_def)
  with derived_value_current [of two_texts "[Null, Null]" Undef two_sets] s show ?thesis
    by (simp add: Let_def two_texts_def)
qed

text \<open>Both conditions are needed: set twice, an input is delivered with a value it no longer has.\<close>

lemma set_twice_reads_old:
  "last (seen_inputs (run_events (derived_step f) (derived_init [Null] Undef)
     [StartDerived, SetInput 0 (Num 1), SetInput 0 (Num 2), DeliverNext])) = ([Num 1], [Num 2])"
proof -
  have "(input_bit 0 OR input_bit 0) AND NOT (input_bit 0) = 0" by (simp add: bit_eq_iff bit_simps)
  then show ?thesis
    by (simp add: derived_init_def start_derived_def set_input_def deliver_next_def compute_derived_def
        safe_not_equal_def Let_def)
qed

end
