(* ===== verification/Svelte_Spread.thy ===== *)
theory Svelte_Spread
  imports JS_Value
begin

text \<open>
  The update of spread properties of the runtime (\<open>ge\<close>, \<open>bundle.js\<close> lines 655--671): a component
  gets the properties of several levels, later levels win, and after a change of some levels the
  function computes which properties to set. The theorem says exactly when these are the properties
  of the new levels: always, but for a name that was dropped from a changed level while an unchanged
  level holds it, which becomes undefined.
\<close>

declare js_Cons [simp del]

section \<open>The function\<close>

text \<open>A level has its old properties and, where it changed, its new ones.\<close>

type_synonym spread_level = "props \<times> props option"

record spread_state =
  spread_update :: props
  to_null_out :: props
  accounted_for :: props

definition scope_name :: jsstr where
  "scope_name = js ''$$scope''"

definition spread_init :: spread_state where
  "spread_init = \<lparr>spread_update = [], to_null_out = [], accounted_for = [(scope_name, Num 1)]\<rparr>"

definition mark_dropped :: "props \<Rightarrow> props \<Rightarrow> props \<Rightarrow> props" where
  "mark_dropped r new i = foldl (\<lambda>i (s, v). if has_prop new s then i else AList.update s (Num 1) i) i r"

definition take_new :: "props \<Rightarrow> props \<times> props \<Rightarrow> props \<times> props" where
  "take_new new p =
     foldl (\<lambda>(n, l) (s, v). if truthy_val (get_prop l s) then (n, l)
              else (AList.update s v n, AList.update s (Num 1) l)) p new"

definition account :: "props \<Rightarrow> props \<Rightarrow> props" where
  "account r l = foldl (\<lambda>l (s, v). AList.update s (Num 1) l) l r"

fun spread_step :: "spread_level \<Rightarrow> spread_state \<Rightarrow> spread_state" where
  "spread_step (r, Some new) s =
     (let (n, l) = take_new new (spread_update s, accounted_for s)
      in s\<lparr>spread_update := n, to_null_out := mark_dropped r new (to_null_out s), accounted_for := l\<rparr>)"
| "spread_step (r, None) s = s\<lparr>accounted_for := account r (accounted_for s)\<rparr>"

text \<open>The levels are visited from the last to the first.\<close>

definition null_out :: "props \<Rightarrow> props \<Rightarrow> props" where
  "null_out i n = foldl (\<lambda>n (s, v). if has_prop n s then n else AList.update s Undef n) n i"

definition get_spread_update :: "spread_level list \<Rightarrow> props \<times> props list" where
  "get_spread_update levels =
     (let s = foldr spread_step levels spread_init
      in (null_out (to_null_out s) (spread_update s),
          map (\<lambda>(r, new). case new of Some m \<Rightarrow> m | None \<Rightarrow> r) levels))"

section \<open>Levels\<close>

definition new_level :: "spread_level \<Rightarrow> props" where
  "new_level lv = (case snd lv of Some m \<Rightarrow> m | None \<Rightarrow> fst lv)"

definition level_ok :: "spread_level \<Rightarrow> bool" where
  "level_ok lv \<longleftrightarrow> distinct (map fst (fst lv)) \<and> distinct (map fst (new_level lv))"

text \<open>The last level that has a name, whether it changed, and its value.\<close>

primrec winner :: "spread_level list \<Rightarrow> jsstr \<Rightarrow> (bool \<times> jsval) option" where
  "winner [] k = None"
| "winner (lv # lvs) k =
     (case winner lvs k of
        Some x \<Rightarrow> Some x
      | None \<Rightarrow> map_option (Pair (snd lv \<noteq> None)) (map_of (new_level lv) k))"

primrec old_value :: "spread_level list \<Rightarrow> jsstr \<Rightarrow> jsval option" where
  "old_value [] k = None"
| "old_value (lv # lvs) k = (case old_value lvs k of Some v \<Rightarrow> Some v | None \<Rightarrow> map_of (fst lv) k)"

definition dropped :: "spread_level list \<Rightarrow> jsstr \<Rightarrow> bool" where
  "dropped lvs k \<longleftrightarrow>
     (\<exists>lv \<in> set lvs. snd lv \<noteq> None \<and> map_of (fst lv) k \<noteq> None \<and> map_of (new_level lv) k = None)"

text \<open>What the component has for a name after the computed properties are set.\<close>

definition applied :: "spread_level list \<Rightarrow> jsstr \<Rightarrow> jsval" where
  "applied lvs k =
     (case map_of (fst (get_spread_update lvs)) k of
        Some v \<Rightarrow> v
      | None \<Rightarrow> (case old_value lvs k of Some v \<Rightarrow> v | None \<Rightarrow> Undef))"

section \<open>What the loops compute\<close>

definition plain_key :: "jsstr \<Rightarrow> bool" where
  "plain_key k \<longleftrightarrow> \<not> is_proto_name k \<and> k \<noteq> scope_name"

lemma has_prop_plain: "plain_key k \<Longrightarrow> has_prop m k \<longleftrightarrow> map_of m k \<noteq> None"
  by (simp add: has_prop_def plain_key_def)

lemma mark_dropped_at:
  "plain_key k \<Longrightarrow> map_of (mark_dropped r new i) k \<noteq> None \<longleftrightarrow>
     map_of i k \<noteq> None \<or> map_of r k \<noteq> None \<and> map_of new k = None"
  unfolding mark_dropped_def
  by (induction r arbitrary: i) (auto simp: has_prop_plain update_conv split: if_splits)

lemma null_out_at:
  "plain_key k \<Longrightarrow> map_of (null_out i n) k =
     (case map_of n k of Some v \<Rightarrow> Some v | None \<Rightarrow> if map_of i k \<noteq> None then Some Undef else None)"
  unfolding null_out_def
  by (induction i arbitrary: n) (auto simp: has_prop_plain update_conv split: if_splits option.splits)

definition counted :: "props \<Rightarrow> jsstr \<Rightarrow> bool" where
  "counted l k \<longleftrightarrow> truthy_val (get_prop l k)"

lemma counted_update: "counted (AList.update s (Num 1) l) k \<longleftrightarrow> k = s \<or> counted l k"
  by (cases "k = s") (simp_all add: counted_def)

lemma account_at: "counted (account r l) k \<longleftrightarrow> counted l k \<or> map_of r k \<noteq> None"
  unfolding account_def
  by (induction r arbitrary: l) (auto simp: counted_update)

lemma take_new_at:
  assumes "take_new new (n, l) = (n', l')" and "distinct (map fst new)"
  shows "(counted l' k \<longleftrightarrow> counted l k \<or> map_of new k \<noteq> None) \<and>
    map_of n' k = (if counted l k then map_of n k else case map_of new k of Some v \<Rightarrow> Some v | None \<Rightarrow> map_of n k)"
  using assms
proof (induction new arbitrary: n l)
  case Nil
  then show ?case by (simp add: take_new_def)
next
  case (Cons p new)
  obtain s v where p: "p = (s, v)" by (cases p)
  let ?c = "counted l s"
  have step: "take_new new (if ?c then (n, l) else (AList.update s v n, AList.update s (Num 1) l)) = (n', l')"
    using Cons.prems(1) by (simp add: take_new_def p counted_def split: if_splits)
  have s: "map_of new s = None" using Cons.prems(2) by (simp add: p map_of_eq_None_iff)
  show ?case
  proof (cases ?c)
    case True
    with step Cons.IH [of n l] Cons.prems(2) show ?thesis using s by (auto simp: p)
  next
    case False
    with step Cons.IH [of "AList.update s v n" "AList.update s (Num 1) l"] Cons.prems(2) s show ?thesis
      by (auto simp: p counted_update update_conv split: option.splits)
  qed
qed

lemma spread_states:
  assumes "plain_key k" and "list_all level_ok lvs"
  defines "s \<equiv> foldr spread_step lvs spread_init"
  shows "(counted (accounted_for s) k \<longleftrightarrow> winner lvs k \<noteq> None) \<and>
    map_of (spread_update s) k = (case winner lvs k of Some (True, v) \<Rightarrow> Some v | _ \<Rightarrow> None) \<and>
    (map_of (to_null_out s) k \<noteq> None \<longleftrightarrow> dropped lvs k)"
  using assms(2) unfolding s_def
proof (induction lvs)
  case Nil
  have "\<not> counted [(scope_name, Num 1)] k" using assms(1) by (simp add: counted_def get_prop_def plain_key_def)
  then show ?case by (simp add: spread_init_def dropped_def)
next
  case (Cons lv lvs)
  let ?s = "foldr spread_step lvs spread_init"
  obtain r new where lv: "lv = (r, new)" by (cases lv)
  from Cons have IH: "counted (accounted_for ?s) k \<longleftrightarrow> winner lvs k \<noteq> None"
    "map_of (spread_update ?s) k = (case winner lvs k of Some (True, v) \<Rightarrow> Some v | _ \<Rightarrow> None)"
    "map_of (to_null_out ?s) k \<noteq> None \<longleftrightarrow> dropped lvs k" by auto
  show ?case
  proof (cases new)
    case None
    then show ?thesis
      using IH by (auto simp: lv account_at new_level_def dropped_def split: option.splits)
  next
    case (Some m)
    obtain n l where t: "take_new m (spread_update ?s, accounted_for ?s) = (n, l)"
      by (cases "take_new m (spread_update ?s, accounted_for ?s)")
    have "distinct (map fst m)" using Cons.prems by (simp add: lv Some level_ok_def new_level_def)
    note a = take_new_at [OF t this, of k]
    have "map_of (mark_dropped r m (to_null_out ?s)) k \<noteq> None \<longleftrightarrow> dropped (lv # lvs) k"
      unfolding mark_dropped_at [OF assms(1)] IH(3) by (auto simp: dropped_def lv Some new_level_def)
    moreover have "counted l k \<longleftrightarrow> winner (lv # lvs) k \<noteq> None"
      using a IH(1) by (auto simp: lv Some new_level_def split: option.splits)
    moreover have "map_of n k = (case winner (lv # lvs) k of Some (True, v) \<Rightarrow> Some v | _ \<Rightarrow> None)"
      using a IH(1,2) by (auto simp: lv Some new_level_def split: option.splits)
    ultimately show ?thesis by (simp add: lv Some t del: winner.simps)
  qed
qed

lemma old_value_undropped:
  assumes "\<not> dropped lvs k"
  shows "winner lvs k = None \<Longrightarrow> old_value lvs k = None"
    and "winner lvs k = Some (False, v) \<Longrightarrow> old_value lvs k = Some v"
proof -
  have "(winner lvs k = None \<longrightarrow> old_value lvs k = None) \<and>
      (winner lvs k = Some (False, v) \<longrightarrow> old_value lvs k = Some v)"
    using assms
  proof (induction lvs)
    case (Cons lv lvs)
    then have "\<not> dropped lvs k" by (auto simp: dropped_def)
    with Cons show ?case
      by (cases lv; cases "snd lv") (auto simp: dropped_def new_level_def split: option.splits)
  qed simp
  then show "winner lvs k = None \<Longrightarrow> old_value lvs k = None"
    and "winner lvs k = Some (False, v) \<Longrightarrow> old_value lvs k = Some v" by blast+
qed

lemma spread_computed:
  assumes "list_all level_ok lvs" and "plain_key k"
  shows "map_of (fst (get_spread_update lvs)) k =
    (case winner lvs k of Some (True, v) \<Rightarrow> Some v | _ \<Rightarrow> if dropped lvs k then Some Undef else None)"
  using spread_states [OF assms(2,1)]
  by (auto simp: get_spread_update_def null_out_at [OF assms(2)] Let_def split: option.splits bool.splits)

lemma spread_applied:
  assumes "list_all level_ok lvs" and "plain_key k"
  shows "applied lvs k =
    (case winner lvs k of
       None \<Rightarrow> Undef
     | Some (changed, v) \<Rightarrow> if \<not> changed \<and> dropped lvs k then Undef else v)"
  using spread_computed [OF assms] old_value_undropped [of lvs k]
  by (auto simp: applied_def split: option.splits bool.splits)

lemma spread_keys_distinct: "distinct (map fst (fst (get_spread_update lvs)))"
proof -
  have t: "distinct (map fst (fst (take_new new p)))" if "distinct (map fst (fst p))" for new p
    using that unfolding take_new_def
    by (induction new arbitrary: p) (auto simp: distinct_update split: prod.splits)
  have s: "distinct (map fst (spread_update (spread_step lv s)))"
    if "distinct (map fst (spread_update s))" for lv s
    using that t [of "(spread_update s, accounted_for s)"]
    by (cases lv; cases "snd lv") (auto simp: split: prod.splits, metis fst_conv)
  have "distinct (map fst (spread_update (foldr spread_step lvs spread_init)))"
    by (induction lvs) (simp_all add: spread_init_def s)
  moreover have "distinct (map fst (null_out i n))" if "distinct (map fst n)" for i n
    using that unfolding null_out_def
    by (induction i arbitrary: n) (auto simp: distinct_update split: prod.splits)
  ultimately show ?thesis by (simp add: get_spread_update_def Let_def)
qed

text \<open>
  Claim C21: for every name but the inherited ones, setting the computed properties gives the value
  of the last of the new levels that has the name, or undefined if none has; except that a name
  dropped from a changed level whose value now comes from an unchanged level becomes undefined.
\<close>

theorem spread_update_exact:
  assumes "list_all level_ok lvs" and "plain_key k"
  shows "applied lvs k =
    (case winner lvs k of
       None \<Rightarrow> Undef
     | Some (changed, v) \<Rightarrow> if \<not> changed \<and> dropped lvs k then Undef else v)"
  by (rule spread_applied [OF assms])

definition sample_levels :: "spread_level list" where
  "sample_levels =
     [([(js ''title'', Str (js ''a''))], None),
      ([(js ''title'', Str (js ''b'')), (js ''size'', Num 1)], Some [(js ''size'', Num 2)])]"

theorem spread_update_exact_witness:
  "applied sample_levels (js ''size'') = Num 2 \<and> applied sample_levels (js ''title'') = Undef"
proof -
  have ok: "list_all level_ok sample_levels"
    by (simp add: sample_levels_def level_ok_def new_level_def js_Cons)
  have "plain_key (js ''size'')" "plain_key (js ''title'')"
    by (simp_all add: plain_key_def is_proto_name_def proto_names_def scope_name_def js_Cons)
  from spread_update_exact [OF ok this(1)] spread_update_exact [OF ok this(2)] show ?thesis
    by (simp add: sample_levels_def new_level_def dropped_def js_Cons)
qed

end
