(* ===== verification/Svelte_Transition.thy ===== *)
theory Svelte_Transition
  imports JS_Prelude Complex_Main
begin

text \<open>
  Transitions of the runtime (\<open>bundle.js\<close> lines 140--162 and 440--540) on the widget of the interface
  that has one, the button of the header with the panel of the user (\<open>S1\<close>, \<open>L8\<close> and \<open>H8\<close>, lines
  13844--14057): the panel slides in when it opens and out when it closes, a change of mind
  in between is kept as a pending program, and the panel is taken off the page by the callback of its
  group of outros when its last outro has ended.

  Times are rational numbers of milliseconds. The style rules that a program adds to the page are
  reduced to whether the panel has one; the computed style they are made of is not modelled.
\<close>

section \<open>Programs\<close>

record slide_config =
  delay :: rat
  duration :: rat

text \<open>The property \<open>transition\<close> of the widget: false, or an object with a delay and a duration.\<close>

datatype transition_prop = NoTransition | Slide "rat option" "rat option"

fun slide_options :: "transition_prop \<Rightarrow> slide_config" where
  "slide_options NoTransition = \<lparr>delay = 0, duration = 0\<rparr>"
| "slide_options (Slide d du) =
     \<lparr>delay = (case d of None \<Rightarrow> 0 | Some x \<Rightarrow> x), duration = (case du of None \<Rightarrow> 400 | Some x \<Rightarrow> x)\<rparr>"

definition cubicOut :: "rat \<Rightarrow> rat" where
  "cubicOut t = (t - 1) * (t - 1) * (t - 1) + 1"

record slide_request =
  req_start :: rat
  req_goal :: rat
  req_group :: "nat option"

record program =
  prog_from :: rat
  prog_goal :: rat
  prog_delta :: rat
  prog_duration :: rat
  prog_start :: rat
  prog_end :: rat
  prog_group :: "nat option"

record transition =
  pos :: rat
  running :: "program option"
  pending :: "slide_request option"
  animated :: bool                 \<comment> \<open>the style of the element has a rule of the transition\<close>
  inert :: bool                    \<comment> \<open>the element cannot be used\<close>
  was_inert :: "bool option"
  looping :: bool                  \<comment> \<open>its callback is among those called on every frame\<close>

definition new_transition :: "bool \<Rightarrow> transition" where
  "new_transition intro =
     \<lparr>pos = (if intro then 0 else 1), running = None, pending = None, animated = False, inert = False,
      was_inert = None, looping = False\<rparr>"

text \<open>A program starts where the transition is and takes the part of the duration that is left.\<close>

definition start_program :: "slide_config \<Rightarrow> rat \<Rightarrow> slide_request \<Rightarrow> program" where
  "start_program cfg r v =
     (let d = req_goal v - r; l = duration cfg * \<bar>d\<bar>
      in \<lparr>prog_from = r, prog_goal = req_goal v, prog_delta = d, prog_duration = l,
          prog_start = req_start v, prog_end = req_start v + l, prog_group = req_group v\<rparr>)"

text \<open>A group of outros: how many are left, and whether its callback removes the panel.\<close>

type_synonym outro_groups = "(nat \<times> bool) list"

definition update_group :: "nat \<Rightarrow> (nat \<times> bool \<Rightarrow> nat \<times> bool) \<Rightarrow> outro_groups \<Rightarrow> outro_groups" where
  "update_group g f gs = gs[g := f (gs ! g)]"

text \<open>Asking for a direction; the group is the one that is open, the last.\<close>

definition request_slide :: "slide_config \<Rightarrow> rat \<Rightarrow> bool \<Rightarrow> transition \<times> outro_groups \<Rightarrow> transition \<times> outro_groups" where
  "request_slide cfg now v s =
     (let (t, gs) = s; g = length gs - 1;
          req = \<lparr>req_start = now + delay cfg, req_goal = (if v then 1 else 0),
                 req_group = (if v then None else Some g)\<rparr>;
          gs1 = (if v then gs else update_group g (apfst Suc) gs);
          t1 = (if v then (case was_inert t of Some h \<Rightarrow> t\<lparr>inert := h\<rparr> | None \<Rightarrow> t)
                else t\<lparr>was_inert := Some (inert t), inert := True\<rparr>)
      in if running t1 \<noteq> None \<or> pending t1 \<noteq> None then (t1\<lparr>pending := Some req\<rparr>, gs1)
         else (t1\<lparr>running := Some (start_program cfg (pos t1) req), animated := True, looping := True\<rparr>, gs1))"

text \<open>
  The callback of a frame: a pending program takes over, the running one ends or moves on.
  The last component of the result is the group whose callbacks are called.
\<close>

definition take_over :: "slide_config \<Rightarrow> rat \<Rightarrow> transition \<Rightarrow> transition" where
  "take_over cfg now t =
     (case pending t of
        Some q \<Rightarrow>
          if req_start q < now
          then t\<lparr>running := Some (start_program cfg (pos t) q), pending := None, animated := True\<rparr> else t
      | None \<Rightarrow> t)"

definition advance :: "rat \<Rightarrow> transition \<times> outro_groups \<Rightarrow> transition \<times> outro_groups \<times> nat option" where
  "advance now s =
     (let (t, gs) = s in
      case running t of
        None \<Rightarrow> (t, gs, None)
      | Some o1 \<Rightarrow>
          if prog_end o1 \<le> now
          then (let t1 = t\<lparr>pos := prog_goal o1, running := None\<rparr> in
                if pending t \<noteq> None then (t1, gs, None)
                else if prog_goal o1 \<noteq> 0 then (t1\<lparr>animated := False\<rparr>, gs, None)
                else (case prog_group o1 of
                        None \<Rightarrow> (t1, gs, None)
                      | Some g \<Rightarrow>
                          (let gs1 = update_group g (apfst (\<lambda>n. n - 1)) gs
                           in (t1, gs1, if fst (gs1 ! g) = 0 then Some g else None))))
          else if prog_start o1 \<le> now
          then (t\<lparr>pos := prog_from o1 + prog_delta o1 * cubicOut ((now - prog_start o1) / prog_duration o1)\<rparr>, gs, None)
          else (t, gs, None))"

section \<open>The panel\<close>

record panel_block =
  shown_now :: bool
  slide :: "transition option"

record header_action =
  isOpen :: bool
  panel :: "panel_block option"
  outroing :: bool                 \<comment> \<open>the block is in the set of blocks that leave\<close>
  outro_groups :: outro_groups
  preventCloseOnClickOutside :: bool
  dispatched :: "string list"

definition slide_of :: "bool \<Rightarrow> panel_block \<Rightarrow> transition" where
  "slide_of intro b = (case slide b of Some t \<Rightarrow> t | None \<Rightarrow> new_transition intro)"

text \<open>\<open>k\<close>: the block is shown again.\<close>

definition transition_in :: "slide_config \<Rightarrow> rat \<Rightarrow> panel_block \<Rightarrow> header_action \<Rightarrow> header_action" where
  "transition_in cfg now b s =
     (if shown_now b then s\<lparr>outroing := False, panel := Some b\<rparr>
      else (let (t, gs) = request_slide cfg now True (slide_of True b, outro_groups s)
            in s\<lparr>outroing := False, outro_groups := gs,
                 panel := Some \<lparr>shown_now = True, slide = Some t\<rparr>\<rparr>))"

text \<open>The callback of a group: the block is destroyed.\<close>

definition run_group :: "nat \<Rightarrow> header_action \<Rightarrow> header_action" where
  "run_group g s = (if snd (outro_groups s ! g) then s\<lparr>outroing := False, panel := None\<rparr> else s)"

text \<open>\<open>ke\<close>, \<open>A\<close>, \<open>we\<close>: a new group with the outro of the block.\<close>

definition transition_out :: "slide_config \<Rightarrow> rat \<Rightarrow> panel_block \<Rightarrow> header_action \<Rightarrow> header_action" where
  "transition_out cfg now b s =
     (let g = length (outro_groups s);
          s1 = s\<lparr>outro_groups := outro_groups s @ [(0, False)]\<rparr>;
          s2 = (if outroing s1 then s1
                else (let (t, gs) = request_slide cfg now False (slide_of False b, update_group g (apsnd (\<lambda>_. True)) (outro_groups s1))
                      in s1\<lparr>outroing := True, outro_groups := gs,
                            panel := Some \<lparr>shown_now = False, slide = Some t\<rparr>\<rparr>))
      in if fst (outro_groups s2 ! g) = 0 then run_group g s2 else s2)"

text \<open>The update of the widget after its state changed.\<close>

definition patch_panel :: "slide_config \<Rightarrow> rat \<Rightarrow> header_action \<Rightarrow> header_action" where
  "patch_panel cfg now s =
     (if isOpen s
      then transition_in cfg now
             (case panel s of Some b \<Rightarrow> b | None \<Rightarrow> \<lparr>shown_now = False, slide = None\<rparr>) s
      else (case panel s of Some b \<Rightarrow> transition_out cfg now b s | None \<Rightarrow> s))"

definition set_open :: "slide_config \<Rightarrow> rat \<Rightarrow> bool \<Rightarrow> header_action \<Rightarrow> header_action" where
  "set_open cfg now v s = (if v = isOpen s then s else patch_panel cfg now (s\<lparr>isOpen := v\<rparr>))"

text \<open>
  A click on the button goes no further than the button; one elsewhere closes the panel, unless it was
  inside the panel or the widget keeps the panel open. The application may set the state too.
\<close>

datatype action_event =
    ButtonClick rat
  | WindowClick bool rat
  | AssignOpen bool rat
  | Frame rat

definition dispatch_open :: "bool \<Rightarrow> header_action \<Rightarrow> header_action" where
  "dispatch_open v s = s\<lparr>dispatched := dispatched s @ [if v then ''open'' else ''close'']\<rparr>"

definition paint_frame :: "slide_config \<Rightarrow> rat \<Rightarrow> header_action \<Rightarrow> header_action" where
  "paint_frame cfg now s =
     (case panel s of
        None \<Rightarrow> s
      | Some b \<Rightarrow>
          (case slide b of
             None \<Rightarrow> s
           | Some t \<Rightarrow>
               if \<not> looping t then s
               else (let (t1, gs, done_group) = advance now (take_over cfg now t, outro_groups s);
                         t2 = t1\<lparr>looping := running t1 \<noteq> None \<or> pending t1 \<noteq> None\<rparr>;
                         s1 = s\<lparr>outro_groups := gs, panel := Some (b\<lparr>slide := Some t2\<rparr>)\<rparr>
                     in case done_group of Some g \<Rightarrow> run_group g s1 | None \<Rightarrow> s1)))"

fun action_step :: "slide_config \<Rightarrow> header_action \<Rightarrow> action_event \<Rightarrow> header_action" where
  "action_step cfg s (ButtonClick now) =
     dispatch_open (\<not> isOpen s) (set_open cfg now (\<not> isOpen s) s)"
| "action_step cfg s (WindowClick inside now) =
     (if isOpen s \<and> \<not> inside \<and> \<not> preventCloseOnClickOutside s
      then dispatch_open False (set_open cfg now False s) else s)"
| "action_step cfg s (AssignOpen v now) = set_open cfg now v s"
| "action_step cfg s (Frame now) = paint_frame cfg now s"

text \<open>A panel that is open from the start is shown without a transition.\<close>

definition action_init :: "bool \<Rightarrow> bool \<Rightarrow> header_action" where
  "action_init v keep =
     \<lparr>isOpen = v, panel = (if v then Some \<lparr>shown_now = True, slide = None\<rparr> else None), outroing = False,
      outro_groups = [], preventCloseOnClickOutside = keep, dispatched = []\<rparr>"

section \<open>Transitions in order\<close>

definition prog_ok :: "slide_config \<Rightarrow> rat \<Rightarrow> program \<Rightarrow> bool" where
  "prog_ok cfg T p \<longleftrightarrow>
     0 \<le> prog_from p \<and> prog_from p \<le> 1 \<and> (prog_goal p = 0 \<or> prog_goal p = 1) \<and>
     prog_delta p = prog_goal p - prog_from p \<and> prog_duration p = duration cfg * \<bar>prog_delta p\<bar> \<and>
     prog_end p = prog_start p + prog_duration p \<and> prog_start p \<le> T + delay cfg"

definition req_ok :: "slide_config \<Rightarrow> rat \<Rightarrow> slide_request \<Rightarrow> bool" where
  "req_ok cfg T q \<longleftrightarrow> (req_goal q = 0 \<or> req_goal q = 1) \<and> req_start q \<le> T + delay cfg"

text \<open>The direction and the group of the program that was asked for last.\<close>

definition latest :: "transition \<Rightarrow> (rat \<times> nat option) option" where
  "latest t =
     (case pending t of
        Some q \<Rightarrow> Some (req_goal q, req_group q)
      | None \<Rightarrow> map_option (\<lambda>p. (prog_goal p, prog_group p)) (running t))"

definition slide_base :: "slide_config \<Rightarrow> rat \<Rightarrow> transition \<Rightarrow> bool" where
  "slide_base cfg T t \<longleftrightarrow>
     0 \<le> pos t \<and> pos t \<le> 1 \<and> (looping t \<longleftrightarrow> running t \<noteq> None \<or> pending t \<noteq> None) \<and>
     (\<forall>p. running t = Some p \<longrightarrow> prog_ok cfg T p) \<and> (\<forall>q. pending t = Some q \<longrightarrow> req_ok cfg T q) \<and>
     was_inert t \<noteq> Some True \<and> (was_inert t = None \<longrightarrow> \<not> inert t)"

definition goal_ok :: "bool \<Rightarrow> outro_groups \<Rightarrow> transition \<Rightarrow> bool" where
  "goal_ok v gs t \<longleftrightarrow>
     inert t = (\<not> v) \<and>
     (case latest t of
        None \<Rightarrow> v \<and> pos t = 1 \<and> \<not> animated t
      | Some (goal, g) \<Rightarrow>
          if v then goal = 1 else goal = 0 \<and> (\<exists>k. g = Some k \<and> k < length gs \<and> gs ! k = (1, True)))"

definition slide_ok :: "slide_config \<Rightarrow> rat \<Rightarrow> bool \<Rightarrow> outro_groups \<Rightarrow> transition \<Rightarrow> bool" where
  "slide_ok cfg T v gs t \<longleftrightarrow> slide_base cfg T t \<and> goal_ok v gs t"

definition panel_inv :: "slide_config \<Rightarrow> rat \<Rightarrow> header_action \<Rightarrow> bool" where
  "panel_inv cfg T s \<longleftrightarrow>
     (case panel s of
        None \<Rightarrow> \<not> isOpen s \<and> \<not> outroing s
      | Some b \<Rightarrow>
          shown_now b = isOpen s \<and> outroing s = (\<not> isOpen s) \<and>
          (case slide b of None \<Rightarrow> isOpen s | Some t \<Rightarrow> slide_ok cfg T (isOpen s) (outro_groups s) t))"

lemma start_program_ok:
  assumes "0 \<le> r" and "r \<le> 1" and "req_ok cfg T q"
  shows "prog_ok cfg T (start_program cfg r q)"
  using assms by (auto simp: prog_ok_def req_ok_def start_program_def Let_def)

lemma start_program_goal [simp]:
  "prog_goal (start_program cfg r q) = req_goal q" "prog_group (start_program cfg r q) = req_group q"
  by (simp_all add: start_program_def Let_def)

lemma go_base:
  assumes "slide_base cfg T t" and "now \<le> T" and "v \<or> \<not> inert t"
  shows "slide_base cfg T (fst (request_slide cfg now v (t, gs)))"
proof -
  have "req_ok cfg T \<lparr>req_start = now + delay cfg, req_goal = (if v then 1 else 0),
      req_group = (if v then None else Some g)\<rparr>" for g
    using assms(2) by (simp add: req_ok_def)
  then show ?thesis
    using assms start_program_ok [of "pos t" cfg T]
    by (auto simp: slide_base_def request_slide_def Let_def split: option.splits)
qed

lemma go_in:
  assumes "slide_base cfg T t" and "now \<le> T"
  shows "snd (request_slide cfg now True (t, gs)) = gs \<and> slide_ok cfg T True gs (fst (request_slide cfg now True (t, gs)))"
proof -
  have "goal_ok True gs (fst (request_slide cfg now True (t, gs)))"
    using assms(1) by (auto simp: goal_ok_def latest_def request_slide_def slide_base_def Let_def split: option.splits)
  moreover have "snd (request_slide cfg now True (t, gs)) = gs" by (simp add: request_slide_def Let_def)
  moreover have "slide_base cfg T (fst (request_slide cfg now True (t, gs)))" using go_base [OF assms] by simp
  ultimately show ?thesis unfolding slide_ok_def by blast
qed

lemma go_out:
  fixes hs :: outro_groups
  assumes "slide_base cfg T t" and "now \<le> T" and "\<not> inert t"
  defines "gs \<equiv> hs @ [(0, True)]"
  shows "snd (request_slide cfg now False (t, gs)) = hs @ [(1, True)] \<and>
    slide_ok cfg T False (hs @ [(1, True)]) (fst (request_slide cfg now False (t, gs)))"
proof -
  have "goal_ok False (hs @ [(1, True)]) (fst (request_slide cfg now False (t, gs)))"
    by (auto simp: goal_ok_def latest_def request_slide_def gs_def Let_def)
  moreover have "snd (request_slide cfg now False (t, gs)) = hs @ [(1, True)]"
    by (simp add: request_slide_def gs_def update_group_def Let_def)
  moreover have "slide_base cfg T (fst (request_slide cfg now False (t, gs)))"
    using go_base [OF assms(1,2)] assms(3) by simp
  ultimately show ?thesis unfolding slide_ok_def by blast
qed

lemma take_over_ok: "slide_ok cfg T v gs t \<Longrightarrow> slide_ok cfg T v gs (take_over cfg now t)"
  using start_program_ok [of "pos t" cfg T]
  by (auto simp: slide_ok_def slide_base_def goal_ok_def latest_def take_over_def split: option.splits)

lemma cubicOut_bounds:
  assumes "0 \<le> x" and "x \<le> 1"
  shows "0 \<le> cubicOut x" "cubicOut x \<le> 1"
proof -
  have "(1 - x) * (1 - x) * (1 - x) \<le> 1" using assms by (intro mult_le_one mult_nonneg_nonneg) auto
  moreover have "0 \<le> (1 - x) * (1 - x) * (1 - x)" using assms by (intro mult_nonneg_nonneg) auto
  moreover have "cubicOut x = 1 - (1 - x) * (1 - x) * (1 - x)" by (simp add: cubicOut_def algebra_simps)
  ultimately show "0 \<le> cubicOut x" "cubicOut x \<le> 1" by simp_all
qed

text \<open>While a program runs the transition stays between its ends.\<close>

lemma moving_bounds:
  assumes "prog_ok cfg T p" and "prog_start p \<le> now" and "now < prog_end p"
  defines "r \<equiv> prog_from p + prog_delta p * cubicOut ((now - prog_start p) / prog_duration p)"
  shows "0 \<le> r \<and> r \<le> 1"
proof -
  have d: "0 < prog_duration p" using assms(1-3) by (simp add: prog_ok_def)
  let ?c = "cubicOut ((now - prog_start p) / prog_duration p)"
  have "now - prog_start p \<le> prog_duration p" using assms(1,3) by (simp add: prog_ok_def)
  then have c: "0 \<le> ?c" "?c \<le> 1" using cubicOut_bounds [of "(now - prog_start p) / prog_duration p"] assms(2) d
    by simp_all
  have "r = prog_from p * (1 - ?c) + prog_goal p * ?c"
  proof -
    have "prog_delta p = prog_goal p - prog_from p" using assms(1) by (simp add: prog_ok_def)
    then show ?thesis unfolding r_def by (simp add: left_diff_distrib right_diff_distrib)
  qed
  moreover have "0 \<le> prog_from p * (1 - ?c)" "0 \<le> prog_goal p * ?c" "prog_from p * (1 - ?c) \<le> 1 - ?c"
    "prog_goal p * ?c \<le> ?c"
    using assms(1) c mult_right_mono [of "prog_from p" 1 "1 - ?c"] by (auto simp: prog_ok_def)
  ultimately show ?thesis by linarith
qed

lemma looping_fields [simp]:
  "latest (t\<lparr>looping := l\<rparr>) = latest t" "goal_ok v gs (t\<lparr>looping := l\<rparr>) = goal_ok v gs t"
  by (simp_all add: latest_def goal_ok_def cong: option.case_cong)

lemma advance_ok:
  assumes "slide_ok cfg T v gs t" and "advance now (t, gs) = (t1, gs1, g)"
  shows "(g = None \<longrightarrow> slide_ok cfg T v gs1 (t1\<lparr>looping := running t1 \<noteq> None \<or> pending t1 \<noteq> None\<rparr>)) \<and>
    (\<forall>k. g = Some k \<longrightarrow> \<not> v \<and> k < length gs1 \<and> snd (gs1 ! k))"
proof (cases "running t")
  case None
  with assms show ?thesis by (auto simp: advance_def slide_ok_def slide_base_def goal_ok_def latest_def)
next
  case (Some p)
  have p: "prog_ok cfg T p" using assms(1) Some by (simp add: slide_ok_def slide_base_def)
  show ?thesis
  proof (cases "prog_end p \<le> now \<and> pending t = None")
    case True
    show ?thesis
    proof (cases v)
      case True
      then have "prog_goal p = 1" using assms(1) Some \<open>prog_end p \<le> now \<and> pending t = None\<close>
        by (simp add: slide_ok_def goal_ok_def latest_def)
      with True assms Some \<open>prog_end p \<le> now \<and> pending t = None\<close> show ?thesis
        by (auto simp: advance_def slide_ok_def slide_base_def goal_ok_def latest_def)
    next
      case False
      with assms(1) Some \<open>prog_end p \<le> now \<and> pending t = None\<close> obtain k where
        k: "prog_goal p = 0" "prog_group p = Some k" "k < length gs" "gs ! k = (1, True)"
        by (auto simp: slide_ok_def goal_ok_def latest_def)
      with False assms(2) Some \<open>prog_end p \<le> now \<and> pending t = None\<close> show ?thesis
        by (auto simp: advance_def update_group_def Let_def)
    qed
  next
    case False
    let ?r = "prog_from p + prog_delta p * cubicOut ((now - prog_start p) / prog_duration p)"
    consider (ended) "prog_end p \<le> now" "t1 = t\<lparr>pos := prog_goal p, running := None\<rparr>" "pending t \<noteq> None"
      | (moving) "prog_start p \<le> now" "now < prog_end p" "t1 = t\<lparr>pos := ?r\<rparr>"
      | (early) "t1 = t"
      using assms(2) Some False by (auto simp: advance_def Let_def split: if_splits)
    moreover have "gs1 = gs" "g = None"
      using assms(2) Some False by (auto simp: advance_def Let_def split: if_splits)
    ultimately show ?thesis
    proof cases
      case ended
      then have "goal_ok v gs t1" using assms(1) by (auto simp: slide_ok_def goal_ok_def latest_def)
      with ended assms(1) p \<open>gs1 = gs\<close> \<open>g = None\<close> show ?thesis
        by (auto simp: slide_ok_def slide_base_def prog_ok_def)
    next
      case moving
      then have "latest t1 = latest t" "latest t \<noteq> None"
        using Some by (simp_all add: latest_def split: option.splits)
      with moving(3) assms(1) have "goal_ok v gs t1" by (auto simp: slide_ok_def goal_ok_def)
      with moving moving_bounds [OF p moving(1,2)] assms(1) \<open>gs1 = gs\<close> \<open>g = None\<close> Some show ?thesis
        by (simp add: slide_ok_def slide_base_def)
    next
      case early
      with assms(1) \<open>gs1 = gs\<close> \<open>g = None\<close> show ?thesis by (simp add: slide_ok_def slide_base_def)
    qed
  qed
qed

section \<open>The panel in order\<close>

lemma frame_inv:
  assumes "panel_inv cfg T s"
  shows "panel_inv cfg T (paint_frame cfg now s)"
proof (cases "\<exists>b t. panel s = Some b \<and> slide b = Some t \<and> looping t")
  case False
  then have "paint_frame cfg now s = s" by (auto simp: paint_frame_def split: option.splits)
  with assms show ?thesis by simp
next
  case True
  then obtain b t where bt: "panel s = Some b" "slide b = Some t" "looping t" by blast
  with assms have ok: "slide_ok cfg T (isOpen s) (outro_groups s) t" "shown_now b = isOpen s"
    "outroing s = (\<not> isOpen s)" by (simp_all add: panel_inv_def)
  obtain t1 gs g where a: "advance now (take_over cfg now t, outro_groups s) = (t1, gs, g)" by (metis prod_cases3)
  note adv = advance_ok [OF take_over_ok [OF ok(1), of now] a]
  show ?thesis
  proof (cases g)
    case None
    with adv bt a ok show ?thesis by (simp add: paint_frame_def panel_inv_def Let_def)
  next
    case (Some k)
    with adv bt a show ?thesis by (simp add: paint_frame_def panel_inv_def run_group_def Let_def)
  qed
qed

lemma slide_of_base:
  assumes "case slide b of None \<Rightarrow> True | Some t \<Rightarrow> slide_base cfg T t"
  shows "slide_base cfg T (slide_of v b)"
  using assms by (auto simp: slide_of_def new_transition_def slide_base_def split: option.splits)

lemma transition_in_inv:
  assumes "panel_inv cfg T s" and "\<not> isOpen s" and "now \<le> T"
    and "b = (case panel s of Some b \<Rightarrow> b | None \<Rightarrow> \<lparr>shown_now = False, slide = None\<rparr>)"
  shows "panel_inv cfg T (transition_in cfg now b (s\<lparr>isOpen := True\<rparr>))"
proof -
  have b: "\<not> shown_now b" "case slide b of None \<Rightarrow> True | Some t \<Rightarrow> slide_base cfg T t"
    using assms(1,2,4) by (auto simp: panel_inv_def slide_ok_def split: option.splits)
  from go_in [OF slide_of_base [OF b(2), of True] assms(3), of "outro_groups s"]
  show ?thesis by (auto simp: transition_in_def b(1) panel_inv_def Let_def split: prod.splits)
qed

lemma transition_out_inv:
  assumes "panel_inv cfg T s" and "isOpen s" and "now \<le> T" and "panel s = Some b"
  shows "panel_inv cfg T (transition_out cfg now b (s\<lparr>isOpen := False\<rparr>))"
proof -
  have b: "\<not> outroing s" "case slide b of None \<Rightarrow> True | Some t \<Rightarrow> slide_base cfg T t"
    using assms(1,2,4) by (auto simp: panel_inv_def slide_ok_def split: option.splits)
  have "\<not> inert (slide_of False b)"
    using assms(1,2,4) by (auto simp: panel_inv_def slide_ok_def goal_ok_def slide_of_def new_transition_def
        split: option.splits)
  note out = go_out [OF slide_of_base [OF b(2), of False] assms(3) this, of "outro_groups s"]
  obtain t gs where g: "request_slide cfg now False (slide_of False b, outro_groups s @ [(0, True)]) = (t, gs)"
    by (metis surj_pair)
  from out g show ?thesis
    by (simp add: transition_out_def b(1) panel_inv_def update_group_def Let_def)
qed

lemma set_open_inv:
  assumes "panel_inv cfg T s" and "now \<le> T"
  shows "panel_inv cfg T (set_open cfg now v s)"
proof (cases "v = isOpen s")
  case False
  show ?thesis
  proof (cases v)
    case True
    with False transition_in_inv [OF assms(1) _ assms(2) refl] show ?thesis
      by (simp add: set_open_def patch_panel_def)
  next
    case f: False
    with False have o: "isOpen s" by simp
    with assms(1) obtain b where b: "panel s = Some b" by (auto simp: panel_inv_def split: option.splits)
    with f o transition_out_inv [OF assms(1) o assms(2) b] show ?thesis
      by (simp add: set_open_def patch_panel_def)
  qed
qed (simp add: set_open_def assms)

section \<open>The panel settles\<close>

fun timely :: "rat \<Rightarrow> action_event \<Rightarrow> bool" where
  "timely T (ButtonClick now) \<longleftrightarrow> now \<le> T"
| "timely T (WindowClick inside now) \<longleftrightarrow> now \<le> T"
| "timely T (AssignOpen v now) \<longleftrightarrow> now \<le> T"
| "timely T (Frame now) \<longleftrightarrow> True"

lemma dispatch_inv [simp]: "panel_inv cfg T (dispatch_open v s) = panel_inv cfg T s"
  by (simp add: panel_inv_def dispatch_open_def cong: option.case_cong)

lemma action_step_inv: "panel_inv cfg T s \<Longrightarrow> timely T e \<Longrightarrow> panel_inv cfg T (action_step cfg s e)"
  by (cases e) (simp_all add: set_open_inv frame_inv)

lemma action_run_inv:
  "panel_inv cfg T s \<Longrightarrow> list_all (timely T) es \<Longrightarrow> panel_inv cfg T (run_events (action_step cfg) s es)"
  by (induction es arbitrary: s) (simp_all add: action_step_inv del: action_step.simps)

lemma action_init_inv: "panel_inv cfg T (action_init v keep)"
  by (simp add: panel_inv_def action_init_def)

text \<open>A panel without a transition under way.\<close>

definition at_rest :: "transition \<Rightarrow> bool" where
  "at_rest t \<longleftrightarrow> running t = None \<and> pending t = None \<and> pos t = 1 \<and> \<not> animated t \<and> \<not> inert t"

lemma last_program:
  assumes "slide_ok cfg T v gs t" and "looping t" and "T + delay cfg < now"
  shows "\<exists>p. running (take_over cfg now t) = Some p \<and> pending (take_over cfg now t) = None"
proof (cases "pending t")
  case None
  with assms show ?thesis by (auto simp: slide_ok_def slide_base_def take_over_def)
next
  case (Some q)
  then have "req_start q < now" using assms by (auto simp: slide_ok_def slide_base_def req_ok_def)
  with Some show ?thesis by (simp add: take_over_def)
qed

lemma program_over:
  assumes "prog_ok cfg T p" and "0 \<le> duration cfg" and "T + delay cfg + duration cfg \<le> now"
  shows "prog_end p \<le> now"
proof -
  have "\<bar>prog_delta p\<bar> \<le> 1" using assms(1) by (auto simp: prog_ok_def)
  then have "duration cfg * \<bar>prog_delta p\<bar> \<le> duration cfg" using assms(2) by (simp add: mult_left_le)
  then show ?thesis using assms by (simp add: prog_ok_def)
qed

lemma advance_last:
  assumes "slide_ok cfg T v gs t" and "running t = Some p" and "pending t = None" and "prog_end p \<le> now"
  shows "\<exists>t1 gs1 g. advance now (t, gs) = (t1, gs1, g) \<and>
    (if v then g = None \<and> at_rest t1 else \<exists>k. g = Some k \<and> snd (gs1 ! k))"
proof (cases v)
  case True
  then have "prog_goal p = 1" "\<not> inert t" using assms(1-3) by (simp_all add: slide_ok_def goal_ok_def latest_def)
  with True assms show ?thesis by (simp add: advance_def at_rest_def)
next
  case False
  then obtain k where "prog_goal p = 0" "prog_group p = Some k" "k < length gs" "gs ! k = (1, True)"
    using assms(1-3) by (auto simp: slide_ok_def goal_ok_def latest_def)
  with False assms show ?thesis by (simp add: advance_def update_group_def Let_def)
qed

definition panel_settled :: "header_action \<Rightarrow> bool" where
  "panel_settled s \<longleftrightarrow>
     (case panel s of
        None \<Rightarrow> \<not> isOpen s
      | Some b \<Rightarrow> isOpen s \<and> (case slide b of None \<Rightarrow> True | Some t \<Rightarrow> at_rest t))"

lemma settles_now:
  assumes "panel_inv cfg T s" and "0 \<le> duration cfg" and "T + delay cfg < now"
    and "T + delay cfg + duration cfg \<le> now"
  shows "panel_settled (paint_frame cfg now s) \<and> isOpen (paint_frame cfg now s) = isOpen s"
proof (cases "\<exists>b t. panel s = Some b \<and> slide b = Some t \<and> looping t")
  case False
  then have "paint_frame cfg now s = s" by (auto simp: paint_frame_def split: option.splits)
  moreover have "panel_settled s"
    using assms(1) False
    by (auto simp: panel_settled_def panel_inv_def slide_ok_def slide_base_def goal_ok_def latest_def at_rest_def
        split: option.splits)
  ultimately show ?thesis by simp
next
  case True
  then obtain b t where bt: "panel s = Some b" "slide b = Some t" "looping t" by blast
  with assms(1) have ok: "slide_ok cfg T (isOpen s) (outro_groups s) t" by (simp add: panel_inv_def)
  let ?t = "take_over cfg now t"
  have ok': "slide_ok cfg T (isOpen s) (outro_groups s) ?t" by (rule take_over_ok [OF ok])
  obtain p where p: "running ?t = Some p" "pending ?t = None" using last_program [OF ok bt(3) assms(3)] by blast
  then have "prog_end p \<le> now"
    using ok' by (intro program_over [OF _ assms(2,4)]) (simp add: slide_ok_def slide_base_def)
  with advance_last [OF ok' p] obtain t1 gs1 g where a: "advance now (?t, outro_groups s) = (t1, gs1, g)"
    "if isOpen s then g = None \<and> at_rest t1 else \<exists>k. g = Some k \<and> snd (gs1 ! k)" by blast
  with bt show ?thesis
    by (auto simp: paint_frame_def panel_settled_def run_group_def at_rest_def Let_def split: if_splits)
qed

text \<open>
  Claim C15: however the button, the page and the application open and close the panel and whenever
  frames are painted, also in the middle of a transition, the first frame that comes after the delay
  and the duration have passed since the last change leaves the panel off the page if it was closed
  last, and otherwise on the page, fully shown, usable and without a rule of the transition. All the
  while the transition stays between its two ends.
\<close>

theorem header_panel_settles:
  fixes cfg :: slide_config and T now :: rat and v keep :: bool
  assumes "0 \<le> duration cfg" and "list_all (timely T) es"
    and "T + delay cfg < now" and "T + delay cfg + duration cfg \<le> now"
  defines "s \<equiv> run_events (action_step cfg) (action_init v keep) es"
  shows "panel_settled (action_step cfg s (Frame now)) \<and> isOpen (action_step cfg s (Frame now)) = isOpen s \<and>
    (\<forall>b t. panel s = Some b \<and> slide b = Some t \<longrightarrow> 0 \<le> pos t \<and> pos t \<le> 1)"
proof -
  have inv: "panel_inv cfg T s" unfolding s_def by (rule action_run_inv [OF action_init_inv assms(2)])
  then have "\<forall>b t. panel s = Some b \<and> slide b = Some t \<longrightarrow> 0 \<le> pos t \<and> pos t \<le> 1"
    by (auto simp: panel_inv_def slide_ok_def slide_base_def)
  with settles_now [OF inv assms(1,3,4)] show ?thesis by simp
qed

text \<open>Opened, closed half way, and left alone.\<close>

theorem header_panel_settles_witness:
  "panel (action_step (slide_options (Slide None (Some 200)))
     (run_events (action_step (slide_options (Slide None (Some 200)))) (action_init False False)
        [ButtonClick 0, Frame 100, WindowClick False 120]) (Frame 400)) = None"
proof -
  let ?c = "slide_options (Slide None (Some 200))" and ?es = "[ButtonClick 0, Frame 100, WindowClick False 120]"
  let ?s = "run_events (action_step ?c) (action_init False False) ?es"
  from header_panel_settles [where cfg = ?c and T = 120 and now = 400 and es = ?es and v = False and keep = False]
  have "panel_settled (action_step ?c ?s (Frame 400))" "isOpen (action_step ?c ?s (Frame 400)) = isOpen ?s"
    by (simp_all del: action_step.simps)
  moreover have "\<not> isOpen ?s"
    by (simp add: action_init_def set_open_def patch_panel_def transition_in_def transition_out_def request_slide_def
        slide_of_def new_transition_def dispatch_open_def paint_frame_def take_over_def advance_def start_program_def
        run_group_def update_group_def Let_def)
  ultimately show ?thesis
    by (simp add: panel_settled_def del: action_step.simps split: option.splits)
qed

end
