(* ===== verification/Svelte_Flush.thy ===== *)
theory Svelte_Flush
  imports Svelte_Store
begin

text \<open>
  The scheduler of the runtime (\<open>bundle.js\<close> lines 368--425, with \<open>K\<close> and \<open>Tv\<close> of lines
  692--704 and the assignment of a variable in \<open>me\<close>, lines 730--738). An assignment marks a
  component in a mask of bits and asks for one microtask; the microtask runs the reactive
  statements of the marked components, repaints them and calls what waits for an update, until no
  component is marked. The theorem is that after an exception in an update no assignment is ever
  shown again.
\<close>

unbundle bit_operations_syntax

section \<open>Components and the scheduler\<close>

text \<open>The bits of a mask; entries beyond the end of the array read as zero.\<close>

type_synonym mask = "nat \<Rightarrow> 32 word"

text \<open>\<open>shown\<close> is what the page shows of each variable, which only \<open>fragment.p\<close> changes.\<close>

record component =
  ctx :: "nat \<Rightarrow> jsval"
  dirty :: mask
  fragment :: bool
  after_update :: "nat list"
  shown :: "nat \<Rightarrow> jsval"

record scheduler =
  comps :: "nat \<Rightarrow> component"
  dirty_components :: "nat list"
  flushidx :: nat
  update_scheduled :: bool
  microtasks :: nat
  binding_callbacks :: "nat list"
  render_callbacks :: "nat list"
  flush_callbacks :: "nat list"
  seen_callbacks :: "nat list"

definition clean :: mask where
  "clean = (\<lambda>j. 0)(0 := - 1)"

definition is_clean :: "mask \<Rightarrow> bool" where
  "is_clean m \<longleftrightarrow> m 0 = - 1"

definition with_bit :: "nat \<Rightarrow> mask \<Rightarrow> mask" where
  "with_bit i m = m(i div 31 := m (i div 31) OR push_bit (i mod 31) 1)"

definition on_comp :: "nat \<Rightarrow> (component \<Rightarrow> component) \<Rightarrow> scheduler \<Rightarrow> scheduler" where
  "on_comp c f s = s\<lparr>comps := (comps s)(c := f (comps s c))\<rparr>"

definition schedule_update :: "scheduler \<Rightarrow> scheduler" where
  "schedule_update s =
     (if update_scheduled s then s
      else s\<lparr>update_scheduled := True, microtasks := microtasks s + 1\<rparr>)"

definition make_dirty :: "nat \<Rightarrow> nat \<Rightarrow> scheduler \<Rightarrow> scheduler" where
  "make_dirty c i s =
     (let s = (if is_clean (dirty (comps s c))
               then on_comp c (\<lambda>k. k\<lparr>dirty := (\<lambda>j. 0)\<rparr>)
                      (schedule_update (s\<lparr>dirty_components := dirty_components s @ [c]\<rparr>))
               else s)
      in on_comp c (\<lambda>k. k\<lparr>dirty := with_bit i (dirty k)\<rparr>) s)"

text \<open>The assignment of a variable; a bound variable is assigned in the parent by a further action.\<close>

definition invalidate :: "nat \<Rightarrow> nat \<Rightarrow> jsval \<Rightarrow> scheduler \<Rightarrow> scheduler" where
  "invalidate c i v s =
     (let s' = on_comp c (\<lambda>k. k\<lparr>ctx := (ctx k)(i := v)\<rparr>) s
      in if safe_not_equal (ctx (comps s c) i) v then make_dirty c i s' else s')"

section \<open>What components do\<close>

datatype act =
    Invalidate nat nat jsval
  | AddBinding nat
  | AddRender nat
  | AddFlush nat
  | Tick
  | Raise

text \<open>Painting shows variables, passes values to children and destroys components.\<close>

datatype paint_act = Do act | Show nat | Destroy nat

text \<open>
  The code of the components: what is run depends on the variables of all components, and reactive
  statements and painting on the mask. Callbacks are known by number.
\<close>

type_synonym views = "nat \<Rightarrow> nat \<Rightarrow> jsval"

record code =
  reactive :: "nat \<Rightarrow> views \<Rightarrow> mask \<Rightarrow> act list"
  paint :: "nat \<Rightarrow> views \<Rightarrow> mask \<Rightarrow> paint_act list"
  callback :: "nat \<Rightarrow> views \<Rightarrow> act list"
  on_destroy :: "nat \<Rightarrow> views \<Rightarrow> act list"

definition views_of :: "scheduler \<Rightarrow> views" where
  "views_of s c = ctx (comps s c)"

fun do_act :: "act \<Rightarrow> scheduler \<Rightarrow> scheduler" where
  "do_act (Invalidate c i v) s = invalidate c i v s"
| "do_act (AddBinding b) s = s\<lparr>binding_callbacks := binding_callbacks s @ [b]\<rparr>"
| "do_act (AddRender b) s = s\<lparr>render_callbacks := render_callbacks s @ [b]\<rparr>"
| "do_act (AddFlush b) s = s\<lparr>flush_callbacks := flush_callbacks s @ [b]\<rparr>"
| "do_act Tick s = schedule_update s"
| "do_act Raise s = s"

text \<open>The second component of a result tells that an exception was raised.\<close>

primrec run_acts :: "act list \<Rightarrow> scheduler \<Rightarrow> scheduler \<times> bool" where
  "run_acts [] s = (s, False)"
| "run_acts (a # as) s = (if a = Raise then (s, True) else run_acts as (do_act a s))"

definition call :: "code \<Rightarrow> nat \<Rightarrow> scheduler \<Rightarrow> scheduler \<times> bool" where
  "call app b s = run_acts (callback app b (views_of s)) s"

primrec call_all :: "code \<Rightarrow> nat list \<Rightarrow> scheduler \<Rightarrow> scheduler \<times> bool" where
  "call_all app [] s = (s, False)"
| "call_all app (b # bs) s = (let (s, r) = call app b s in if r then (s, True) else call_all app bs s)"

text \<open>What still waits for the update of a component that goes away is called at once.\<close>

definition flush_render_callbacks :: "code \<Rightarrow> nat list \<Rightarrow> scheduler \<Rightarrow> scheduler \<times> bool" where
  "flush_render_callbacks app fns s =
     (let filtered = filter (\<lambda>b. b \<notin> set fns) (render_callbacks s);
          targets = filter (\<lambda>b. b \<in> set fns) (render_callbacks s);
          (s, r) = call_all app targets s
      in if r then (s, True) else (s\<lparr>render_callbacks := filtered\<rparr>, False))"

definition destroy_component :: "code \<Rightarrow> nat \<Rightarrow> scheduler \<Rightarrow> scheduler \<times> bool" where
  "destroy_component app c s =
     (if fragment (comps s c)
      then (let (s, r) = flush_render_callbacks app (after_update (comps s c)) s
            in if r then (s, True)
               else let (s, r) = run_acts (on_destroy app c (views_of s)) s
                    in if r then (s, True)
                       else (on_comp c (\<lambda>k. k\<lparr>fragment := False, ctx := (\<lambda>i. Undef)\<rparr>) s, False))
      else (s, False))"

primrec run_paint :: "code \<Rightarrow> nat \<Rightarrow> paint_act list \<Rightarrow> scheduler \<Rightarrow> scheduler \<times> bool" where
  "run_paint app c [] s = (s, False)"
| "run_paint app c (p # ps) s =
     (case p of
        Do a \<Rightarrow> if a = Raise then (s, True) else run_paint app c ps (do_act a s)
      | Show i \<Rightarrow> run_paint app c ps (on_comp c (\<lambda>k. k\<lparr>shown := (shown k)(i := ctx k i)\<rparr>) s)
      | Destroy d \<Rightarrow> (let (s, r) = destroy_component app d s in if r then (s, True) else run_paint app c ps s))"

text \<open>The callbacks before an update are left out: nothing in the bundle adds one to the empty list.\<close>

definition update_component :: "code \<Rightarrow> nat \<Rightarrow> scheduler \<Rightarrow> scheduler \<times> bool" where
  "update_component app c s =
     (if fragment (comps s c)
      then (let (s, r) = run_acts (reactive app c (views_of s) (dirty (comps s c))) s
            in if r then (s, True)
               else let m = dirty (comps s c);
                        s = on_comp c (\<lambda>k. k\<lparr>dirty := clean\<rparr>) s;
                        (s, r) = run_paint app c (paint app c (views_of s) m) s
                    in if r then (s, True)
                       else (s\<lparr>render_callbacks := render_callbacks s @ after_update (comps s c)\<rparr>, False))
      else (s, False))"

section \<open>The microtask\<close>

partial_function (option) component_loop :: "code \<Rightarrow> scheduler \<Rightarrow> (scheduler \<times> bool) option" where
  "component_loop app s =
     (if flushidx s < length (dirty_components s)
      then (let (s', r) = update_component app (dirty_components s ! flushidx s) (s\<lparr>flushidx := flushidx s + 1\<rparr>)
            in if r then Some (s'\<lparr>dirty_components := [], flushidx := 0\<rparr>, True)
               else component_loop app s')
      else Some (s\<lparr>dirty_components := [], flushidx := 0\<rparr>, False))"

partial_function (option) binding_loop :: "code \<Rightarrow> scheduler \<Rightarrow> (scheduler \<times> bool) option" where
  "binding_loop app s =
     (if binding_callbacks s = [] then Some (s, False)
      else (let (s', r) = call app (last (binding_callbacks s))
                            (s\<lparr>binding_callbacks := butlast (binding_callbacks s)\<rparr>)
            in if r then Some (s', True) else binding_loop app s'))"

partial_function (option) render_loop :: "code \<Rightarrow> nat \<Rightarrow> scheduler \<Rightarrow> (scheduler \<times> bool) option" where
  "render_loop app e s =
     (if e < length (render_callbacks s)
      then (let b = render_callbacks s ! e
            in if b \<in> set (seen_callbacks s) then render_loop app (e + 1) s
               else (let (s', r) = call app b (s\<lparr>seen_callbacks := b # seen_callbacks s\<rparr>)
                     in if r then Some (s', True) else render_loop app (e + 1) s'))
      else Some (s\<lparr>render_callbacks := []\<rparr>, False))"

partial_function (option) flush_loop :: "code \<Rightarrow> scheduler \<Rightarrow> (scheduler \<times> bool) option" where
  "flush_loop app s =
     (if flush_callbacks s = [] then Some (s, False)
      else (let (s', r) = call app (last (flush_callbacks s))
                            (s\<lparr>flush_callbacks := butlast (flush_callbacks s)\<rparr>)
            in if r then Some (s', True) else flush_loop app s'))"

text \<open>One phase after another, unless an exception ends them.\<close>

definition and_then ::
  "(scheduler \<times> bool) option \<Rightarrow> (scheduler \<Rightarrow> (scheduler \<times> bool) option) \<Rightarrow> (scheduler \<times> bool) option"
where
  "and_then x f = Option.bind x (\<lambda>(s, r). if r then Some (s, True) else f s)"

definition flush_round :: "code \<Rightarrow> scheduler \<Rightarrow> (scheduler \<times> bool) option" where
  "flush_round app s = and_then (component_loop app s) (\<lambda>s. and_then (binding_loop app s) (render_loop app 0))"

partial_function (option) flush_rounds :: "code \<Rightarrow> scheduler \<Rightarrow> (scheduler \<times> bool) option" where
  "flush_rounds app s =
     Option.bind (flush_round app s)
       (\<lambda>(s', r). if r then Some (s', True)
         else if dirty_components s' \<noteq> [] then flush_rounds app s' else Some (s', False))"

definition flush_updates :: "code \<Rightarrow> scheduler \<Rightarrow> (scheduler \<times> bool) option" where
  "flush_updates app s =
     (if flushidx s \<noteq> 0 then Some (s, False)
      else and_then (flush_rounds app s)
             (\<lambda>s. and_then (flush_loop app s)
               (\<lambda>s. Some (s\<lparr>update_scheduled := False, seen_callbacks := []\<rparr>, False))))"

declare component_loop.simps [code] binding_loop.simps [code] render_loop.simps [code]
  flush_loop.simps [code] flush_rounds.simps [code]

text \<open>
  Between microtasks a handler or a settled call assigns variables. The flush is also called when a
  component is created in a target and when an await block switches its branch; in the application
  that is at its start, before any page is painted, so these calls are not events here.
\<close>

datatype loop_event = Assign nat nat jsval | Microtask

definition microtask :: "code \<Rightarrow> scheduler \<Rightarrow> (scheduler \<times> bool) option" where
  "microtask app s =
     (if microtasks s = 0 then Some (s, False) else flush_updates app (s\<lparr>microtasks := microtasks s - 1\<rparr>))"

fun loop_step :: "code \<Rightarrow> scheduler \<Rightarrow> loop_event \<Rightarrow> scheduler option" where
  "loop_step app s (Assign c i v) = Some (invalidate c i v s)"
| "loop_step app s Microtask = map_option fst (microtask app s)"

primrec loop_run :: "code \<Rightarrow> scheduler \<Rightarrow> loop_event list \<Rightarrow> scheduler option" where
  "loop_run app s [] = Some s"
| "loop_run app s (e # es) = Option.bind (loop_step app s e) (\<lambda>s'. loop_run app s' es)"


section \<open>An exception stops the page\<close>

text \<open>A flush is recorded as asked for, but no microtask will run one.\<close>

definition stuck :: "scheduler \<Rightarrow> bool" where
  "stuck s \<longleftrightarrow> update_scheduled s \<and> microtasks s = 0"

lemma stuck_fields [simp]:
  "stuck (on_comp c f s) = stuck s"
  "stuck (s\<lparr>render_callbacks := bs\<rparr>) = stuck s" "stuck (s\<lparr>binding_callbacks := bs\<rparr>) = stuck s"
  "stuck (s\<lparr>flush_callbacks := bs\<rparr>) = stuck s" "stuck (s\<lparr>seen_callbacks := bs\<rparr>) = stuck s"
  "stuck (s\<lparr>dirty_components := cs\<rparr>) = stuck s" "stuck (s\<lparr>flushidx := k\<rparr>) = stuck s"
  by (simp_all add: stuck_def on_comp_def)

lemma stuck_do_act: "stuck s \<Longrightarrow> stuck (do_act a s)"
  by (cases a) (simp_all add: invalidate_def make_dirty_def Let_def, simp_all add: stuck_def schedule_update_def on_comp_def)

lemma stuck_run_acts: "stuck s \<Longrightarrow> stuck (fst (run_acts as s))"
  by (induction as arbitrary: s) (simp_all add: stuck_do_act)

lemma stuck_call: "stuck s \<Longrightarrow> stuck (fst (call app b s))"
  by (simp add: call_def stuck_run_acts)

lemma stuck_call_all: "stuck s \<Longrightarrow> stuck (fst (call_all app bs s))"
proof (induction bs arbitrary: s)
  case (Cons b bs)
  obtain t r where c: "call app b s = (t, r)" by (cases "call app b s")
  with stuck_call [OF Cons.prems, of app b] have "stuck t" by simp
  with Cons.IH show ?case by (simp add: c)
qed simp

lemma stuck_destroy: "stuck s \<Longrightarrow> stuck (fst (destroy_component app c s))"
  using stuck_call_all [of s app "filter (\<lambda>b. b \<in> set (after_update (comps s c))) (render_callbacks s)"]
  by (auto simp: destroy_component_def flush_render_callbacks_def Let_def split: prod.splits)
    (metis fst_conv stuck_fields(2) stuck_run_acts)+

lemma stuck_run_paint: "stuck s \<Longrightarrow> stuck (fst (run_paint app c ps s))"
proof (induction ps arbitrary: s)
  case (Cons p ps)
  show ?case
  proof (cases p)
    case (Destroy d)
    obtain t r where c: "destroy_component app d s = (t, r)" by (cases "destroy_component app d s")
    with stuck_destroy [OF Cons.prems, of app d] have "stuck t" by simp
    with Cons.IH Destroy show ?thesis by (simp add: c)
  qed (use Cons in \<open>simp_all add: stuck_do_act\<close>)
qed simp

lemma stuck_update: "stuck s \<Longrightarrow> stuck (fst (update_component app c s))"
  using stuck_run_acts [of s "reactive app c (views_of s) (dirty (comps s c))"]
  by (auto simp: update_component_def Let_def split: prod.splits)
    (metis fst_conv stuck_fields(1) stuck_run_paint)+

lemma stuck_component_loop:
  assumes "component_loop app s = Some z"
  shows "stuck s \<longrightarrow> stuck (fst z)"
proof (induction rule: component_loop.raw_induct [of "\<lambda>app s z. stuck s \<longrightarrow> stuck (fst z)", OF _ assms])
  case (1 loop app s z)
  obtain t r where u: "update_component app (dirty_components s ! flushidx s) (s\<lparr>flushidx := flushidx s + 1\<rparr>) = (t, r)"
    by (cases "update_component app (dirty_components s ! flushidx s) (s\<lparr>flushidx := flushidx s + 1\<rparr>)")
  have "stuck s \<Longrightarrow> stuck t"
    using stuck_update [of "s\<lparr>flushidx := flushidx s + 1\<rparr>" app "dirty_components s ! flushidx s"] u by simp
  with 1 u show ?case by (auto split: if_splits)
qed

lemma stuck_binding_loop:
  assumes "binding_loop app s = Some z"
  shows "stuck s \<longrightarrow> stuck (fst z)"
proof (induction rule: binding_loop.raw_induct [of "\<lambda>app s z. stuck s \<longrightarrow> stuck (fst z)", OF _ assms])
  case (1 loop app s z)
  let ?s = "s\<lparr>binding_callbacks := butlast (binding_callbacks s)\<rparr>"
  obtain t r where u: "call app (last (binding_callbacks s)) ?s = (t, r)"
    by (cases "call app (last (binding_callbacks s)) ?s")
  have "stuck s \<Longrightarrow> stuck t" using stuck_call [of ?s app "last (binding_callbacks s)"] u by simp
  with 1 u show ?case by (auto simp: stuck_call split: if_splits)
qed

lemma stuck_flush_loop:
  assumes "flush_loop app s = Some z"
  shows "stuck s \<longrightarrow> stuck (fst z)"
proof (induction rule: flush_loop.raw_induct [of "\<lambda>app s z. stuck s \<longrightarrow> stuck (fst z)", OF _ assms])
  case (1 loop app s z)
  let ?s = "s\<lparr>flush_callbacks := butlast (flush_callbacks s)\<rparr>"
  obtain t r where u: "call app (last (flush_callbacks s)) ?s = (t, r)"
    by (cases "call app (last (flush_callbacks s)) ?s")
  have "stuck s \<Longrightarrow> stuck t" using stuck_call [of ?s app "last (flush_callbacks s)"] u by simp
  with 1 u show ?case by (auto simp: stuck_call split: if_splits)
qed

lemma stuck_render_loop:
  assumes "render_loop app e s = Some z"
  shows "stuck s \<longrightarrow> stuck (fst z)"
proof (induction rule: render_loop.raw_induct [of "\<lambda>app e s z. stuck s \<longrightarrow> stuck (fst z)", OF _ assms])
  case (1 loop app e s z)
  let ?b = "render_callbacks s ! e"
  let ?s = "s\<lparr>seen_callbacks := ?b # seen_callbacks s\<rparr>"
  obtain t r where u: "call app ?b ?s = (t, r)" by (cases "call app ?b ?s")
  have "stuck s \<Longrightarrow> stuck t" using stuck_call [of ?s app ?b] u by simp
  with 1 u show ?case by (auto simp: stuck_call Let_def split: if_splits)
qed

lemma and_then_Some:
  assumes "and_then x f = Some z"
  obtains s r where "x = Some (s, r)" and "if r then z = (s, True) else f s = Some z"
proof -
  from assms obtain y where y: "x = Some y" by (cases x) (auto simp: and_then_def)
  obtain s r where sr: "y = (s, r)" by (cases y)
  have "x = Some (s, r)" using y sr by simp
  moreover have "if r then z = (s, True) else f s = Some z"
    using assms y sr by (cases r) (simp_all add: and_then_def)
  ultimately show ?thesis by (rule that)
qed

lemma stuck_and_then:
  assumes "and_then x f = Some z" and "\<And>y. x = Some y \<Longrightarrow> stuck (fst y)"
    and "\<And>s y. stuck s \<Longrightarrow> f s = Some y \<Longrightarrow> stuck (fst y)"
  shows "stuck (fst z)"
  using assms(1)
proof (rule and_then_Some)
  fix s r
  assume "x = Some (s, r)" and z: "if r then z = (s, True) else f s = Some z"
  with assms(2) have "stuck s" by fastforce
  with z assms(3) show ?thesis by (cases r) auto
qed

lemma stuck_flush_round:
  assumes "flush_round app s = Some z" and "stuck s"
  shows "stuck (fst z)"
  using assms(1) unfolding flush_round_def
  by (rule stuck_and_then)
    (use assms(2) in \<open>auto dest: stuck_component_loop elim!: stuck_and_then dest!: stuck_binding_loop stuck_render_loop\<close>)

lemma stuck_flush_rounds:
  assumes "flush_rounds app s = Some z"
  shows "stuck s \<longrightarrow> stuck (fst z)"
proof (induction rule: flush_rounds.raw_induct [of "\<lambda>app s z. stuck s \<longrightarrow> stuck (fst z)", OF _ assms])
  case (1 loop app s z)
  from 1(2) obtain t r where u: "flush_round app s = Some (t, r)" by (cases "flush_round app s") auto
  have "stuck s \<Longrightarrow> stuck t" using stuck_flush_round [OF u] by simp
  with 1 u show ?case by (auto split: if_splits)
qed

lemma stuck_flush_raised:
  assumes "flush_updates app s = Some (t, True)" and "stuck s"
  shows "stuck t"
proof -
  have "and_then (flush_rounds app s) (\<lambda>s. and_then (flush_loop app s)
      (\<lambda>s. Some (s\<lparr>update_scheduled := False, seen_callbacks := []\<rparr>, False))) = Some (t, True)"
    using assms(1) by (simp add: flush_updates_def split: if_splits)
  then show ?thesis
  proof (rule and_then_Some)
    fix u r
    assume u: "flush_rounds app s = Some (u, r)" "if r then (t, True) = (u, True) else
      and_then (flush_loop app u) (\<lambda>s. Some (s\<lparr>update_scheduled := False, seen_callbacks := []\<rparr>, False)) =
        Some (t, True)"
    have "stuck u" using stuck_flush_rounds [OF u(1)] assms(2) by simp
    with u(2) show ?thesis
      by (cases r) (auto elim!: and_then_Some split: if_splits dest: stuck_flush_loop)
  qed
qed

lemma shown_invalidate [simp]: "shown (comps (invalidate c i v s) d) = shown (comps s d)"
  by (simp add: invalidate_def make_dirty_def on_comp_def schedule_update_def Let_def)

lemma stuck_page_step:
  assumes "stuck s"
  shows "\<exists>t. loop_step app s e = Some t \<and> stuck t \<and> (\<forall>c. shown (comps t c) = shown (comps s c))"
proof (cases e)
  case (Assign c i v)
  then show ?thesis using stuck_do_act [OF assms, of "Invalidate c i v"] by simp
next
  case Microtask
  then show ?thesis using assms by (simp add: microtask_def stuck_def)
qed

lemma stuck_page_run:
  assumes "stuck s"
  shows "\<exists>t. loop_run app s es = Some t \<and> stuck t \<and> (\<forall>c. shown (comps t c) = shown (comps s c))"
  using assms
proof (induction es arbitrary: s)
  case (Cons e es)
  obtain t where t: "loop_step app s e = Some t" "stuck t" "\<forall>c. shown (comps t c) = shown (comps s c)"
    using stuck_page_step [OF Cons.prems] by blast
  with Cons.IH [OF t(2)] show ?case by simp
qed simp

text \<open>
  Claim C19: when an update raises an exception in the only pending microtask, the page is frozen:
  no assignment and no microtask changes what any component shows, ever again.
\<close>

theorem failed_update_freezes:
  assumes "update_scheduled s" and "microtasks s = 1" and "microtask app s = Some (t, True)"
  shows "\<forall>es. \<exists>u. loop_run app t es = Some u \<and> (\<forall>c. shown (comps u c) = shown (comps t c))"
proof
  fix es
  have "stuck (s\<lparr>microtasks := 0\<rparr>)" using assms(1) by (simp add: stuck_def)
  moreover have "flush_updates app (s\<lparr>microtasks := 0\<rparr>) = Some (t, True)"
    using assms(2,3) by (simp add: microtask_def)
  ultimately have "stuck t" using stuck_flush_raised by blast
  with stuck_page_run show "\<exists>u. loop_run app t es = Some u \<and> (\<forall>c. shown (comps u c) = shown (comps t c))"
    by blast
qed

text \<open>A component that cannot paint, after an assignment.\<close>

definition failing_code :: code where
  "failing_code =
     \<lparr>reactive = \<lambda>c vs k. [], paint = \<lambda>c vs k. [Do Raise], callback = \<lambda>b vs. [], on_destroy = \<lambda>c vs. []\<rparr>"

definition marked_page :: scheduler where
  "marked_page =
     \<lparr>comps = (\<lambda>c. \<lparr>ctx = (\<lambda>i. Null), dirty = (\<lambda>j. if j = 0 then 1 else 0), fragment = True,
                  after_update = [], shown = (\<lambda>i. Undef)\<rparr>),
      dirty_components = [0], flushidx = 0, update_scheduled = True, microtasks = 1,
      binding_callbacks = [], render_callbacks = [], flush_callbacks = [], seen_callbacks = []\<rparr>"

theorem failed_update_freezes_witness:
  "\<exists>t. microtask failing_code marked_page = Some (t, True) \<and>
     (\<forall>es. \<exists>u. loop_run failing_code t es = Some u \<and> (\<forall>c. shown (comps u c) = shown (comps t c)))"
proof -
  have "update_scheduled marked_page" "microtasks marked_page = 1" by (simp_all add: marked_page_def)
  moreover have "\<exists>t. microtask failing_code marked_page = Some (t, True)"
    by (simp add: microtask_def flush_updates_def flush_rounds.simps flush_round_def component_loop.simps
        update_component_def failing_code_def marked_page_def on_comp_def and_then_def Let_def)
  ultimately show ?thesis using failed_update_freezes by blast
qed

end
