(* ===== verification/Svelte_Instance.thy ===== *)
theory Svelte_Instance
  imports Svelte_Flush
begin

text \<open>
  What the runtime keeps for a component beside its variables (\<open>bundle.js\<close> lines 90--118, 342--367,
  705--726 and 762--772): the context that components hand down to the components they create, the
  listeners of the events a component dispatches, and the masks that tell a slot which variables of
  its owner changed. The theorems are that looking up a context finds the nearest owner that set it,
  and which variables a full mask covers.
\<close>

unbundle bit_operations_syntax

section \<open>Contexts\<close>

text \<open>
  A component is created inside another one, or as a root, and gets a copy of its context; the copy is
  made when it is created.
\<close>

type_synonym contexts = "nat \<Rightarrow> jsval \<rightharpoonup> jsval"

datatype context_event = CreateComponent nat "nat option" | SetContext nat jsval jsval

fun context_step :: "contexts \<Rightarrow> context_event \<Rightarrow> contexts" where
  "context_step cs (CreateComponent c owner) =
     cs(c := (case owner of Some p \<Rightarrow> cs p | None \<Rightarrow> Map.empty))"
| "context_step cs (SetContext c k v) = cs(c := (cs c)(k \<mapsto> v))"

definition getContext :: "contexts \<Rightarrow> nat \<Rightarrow> jsval \<Rightarrow> jsval" where
  "getContext cs c k = (case cs c k of Some v \<Rightarrow> v | None \<Rightarrow> Undef)"

text \<open>
  The reference: going back from the last event, what the component set last; and from its
  creation on, what its owner had set by then.
\<close>

fun nearest_context :: "context_event list \<Rightarrow> nat \<Rightarrow> jsval \<Rightarrow> jsval" where
  "nearest_context [] c k = Undef"
| "nearest_context (SetContext d j v # es) c k =
     (if d = c \<and> j = k then v else nearest_context es c k)"
| "nearest_context (CreateComponent d owner # es) c k =
     (if d = c then (case owner of Some p \<Rightarrow> nearest_context es p k | None \<Rightarrow> Undef)
      else nearest_context es c k)"

text \<open>
  In whatever order components are created and contexts are set, a component reads the
  value that the nearest of itself and its owners set, as it was when the next component towards it
  was created; what a component sets later or beside it does not reach it.
\<close>

lemma context_of_nearest_owner:
  "getContext (run_events context_step (\<lambda>c. Map.empty) es) c k = nearest_context (rev es) c k"
proof (induction es arbitrary: c rule: rev_induct)
  case Nil
  then show ?case by (simp add: getContext_def)
next
  case (snoc e es)
  then show ?case by (cases e) (auto simp: getContext_def run_events_append split: option.splits)
qed

section \<open>Listeners\<close>

text \<open>
  The listeners of a component by the name of the event; a listener is a number, and what it does to
  the listeners when it is called is an argument.
\<close>

type_synonym listeners = "string \<Rightarrow> nat list"

definition on_event :: "string \<Rightarrow> nat \<Rightarrow> listeners \<Rightarrow> listeners" where
  "on_event name f ls = ls(name := ls name @ [f])"

definition off_event :: "string \<Rightarrow> nat \<Rightarrow> listeners \<Rightarrow> listeners" where
  "off_event name f ls = ls(name := remove1 f (ls name))"

text \<open>
  Dispatching calls the listeners of a copy of the list; a listener may cancel the event. The result
  is whether it was not cancelled, with the listeners that were called.
\<close>

fun call_listeners ::
  "(nat \<Rightarrow> listeners \<Rightarrow> listeners) \<Rightarrow> (nat \<Rightarrow> bool) \<Rightarrow> nat list \<Rightarrow> listeners \<times> bool \<times> nat list
     \<Rightarrow> listeners \<times> bool \<times> nat list" where
  "call_listeners act prevents [] s = s"
| "call_listeners act prevents (f # fs) (ls, cancelled, called) =
     call_listeners act prevents fs (act f ls, cancelled \<or> prevents f, called @ [f])"

definition dispatch_event ::
  "(nat \<Rightarrow> listeners \<Rightarrow> listeners) \<Rightarrow> (nat \<Rightarrow> bool) \<Rightarrow> bool \<Rightarrow> string \<Rightarrow> listeners \<Rightarrow> listeners \<times> bool \<times> nat list" where
  "dispatch_event act prevents cancelable name ls =
     (let (ls1, cancelled, called) =
            call_listeners act (\<lambda>f. cancelable \<and> prevents f) (ls name) (ls, False, [])
      in (ls1, \<not> cancelled, called))"

lemma call_listeners_called:
  "call_listeners act prevents fs (ls, b, called) = (ls1, b1, called1) \<Longrightarrow>
     called1 = called @ fs \<and> b1 = (b \<or> (\<exists>f \<in> set fs. prevents f))"
proof (induction fs arbitrary: ls b called)
  case (Cons f fs)
  from Cons.IH [of "act f ls" "b \<or> prevents f" "called @ [f]"] Cons.prems show ?case by auto
qed simp

text \<open>Whatever listeners do to the list, those of the moment are called, in order and once each.\<close>

lemma dispatch_calls_snapshot:
  "snd (dispatch_event act prevents cancelable name ls) =
     (\<not> (cancelable \<and> (\<exists>f \<in> set (ls name). prevents f)), ls name)"
proof -
  obtain ls1 b called where c:
    "call_listeners act (\<lambda>f. cancelable \<and> prevents f) (ls name) (ls, False, []) = (ls1, b, called)"
    by (metis prod_cases3)
  from call_listeners_called [OF c] c show ?thesis by (auto simp: dispatch_event_def)
qed

lemma off_undoes_on: "f \<notin> set (ls name) \<Longrightarrow> off_event name f (on_event name f ls) = ls"
  by (simp add: off_event_def on_event_def remove1_append)

section \<open>Masks of slots\<close>

text \<open>
  A mask is a number or an array of numbers; the mark of variable \<open>i\<close> is bit \<open>i % 31\<close> of
  entry \<open>i / 31\<close>, as \<open>Tv\<close> sets it, and a number is its only entry.
\<close>

datatype slot_mask = MaskNumber "32 word" | MaskArray "32 word list"

fun mask_words :: "slot_mask \<Rightarrow> 32 word list" where
  "mask_words (MaskNumber w) = [w]"
| "mask_words (MaskArray ws) = ws"

definition word_at :: "32 word list \<Rightarrow> nat \<Rightarrow> 32 word" where
  "word_at ws j = (if j < length ws then ws ! j else 0)"

definition marks :: "slot_mask \<Rightarrow> nat \<Rightarrow> bool" where
  "marks m i \<longleftrightarrow> bit (word_at (mask_words m) (i div 31)) (i mod 31)"

text \<open>
  The union of the marks of the owner and of the values the slot is given. An array has no numeric
  value unless it has one entry, and a number has no length.
\<close>

fun merge_marks :: "slot_mask \<Rightarrow> slot_mask \<Rightarrow> slot_mask" where
  "merge_marks (MaskArray d) (MaskArray l) =
     MaskArray (map (\<lambda>j. word_at d j OR word_at l j) [0..<max (length d) (length l)])"
| "merge_marks (MaskNumber d) (MaskArray l) = MaskArray []"
| "merge_marks (MaskNumber d) (MaskNumber l) = MaskNumber (d OR l)"
| "merge_marks (MaskArray d) (MaskNumber l) = MaskNumber ((case d of [w] \<Rightarrow> w | _ \<Rightarrow> 0) OR l)"

definition get_slot_changes :: "slot_mask option \<Rightarrow> slot_mask option \<Rightarrow> slot_mask option" where
  "get_slot_changes lets scope_dirty =
     (case lets of
        None \<Rightarrow> scope_dirty
      | Some l \<Rightarrow> (case scope_dirty of None \<Rightarrow> Some l | Some d \<Rightarrow> Some (merge_marks d l)))"

text \<open>All variables of an owner with \<open>n\<close> of them; the loop runs while \<open>i < n / 32\<close>.\<close>

definition get_all_dirty_from_scope :: "nat \<Rightarrow> slot_mask" where
  "get_all_dirty_from_scope n =
     (if 32 < n then MaskArray (replicate ((n + 31) div 32) (- 1)) else MaskNumber (- 1))"

text \<open>A slot is updated unless there is nothing to tell it; an array counts even when it is empty.\<close>

definition slot_updated :: "bool \<Rightarrow> slot_mask option \<Rightarrow> slot_mask option \<Rightarrow> nat \<Rightarrow> slot_mask option" where
  "slot_updated current lets scope_dirty n =
     (case (if current then get_slot_changes lets scope_dirty else Some (get_all_dirty_from_scope n)) of
        Some (MaskNumber w) \<Rightarrow> if w = 0 then None else Some (MaskNumber w)
      | Some (MaskArray ws) \<Rightarrow> Some (MaskArray ws)
      | None \<Rightarrow> None)"

fun same_layout :: "slot_mask \<Rightarrow> slot_mask \<Rightarrow> bool" where
  "same_layout (MaskArray _) (MaskArray _) = True"
| "same_layout (MaskNumber _) (MaskNumber _) = True"
| "same_layout _ _ = False"

lemma marks_merge:
  assumes "same_layout d l"
  shows "marks (merge_marks d l) i \<longleftrightarrow> marks d i \<or> marks l i"
  using assms by (cases d; cases l) (auto simp: marks_def word_at_def bit_or_iff)

lemma bit_mod_31: "i mod 31 < LENGTH(32)"
proof -
  have "i mod 31 < 31" by simp
  then show ?thesis by simp
qed

lemma marks_all:
  "marks (get_all_dirty_from_scope n) i \<longleftrightarrow> i < 31 * (if 32 < n then (n + 31) div 32 else 1)"
proof -
  have "bit (word_at (replicate k (- 1)) (i div 31)) (i mod 31) \<longleftrightarrow> i < 31 * k" for k
    using bit_mod_31 [of i] by (auto simp: word_at_def bit_minus_1_iff less_mult_imp_div_less)
  from this [of 1] this show ?thesis by (simp add: marks_def get_all_dirty_from_scope_def)
qed

text \<open>
  Claim C22: the mask a slot gets marks a variable exactly if the owner marked it or a value given to
  the slot changed, as long as both masks have the same form. The mask for a slot that is not on the
  page yet means every variable of the owner, but it has an entry for every 32 variables while an
  entry holds 31: it marks all of them exactly if there are at most 31 variables for each entry,
  so that with 32 or with 63 variables the last is left out.
\<close>

theorem slot_masks_cover:
  "(same_layout d l \<longrightarrow>
      (\<exists>m. get_slot_changes (Some l) (Some d) = Some m \<and> (\<forall>i. marks m i \<longleftrightarrow> marks d i \<or> marks l i))) \<and>
   ((\<forall>i < n. marks (get_all_dirty_from_scope n) i) \<longleftrightarrow> n \<le> 31 * (if 32 < n then (n + 31) div 32 else 1)) \<and>
   \<not> marks (get_all_dirty_from_scope 32) 31 \<and> \<not> marks (get_all_dirty_from_scope 63) 62"
proof -
  have "(\<forall>i < n. i < k) \<longleftrightarrow> n \<le> k" for k :: nat
  proof
    assume "\<forall>i < n. i < k"
    then have "\<not> k < n" by blast
    then show "n \<le> k" by simp
  qed simp
  then show ?thesis by (simp add: get_slot_changes_def marks_merge marks_all)
qed

theorem slot_masks_cover_witness:
  "marks (the (get_slot_changes (Some (MaskNumber 4)) (Some (MaskNumber 1)))) 2"
proof -
  have "marks (MaskNumber 4) 2" by (simp add: marks_def word_at_def bit_iff_odd)
  moreover have "same_layout (MaskNumber 1) (MaskNumber 4)" by simp
  ultimately show ?thesis using slot_masks_cover [of "MaskNumber 1" "MaskNumber 4" 0] by force
qed

end
