(* ===== verification/Route_Pages.thy ===== *)
theory Route_Pages
  imports Router Svelte_Spread
begin

text \<open>
  The components that show the routes (\<open>bundle.js\<close> lines 15845--16069) and the blocks of the runtime
  that wait for a promise (lines 541--596): a route shows its component, or its slot, exactly while it
  is the active route of the router; a component that is loaded on demand is shown when its promise
  settles, and a promise that was replaced in the meantime changes nothing.

  A component class and a function that loads one are numbers; which of them print as a class and
  what a loader returns when it is called are arguments. No block of a route waits for an animation
  when it is removed: the animations of the runtime run only for the block that is itself removed.
\<close>

declare js_Cons [simp del]

section \<open>Components and blocks\<close>

text \<open>What the property \<open>component\<close> of a route can hold; a module has a component as its default.\<close>

datatype js_component = NoComponent | Callable nat | Module nat | Promise nat

text \<open>\<open>value?.default || value\<close>.\<close>

fun component_class :: "js_component \<Rightarrow> nat option" where
  "component_class NoComponent = None"
| "component_class (Callable c) = Some c"
| "component_class (Module c) = Some c"
| "component_class (Promise p) = None"

record page_instance =
  inst_key :: nat
  inst_class :: nat
  inst_props :: props

datatype await_branch = PendingBranch | ThenBranch | CatchBranch

datatype await_block = EmptyBlock | ComponentBlock "props \<times> props" "page_instance option"

text \<open>
  The state of an await block: the value it waits for, the token of the last change, the branch shown,
  and the blocks on the page with their branches, the current one first.
\<close>

record await_info =
  awaited :: js_component
  token :: nat
  branch :: "await_branch option"
  resolved :: js_component
  blocks :: "(await_branch \<times> await_block) list"

datatype route_content = SlotContent | AwaitContent await_info

record outlet =
  route_id :: nat
  component_prop :: "nat option"
  rest_props :: props
  component :: js_component
  component_marked :: bool                     \<comment> \<open>bit 0 of the marks\<close>
  route_params :: props
  route_props :: props
  content :: "route_content option"
  waiting :: "(nat \<times> nat) list"               \<comment> \<open>tokens and the promises they react_promise to\<close>
  next_token :: nat
  next_inst :: nat
  load_calls :: nat
  scrolled :: nat
  rejections :: nat

text \<open>\<open>re\<close>: the properties whose name does not start with a dollar sign; \<open>I\<close>: assigning properties.\<close>

definition exclude_internal_props :: "props \<Rightarrow> props" where
  "exclude_internal_props ps = filter (\<lambda>(k, v). k = [] \<or> hd k \<noteq> 0x24) ps"

definition assign_props :: "props \<Rightarrow> props \<Rightarrow> props" where
  "assign_props t e = foldl (\<lambda>t (k, v). AList.update k v t) t e"

section \<open>The blocks of a route\<close>

definition create_then :: "js_component \<Rightarrow> outlet \<Rightarrow> await_block \<times> outlet" where
  "create_then v ol =
     (case component_class v of
        None \<Rightarrow> (ComponentBlock (route_params ol, route_props ol) None, ol)
      | Some c \<Rightarrow>
          (ComponentBlock (route_params ol, route_props ol)
             (Some \<lparr>inst_key = next_inst ol, inst_class = c,
                    inst_props = assign_props (assign_props [] (route_params ol)) (route_props ol)\<rparr>),
           ol\<lparr>next_inst := Suc (next_inst ol)\<rparr>))"

text \<open>The blocks for a pending and for a rejected promise are empty.\<close>

definition create_block :: "await_branch \<Rightarrow> js_component \<Rightarrow> outlet \<Rightarrow> await_block \<times> outlet" where
  "create_block b v ol = (if b = ThenBranch then create_then v ol else (EmptyBlock, ol))"

text \<open>
  The update of the block: a new class gets a new instance, otherwise the instance gets the
  properties that changed. The update of a route renews the parameters and the properties before.
\<close>

definition patch_then ::
  "js_component \<Rightarrow> props \<times> props \<Rightarrow> page_instance option \<Rightarrow> outlet \<Rightarrow> await_block \<times> outlet" where
  "patch_then v lv inst ol =
     (let new = (route_params ol, route_props ol);
          upd = fst (get_spread_update [(fst lv, Some (fst new)), (snd lv, Some (snd new))])
      in if component_marked ol \<and> component_class v \<noteq> map_option inst_class inst
         then (case component_class v of
                 None \<Rightarrow> (ComponentBlock lv None, ol)
               | Some c \<Rightarrow>
                   (ComponentBlock new (Some \<lparr>inst_key = next_inst ol, inst_class = c, inst_props = upd\<rparr>),
                    ol\<lparr>next_inst := Suc (next_inst ol)\<rparr>))
         else (case inst of
                 None \<Rightarrow> (ComponentBlock lv None, ol)
               | Some i \<Rightarrow>
                   (ComponentBlock new (Some (i\<lparr>inst_props := assign_props (inst_props i) upd\<rparr>)), ol)))"

fun patch_block :: "js_component \<Rightarrow> await_block \<Rightarrow> outlet \<Rightarrow> await_block \<times> outlet" where
  "patch_block v EmptyBlock ol = (EmptyBlock, ol)"
| "patch_block v (ComponentBlock lv inst) ol = patch_then v lv inst ol"

section \<open>Waiting for a promise\<close>

text \<open>Showing a branch, unless the token is no longer the current one; other branches are removed.\<close>

definition show_branch ::
  "nat \<Rightarrow> await_branch \<Rightarrow> js_component \<Rightarrow> await_info \<times> outlet \<Rightarrow> await_info \<times> outlet" where
  "show_branch tok b v s =
     (let e = fst s in
      if token e \<noteq> tok then s
      else (let (c, ol) = create_block b v (snd s)
            in (e\<lparr>resolved := v, branch := Some b, blocks := (b, c) # filter (\<lambda>(m, d). m = b) (blocks e)\<rparr>, ol)))"

text \<open>\<open>wa\<close>: the first component of the result says whether a branch was shown.\<close>

definition handle_promise ::
  "js_component \<Rightarrow> await_info \<times> outlet \<Rightarrow> bool \<times> await_info \<times> outlet" where
  "handle_promise v s =
     (let ol = snd s; tok = next_token ol; e = (fst s)\<lparr>token := tok\<rparr>;
          ol1 = ol\<lparr>next_token := Suc tok\<rparr>
      in case v of
           Promise p \<Rightarrow>
             (let ol2 = ol1\<lparr>waiting := waiting ol1 @ [(tok, p)]\<rparr>
              in if branch e \<noteq> Some PendingBranch
                 then (True, show_branch tok PendingBranch NoComponent (e, ol2)) else (False, e, ol2))
         | _ \<Rightarrow>
             if branch e \<noteq> Some ThenBranch then (True, show_branch tok ThenBranch v (e, ol1))
             else (False, e\<lparr>resolved := v\<rparr>, ol1))"

text \<open>\<open>Av\<close>: the block of the current branch is updated.\<close>

definition patch_branch :: "await_info \<times> outlet \<Rightarrow> await_info \<times> outlet" where
  "patch_branch s =
     (let e = fst s in
      case blocks e of
        [] \<Rightarrow> s
      | (b, c) # bs \<Rightarrow>
          (let (d, ol) = patch_block (if branch e = Some ThenBranch then resolved e else NoComponent) c (snd s)
           in (e\<lparr>blocks := (b, d) # bs\<rparr>, ol)))"

definition patch_await :: "await_info \<times> outlet \<Rightarrow> await_info \<times> outlet" where
  "patch_await s =
     (let e = fst s; ol = snd s; v = component ol in
      if component_marked ol \<and> awaited e \<noteq> v
      then (let (switched, t) = handle_promise v (e\<lparr>awaited := v\<rparr>, ol)
            in if switched then t else patch_branch t)
      else patch_branch s)"

section \<open>The content of a route\<close>

definition with_await :: "await_info \<times> outlet \<Rightarrow> outlet" where
  "with_await s = (snd s)\<lparr>content := Some (AwaitContent (fst s))\<rparr>"

definition create_content :: "outlet \<Rightarrow> outlet" where
  "create_content ol =
     (if component ol = NoComponent then ol\<lparr>content := Some SlotContent\<rparr>
      else with_await (snd (handle_promise (component ol)
             (\<lparr>awaited = component ol, token = 0, branch = None, resolved = NoComponent, blocks = []\<rparr>, ol))))"

definition patch_content :: "route_content \<Rightarrow> outlet \<Rightarrow> outlet" where
  "patch_content ct ol =
     (case ct of
        SlotContent \<Rightarrow> if component ol = NoComponent then ol else create_content ol
      | AwaitContent e \<Rightarrow> if component ol = NoComponent then create_content ol else with_await (patch_await (e, ol)))"

definition is_active :: "route_match option \<Rightarrow> outlet \<Rightarrow> bool" where
  "is_active a ol = (case a of None \<Rightarrow> False | Some m \<Rightarrow> route_key (route m) = route_id ol)"

definition patch_route :: "route_match option \<Rightarrow> outlet \<Rightarrow> outlet" where
  "patch_route a ol =
     (if is_active a ol
      then (case content ol of None \<Rightarrow> create_content ol | Some ct \<Rightarrow> patch_content ct ol)
      else ol\<lparr>content := None\<rparr>)\<lparr>component_marked := False\<rparr>"

text \<open>Assigning the component marks it: a function or an object counts as changed even when it is the same.\<close>

definition set_component :: "js_component \<Rightarrow> outlet \<Rightarrow> outlet" where
  "set_component v ol =
     ol\<lparr>component := v,
        component_marked := component_marked ol \<or> v \<noteq> component ol \<or> v \<noteq> NoComponent\<rparr>"

text \<open>The reactive statement of a route.\<close>

definition update_route ::
  "(nat \<Rightarrow> bool) \<Rightarrow> (nat \<Rightarrow> nat \<Rightarrow> js_component) \<Rightarrow> route_match option \<Rightarrow> outlet \<Rightarrow> outlet" where
  "update_route is_class load a ol =
     (case a of
        None \<Rightarrow> ol
      | Some m \<Rightarrow>
          if route_key (route m) \<noteq> route_id ol then ol
          else (let ol1 = ol\<lparr>route_params := map (\<lambda>(k, v). (k, Str v)) (params m),
                             route_props := rest_props ol, scrolled := Suc (scrolled ol)\<rparr>
                in case component_prop ol of
                     None \<Rightarrow> ol1
                   | Some f \<Rightarrow>
                       if is_class f then set_component (Callable f) ol1
                       else set_component (load f (load_calls ol)) (ol1\<lparr>load_calls := Suc (load_calls ol)\<rparr>)))"

definition init_outlet :: "nat \<Rightarrow> nat option \<Rightarrow> props \<Rightarrow> outlet" where
  "init_outlet k c attrs =
     \<lparr>route_id = k, component_prop = c, rest_props = exclude_internal_props attrs,
      component = (case c of None \<Rightarrow> NoComponent | Some f \<Rightarrow> Callable f), component_marked = False,
      route_params = [], route_props = [], content = None, waiting = [], next_token = 0, next_inst = 0,
      load_calls = 0, scrolled = 0, rejections = 0\<rparr>"

text \<open>
  The reactions of a promise that settles; a rejection is thrown again, since the block has no branch
  of the application for it.
\<close>

definition react_promise :: "unit + js_component \<Rightarrow> nat \<Rightarrow> outlet \<Rightarrow> outlet" where
  "react_promise r tok ol =
     (let ol1 =
        (case content ol of
           Some (AwaitContent e) \<Rightarrow>
             with_await (case r of
                 Inl _ \<Rightarrow> show_branch tok CatchBranch NoComponent (e, ol)
               | Inr v \<Rightarrow> show_branch tok ThenBranch v (e, ol))
         | _ \<Rightarrow> ol)
      in case r of Inl _ \<Rightarrow> ol1\<lparr>rejections := Suc (rejections ol1)\<rparr> | Inr v \<Rightarrow> ol1)"

definition settle_promise :: "nat \<Rightarrow> unit + js_component \<Rightarrow> outlet \<Rightarrow> outlet" where
  "settle_promise p r ol =
     foldl (\<lambda>ol (tok, q). react_promise r tok ol) (ol\<lparr>waiting := filter (\<lambda>(tok, q). q \<noteq> p) (waiting ol)\<rparr>)
       (filter (\<lambda>(tok, q). q = p) (waiting ol))"

section \<open>The base of routers inside a route\<close>

text \<open>\<open>/\*.*$/\<close>: the first asterisk after which no line ends, with all that follows it.\<close>

fun strip_splat :: "jsstr \<Rightarrow> jsstr" where
  "strip_splat [] = []"
| "strip_splat (c # s) =
     (if c = 0x2A \<and> set s \<inter> {0x0A, 0x0D, 0x2028, 0x2029} = {} then [] else c # strip_splat s)"

text \<open>The path and the address that a router inside the active route starts from.\<close>

definition routerBase :: "jsstr \<times> jsstr \<Rightarrow> route_match option \<Rightarrow> jsstr \<times> jsstr" where
  "routerBase bs a =
     (case a of
        None \<Rightarrow> bs
      | Some m \<Rightarrow> (if is_default (route m) then fst bs else strip_splat (path (route m)), uri m))"

lemma strip_splat_path: "0x2A \<notin> set p \<Longrightarrow> strip_splat p = p"
  by (induction p) auto

section \<open>The router with its routes\<close>

record routed_page =
  nav :: router
  outlets :: "outlet list"

definition outlet_flush ::
  "(nat \<Rightarrow> bool) \<Rightarrow> (nat \<Rightarrow> nat \<Rightarrow> js_component) \<Rightarrow> route_match option \<Rightarrow> outlet \<Rightarrow> outlet" where
  "outlet_flush is_class load a ol = patch_route a (update_route is_class load a ol)"

text \<open>
  The update of the router publishes the active route; the routes hear of it unless there was
  none and there still is none.
\<close>

definition refresh_routes ::
  "(nat \<Rightarrow> bool) \<Rightarrow> (nat \<Rightarrow> nat \<Rightarrow> js_component) \<Rightarrow> routed_page \<Rightarrow> routed_page" where
  "refresh_routes is_class load s =
     (let r = router_update (nav s) in
      s\<lparr>nav := r,
        outlets := (if update_failed r \<or> active (nav s) = None \<and> active r = None then outlets s
                    else map (outlet_flush is_class load (active r)) (outlets s))\<rparr>)"

text \<open>Several routes may be created before the router is updated.\<close>

type_synonym route_element = "jsstr \<times> nat option \<times> props"

definition mount_route :: "routed_page \<Rightarrow> route_element \<Rightarrow> routed_page" where
  "mount_route s el =
     (case el of (p, c, attrs) \<Rightarrow>
        s\<lparr>nav := registerRoute p (nav s), outlets := outlets s @ [init_outlet (created (nav s)) c attrs]\<rparr>)"

datatype routed_event =
    MountRoutes "route_element list"
  | UnmountRoute nat
  | Goto bool jsstr
  | GoBack nat
  | Rebased jsstr
  | Settled nat "unit + js_component"

fun routed_step ::
  "(nat \<Rightarrow> bool) \<Rightarrow> (nat \<Rightarrow> nat \<Rightarrow> js_component) \<Rightarrow> routed_page \<Rightarrow> routed_event \<Rightarrow> routed_page" where
  "routed_step is_class load s (MountRoutes els) = refresh_routes is_class load (foldl mount_route s els)"
| "routed_step is_class load s (UnmountRoute k) =
     refresh_routes is_class load
       (s\<lparr>nav := unregisterRoute k (nav s), outlets := filter (\<lambda>ol. route_id ol \<noteq> k) (outlets s)\<rparr>)"
| "routed_step is_class load s (Goto rep to) = refresh_routes is_class load (s\<lparr>nav := navigate rep to (nav s)\<rparr>)"
| "routed_step is_class load s (GoBack i) =
     (if i < length (entries (history (nav s)))
      then refresh_routes is_class load (s\<lparr>nav := popstate i (nav s)\<rparr>) else s)"
| "routed_step is_class load s (Rebased b) = refresh_routes is_class load (s\<lparr>nav := rebase b (nav s)\<rparr>)"
| "routed_step is_class load s (Settled p r) = s\<lparr>outlets := map (settle_promise p r) (outlets s)\<rparr>"

definition routed_init :: "jsstr \<Rightarrow> jsstr \<Rightarrow> routed_page" where
  "routed_init b u = \<lparr>nav = router_init None b (opened_on u), outlets = []\<rparr>"

end
