(* ===== verification/Route_Pages_Correct.thy ===== *)
theory Route_Pages_Correct
  imports Route_Pages
begin

text \<open>
  What the routes of a router show: an invariant of the await block of a route, of a route and of the
  page is kept by every event, and the theorem reads off it that the page is that of the location.
\<close>

declare js_Cons [simp del]

section \<open>Properties of a page\<close>

definition prop_levels :: "props \<times> props \<Rightarrow> bool" where
  "prop_levels lv \<longleftrightarrow> distinct (map fst (fst lv)) \<and> distinct (map fst (snd lv))"

text \<open>The attributes of the route win over the parameters of the location.\<close>

definition page_prop :: "props \<times> props \<Rightarrow> jsstr \<Rightarrow> jsval" where
  "page_prop lv k =
     (case map_of (snd lv) k of
        Some v \<Rightarrow> v
      | None \<Rightarrow> (case map_of (fst lv) k of Some v \<Rightarrow> v | None \<Rightarrow> Undef))"

definition instance_ok :: "props \<times> props \<Rightarrow> page_instance \<Rightarrow> bool" where
  "instance_ok lv i \<longleftrightarrow> (\<forall>k. plain_key k \<longrightarrow> get_prop (inst_props i) k = page_prop lv k)"

lemma get_prop_plain:
  "plain_key k \<Longrightarrow> get_prop m k = (case map_of m k of Some v \<Rightarrow> v | None \<Rightarrow> Undef)"
  by (simp add: get_prop_def plain_key_def split: option.splits)

lemma get_assign_props:
  "distinct (map fst e) \<Longrightarrow>
     get_prop (assign_props t e) k = (case map_of e k of Some v \<Rightarrow> v | None \<Rightarrow> get_prop t k)"
  unfolding assign_props_def
proof (induction e arbitrary: t)
  case (Cons p e)
  obtain k' v where p: "p = (k', v)" by (cases p)
  have "map_of e k' = None" using Cons.prems by (simp add: p map_of_eq_None_iff)
  with Cons show ?case by (cases "k = k'") (auto simp: p split: option.splits)
qed simp

lemma created_props:
  "prop_levels lv \<Longrightarrow> plain_key k \<Longrightarrow>
     get_prop (assign_props (assign_props [] (fst lv)) (snd lv)) k = page_prop lv k"
  by (cases "map_of (snd lv) k"; cases "map_of (fst lv) k")
    (simp_all add: get_assign_props prop_levels_def page_prop_def get_prop_plain [of k "[]"])

definition spread_props :: "props \<times> props \<Rightarrow> props \<times> props \<Rightarrow> props" where
  "spread_props old new = fst (get_spread_update [(fst old, Some (fst new)), (snd old, Some (snd new))])"

lemma spread_props_of:
  assumes "prop_levels old" and "prop_levels new" and "plain_key k"
  shows "map_of (spread_props old new) k =
    (if map_of (fst new) k \<noteq> None \<or> map_of (snd new) k \<noteq> None then Some (page_prop new k)
     else if map_of (fst old) k \<noteq> None \<or> map_of (snd old) k \<noteq> None then Some Undef else None)"
proof -
  let ?l = "[(fst old, Some (fst new)), (snd old, Some (snd new))]"
  have "list_all level_ok ?l" using assms by (simp add: level_ok_def new_level_def prop_levels_def)
  from spread_computed [OF this assms(3)] show ?thesis
    by (auto simp: spread_props_def new_level_def dropped_def page_prop_def split: option.splits)
qed

lemma spread_props_new:
  "prop_levels old \<Longrightarrow> prop_levels new \<Longrightarrow> plain_key k \<Longrightarrow>
     get_prop (spread_props old new) k = page_prop new k"
  by (simp add: get_prop_plain spread_props_of) (auto simp: page_prop_def)

lemma spread_props_set:
  assumes "prop_levels old" and "prop_levels new" and "plain_key k" and "get_prop m k = page_prop old k"
  shows "get_prop (assign_props m (spread_props old new)) k = page_prop new k"
proof -
  have "distinct (map fst (spread_props old new))"
    unfolding spread_props_def by (rule spread_keys_distinct)
  from get_assign_props [OF this, of m k] assms show ?thesis
    by (auto simp: spread_props_of page_prop_def)
qed

section \<open>What a block shows\<close>

text \<open>A block of a branch that is in order, and one that shows a value with given properties.\<close>

fun block_ok :: "await_branch \<Rightarrow> await_block \<Rightarrow> bool" where
  "block_ok b (ComponentBlock lv inst) \<longleftrightarrow>
     b = ThenBranch \<and> prop_levels lv \<and> (\<forall>i. inst = Some i \<longrightarrow> instance_ok lv i)"
| "block_ok b EmptyBlock \<longleftrightarrow> b \<noteq> ThenBranch"

fun shows_value :: "js_component \<Rightarrow> props \<times> props \<Rightarrow> await_block \<Rightarrow> bool" where
  "shows_value v cur (ComponentBlock lv inst) \<longleftrightarrow>
     map_option inst_class inst = component_class v \<and> prop_levels lv \<and>
     (\<forall>i. inst = Some i \<longrightarrow> lv = cur \<and> instance_ok cur i)"
| "shows_value v cur EmptyBlock \<longleftrightarrow> False"

lemma shows_block_ok: "shows_value v cur c \<Longrightarrow> block_ok ThenBranch c"
  by (cases c) auto

definition cur_props :: "outlet \<Rightarrow> props \<times> props" where
  "cur_props ol = (route_params ol, route_props ol)"

lemma create_then_shows:
  "prop_levels (cur_props ol) \<Longrightarrow> shows_value v (cur_props ol) (fst (create_then v ol))"
  using created_props [of "cur_props ol"]
  by (auto simp: create_then_def cur_props_def instance_ok_def split: option.splits)

lemma patch_then_shows:
  assumes "prop_levels (cur_props ol)" and "block_ok ThenBranch (ComponentBlock lv inst)"
    and "component_marked ol \<or> component_class v = map_option inst_class inst"
  shows "shows_value v (cur_props ol) (fst (patch_then v lv inst ol))"
proof -
  have lv: "prop_levels lv" using assms(2) by simp
  have new: "instance_ok (cur_props ol) \<lparr>inst_key = k, inst_class = c, inst_props = spread_props lv (cur_props ol)\<rparr>"
    for k c using spread_props_new [OF lv assms(1)] by (simp add: instance_ok_def)
  have upd: "instance_ok (cur_props ol) (i\<lparr>inst_props := assign_props (inst_props i) (spread_props lv (cur_props ol))\<rparr>)"
    if "inst = Some i" for i
    using spread_props_set [OF lv assms(1)] assms(2) that by (simp add: instance_ok_def)
  show ?thesis
    using assms new upd lv
    by (auto simp: patch_then_def Let_def spread_props_def cur_props_def split: option.splits)
qed

section \<open>What an await block shows\<close>

text \<open>
  \<open>R\<close> holds how promises settled, \<open>v\<close> is the value the block is given, \<open>ws\<close> are the reactions that
  have not run yet: a pending promise shows nothing, one that settled shows its component or,
  rejected, nothing, and any other value is shown at once.
\<close>

type_synonym settlements = "(nat \<times> (unit + js_component)) set"

definition branch_ok ::
  "settlements \<Rightarrow> js_component \<Rightarrow> props \<times> props \<Rightarrow> (nat \<times> nat) list \<Rightarrow> await_info \<Rightarrow> await_branch \<Rightarrow> await_block \<Rightarrow> bool" where
  "branch_ok R v cur ws e b c \<longleftrightarrow>
     (case b of
        PendingBranch \<Rightarrow> \<exists>p. v = Promise p \<and> (token e, p) \<in> set ws
      | CatchBranch \<Rightarrow> (\<exists>p. v = Promise p \<and> (p, Inl ()) \<in> R) \<and> token e \<notin> fst ` set ws
      | ThenBranch \<Rightarrow>
          (case v of Promise p \<Rightarrow> (p, Inr (resolved e)) \<in> R | _ \<Rightarrow> resolved e = v) \<and>
          shows_value (resolved e) cur c \<and> token e \<notin> fst ` set ws)"

definition await_ok ::
  "settlements \<Rightarrow> js_component \<Rightarrow> props \<times> props \<Rightarrow> (nat \<times> nat) list \<Rightarrow> await_info \<Rightarrow> bool" where
  "await_ok R v cur ws e \<longleftrightarrow>
     awaited e = v \<and> v \<noteq> NoComponent \<and>
     (\<exists>b c. blocks e = [(b, c)] \<and> branch e = Some b \<and> block_ok b c \<and> branch_ok R v cur ws e b c)"

definition one_block :: "await_info \<Rightarrow> bool" where
  "one_block e \<longleftrightarrow>
     blocks e = [] \<and> branch e = None \<or>
     (\<exists>b c. blocks e = [(b, c)] \<and> branch e = Some b \<and> block_ok b c)"

definition tokens_ok :: "outlet \<Rightarrow> bool" where
  "tokens_ok ol \<longleftrightarrow> distinct (map fst (waiting ol)) \<and> (\<forall>t \<in> fst ` set (waiting ol). t < next_token ol)"

text \<open>What the blocks leave as it is.\<close>

definition route_state where
  "route_state ol =
     (route_id ol, component_prop ol, rest_props ol, component ol, component_marked ol,
      cur_props ol, load_calls ol, content ol)"

definition reactions where
  "reactions ol = (waiting ol, next_token ol)"

lemma route_state_eqD:
  "route_state a = route_state b \<Longrightarrow>
     route_id a = route_id b \<and> component_prop a = component_prop b \<and> rest_props a = rest_props b \<and>
     component a = component b \<and> component_marked a = component_marked b \<and> cur_props a = cur_props b \<and>
     load_calls a = load_calls b \<and> content a = content b"
  by (simp add: route_state_def)

lemma reactions_eqD: "reactions a = reactions b \<Longrightarrow> waiting a = waiting b \<and> next_token a = next_token b"
  by (simp add: reactions_def)

lemma create_block_state [simp]:
  "route_state (snd (create_block b v ol)) = route_state ol"
  "reactions (snd (create_block b v ol)) = reactions ol"
  by (auto simp: create_block_def create_then_def route_state_def reactions_def cur_props_def
      split: option.splits)

lemma patch_block_state [simp]:
  "route_state (snd (patch_block v c ol)) = route_state ol"
  "reactions (snd (patch_block v c ol)) = reactions ol"
  by (cases c; auto simp: patch_then_def route_state_def reactions_def cur_props_def Let_def
      split: option.splits)+

lemma show_branch_state [simp]:
  "route_state (snd (show_branch tok b v s)) = route_state (snd s)"
  "reactions (snd (show_branch tok b v s)) = reactions (snd s)"
  by (simp_all add: show_branch_def Let_def case_prod_unfold)

lemma patch_branch_state [simp]:
  "route_state (snd (patch_branch s)) = route_state (snd s)"
  "reactions (snd (patch_branch s)) = reactions (snd s)"
  by (cases "blocks (fst s)"; simp add: patch_branch_def Let_def case_prod_unfold)+

lemma handle_promise_state [simp]:
  "route_state (snd (snd (handle_promise v s))) = route_state (snd s)"
proof -
  have "route_state (ol\<lparr>next_token := n\<rparr>) = route_state ol"
    "route_state (ol\<lparr>waiting := w\<rparr>) = route_state ol" for ol n w
    by (simp_all add: route_state_def cur_props_def)
  then show ?thesis by (simp add: handle_promise_def Let_def split: js_component.splits)
qed

lemma patch_await_state [simp]: "route_state (snd (patch_await s)) = route_state (snd s)"
  by (simp add: patch_await_def Let_def case_prod_unfold)

lemma created_block_ok:
  "prop_levels (cur_props ol) \<Longrightarrow> block_ok b (fst (create_block b v ol))"
  using shows_block_ok [OF create_then_shows] by (simp add: create_block_def)

lemma show_branch_blocks:
  assumes "one_block e" and "branch e \<noteq> Some b" and "token e = tok"
  shows "fst (show_branch tok b v (e, ol)) =
    e\<lparr>resolved := v, branch := Some b, blocks := [(b, fst (create_block b v ol))]\<rparr>"
  using assms by (auto simp: show_branch_def one_block_def Let_def split: prod.splits)

lemma fresh_token: "tokens_ok ol \<Longrightarrow> next_token ol \<notin> fst ` set (waiting ol)"
  by (auto simp: tokens_ok_def)

lemma tokens_reactions: "reactions a = reactions b \<Longrightarrow> tokens_ok a = tokens_ok b"
  by (simp add: reactions_def tokens_ok_def)

lemma tokens_next: "tokens_ok ol \<Longrightarrow> tokens_ok (ol\<lparr>next_token := Suc (next_token ol)\<rparr>)"
  by (auto simp: tokens_ok_def)

lemma tokens_wait:
  "tokens_ok ol \<Longrightarrow> tokens_ok (ol\<lparr>next_token := Suc (next_token ol), waiting := waiting ol @ [(next_token ol, p)]\<rparr>)"
  using fresh_token [of ol] by (auto simp: tokens_ok_def less_Suc_eq)

lemma cur_props_fields [simp]:
  "cur_props (ol\<lparr>next_token := n\<rparr>) = cur_props ol" "cur_props (ol\<lparr>waiting := w\<rparr>) = cur_props ol"
  by (simp_all add: cur_props_def)

lemma one_block_token [simp]: "one_block (e\<lparr>token := t\<rparr>) = one_block e"
  by (simp add: one_block_def)

text \<open>A promise: the pending branch is shown, or already was.\<close>

lemma handle_pending_ok:
  assumes "tokens_ok ol" and "prop_levels (cur_props ol)" and "one_block e" and "awaited e = Promise p"
    and h: "handle_promise (Promise p) (e, ol) = (sw, t)"
  shows "await_ok R (Promise p) cur (waiting (snd t)) (fst t) \<and> tokens_ok (snd t) \<and>
    (\<not> sw \<longrightarrow> patch_branch t = t)"
proof -
  define ol2 where "ol2 = ol\<lparr>next_token := Suc (next_token ol), waiting := waiting ol @ [(next_token ol, p)]\<rparr>"
  define e1 where "e1 = e\<lparr>token := next_token ol\<rparr>"
  have tok: "tokens_ok ol2" unfolding ol2_def by (rule tokens_wait [OF assms(1)])
  have one: "one_block e1" using assms(3) by (simp add: e1_def)
  show ?thesis
  proof (cases "branch e = Some PendingBranch")
    case True
    then have t: "sw = False" "t = (e1, ol2)" using h by (auto simp: handle_promise_def Let_def e1_def ol2_def)
    from True one obtain c where c: "blocks e1 = [(PendingBranch, c)]" "block_ok PendingBranch c"
      by (auto simp: one_block_def e1_def)
    then have "c = EmptyBlock" by (cases c) auto
    with c True assms(4) tok show ?thesis
      by (auto simp: t await_ok_def branch_ok_def patch_branch_def e1_def ol2_def)
  next
    case False
    then have t: "sw" "t = show_branch (next_token ol) PendingBranch NoComponent (e1, ol2)"
      using h by (auto simp: handle_promise_def Let_def e1_def ol2_def)
    have f: "fst t = e1\<lparr>resolved := NoComponent, branch := Some PendingBranch, blocks := [(PendingBranch, EmptyBlock)]\<rparr>"
      unfolding t using False show_branch_blocks [OF one] by (simp add: e1_def create_block_def)
    have "reactions (snd t) = reactions ol2" by (simp add: t)
    then have w: "waiting (snd t) = waiting ol @ [(next_token ol, p)]" "tokens_ok (snd t)"
      using tok by (auto simp: reactions_def ol2_def tokens_ok_def)
    with f t(1) assms(4) show ?thesis
      by (simp add: await_ok_def branch_ok_def e1_def)
  qed
qed

text \<open>Any other value is shown.\<close>

lemma handle_value_ok:
  assumes "tokens_ok ol" and "prop_levels (cur_props ol)" and "one_block e" and "awaited e = v"
    and "branch e = None \<or> component_marked ol" and "v \<noteq> NoComponent" and "\<forall>p. v \<noteq> Promise p"
    and h: "handle_promise v (e, ol) = (sw, t)"
  defines "u \<equiv> if sw then t else patch_branch t"
  shows "await_ok R v (cur_props ol) (waiting (snd u)) (fst u) \<and> tokens_ok (snd u)"
proof -
  define ol1 where "ol1 = ol\<lparr>next_token := Suc (next_token ol)\<rparr>"
  define e1 where "e1 = e\<lparr>token := next_token ol\<rparr>"
  have tok: "tokens_ok ol1" unfolding ol1_def by (rule tokens_next [OF assms(1)])
  have one: "one_block e1" using assms(3) by (simp add: e1_def)
  have v: "(case v of Promise p \<Rightarrow> (p, Inr v) \<in> R | _ \<Rightarrow> v = v)" using assms(7) by (cases v) auto
  show ?thesis
  proof (cases "branch e = Some ThenBranch")
    case True
    then have t: "sw = False" "t = (e1\<lparr>resolved := v\<rparr>, ol1)"
      using h assms(7) by (cases v; auto simp: handle_promise_def Let_def e1_def ol1_def)+
    from True one obtain c where c: "blocks e1 = [(ThenBranch, c)]" "block_ok ThenBranch c"
      by (auto simp: one_block_def e1_def)
    then obtain lv inst where b: "c = ComponentBlock lv inst" by (cases c) auto
    have "shows_value v (cur_props ol1) (fst (patch_block v c ol1))"
      using patch_then_shows [of ol1 lv inst v] c(2) assms(2,5) True by (simp add: b ol1_def)
    moreover have "reactions (snd u) = reactions ol1" by (simp add: u_def t)
    then have "waiting (snd u) = waiting ol" "tokens_ok (snd u)"
      using tok by (auto simp: reactions_def ol1_def tokens_ok_def)
    ultimately show ?thesis
      using c True assms(4,6) v fresh_token [OF assms(1)]
      by (auto simp: u_def t patch_branch_def await_ok_def branch_ok_def e1_def ol1_def Let_def
          case_prod_unfold dest: shows_block_ok split: js_component.splits)
  next
    case False
    then have t: "sw" "t = show_branch (next_token ol) ThenBranch v (e1, ol1)"
      using h assms(7) by (cases v; auto simp: handle_promise_def Let_def e1_def ol1_def)+
    have f: "fst t = e1\<lparr>resolved := v, branch := Some ThenBranch, blocks := [(ThenBranch, fst (create_then v ol1))]\<rparr>"
      unfolding t using False show_branch_blocks [OF one] by (simp add: e1_def create_block_def)
    have "shows_value v (cur_props ol1) (fst (create_then v ol1))"
      using create_then_shows [of ol1 v] assms(2) by (simp add: ol1_def)
    moreover have "reactions (snd u) = reactions ol1" by (simp add: u_def t)
    then have "waiting (snd u) = waiting ol" "tokens_ok (snd u)"
      using tok by (auto simp: reactions_def ol1_def tokens_ok_def)
    ultimately show ?thesis
      using f t(1) assms(4,6) v fresh_token [OF assms(1)] shows_block_ok
      by (auto simp: u_def await_ok_def branch_ok_def e1_def ol1_def split: js_component.splits)
  qed
qed

lemma patch_branch_ok:
  assumes "tokens_ok ol" and "prop_levels (cur_props ol)" and "component_marked ol"
    and "await_ok R v old (waiting ol) e"
  defines "u \<equiv> patch_branch (e, ol)"
  shows "await_ok R v (cur_props ol) (waiting (snd u)) (fst u) \<and> tokens_ok (snd u)"
proof -
  obtain b c where bc: "blocks e = [(b, c)]" "branch e = Some b" "block_ok b c" "branch_ok R v old (waiting ol) e b c"
    "awaited e = v" "v \<noteq> NoComponent"
    using assms(4) by (auto simp: await_ok_def)
  have r: "reactions (snd u) = reactions ol" by (simp add: u_def)
  then have w: "waiting (snd u) = waiting ol" "tokens_ok (snd u)"
    using assms(1) by (auto simp: reactions_def tokens_ok_def)
  show ?thesis
  proof (cases c)
    case EmptyBlock
    then have "u = (e, ol)" using bc(1) by (simp add: u_def patch_branch_def)
    with bc w EmptyBlock show ?thesis by (cases b) (simp_all add: await_ok_def branch_ok_def)
  next
    case (ComponentBlock lv inst)
    then have b: "b = ThenBranch" using bc(3) by simp
    have s: "shows_value (resolved e) (cur_props ol) (fst (patch_block (resolved e) c ol))"
      using patch_then_shows [of ol lv inst "resolved e"] bc(3) assms(2,3) by (simp add: ComponentBlock)
    have "fst u = e\<lparr>blocks := [(ThenBranch, fst (patch_block (resolved e) c ol))]\<rparr>"
      using bc(1,2) by (simp add: u_def patch_branch_def b case_prod_unfold Let_def)
    with s shows_block_ok [OF s] bc w b show ?thesis
      by (cases v) (simp_all add: await_ok_def branch_ok_def)
  qed
qed

lemma await_one_block: "await_ok R v cur ws e \<Longrightarrow> one_block (e\<lparr>awaited := w\<rparr>)"
  by (auto simp: await_ok_def one_block_def)

lemma handle_promise_ok:
  assumes "tokens_ok ol" and "prop_levels (cur_props ol)" and "one_block e" and "awaited e = v"
    and "branch e = None \<or> component_marked ol" and "v \<noteq> NoComponent"
    and h: "handle_promise v (e, ol) = (sw, t)"
  defines "u \<equiv> if sw then t else patch_branch t"
  shows "await_ok R v (cur_props ol) (waiting (snd u)) (fst u) \<and> tokens_ok (snd u)"
proof (cases "\<exists>p. v = Promise p")
  case True
  then obtain p where v: "v = Promise p" by blast
  have "u = t" using handle_pending_ok [OF assms(1-3), of p sw t] assms(4) h by (auto simp: u_def v)
  then show ?thesis using handle_pending_ok [OF assms(1-3), of p sw t] assms(4) h by (simp add: v)
next
  case False
  with handle_value_ok [OF assms(1-6) _ h] show ?thesis by (simp add: u_def)
qed

lemma patch_await_ok:
  assumes "tokens_ok ol" and "prop_levels (cur_props ol)" and "component_marked ol"
    and "component ol \<noteq> NoComponent" and "await_ok R v old (waiting ol) e"
  defines "u \<equiv> patch_await (e, ol)"
  shows "await_ok R (component ol) (cur_props ol) (waiting (snd u)) (fst u) \<and> tokens_ok (snd u)"
proof (cases "awaited e = component ol")
  case True
  then have "u = patch_branch (e, ol)" "v = component ol"
    using assms(5) by (auto simp: u_def patch_await_def await_ok_def)
  with patch_branch_ok [OF assms(1-3,5)] show ?thesis by simp
next
  case False
  obtain sw t where h: "handle_promise (component ol) (e\<lparr>awaited := component ol\<rparr>, ol) = (sw, t)"
    by (metis surj_pair)
  then have "u = (if sw then t else patch_branch t)"
    using False assms(3) by (simp add: u_def patch_await_def)
  with handle_promise_ok [OF assms(1,2) await_one_block [OF assms(5)] _ _ assms(4) h] assms(3)
  show ?thesis by simp
qed

section \<open>What a route shows\<close>

definition match_props :: "route_match option \<Rightarrow> props" where
  "match_props a = (case a of None \<Rightarrow> [] | Some m \<Rightarrow> map (\<lambda>(k, v). (k, Str v)) (params m))"

text \<open>The component a route stands for: its class, or what its loader returned last.\<close>

definition given_component :: "(nat \<Rightarrow> bool) \<Rightarrow> (nat \<Rightarrow> nat \<Rightarrow> js_component) \<Rightarrow> outlet \<Rightarrow> js_component" where
  "given_component is_class load ol =
     (case component_prop ol of
        None \<Rightarrow> NoComponent
      | Some f \<Rightarrow> if is_class f then Callable f else load f (load_calls ol - 1))"

definition content_ok ::
  "(nat \<Rightarrow> bool) \<Rightarrow> (nat \<Rightarrow> nat \<Rightarrow> js_component) \<Rightarrow> settlements \<Rightarrow> route_match option \<Rightarrow> outlet \<Rightarrow> bool" where
  "content_ok is_class load R a ol \<longleftrightarrow>
     (case content ol of
        None \<Rightarrow> \<not> is_active a ol
      | Some ct \<Rightarrow>
          is_active a ol \<and> cur_props ol = (match_props a, rest_props ol) \<and>
          component ol = given_component is_class load ol \<and>
          (case ct of
             SlotContent \<Rightarrow> component ol = NoComponent
           | AwaitContent e \<Rightarrow> await_ok R (component ol) (cur_props ol) (waiting ol) e))"

definition outlet_ok ::
  "(nat \<Rightarrow> bool) \<Rightarrow> (nat \<Rightarrow> nat \<Rightarrow> js_component) \<Rightarrow> settlements \<Rightarrow> route_match option \<Rightarrow> outlet \<Rightarrow> bool" where
  "outlet_ok is_class load R a ol \<longleftrightarrow>
     tokens_ok ol \<and> \<not> component_marked ol \<and> distinct (map fst (rest_props ol)) \<and>
     (component_prop ol = None \<longrightarrow> component ol = NoComponent) \<and> content_ok is_class load R a ol"

definition params_ok :: "route_match option \<Rightarrow> bool" where
  "params_ok a \<longleftrightarrow> distinct (map fst (match_props a))"

lemma route_update_active:
  fixes is_class load
  assumes "is_active a ol" and "component_prop ol = None \<longrightarrow> component ol = NoComponent"
  defines "n \<equiv> update_route is_class load a ol"
  shows "cur_props n = (match_props a, rest_props n)" "component n = given_component is_class load n"
    "component n \<noteq> NoComponent \<longrightarrow> component_marked n" "component_prop n = None \<longrightarrow> component n = NoComponent"
  using assms
  by (auto simp: update_route_def is_active_def set_component_def cur_props_def match_props_def
      given_component_def Let_def split: option.splits)

lemma route_update_keeps [simp]:
  "content (update_route is_class load a ol) = content ol"
  "reactions (update_route is_class load a ol) = reactions ol"
  "rest_props (update_route is_class load a ol) = rest_props ol"
  "is_active b (update_route is_class load a ol) = is_active b ol"
  "component_prop (update_route is_class load a ol) = component_prop ol"
  "route_id (update_route is_class load a ol) = route_id ol"
  by (simp_all add: update_route_def set_component_def is_active_def reactions_def Let_def split: option.splits)

lemma route_update_idle: "\<not> is_active a ol \<Longrightarrow> update_route is_class load a ol = ol"
  by (auto simp: update_route_def is_active_def split: option.splits)

lemma with_await_fields [simp]:
  "content (with_await s) = Some (AwaitContent (fst s))" "reactions (with_await s) = reactions (snd s)"
  "component_prop (with_await s) = component_prop (snd s)" "rest_props (with_await s) = rest_props (snd s)"
  "component (with_await s) = component (snd s)" "cur_props (with_await s) = cur_props (snd s)"
  "load_calls (with_await s) = load_calls (snd s)" "is_active a (with_await s) = is_active a (snd s)"
  "waiting (with_await s) = waiting (snd s)" "tokens_ok (with_await s) = tokens_ok (snd s)"
  "given_component is_class load (with_await s) = given_component is_class load (snd s)"
  by (simp_all add: with_await_def reactions_def cur_props_def is_active_def tokens_ok_def given_component_def
      split: option.splits)

lemma content_fields [simp]:
  "is_active a (ol\<lparr>content := c\<rparr>) = is_active a ol" "tokens_ok (ol\<lparr>content := c\<rparr>) = tokens_ok ol"
  "cur_props (ol\<lparr>content := c\<rparr>) = cur_props ol"
  "given_component is_class load (ol\<lparr>content := c\<rparr>) = given_component is_class load ol"
  by (simp_all add: cur_props_def is_active_def tokens_ok_def given_component_def split: option.splits)

lemma is_active_state: "route_state a = route_state b \<Longrightarrow> is_active m a = is_active m b"
  by (simp add: route_state_def is_active_def split: option.splits)

lemma given_state:
  "route_state a = route_state b \<Longrightarrow> given_component is_class load a = given_component is_class load b"
  by (simp add: route_state_def given_component_def split: option.splits)

text \<open>A route that was updated, before its block is.\<close>

definition updated_ok ::
  "(nat \<Rightarrow> bool) \<Rightarrow> (nat \<Rightarrow> nat \<Rightarrow> js_component) \<Rightarrow> route_match option \<Rightarrow> outlet \<Rightarrow> bool" where
  "updated_ok is_class load a ol \<longleftrightarrow>
     tokens_ok ol \<and> distinct (map fst (rest_props ol)) \<and> params_ok a \<and> is_active a ol \<and>
     cur_props ol = (match_props a, rest_props ol) \<and> component ol = given_component is_class load ol \<and>
     (component ol \<noteq> NoComponent \<longrightarrow> component_marked ol)"

lemma updated_levels: "updated_ok is_class load a ol \<Longrightarrow> prop_levels (cur_props ol)"
  by (simp add: updated_ok_def params_ok_def prop_levels_def)

definition shown_ok ::
  "(nat \<Rightarrow> bool) \<Rightarrow> (nat \<Rightarrow> nat \<Rightarrow> js_component) \<Rightarrow> settlements \<Rightarrow> route_match option \<Rightarrow> outlet \<Rightarrow> bool" where
  "shown_ok is_class load R a ol \<longleftrightarrow>
     tokens_ok ol \<and> distinct (map fst (rest_props ol)) \<and> content ol \<noteq> None \<and> content_ok is_class load R a ol"

lemma with_await_ok:
  assumes "updated_ok is_class load a ol" and "route_state (snd u) = route_state ol"
    and "await_ok R (component ol) (cur_props ol) (waiting (snd u)) (fst u)" and "tokens_ok (snd u)"
  shows "shown_ok is_class load R a (with_await u)"
  using assms route_state_eqD [OF assms(2)] is_active_state [OF assms(2)] given_state [OF assms(2)]
  by (simp add: shown_ok_def content_ok_def updated_ok_def)

lemma create_content_ok:
  assumes "updated_ok is_class load a ol"
  shows "shown_ok is_class load R a (create_content ol)"
proof (cases "component ol = NoComponent")
  case True
  then show ?thesis
    using assms by (simp add: create_content_def shown_ok_def content_ok_def updated_ok_def)
next
  case False
  let ?e = "\<lparr>awaited = component ol, token = 0, branch = None, resolved = NoComponent, blocks = []\<rparr>"
  obtain sw t where h: "handle_promise (component ol) (?e, ol) = (sw, t)" by (metis surj_pair)
  have sw: "sw" using h False by (cases "component ol") (auto simp: handle_promise_def Let_def)
  have "tokens_ok ol" using assms by (simp add: updated_ok_def)
  from handle_promise_ok [OF this updated_levels [OF assms] _ _ _ False h, of R] sw
  have "await_ok R (component ol) (cur_props ol) (waiting (snd t)) (fst t) \<and> tokens_ok (snd t)"
    by (simp add: one_block_def)
  moreover have "route_state (snd t) = route_state ol"
    using handle_promise_state [of "component ol" "(?e, ol)"] by (simp add: h)
  ultimately show ?thesis
    using with_await_ok [OF assms] False by (simp add: create_content_def h)
qed

lemma patch_content_ok:
  assumes "updated_ok is_class load a ol" and "content ol = Some ct"
    and "\<forall>e. ct = AwaitContent e \<longrightarrow> await_ok R v old (waiting ol) e"
  shows "shown_ok is_class load R a (patch_content ct ol)"
proof (cases ct)
  case SlotContent
  show ?thesis
  proof (cases "component ol = NoComponent")
    case True
    with SlotContent assms show ?thesis
      by (simp add: patch_content_def shown_ok_def content_ok_def updated_ok_def)
  qed (simp add: SlotContent patch_content_def create_content_ok [OF assms(1)])
next
  case (AwaitContent e)
  show ?thesis
  proof (cases "component ol = NoComponent")
    case False
    have "tokens_ok ol" "component_marked ol" using assms(1) False by (simp_all add: updated_ok_def)
    moreover have "await_ok R v old (waiting ol) e" using assms(3) AwaitContent by simp
    ultimately have "shown_ok is_class load R a (with_await (patch_await (e, ol)))"
      using patch_await_ok [OF _ updated_levels [OF assms(1)] _ False] by (intro with_await_ok [OF assms(1)]) simp_all
    with False show ?thesis by (simp add: AwaitContent patch_content_def)
  qed (simp add: AwaitContent patch_content_def create_content_ok [OF assms(1)])
qed

lemma marked_fields [simp]:
  "content (ol\<lparr>component_marked := m\<rparr>) = content ol" "tokens_ok (ol\<lparr>component_marked := m\<rparr>) = tokens_ok ol"
  "content_ok is_class load R a (ol\<lparr>component_marked := m\<rparr>) = content_ok is_class load R a ol"
  "is_active a (ol\<lparr>component_marked := m\<rparr>) = is_active a ol"
  by (simp_all add: tokens_ok_def content_ok_def is_active_def cur_props_def given_component_def
      split: option.splits route_content.splits)

lemma content_component_prop [simp]:
  "component_prop (create_content ol) = component_prop ol" "component (create_content ol) = component ol"
  "component_prop (patch_content ct ol) = component_prop ol" "component (patch_content ct ol) = component ol"
  "rest_props (create_content ol) = rest_props ol" "rest_props (patch_content ct ol) = rest_props ol"
  "route_id (create_content ol) = route_id ol" "route_id (patch_content ct ol) = route_id ol"
proof -
  have h: "route_state (snd (snd (handle_promise v (e, ol)))) = route_state ol"
    "route_state (snd (patch_await (e, ol))) = route_state ol" for v e by simp_all
  show c: "component_prop (create_content ol) = component_prop ol" "component (create_content ol) = component ol"
    "rest_props (create_content ol) = rest_props ol" "route_id (create_content ol) = route_id ol"
    using h(1) by (simp_all add: create_content_def with_await_def route_state_def)
  show "component_prop (patch_content ct ol) = component_prop ol" "component (patch_content ct ol) = component ol"
    "rest_props (patch_content ct ol) = rest_props ol" "route_id (patch_content ct ol) = route_id ol"
    using h(2) c by (simp_all add: patch_content_def with_await_def route_state_def split: route_content.splits)
qed

lemma outlet_await:
  assumes "outlet_ok is_class load R a ol" and "content ol = Some (AwaitContent e)"
  shows "await_ok R (component ol) (cur_props ol) (waiting ol) e"
  using assms(1) unfolding outlet_ok_def content_ok_def assms(2) option.case route_content.case by blast

lemma outlet_flush_ok:
  assumes "outlet_ok is_class load R a ol" and "params_ok b"
  shows "outlet_ok is_class load R b (outlet_flush is_class load b ol)"
proof (cases "is_active b ol")
  case False
  then show ?thesis
    using assms by (simp add: outlet_flush_def route_update_idle patch_route_def outlet_ok_def content_ok_def)
next
  case True
  let ?n = "update_route is_class load b ol"
  have np: "component_prop ol = None \<longrightarrow> component ol = NoComponent" using assms(1) by (simp add: outlet_ok_def)
  have "reactions ?n = reactions ol" by simp
  then have w: "tokens_ok ?n" "waiting ?n = waiting ol"
    using assms(1) tokens_reactions by (auto simp: outlet_ok_def reactions_def tokens_ok_def)
  have upd: "updated_ok is_class load b ?n"
    using True assms w route_update_active [OF True np] by (simp add: updated_ok_def outlet_ok_def)
  have fin: "outlet_ok is_class load R b (m\<lparr>component_marked := False\<rparr>)"
    if "shown_ok is_class load R b m" "component_prop m = component_prop ?n" "component m = component ?n" for m
    using that route_update_active(4) [OF True np] by (simp add: outlet_ok_def shown_ok_def)
  show ?thesis
  proof (cases "content ol")
    case None
    then show ?thesis
      using True fin [OF create_content_ok [OF upd]] by (simp add: outlet_flush_def patch_route_def)
  next
    case (Some ct)
    then have "\<forall>e. ct = AwaitContent e \<longrightarrow> await_ok R (component ol) (cur_props ol) (waiting ?n) e"
      using outlet_await [OF assms(1)] w by simp
    from fin [OF patch_content_ok [OF upd _ this]] Some True show ?thesis
      by (simp add: outlet_flush_def patch_route_def)
  qed
qed

section \<open>Promises that settle_promise\<close>

lemma waiting_fields [simp]:
  "is_active a (ol\<lparr>waiting := w\<rparr>) = is_active a ol"
  "given_component is_class load (ol\<lparr>waiting := w\<rparr>) = given_component is_class load ol"
  by (simp_all add: is_active_def given_component_def split: option.splits)

lemma rejected_fields [simp]:
  "outlet_ok is_class load R a (ol\<lparr>rejections := n\<rparr>) = outlet_ok is_class load R a ol"
  by (simp add: outlet_ok_def content_ok_def tokens_ok_def cur_props_def is_active_def given_component_def
      split: option.splits route_content.splits)

lemma rejected_waiting [simp]:
  "outlet_ok is_class load R a (ol\<lparr>rejections := n, waiting := w\<rparr>) = outlet_ok is_class load R a (ol\<lparr>waiting := w\<rparr>)"
proof -
  have "ol\<lparr>rejections := n, waiting := w\<rparr> = (ol\<lparr>waiting := w\<rparr>)\<lparr>rejections := n\<rparr>" by simp
  then show ?thesis by (simp only: rejected_fields)
qed

lemma react_eq:
  "react_promise r tok ol =
     (case r of Inl u \<Rightarrow> (\<lambda>o1. o1\<lparr>rejections := Suc (rejections o1)\<rparr>) | Inr v \<Rightarrow> id)
       (case content ol of
          Some (AwaitContent e) \<Rightarrow>
            with_await (show_branch tok (case r of Inl u \<Rightarrow> CatchBranch | Inr v \<Rightarrow> ThenBranch)
              (case r of Inl u \<Rightarrow> NoComponent | Inr v \<Rightarrow> v) (e, ol))
        | _ \<Rightarrow> ol)"
  by (simp add: react_promise_def Let_def split: sum.splits option.splits route_content.splits)

text \<open>Reactions with other tokens leave the page as it is.\<close>

lemma stale_reaction:
  assumes "\<forall>e. content ol = Some (AwaitContent e) \<longrightarrow> token e \<noteq> tok"
  shows "\<exists>n. react_promise r tok ol = ol\<lparr>rejections := n\<rparr>"
proof -
  have "(case content ol of
          Some (AwaitContent e) \<Rightarrow>
            with_await (show_branch tok (case r of Inl u \<Rightarrow> CatchBranch | Inr v \<Rightarrow> ThenBranch)
              (case r of Inl u \<Rightarrow> NoComponent | Inr v \<Rightarrow> v) (e, ol))
        | _ \<Rightarrow> ol) = ol"
    using assms by (auto simp: show_branch_def with_await_def split: option.splits route_content.splits)
  then have "react_promise r tok ol = ol\<lparr>rejections := (case r of Inl u \<Rightarrow> Suc (rejections ol) | Inr v \<Rightarrow> rejections ol)\<rparr>"
    unfolding react_eq by (cases r) simp_all
  then show ?thesis by blast
qed

text \<open>The reaction with the current token shows the result.\<close>

lemma current_reaction:
  assumes "outlet_ok is_class load R a ol" and "content ol = Some (AwaitContent e)" and "params_ok a"
    and "(token e, p) \<in> set (waiting ol)" and "(p, r) \<in> R"
  shows "outlet_ok is_class load R a ((react_promise r (token e) ol)\<lparr>waiting := removeAll (token e, p) (waiting ol)\<rparr>)"
proof -
  let ?b = "case r of Inl u \<Rightarrow> CatchBranch | Inr v \<Rightarrow> ThenBranch" and ?v = "case r of Inl u \<Rightarrow> NoComponent | Inr v \<Rightarrow> v"
  define t where "t = show_branch (token e) ?b ?v (e, ol)"
  have aw: "await_ok R (component ol) (cur_props ol) (waiting ol) e" and tok: "tokens_ok ol"
    and act: "is_active a ol" "cur_props ol = (match_props a, rest_props ol)"
      "component ol = given_component is_class load ol" "distinct (map fst (rest_props ol))"
    using assms(1) unfolding outlet_ok_def content_ok_def assms(2) option.case route_content.case by blast+
  have lv: "prop_levels (cur_props ol)" using act assms(3) by (simp add: prop_levels_def params_ok_def)
  have t_in: "token e \<in> fst ` set (waiting ol)" using assms(4) by force
  obtain b c where "branch e = Some b" "branch_ok R (component ol) (cur_props ol) (waiting ol) e b c"
    using aw by (auto simp: await_ok_def)
  with t_in have "branch e = Some PendingBranch" by (cases b) (simp_all add: branch_ok_def)
  with aw have pend: "branch e = Some PendingBranch" "awaited e = component ol" "component ol \<noteq> NoComponent"
    by (simp_all add: await_ok_def)
  have "component ol = Promise p"
  proof -
    obtain q where q: "component ol = Promise q" "(token e, q) \<in> set (waiting ol)"
      using aw pend by (auto simp: await_ok_def branch_ok_def)
    then have "q = p" using tok assms(4) by (auto simp: tokens_ok_def intro: eq_key_imp_eq_value)
    with q show ?thesis by simp
  qed
  moreover have "one_block e" using aw by (auto simp: await_ok_def one_block_def)
  then have f: "fst t = e\<lparr>resolved := ?v, branch := Some ?b, blocks := [(?b, fst (create_block ?b ?v ol))]\<rparr>"
    unfolding t_def using pend(1) by (intro show_branch_blocks) (auto split: sum.splits)
  moreover have gone: "token e \<notin> fst ` set (removeAll (token e, p) (waiting ol))"
    using tok assms(4) by (auto simp: tokens_ok_def dest: eq_key_imp_eq_value)
  moreover have "shows_value ?v (cur_props ol) (fst (create_then ?v ol))" by (rule create_then_shows [OF lv])
  ultimately have "await_ok R (component ol) (cur_props ol) (removeAll (token e, p) (waiting ol)) (fst t)"
    using pend assms(5) created_block_ok [OF lv, of ?b ?v]
    by (cases r) (auto simp: await_ok_def branch_ok_def create_block_def)
  moreover have st: "route_state (snd t) = route_state ol" "reactions (snd t) = reactions ol"
    by (simp_all add: t_def)
  moreover have "tokens_ok ((snd t)\<lparr>waiting := removeAll (token e, p) (waiting ol)\<rparr>)"
    using tok st(2) by (auto simp: tokens_ok_def reactions_def distinct_map_filter removeAll_filter_not_eq)
  ultimately have "outlet_ok is_class load R a
      ((with_await t)\<lparr>waiting := removeAll (token e, p) (waiting ol)\<rparr>)"
    using act assms(1) route_state_eqD [OF st(1)] is_active_state [OF st(1)] given_state [OF st(1)]
    by (simp add: outlet_ok_def content_ok_def with_await_def tokens_ok_def)
  then show ?thesis unfolding react_eq t_def using assms(2) by (cases r) simp_all
qed

lemma react_waiting: "(react_promise r tok ol)\<lparr>waiting := w\<rparr> = react_promise r tok (ol\<lparr>waiting := w\<rparr>)"
proof -
  have c: "create_block b v (o1\<lparr>waiting := w\<rparr>) = (fst (create_block b v o1), (snd (create_block b v o1))\<lparr>waiting := w\<rparr>)"
    for b v o1 by (simp add: create_block_def create_then_def split: option.splits)
  have "show_branch tok b v (e, ol\<lparr>waiting := w\<rparr>) =
      (fst (show_branch tok b v (e, ol)), (snd (show_branch tok b v (e, ol)))\<lparr>waiting := w\<rparr>)" for b v e
    by (simp add: show_branch_def c Let_def case_prod_unfold)
  then show ?thesis
    unfolding react_eq with_await_def by (cases r) (simp_all split: option.splits route_content.splits)
qed

lemma outlet_ok_fewer:
  assumes "outlet_ok is_class load R a ol" and "set w \<subseteq> set (waiting ol)" and "distinct (map fst w)"
    and "\<forall>e. content ol = Some (AwaitContent e) \<longrightarrow>
      (\<forall>p. (token e, p) \<in> set (waiting ol) \<longrightarrow> (token e, p) \<in> set w)"
  shows "outlet_ok is_class load R a (ol\<lparr>waiting := w\<rparr>)"
proof -
  have w: "await_ok R v cur w e" if "await_ok R v cur (waiting ol) e" "content ol = Some (AwaitContent e)" for v cur e
    using that assms(2,4) unfolding await_ok_def branch_ok_def
    by (elim conjE exE) (intro conjI exI, assumption+, auto split: await_branch.splits)
  have "tokens_ok (ol\<lparr>waiting := w\<rparr>)"
    using assms(1-3) by (auto simp: outlet_ok_def tokens_ok_def)
  with assms(1) w outlet_await [OF assms(1)] show ?thesis
    by (auto simp: outlet_ok_def content_ok_def split: option.splits route_content.splits)
qed

text \<open>One reaction after the other.\<close>

lemma reaction_ok:
  assumes "outlet_ok is_class load R a (ol\<lparr>waiting := (tok, p) # w\<rparr>)" and "params_ok a" and "(p, r) \<in> R"
  shows "outlet_ok is_class load R a ((react_promise r tok ol)\<lparr>waiting := w\<rparr>)"
proof -
  let ?o = "ol\<lparr>waiting := (tok, p) # w\<rparr>"
  have d: "distinct (map fst ((tok, p) # w))" using assms(1) by (simp add: outlet_ok_def tokens_ok_def)
  then have "(tok, p) \<notin> set w" by force
  then have rm: "removeAll (tok, p) ((tok, p) # w) = w" by simp
  show ?thesis
  proof (cases "\<exists>e. content ol = Some (AwaitContent e) \<and> token e = tok")
    case True
    then obtain e where e: "content ol = Some (AwaitContent e)" "token e = tok" by blast
    with current_reaction [OF assms(1) _ assms(2), of e p r] assms(3) rm show ?thesis
      by (simp add: react_waiting [symmetric])
  next
    case False
    then obtain n where n: "react_promise r tok ol = ol\<lparr>rejections := n\<rparr>" using stale_reaction by blast
    have "outlet_ok is_class load R a (?o\<lparr>waiting := w\<rparr>)"
      using False d by (intro outlet_ok_fewer [OF assms(1)]) auto
    then have "outlet_ok is_class load R a ((?o\<lparr>waiting := w\<rparr>)\<lparr>rejections := n\<rparr>)" by simp
    then show ?thesis by (simp add: n)
  qed
qed

lemma reactions_ok:
  assumes "params_ok a" and "(p, r) \<in> R"
  shows "outlet_ok is_class load R a (ol\<lparr>waiting := ts @ w\<rparr>) \<Longrightarrow> \<forall>t \<in> set ts. snd t = p \<Longrightarrow>
    outlet_ok is_class load R a ((foldl (\<lambda>ol (tok, q). react_promise r tok ol) ol ts)\<lparr>waiting := w\<rparr>)"
proof (induction ts arbitrary: ol)
  case (Cons t ts)
  obtain tok where t: "t = (tok, p)" using Cons.prems(2) by (cases t) auto
  have "outlet_ok is_class load R a ((react_promise r tok ol)\<lparr>waiting := ts @ w\<rparr>)"
    using Cons.prems(1) by (intro reaction_ok [OF _ assms]) (simp add: t)
  with Cons.IH Cons.prems(2) show ?case by (simp add: t)
qed simp

lemma waiting_react: "waiting (react_promise r tok ol) = waiting ol"
proof -
  have "waiting ((react_promise r tok ol)\<lparr>waiting := waiting ol\<rparr>) = waiting ol" by simp
  then show ?thesis unfolding react_waiting by simp
qed

lemma settle_ok:
  assumes "outlet_ok is_class load R a ol" and "params_ok a" and "(p, r) \<in> R"
  shows "outlet_ok is_class load R a (settle_promise p r ol)"
proof -
  let ?ts = "filter (\<lambda>(tok, q). q = p) (waiting ol)" and ?w = "filter (\<lambda>(tok, q). q \<noteq> p) (waiting ol)"
  have w: "waiting (foldl (\<lambda>ol (tok, q). react_promise r tok ol) o1 ts) = waiting o1" for o1 and ts :: "(nat \<times> nat) list"
    by (induction ts arbitrary: o1) (auto simp: waiting_react)
  have d: "distinct (map fst (waiting ol))" using assms(1) by (simp add: outlet_ok_def tokens_ok_def)
  then have "distinct (map fst (?ts @ ?w))"
    by (auto simp: distinct_map_filter dest: eq_key_imp_eq_value)
  then have "outlet_ok is_class load R a (ol\<lparr>waiting := ?ts @ ?w\<rparr>)"
    by (intro outlet_ok_fewer [OF assms(1)]) auto
  then have "outlet_ok is_class load R a ((ol\<lparr>waiting := ?w\<rparr>)\<lparr>waiting := ?ts @ ?w\<rparr>)" by simp
  from reactions_ok [OF assms(2,3) this] have
    "outlet_ok is_class load R a ((settle_promise p r ol)\<lparr>waiting := ?w\<rparr>)" by (auto simp: settle_promise_def)
  moreover have "waiting (settle_promise p r ol) = ?w" unfolding settle_promise_def w by simp
  then have "(settle_promise p r ol)\<lparr>waiting := ?w\<rparr> = settle_promise p r ol" by (metis outlet.surjective outlet.update_convs(9))
  ultimately show ?thesis by simp
qed

lemma outlet_ok_mono:
  assumes "outlet_ok is_class load R a ol" and "R \<subseteq> R'"
  shows "outlet_ok is_class load R' a ol"
proof -
  have b: "branch_ok R' v cur ws e b c" if "branch_ok R v cur ws e b c" for v cur ws e b c
    using that assms(2) by (cases b; cases v) (auto simp: branch_ok_def)
  have "await_ok R' v cur ws e" if "await_ok R v cur ws e" for v cur ws e
    using that b unfolding await_ok_def by blast
  with assms(1) show ?thesis
    by (auto simp: outlet_ok_def content_ok_def split: option.splits route_content.splits)
qed

section \<open>The pages of a router\<close>

lemma match_loop_params:
  "match_loop root ms us b n = Inr (Some (b', n')) \<Longrightarrow> distinct (map fst b) \<Longrightarrow> distinct (map fst b')"
  by (induction root ms us b n rule: match_loop.induct)
    (auto simp: distinct_update split: if_splits sum.splits list.splits option.splits)

lemma pick_loop_result:
  assumes "pick_loop u us rs dflt = Inr (Some m)"
    and "\<forall>d. dflt = Some d \<longrightarrow> route d \<in> A \<and> distinct (map fst (params d))" and "set rs \<subseteq> A"
  shows "route m \<in> A \<and> distinct (map fst (params m))"
  using assms
proof (induction rs arbitrary: dflt)
  case (Cons r rs)
  then show ?case
    by (auto split: if_splits sum.splits option.splits dest: match_loop_params)
qed simp

lemma pick_result:
  "pick rs u = Inr (Some m) \<Longrightarrow> route m \<in> set rs \<and> params_ok (Some m)"
  using pick_loop_result [of u "uri_segments u" "rankRoutes rs" None m "set rs"]
  by (auto simp: pick_def params_ok_def match_props_def comp_def case_prod_unfold)

definition page_pre ::
  "(nat \<Rightarrow> bool) \<Rightarrow> (nat \<Rightarrow> nat \<Rightarrow> js_component) \<Rightarrow> settlements \<Rightarrow> routed_page \<Rightarrow> bool" where
  "page_pre is_class load R s \<longleftrightarrow>
     listening (nav s) \<and> position (history (nav s)) < length (entries (history (nav s))) \<and>
     distinct (map route_key (routes (nav s))) \<and> (\<forall>r \<in> set (routes (nav s)). route_key r < created (nav s)) \<and>
     map route_id (outlets s) = map route_key (routes (nav s)) \<and> params_ok (active (nav s)) \<and>
     (\<forall>m. active (nav s) = Some m \<longrightarrow> route_key (route m) < created (nav s)) \<and>
     (\<forall>ol \<in> set (outlets s). outlet_ok is_class load R (active (nav s)) ol)"

definition routed_page_ok ::
  "(nat \<Rightarrow> bool) \<Rightarrow> (nat \<Rightarrow> nat \<Rightarrow> js_component) \<Rightarrow> settlements \<Rightarrow> routed_page \<Rightarrow> bool" where
  "routed_page_ok is_class load R s \<longleftrightarrow> page_pre is_class load R s \<and> settled (nav s)"

lemma route_id_flush [simp]: "route_id (outlet_flush is_class load a ol) = route_id ol"
  by (simp add: outlet_flush_def patch_route_def split: option.splits)

lemma refresh_ok:
  assumes "page_pre is_class load R s"
  shows "routed_page_ok is_class load R (refresh_routes is_class load s)"
proof -
  let ?r = "router_update (nav s)"
  have st: "settled ?r" by (rule settled_update)
  show ?thesis
  proof (cases "update_failed ?r")
    case True
    then have "active ?r = active (nav s)" by (auto simp: router_update_def split: if_splits sum.splits)
    with True assms st show ?thesis by (simp add: routed_page_ok_def page_pre_def refresh_routes_def Let_def)
  next
    case False
    then have pick: "pick (routes (nav s)) (location (nav s)) = Inr (active ?r)" using st by (simp add: settled_def)
    have m: "params_ok (active ?r) \<and> (\<forall>m. active ?r = Some m \<longrightarrow> route_key (route m) < created (nav s))"
      using pick_result [of "routes (nav s)" "location (nav s)"] pick assms
      by (cases "active ?r") (auto simp: page_pre_def params_ok_def match_props_def)
    have "\<forall>ol \<in> set (outlets (refresh_routes is_class load s)). outlet_ok is_class load R (active ?r) ol"
      using False assms m outlet_flush_ok by (auto simp: refresh_routes_def Let_def page_pre_def)
    moreover have "map route_id (outlets (refresh_routes is_class load s)) = map route_key (routes (nav s))"
      using assms by (simp add: refresh_routes_def Let_def page_pre_def comp_def)
    ultimately show ?thesis
      using assms m st by (simp add: routed_page_ok_def page_pre_def) (simp add: refresh_routes_def Let_def)
  qed
qed

text \<open>The attributes of a route are an object: their names are distinct.\<close>

fun object_event :: "routed_event \<Rightarrow> bool" where
  "object_event (MountRoutes els) \<longleftrightarrow> list_all (\<lambda>(p, c, attrs). distinct (map fst attrs)) els"
| "object_event _ \<longleftrightarrow> True"

lemma init_outlet_ok:
  "distinct (map fst attrs) \<Longrightarrow> \<not> is_active a (init_outlet k c attrs) \<Longrightarrow>
     outlet_ok is_class load R a (init_outlet k c attrs)"
  by (simp add: outlet_ok_def content_ok_def init_outlet_def tokens_ok_def exclude_internal_props_def
      distinct_map_filter split: option.splits)

lemma mount_route_pre:
  assumes "page_pre is_class load R s" and "distinct (map fst attrs)"
  shows "page_pre is_class load R (mount_route s (p, c, attrs))"
proof -
  have "\<not> is_active (active (nav s)) (init_outlet (created (nav s)) c attrs)"
    using assms(1) by (auto simp: page_pre_def is_active_def init_outlet_def split: option.splits)
  note new = init_outlet_ok [OF assms(2) this, of is_class load R]
  have "route_id (init_outlet (created (nav s)) c attrs) = created (nav s)" by (simp add: init_outlet_def)
  with assms(1) new show ?thesis
    by (auto simp: page_pre_def mount_route_def registerRoute_def less_Suc_eq)
qed

lemma mount_routes_pre:
  "page_pre is_class load R s \<Longrightarrow> list_all (\<lambda>(p, c, attrs). distinct (map fst attrs)) els \<Longrightarrow>
     page_pre is_class load R (foldl mount_route s els)"
proof (induction els arbitrary: s)
  case (Cons el els)
  then show ?case by (cases el) (auto intro: mount_route_pre)
qed simp

lemma filter_both:
  "map f xs = map g ys \<Longrightarrow> map f (filter (\<lambda>x. f x \<noteq> k) xs) = map g (filter (\<lambda>y. g y \<noteq> k) ys)"
  using filter_map [of "\<lambda>z. z \<noteq> k" f xs] filter_map [of "\<lambda>z. z \<noteq> k" g ys] by (simp add: comp_def)

lemma unmount_pre:
  assumes "page_pre is_class load R s"
  shows "page_pre is_class load R
    (s\<lparr>nav := unregisterRoute k (nav s), outlets := filter (\<lambda>ol. route_id ol \<noteq> k) (outlets s)\<rparr>)"
  using assms filter_both [of route_id "outlets s" route_key "routes (nav s)" k]
  by (auto simp: page_pre_def unregisterRoute_def distinct_map_filter)

lemma move_pre:
  assumes "page_pre is_class load R s"
  shows "page_pre is_class load R (s\<lparr>nav := navigate rep to (nav s)\<rparr>)"
    and "page_pre is_class load R (s\<lparr>nav := popstate i (nav s)\<rparr>)"
    and "page_pre is_class load R (s\<lparr>nav := rebase b (nav s)\<rparr>)"
  using assms
  by (auto simp: page_pre_def navigate_def popstate_def rebase_def notify_location_def pushState_def
      replaceState_def comp_def)

definition settled_by :: "routed_event list \<Rightarrow> settlements" where
  "settled_by es = {(p, r). Settled p r \<in> set es}"

lemma page_pre_mono: "page_pre is_class load R s \<Longrightarrow> R \<subseteq> R' \<Longrightarrow> page_pre is_class load R' s"
  using outlet_ok_mono by (auto simp: page_pre_def)

lemma settled_pre:
  assumes "page_pre is_class load R s" and "(p, r) \<in> R"
  shows "page_pre is_class load R (s\<lparr>outlets := map (settle_promise p r) (outlets s)\<rparr>)"
proof -
  have "route_id (react_promise q tok ol) = route_id ol" for q tok ol
    using show_branch_state(1)
    by (simp add: react_promise_def with_await_def route_state_def Let_def
        split: sum.splits option.splits route_content.splits)
  then have "route_id (foldl (\<lambda>ol (tok, q). react_promise r tok ol) ol ts) = route_id ol" for ol and ts :: "(nat \<times> nat) list"
    by (induction ts arbitrary: ol) auto
  then have "route_id (settle_promise p r ol) = route_id ol" for ol by (simp add: settle_promise_def)
  with assms settle_ok show ?thesis by (auto simp: page_pre_def comp_def)
qed

lemma routed_step_ok:
  assumes "routed_page_ok is_class load R s" and "object_event e"
  shows "routed_page_ok is_class load (R \<union> settled_by [e]) (routed_step is_class load s e)"
proof -
  let ?R = "R \<union> settled_by [e]"
  have pre: "page_pre is_class load ?R s" and st: "settled (nav s)"
    using assms(1) page_pre_mono by (auto simp: routed_page_ok_def)
  show ?thesis
  proof (cases e)
    case (Settled p r)
    then have "(p, r) \<in> ?R" by (simp add: settled_by_def)
    from settled_pre [OF pre this] st Settled show ?thesis by (simp add: routed_page_ok_def)
  next
    case (GoBack i)
    have "routed_page_ok is_class load ?R s" using pre st by (simp add: routed_page_ok_def)
    with refresh_ok [OF move_pre(2) [OF pre, of i]] GoBack show ?thesis by simp
  next
    case (MountRoutes els)
    with refresh_ok [OF mount_routes_pre [OF pre, of els]] assms(2) show ?thesis by simp
  qed (use refresh_ok [OF unmount_pre [OF pre]] refresh_ok [OF move_pre(1) [OF pre]]
    refresh_ok [OF move_pre(3) [OF pre]] in simp_all)
qed

lemma routed_run_ok:
  "routed_page_ok is_class load R s \<Longrightarrow> list_all object_event es \<Longrightarrow>
     routed_page_ok is_class load (R \<union> settled_by es) (run_events (routed_step is_class load) s es)"
proof (induction es arbitrary: s R)
  case (Cons e es)
  have "settled_by (e # es) = settled_by [e] \<union> settled_by es" by (auto simp: settled_by_def)
  with Cons.IH [OF routed_step_ok [OF Cons.prems(1)]] Cons.prems(2) show ?case by (simp add: Un_assoc)
qed (simp add: settled_by_def)

lemma routed_init_ok: "routed_page_ok is_class load {} (routed_init b u)"
proof -
  have "router_inv (router_init None b (opened_on u))" by (rule router_inv_init) (simp add: opened_on_def)
  moreover have "routes (router_init None b (opened_on u)) = []" "active (router_init None b (opened_on u)) = None"
    by (simp_all add: router_init_def router_update_def pick_def rankRoutes_def)
  ultimately show ?thesis
    by (simp add: routed_page_ok_def page_pre_def routed_init_def router_inv_def params_ok_def match_props_def)
qed

section \<open>The page follows the location\<close>

fun plain_page_event :: "routed_event \<Rightarrow> bool" where
  "plain_page_event (Goto rep to) \<longleftrightarrow> 0x25 \<notin> set to"
| "plain_page_event _ \<longleftrightarrow> True"

lemma nav_refresh [simp]: "nav (refresh_routes is_class load s) = router_update (nav s)"
  by (simp add: refresh_routes_def Let_def)

lemma plain_mount: "plain_router (nav s) \<Longrightarrow> plain_router (nav (foldl mount_route s els))"
proof (induction els arbitrary: s)
  case (Cons el els)
  have "plain_router (nav (mount_route s el))"
    using Cons.prems by (cases el) (simp add: mount_route_def registerRoute_def plain_router_def)
  with Cons.IH show ?case by simp
qed simp

lemma plain_routed_step:
  assumes "plain_router (nav s)" and "plain_page_event e"
  shows "plain_router (nav (routed_step is_class load s e))"
proof (cases e)
  case (UnmountRoute k)
  with plain_step [OF assms(1), of "Unregister k"] show ?thesis by simp
next
  case (Goto rep to)
  with plain_step [OF assms(1), of "Navigate rep to"] assms(2) show ?thesis by simp
next
  case (GoBack i)
  with plain_step [OF assms(1), of "PopState i"] assms(1) show ?thesis by simp
next
  case (Rebased b)
  with plain_step [OF assms(1), of "Rebase b"] show ?thesis by simp
qed (simp_all add: plain_updated plain_mount assms)

lemma plain_routed_run:
  "plain_router (nav s) \<Longrightarrow> list_all plain_page_event es \<Longrightarrow>
     plain_router (nav (run_events (routed_step is_class load) s es))"
  by (induction es arbitrary: s) (simp_all add: plain_routed_step del: routed_step.simps)

lemma plain_pages:
  assumes "0x25 \<notin> set u" and "list_all plain_page_event es"
  shows "\<not> update_failed (nav (run_events (routed_step is_class load) (routed_init b u) es))"
proof -
  have "plain_router (nav (routed_init b u))" using plain_init [OF assms(1)] by (simp add: routed_init_def)
  from plain_routed_run [OF this assms(2), of is_class load] show ?thesis unfolding plain_router_def by (rule conjunct1)
qed

text \<open>
  What the route of a match has on the page: its slot if it has no component, its component
  with the parameters and attributes as properties, and for a promise nothing until it settles.
\<close>

definition route_displays ::
  "(nat \<Rightarrow> bool) \<Rightarrow> (nat \<Rightarrow> nat \<Rightarrow> js_component) \<Rightarrow> settlements \<Rightarrow> route_match \<Rightarrow> outlet \<Rightarrow> bool" where
  "route_displays is_class load R m ol \<longleftrightarrow>
     (case given_component is_class load ol of
        NoComponent \<Rightarrow> content ol = Some SlotContent
      | Promise p \<Rightarrow>
          \<exists>e. content ol = Some (AwaitContent e) \<and>
            (blocks e = [(PendingBranch, EmptyBlock)] \<and> (token e, p) \<in> set (waiting ol) \<or>
             blocks e = [(CatchBranch, EmptyBlock)] \<and> (p, Inl ()) \<in> R \<or>
             (\<exists>v c. blocks e = [(ThenBranch, c)] \<and> (p, Inr v) \<in> R \<and>
                shows_value v (match_props (Some m), rest_props ol) c))
      | v \<Rightarrow>
          \<exists>e c. content ol = Some (AwaitContent e) \<and> blocks e = [(ThenBranch, c)] \<and>
            shows_value v (match_props (Some m), rest_props ol) c)"

lemma outlet_displays:
  assumes "outlet_ok is_class load R (Some m) ol" and "is_active (Some m) ol"
  shows "route_displays is_class load R m ol"
proof -
  have c: "content_ok is_class load R (Some m) ol" using assms(1) by (simp add: outlet_ok_def)
  then obtain ct where ct: "content ol = Some ct" using assms(2) by (auto simp: content_ok_def split: option.splits)
  show ?thesis
  proof (cases ct)
    case SlotContent
    with c ct have "given_component is_class load ol = NoComponent" by (auto simp: content_ok_def)
    with ct SlotContent show ?thesis by (simp add: route_displays_def)
  next
    case (AwaitContent e)
    then have aw: "await_ok R (component ol) (cur_props ol) (waiting ol) e"
      and cur: "cur_props ol = (match_props (Some m), rest_props ol)"
        "given_component is_class load ol = component ol"
      using outlet_await [OF assms(1)] c ct by (simp_all add: content_ok_def)
    then obtain b k where b: "blocks e = [(b, k)]" "block_ok b k"
      "branch_ok R (component ol) (cur_props ol) (waiting ol) e b k" "component ol \<noteq> NoComponent"
      by (auto simp: await_ok_def)
    have "b \<noteq> ThenBranch \<Longrightarrow> k = EmptyBlock" using b(2) by (cases k) auto
    with b cur ct AwaitContent show ?thesis
      by (cases b; cases "component ol") (auto simp: route_displays_def branch_ok_def)
  qed
qed

text \<open>
  Claim C14: whatever routes are created and removed, wherever the user goes and in whatever order the
  promises of components settle_promise, the page shows exactly the route that is picked for the current
  location and nothing of any other route, unless an update of the router failed; none does while no
  address has an escape. The component shown is the one that the route was given last, with the
  parameters of the location and the attributes of the route as its properties.
\<close>

theorem pages_follow_location:
  fixes is_class :: "nat \<Rightarrow> bool" and load :: "nat \<Rightarrow> nat \<Rightarrow> js_component" and b u :: jsstr
  assumes "list_all object_event es"
  defines "s \<equiv> run_events (routed_step is_class load) (routed_init b u) es"
  shows "(\<not> update_failed (nav s) \<longrightarrow>
      pick (routes (nav s)) (location (nav s)) = Inr (active (nav s)) \<and>
      (case active (nav s) of
         None \<Rightarrow> \<forall>ol \<in> set (outlets s). content ol = None
       | Some m \<Rightarrow> \<exists>xs ol ys. outlets s = xs @ ol # ys \<and> route_id ol = route_key (route m) \<and>
           route_displays is_class load (settled_by es) m ol \<and>
           (\<forall>x \<in> set xs \<union> set ys. content x = None))) \<and>
    (0x25 \<notin> set u \<and> list_all plain_page_event es \<longrightarrow> \<not> update_failed (nav s))"
proof -
  have "routed_page_ok is_class load (settled_by es) s"
    unfolding s_def using routed_run_ok [OF routed_init_ok assms(1)] by simp
  then have ok: "\<forall>ol \<in> set (outlets s). outlet_ok is_class load (settled_by es) (active (nav s)) ol"
    and ids: "map route_id (outlets s) = map route_key (routes (nav s))" "distinct (map route_key (routes (nav s)))"
    and st: "settled (nav s)" by (simp_all add: routed_page_ok_def page_pre_def)
  have off: "content ol = None" if "ol \<in> set (outlets s)" "\<not> is_active (active (nav s)) ol" for ol
    using ok that by (auto simp: outlet_ok_def content_ok_def split: option.splits)
  have "case active (nav s) of
         None \<Rightarrow> \<forall>ol \<in> set (outlets s). content ol = None
       | Some m \<Rightarrow> \<exists>xs ol ys. outlets s = xs @ ol # ys \<and> route_id ol = route_key (route m) \<and>
           route_displays is_class load (settled_by es) m ol \<and> (\<forall>x \<in> set xs \<union> set ys. content x = None)"
    if f: "\<not> update_failed (nav s)"
  proof (cases "active (nav s)")
    case None
    then show ?thesis using off by (simp add: is_active_def)
  next
    case (Some m)
    then have "route m \<in> set (routes (nav s))" using f st pick_result by (simp add: settled_def)
    then have "route_key (route m) \<in> set (map route_id (outlets s))" by (simp add: ids(1))
    then obtain ol where ol: "ol \<in> set (outlets s)" "route_id ol = route_key (route m)" by auto
    then obtain xs ys where l: "outlets s = xs @ ol # ys" by (auto dest: split_list)
    have "distinct (map route_id (outlets s))" using ids by simp
    then have "\<forall>x \<in> set xs \<union> set ys. route_id x \<noteq> route_id ol"
      by (simp add: l) (metis Un_iff imageI)
    then have "\<forall>x \<in> set xs \<union> set ys. content x = None"
      using off Some ol(2) by (simp add: is_active_def l) (metis Un_iff)
    moreover have "route_displays is_class load (settled_by es) m ol"
      using ok ol Some by (intro outlet_displays) (auto simp: is_active_def)
    ultimately show ?thesis using l ol(2) Some by auto
  qed
  moreover have "\<not> update_failed (nav s)" if "0x25 \<notin> set u" "list_all plain_page_event es"
    unfolding s_def by (rule plain_pages [OF that])
  ultimately show ?thesis using st by (simp add: settled_def)
qed

text \<open>Two routes, one with a class and one with a loader; a second promise overtakes the first.\<close>

definition sample_visit :: "routed_event list" where
  "sample_visit =
     [MountRoutes [(js ''/logs'', Some 0, []), (js ''/:page'', Some 1, [(js ''title'', Num 7)])],
      Goto False (js ''/first''), Goto False (js ''/second''),
      Settled 1 (Inr (Module 5)), Settled 0 (Inr (Module 4))]"

theorem pages_follow_location_witness:
  "let s = run_events (routed_step (\<lambda>f. f = 0) (\<lambda>f. Promise)) (routed_init (js ''/'') (js ''/logs'')) sample_visit
   in pick (routes (nav s)) (location (nav s)) = Inr (active (nav s)) \<and>
      (case active (nav s) of
         None \<Rightarrow> \<forall>ol \<in> set (outlets s). content ol = None
       | Some m \<Rightarrow> \<exists>xs ol ys. outlets s = xs @ ol # ys \<and> route_id ol = route_key (route m) \<and>
           route_displays (\<lambda>f. f = 0) (\<lambda>f. Promise) (settled_by sample_visit) m ol \<and>
           (\<forall>x \<in> set xs \<union> set ys. content x = None))"
proof -
  have o: "list_all object_event sample_visit" and p: "list_all plain_page_event sample_visit"
    by (simp_all add: sample_visit_def js_Cons)
  from pages_follow_location [OF o, of "\<lambda>f. f = 0" "\<lambda>f. Promise" "js ''/''" "js ''/logs''"] p logs_plain
  show ?thesis unfolding Let_def by (simp only: simp_thms)
qed

section \<open>Staying on a route\<close>

text \<open>The instance of a component that a route has on the page.\<close>

definition shown_page :: "outlet \<Rightarrow> page_instance option" where
  "shown_page ol =
     (case content ol of
        Some (AwaitContent e) \<Rightarrow> (case blocks e of [(b, ComponentBlock lv inst)] \<Rightarrow> inst | _ \<Rightarrow> None)
      | _ \<Rightarrow> None)"

lemma class_page_kept:
  assumes "outlet_ok is_class load R a ol" and "is_active a ol" and "is_active m ol"
    and "component_prop ol = Some f" and "is_class f"
  shows "\<exists>i j. shown_page ol = Some i \<and> shown_page (outlet_flush is_class load m ol) = Some j \<and>
    inst_key j = inst_key i \<and> inst_class j = f"
proof -
  let ?n = "update_route is_class load m ol"
  have c: "content_ok is_class load R a ol" using assms(1) by (simp add: outlet_ok_def)
  have "component ol = Callable f" "content ol \<noteq> Some SlotContent" "content ol \<noteq> None"
    using c assms(2,4,5) by (auto simp: content_ok_def given_component_def split: option.splits)
  then obtain e where e: "content ol = Some (AwaitContent e)" "component ol = Callable f"
    by (metis not_Some_eq route_content.exhaust)
  have "await_ok R (Callable f) (cur_props ol) (waiting ol) e"
    using outlet_await [OF assms(1) e(1)] e(2) by simp
  then obtain k b where k: "blocks e = [(b, k)]" "branch e = Some b" "awaited e = Callable f"
    "branch_ok R (Callable f) (cur_props ol) (waiting ol) e b k"
    by (auto simp: await_ok_def)
  then have b: "b = ThenBranch" "resolved e = Callable f" "shows_value (Callable f) (cur_props ol) k"
    by (cases b; simp add: branch_ok_def)+
  then obtain lv i where i: "k = ComponentBlock lv (Some i)" "inst_class i = f" by (cases k) auto
  have n: "component ?n = Callable f" "content ?n = content ol" "is_active m ?n"
    using route_update_active(2) [OF assms(3), of is_class load] assms
    by (auto simp: outlet_ok_def given_component_def)
  then have "patch_route m ?n = (with_await (patch_branch (e, ?n)))\<lparr>component_marked := False\<rparr>"
    using e k by (simp add: patch_route_def patch_content_def patch_await_def)
  with k b i e show ?thesis
    by (simp add: outlet_flush_def shown_page_def patch_branch_def patch_then_def Let_def with_await_def)
qed

text \<open>
  Going from an address to another one of the same route keeps the page, with its state, if the route
  has a component class.
\<close>

theorem same_route_keeps_page:
  fixes is_class :: "nat \<Rightarrow> bool" and load :: "nat \<Rightarrow> nat \<Rightarrow> js_component" and b u to :: jsstr and rep :: bool
  assumes "list_all object_event es"
  defines "s \<equiv> run_events (routed_step is_class load) (routed_init b u) es"
  defines "t \<equiv> routed_step is_class load s (Goto rep to)"
  assumes "\<not> update_failed (nav t)" and "k < length (outlets s)"
    and "is_active (active (nav s)) (outlets s ! k)" and "is_active (active (nav t)) (outlets s ! k)"
    and "component_prop (outlets s ! k) = Some f" and "is_class f"
  shows "\<exists>i j. shown_page (outlets s ! k) = Some i \<and> shown_page (outlets t ! k) = Some j \<and>
    inst_key j = inst_key i \<and> inst_class j = f"
proof -
  have "routed_page_ok is_class load (settled_by es) s"
    unfolding s_def using routed_run_ok [OF routed_init_ok assms(1)] by simp
  then have ok: "outlet_ok is_class load (settled_by es) (active (nav s)) (outlets s ! k)"
    using assms(5) by (simp add: routed_page_ok_def page_pre_def)
  have "active (nav s) \<noteq> None" using assms(6) by (auto simp: is_active_def split: option.splits)
  moreover have "active (navigate rep to (nav s)) = active (nav s)"
    by (simp add: navigate_def notify_location_def)
  ultimately have "outlets t ! k = outlet_flush is_class load (active (nav t)) (outlets s ! k)"
    using assms(4,5) by (auto simp: t_def refresh_routes_def Let_def)
  with class_page_kept [OF ok assms(6-9)] show ?thesis by simp
qed

end
