(* ===== verification/Start_Page.thy ===== *)
theory Start_Page
  imports Ui_Base
begin

text \<open>
  Two components that load a value when they are created: the header of the application
  (\<open>ui/src/components/globalheader.svelte\<close>) with the version of the server, and the start page
  (\<open>ui/src/routes/home/home.svelte\<close>) with the address of the proxy and two dialogs
  (\<open>ui/src/components/modal.svelte\<close>). The header reads a property of whatever the call gave, the
  start page tests it first.
\<close>

declare js_Cons [simp del]

section \<open>Header\<close>

record global_header =
  version :: jsval
  header_calls :: nat
  rejections :: "js_exn list"
  ui :: ui

definition header_mount :: "ui \<Rightarrow> global_header" where
  "header_mount u =
     \<lparr>version = Str [], header_calls = 1, rejections = [],
      ui = ui_call (doCall (js ''/about'') (js ''get'') (Obj []) []) u\<rparr>"

text \<open>An exception after the \<open>await\<close> is a rejection that nobody handles.\<close>

definition header_settled :: "reply \<Rightarrow> global_header \<Rightarrow> global_header" where
  "header_settled r s =
     (if header_calls s = 0 then s
      else case ui_settle doCall_settled r (ui s) of
             (u, v) \<Rightarrow>
               (let s = s\<lparr>ui := u, header_calls := header_calls s - 1\<rparr>
                in case bind_exn v (\<lambda>data. prop_of data (js ''version'')) of
                     Inl err \<Rightarrow> s\<lparr>rejections := rejections s @ [err]\<rparr>
                   | Inr x \<Rightarrow> s\<lparr>version := x\<rparr>))"

section \<open>Start page\<close>

datatype dialog = ForComputer | ForPhone

record start_page =
  server_url :: jsval
  modalOpenComputer :: bool
  modalOpenPhone :: bool
  status_calls :: nat
  start_ui :: ui

definition start_mount :: "ui \<Rightarrow> start_page" where
  "start_mount u =
     \<lparr>server_url = Str [], modalOpenComputer = False, modalOpenPhone = False, status_calls = 1,
      start_ui = ui_call (doCall (js ''/status'') (js ''get'') (Obj []) []) u\<rparr>"

definition status_settled :: "reply \<Rightarrow> start_page \<Rightarrow> start_page" where
  "status_settled r s =
     (if status_calls s = 0 then s
      else case ui_settle doCall_settled r (start_ui s) of
             (u, v) \<Rightarrow>
               (let s = s\<lparr>start_ui := u, status_calls := status_calls s - 1\<rparr>
                in case v of
                     Inl err \<Rightarrow> s
                   | Inr json \<Rightarrow>
                       if truthy_val json
                       then (case prop_of json (js ''server_url'') of Inr x \<Rightarrow> s\<lparr>server_url := x\<rparr> | Inl err \<Rightarrow> s)
                       else s))"

text \<open>A dialog is in the page while it is open; closing it writes the bound variable.\<close>

definition set_dialog :: "dialog \<Rightarrow> bool \<Rightarrow> start_page \<Rightarrow> start_page" where
  "set_dialog d b s =
     (case d of ForComputer \<Rightarrow> s\<lparr>modalOpenComputer := b\<rparr> | ForPhone \<Rightarrow> s\<lparr>modalOpenPhone := b\<rparr>)"

definition dialog_open :: "start_page \<Rightarrow> dialog \<Rightarrow> bool" where
  "dialog_open s d = (case d of ForComputer \<Rightarrow> modalOpenComputer s | ForPhone \<Rightarrow> modalOpenPhone s)"

definition dialogs_shown :: "start_page \<Rightarrow> dialog list" where
  "dialogs_shown s = filter (dialog_open s) [ForComputer, ForPhone]"

datatype start_event = OpenClick dialog | CloseDialog dialog | StatusSettled reply

fun start_step :: "start_page \<Rightarrow> start_event \<Rightarrow> start_page" where
  "start_step s (OpenClick d) = set_dialog d True s"
| "start_step s (CloseDialog d) = (if dialog_open s d then set_dialog d False s else s)"
| "start_step s (StatusSettled r) = status_settled r s"

section \<open>What they show\<close>

lemma header_version:
  "version (header_settled (Reply st b) (header_mount u)) =
     (case b of Some (Obj m) \<Rightarrow> if st = 200 then get_prop m (js ''version'') else Str [] |
        Some v \<Rightarrow> if st = 200 \<and> \<not> nullish v then Undef else Str [] | None \<Rightarrow> Str [])"
  by (auto simp: header_settled_def header_mount_def ui_settle_def doCall_settled_def nullish_def Let_def
      split: prod.splits option.splits jsval.splits)

lemma header_unhandled:
  "st \<noteq> 200 \<Longrightarrow> rejections (header_settled (Reply st b) (header_mount u)) = [TypeError]"
  by (auto simp: header_settled_def header_mount_def ui_settle_def doCall_settled_def Let_def
      split: prod.splits)

text \<open>The address is empty or what a truthy answer has for it, whatever dialogs are opened.\<close>

definition url_ok :: "start_page \<Rightarrow> bool" where
  "url_ok s \<longleftrightarrow>
     server_url s = Str [] \<or> (\<exists>json. truthy_val json \<and> prop_of json (js ''server_url'') = Inr (server_url s))"

lemma url_ok_step: "url_ok s \<Longrightarrow> url_ok (start_step s e)"
  by (cases e)
    (auto simp: url_ok_def set_dialog_def status_settled_def Let_def
      split: dialog.splits sum.splits prod.splits)

interpretation start_machine: event_machine "start_mount u" start_step url_ok for u
  by unfold_locales (simp_all add: url_ok_step, simp add: url_ok_def start_mount_def)

lemma start_page_url: "url_ok (run_events start_step (start_mount u) es)"
  by (rule start_machine.inv_run)

lemma dialogs_independent:
  "d \<noteq> d' \<Longrightarrow> dialog_open (start_step s (OpenClick d)) d' = dialog_open s d'"
  "d \<noteq> d' \<Longrightarrow> dialog_open (start_step s (CloseDialog d)) d' = dialog_open s d'"
  by (cases d; cases d'; simp add: set_dialog_def dialog_open_def)+

end
