(* ===== verification/Svelte_Flush_Correct.thy ===== *)
theory Svelte_Flush_Correct
  imports Svelte_Flush
begin

text \<open>
  The scheduler settles: its loops end for components of the ordinary shape, and then every
  component that exists shows its variables. The queue and the masks satisfy an invariant that
  every action keeps; the loops end because components that wait are followed by later ones only,
  components go away once, and each callback after an update is called once in a flush.
\<close>

section \<open>What the queue and the masks know\<close>

definition bit_of :: "mask \<Rightarrow> nat \<Rightarrow> bool" where
  "bit_of m i = bit (m (i div 31)) (i mod 31)"

definition marked :: "component \<Rightarrow> nat \<Rightarrow> bool" where
  "marked k i \<longleftrightarrow> \<not> is_clean (dirty k) \<and> bit_of (dirty k) i"

definition waiting :: "scheduler \<Rightarrow> nat list" where
  "waiting s = drop (flushidx s) (dirty_components s)"

text \<open>
  A component is clean or has a mask that no marking turns into the clean one; it is marked
  exactly while it waits; and where it shows an old value, the variable is marked. \<open>X\<close> are
  components that are being updated and \<open>E\<close> variables that are about to be shown.
\<close>

definition comp_ok :: "nat list \<Rightarrow> nat set \<Rightarrow> (nat \<times> nat) set \<Rightarrow> nat \<Rightarrow> component \<Rightarrow> bool" where
  "comp_ok q X E c k \<longleftrightarrow>
     (is_clean (dirty k) \<or> \<not> bit (dirty k 0) 31) \<and>
     (c \<in> set q \<or> c \<in> X \<longrightarrow> \<not> is_clean (dirty k)) \<and>
     (fragment k \<and> \<not> is_clean (dirty k) \<longrightarrow> c \<in> set q \<or> c \<in> X) \<and>
     (fragment k \<longrightarrow> (\<forall>i. shown k i = ctx k i \<or> (c, i) \<in> E \<or> marked k i))"

definition marks_ok :: "nat \<Rightarrow> nat set \<Rightarrow> (nat \<times> nat) set \<Rightarrow> scheduler \<Rightarrow> bool" where
  "marks_ok n X E s \<longleftrightarrow>
     flushidx s \<le> length (dirty_components s) \<and> distinct (waiting s) \<and> set (waiting s) \<subseteq> {..<n} \<and>
     (\<forall>c. comp_ok (waiting s) X E c (comps s c))"

text \<open>Callbacks below \<open>m\<close> are called for bindings and after updates, those from \<open>m\<close> on after a flush.\<close>

definition callbacks_ok :: "nat \<Rightarrow> scheduler \<Rightarrow> bool" where
  "callbacks_ok m s \<longleftrightarrow>
     set (binding_callbacks s) \<subseteq> {..<m} \<and> set (render_callbacks s) \<subseteq> {..<m} \<and>
     set (flush_callbacks s) \<subseteq> {m..} \<and> (\<forall>c. set (after_update (comps s c)) \<subseteq> {..<m})"

definition sched_ok :: "nat \<Rightarrow> nat \<Rightarrow> nat set \<Rightarrow> (nat \<times> nat) set \<Rightarrow> scheduler \<Rightarrow> bool" where
  "sched_ok n m X E s \<longleftrightarrow> marks_ok n X E s \<and> callbacks_ok m s"

lemma not_clean: "\<not> bit (m 0) 31 \<Longrightarrow> \<not> is_clean m"
  by (auto simp: is_clean_def)

lemma bit_31_with_bit: "bit (with_bit i m 0) 31 = bit (m 0) 31"
proof -
  have "i mod 31 < 31" by simp
  then have "\<not> bit (push_bit (i mod 31) (1 :: 32 word)) 31" by (simp add: bit_simps)
  then show ?thesis by (auto simp: with_bit_def bit_or_iff)
qed

lemma bit_of_with_bit: "bit_of (with_bit i m) j \<longleftrightarrow> bit_of m j \<or> j = i"
proof -
  have less: "j mod 31 < 31" "i mod 31 < 31" by simp_all
  have "j mod 31 = i mod 31 \<Longrightarrow> j div 31 = i div 31 \<Longrightarrow> j = i" by (metis div_mult_mod_eq)
  moreover have "bit (push_bit (i mod 31) (1 :: 32 word)) (j mod 31) \<longleftrightarrow> j mod 31 = i mod 31"
    using less by (auto simp: bit_simps)
  ultimately show ?thesis by (auto simp: bit_of_def with_bit_def bit_simps)
qed

lemma invalidate_frame [simp]:
  "fragment (comps (invalidate c i v s) d) = fragment (comps s d)"
  "after_update (comps (invalidate c i v s) d) = after_update (comps s d)"
  "flushidx (invalidate c i v s) = flushidx s"
  "binding_callbacks (invalidate c i v s) = binding_callbacks s"
  "render_callbacks (invalidate c i v s) = render_callbacks s"
  "flush_callbacks (invalidate c i v s) = flush_callbacks s"
  "seen_callbacks (invalidate c i v s) = seen_callbacks s"
  by (simp_all add: invalidate_def make_dirty_def on_comp_def schedule_update_def Let_def)

lemma invalidate_same: "\<not> safe_not_equal (ctx (comps s c) i) v \<Longrightarrow> invalidate c i v s = s"
proof -
  assume "\<not> safe_not_equal (ctx (comps s c) i) v"
  moreover from safe_equal [OF this] have "(ctx (comps s c))(i := v) = ctx (comps s c)" by auto
  ultimately show ?thesis by (simp add: invalidate_def on_comp_def Let_def)
qed

lemma invalidate_comps:
  assumes "safe_not_equal (ctx (comps s c) i) v"
  shows "comps (invalidate c i v s) =
    (comps s)(c := (comps s c)\<lparr>ctx := (ctx (comps s c))(i := v), dirty :=
      with_bit i (if is_clean (dirty (comps s c)) then (\<lambda>j. 0) else dirty (comps s c))\<rparr>)"
  using assms
  by (auto simp: invalidate_def make_dirty_def on_comp_def schedule_update_def Let_def fun_eq_iff)

lemma invalidate_queue:
  assumes "safe_not_equal (ctx (comps s c) i) v"
  shows "dirty_components (invalidate c i v s) =
    dirty_components s @ (if is_clean (dirty (comps s c)) then [c] else [])"
  using assms by (simp add: invalidate_def make_dirty_def on_comp_def schedule_update_def Let_def)

lemma comp_ok_marked:
  assumes "comp_ok q X E c k" and "is_clean (dirty k) \<Longrightarrow> c \<in> set q'" and "set q' \<subseteq> insert c (set q)"
    and "set q \<subseteq> set q'"
  shows "comp_ok q' X E c (k\<lparr>ctx := (ctx k)(i := v), dirty :=
    with_bit i (if is_clean (dirty k) then (\<lambda>j. 0) else dirty k)\<rparr>)"
proof -
  let ?m = "if is_clean (dirty k) then (\<lambda>j. 0) else dirty k"
  have b: "\<not> bit (?m 0) 31" using assms(1) by (auto simp: comp_ok_def)
  then have "\<not> is_clean (with_bit i ?m)" by (intro not_clean) (simp add: bit_31_with_bit)
  with b assms show ?thesis
    by (auto simp: comp_ok_def marked_def bit_31_with_bit bit_of_with_bit)
qed

lemma comp_ok_other:
  assumes "comp_ok q X E d k" and "d \<in> set q' \<longleftrightarrow> d \<in> set q"
  shows "comp_ok q' X E d k"
  using assms by (simp add: comp_ok_def)

lemma marks_ok_invalidate:
  assumes "marks_ok n X E s" and "c < n"
  shows "marks_ok n X E (invalidate c i v s)"
proof (cases "safe_not_equal (ctx (comps s c) i) v")
  case True
  let ?q = "if is_clean (dirty (comps s c)) then [c] else []"
  let ?s = "invalidate c i v s"
  have ok: "flushidx s \<le> length (dirty_components s)" "distinct (waiting s)" "set (waiting s) \<subseteq> {..<n}"
    "\<And>d. comp_ok (waiting s) X E d (comps s d)" using assms(1) by (simp_all add: marks_ok_def)
  have w: "waiting ?s = waiting s @ ?q" using ok(1) True by (simp add: waiting_def invalidate_queue)
  have "is_clean (dirty (comps s c)) \<Longrightarrow> c \<notin> set (waiting s)" using ok(4) [of c] by (auto simp: comp_ok_def)
  then have "distinct (waiting ?s)" "set (waiting ?s) \<subseteq> {..<n}" using ok assms(2) by (auto simp: w)
  moreover have "comp_ok (waiting ?s) X E d (comps ?s d)" for d
  proof (cases "d = c")
    case True
    have "comp_ok (waiting ?s) X E c (comps ?s c)"
      unfolding invalidate_comps [OF \<open>safe_not_equal (ctx (comps s c) i) v\<close>] fun_upd_same
      by (rule comp_ok_marked [OF ok(4)]) (auto simp: w)
    then show ?thesis by (simp add: True)
  next
    case False
    with comp_ok_other [OF ok(4), of d "waiting ?s"] show ?thesis by (simp add: w invalidate_comps [OF True])
  qed
  moreover have "flushidx ?s \<le> length (dirty_components ?s)" using ok(1) by (simp add: invalidate_queue [OF True])
  ultimately show ?thesis by (simp add: marks_ok_def)
qed (simp add: invalidate_same assms(1))

section \<open>Components that behave\<close>

definition calm_act :: "nat \<Rightarrow> nat \<Rightarrow> act \<Rightarrow> bool" where
  "calm_act n m a =
     (case a of
        Invalidate d i v \<Rightarrow> d < n
      | AddBinding b \<Rightarrow> False
      | AddRender b \<Rightarrow> b < m
      | AddFlush b \<Rightarrow> m \<le> b
      | Tick \<Rightarrow> True
      | Raise \<Rightarrow> False)"

text \<open>A component assigns itself or its children, which have later numbers.\<close>

definition downward :: "nat \<Rightarrow> act \<Rightarrow> bool" where
  "downward c a = (case a of Invalidate d i v \<Rightarrow> c < d | _ \<Rightarrow> True)"

definition calm_paint :: "nat \<Rightarrow> nat \<Rightarrow> nat \<Rightarrow> paint_act \<Rightarrow> bool" where
  "calm_paint n m c p =
     (case p of Do a \<Rightarrow> calm_act n m a \<and> downward c a | Show i \<Rightarrow> True | Destroy d \<Rightarrow> d < n)"

text \<open>
  The shape of code with at most \<open>w\<close> variables in a component: no exceptions, reactive statements
  assign the component and its children, painting shows every marked variable and assigns children only, callbacks may assign anything,
  and those after a flush do nothing to components.
\<close>

definition calm_code :: "nat \<Rightarrow> nat \<Rightarrow> nat \<Rightarrow> code \<Rightarrow> bool" where
  "calm_code n m w app \<longleftrightarrow>
     (\<forall>c vs k. \<forall>a \<in> set (reactive app c vs k). calm_act n m a \<and> (downward c a \<or> (\<exists>i v. a = Invalidate c i v))) \<and>
     (\<forall>c vs k. (\<forall>p \<in> set (paint app c vs k). calm_paint n m c p) \<and>
        (\<forall>i < w. bit_of k i \<longrightarrow> Show i \<in> set (paint app c vs k))) \<and>
     (\<forall>b vs. b < m \<longrightarrow> (\<forall>a \<in> set (callback app b vs). calm_act n m a)) \<and>
     (\<forall>b vs. m \<le> b \<longrightarrow> callback app b vs = []) \<and>
     (\<forall>c vs. \<forall>a \<in> set (on_destroy app c vs). calm_act n m a)"

definition live_count :: "nat \<Rightarrow> scheduler \<Rightarrow> nat" where
  "live_count n s = card {c. c < n \<and> fragment (comps s c)}"

text \<open>
  What actions leave alone, and what they add to the queue: components in \<open>D\<close>, unless a component
  went away.
\<close>

definition leads :: "nat \<Rightarrow> nat set \<Rightarrow> scheduler \<Rightarrow> scheduler \<Rightarrow> bool" where
  "leads n D s t \<longleftrightarrow>
     flushidx t = flushidx s \<and> binding_callbacks t = binding_callbacks s \<and>
     seen_callbacks t = seen_callbacks s \<and> live_count n t \<le> live_count n s \<and>
     (\<exists>q. dirty_components t = dirty_components s @ q \<and> (live_count n t < live_count n s \<or> set q \<subseteq> D))"

lemma leads_refl: "leads n D s s"
  by (simp add: leads_def)

lemma leads_mono: "leads n D s t \<Longrightarrow> D \<subseteq> D' \<Longrightarrow> leads n D' s t"
  by (auto simp: leads_def)

lemma leads_trans:
  assumes "leads n D s t" and "leads n D t u"
  shows "leads n D s u"
proof -
  obtain q where q: "dirty_components t = dirty_components s @ q" "live_count n t < live_count n s \<or> set q \<subseteq> D"
    using assms(1) by (auto simp: leads_def)
  obtain r where r: "dirty_components u = dirty_components t @ r" "live_count n u < live_count n t \<or> set r \<subseteq> D"
    using assms(2) by (auto simp: leads_def)
  have "dirty_components u = dirty_components s @ (q @ r)" using q(1) r(1) by simp
  moreover have "live_count n u < live_count n s \<or> set (q @ r) \<subseteq> D"
    using q(2) r(2) assms by (auto simp: leads_def)
  ultimately show ?thesis using assms unfolding leads_def by (metis (no_types, lifting) le_trans)
qed

lemma good_fields [simp]:
  "sched_ok n m X E (s\<lparr>seen_callbacks := bs\<rparr>) = sched_ok n m X E s"
  "sched_ok n m X E (s\<lparr>microtasks := k\<rparr>) = sched_ok n m X E s"
  "sched_ok n m X E (s\<lparr>update_scheduled := b\<rparr>) = sched_ok n m X E s"
  by (simp_all add: sched_ok_def marks_ok_def callbacks_ok_def waiting_def)

lemma good_render: "sched_ok n m X E s \<Longrightarrow> set bs \<subseteq> {..<m} \<Longrightarrow> sched_ok n m X E (s\<lparr>render_callbacks := bs\<rparr>)"
  and good_binding: "sched_ok n m X E s \<Longrightarrow> set bs \<subseteq> {..<m} \<Longrightarrow> sched_ok n m X E (s\<lparr>binding_callbacks := bs\<rparr>)"
  and good_flush: "sched_ok n m X E s \<Longrightarrow> set bs \<subseteq> {m..} \<Longrightarrow> sched_ok n m X E (s\<lparr>flush_callbacks := bs\<rparr>)"
  by (simp_all add: sched_ok_def marks_ok_def callbacks_ok_def waiting_def)

lemma good_do_act:
  assumes "sched_ok n m X E s" and "calm_act n m a"
  shows "sched_ok n m X E (do_act a s)"
proof (cases a)
  case (Invalidate c i v)
  with assms show ?thesis
    by (simp add: sched_ok_def calm_act_def marks_ok_invalidate) (simp add: callbacks_ok_def)
next
  case Tick
  with assms show ?thesis by (simp add: schedule_update_def sched_ok_def marks_ok_def callbacks_ok_def waiting_def)
qed (use assms in \<open>auto simp: calm_act_def sched_ok_def marks_ok_def callbacks_ok_def waiting_def\<close>)

lemma leads_do_act:
  assumes "sched_ok n m X E s" and "calm_act n m a" and "\<And>d i v. a = Invalidate d i v \<Longrightarrow> d \<in> D \<or> d \<in> X"
  shows "leads n D s (do_act a s)"
proof (cases a)
  case (Invalidate c i v)
  show ?thesis
  proof (cases "safe_not_equal (ctx (comps s c) i) v")
    case True
    have "c \<in> X \<Longrightarrow> \<not> is_clean (dirty (comps s c))"
      using assms(1) by (auto simp: sched_ok_def marks_ok_def comp_ok_def)
    then show ?thesis using assms(3) Invalidate
      by (auto simp: leads_def live_count_def invalidate_queue [OF True])
  qed (simp add: Invalidate invalidate_same leads_refl)
qed (use assms in \<open>auto simp: calm_act_def leads_def live_count_def schedule_update_def\<close>)

lemma run_acts_good:
  assumes "sched_ok n m X E s" and "\<forall>a \<in> set as. calm_act n m a"
    and "\<forall>a \<in> set as. \<forall>d i v. a = Invalidate d i v \<longrightarrow> d \<in> D \<or> d \<in> X"
  shows "\<exists>t. run_acts as s = (t, False) \<and> sched_ok n m X E t \<and> leads n D s t \<and>
    (\<forall>c. fragment (comps t c) = fragment (comps s c))"
  using assms
proof (induction as arbitrary: s)
  case (Cons a as)
  have a: "calm_act n m a" "\<And>d i v. a = Invalidate d i v \<Longrightarrow> d \<in> D \<or> d \<in> X" using Cons.prems by auto
  have g: "sched_ok n m X E (do_act a s)" and l: "leads n D s (do_act a s)"
    using good_do_act [OF Cons.prems(1) a(1)] leads_do_act [OF Cons.prems(1) a] by auto
  have f: "fragment (comps (do_act a s) c) = fragment (comps s c)" for c
    by (cases a) (simp_all add: schedule_update_def)
  obtain t where "run_acts as (do_act a s) = (t, False)" "sched_ok n m X E t" "leads n D (do_act a s) t"
    "\<forall>c. fragment (comps t c) = fragment (comps (do_act a s) c)"
    using Cons.IH [OF g] Cons.prems(2,3) by auto
  moreover have "a \<noteq> Raise" using a(1) by (auto simp: calm_act_def)
  ultimately show ?case using leads_trans [OF l] by (simp add: f)
qed (simp add: leads_refl)

lemma call_good:
  assumes "calm_code n m w app" and "sched_ok n m X E s" and "b < m"
  shows "\<exists>t. call app b s = (t, False) \<and> sched_ok n m X E t \<and> leads n UNIV s t \<and>
    (\<forall>c. fragment (comps t c) = fragment (comps s c))"
  unfolding call_def
  by (rule run_acts_good [OF assms(2)]) (use assms(1,3) in \<open>auto simp: calm_code_def\<close>)

lemma call_all_good:
  assumes "calm_code n m w app" and "sched_ok n m X E s" and "set bs \<subseteq> {..<m}"
  shows "\<exists>t. call_all app bs s = (t, False) \<and> sched_ok n m X E t \<and> leads n UNIV s t \<and>
    (\<forall>c. fragment (comps t c) = fragment (comps s c))"
  using assms(2,3)
proof (induction bs arbitrary: s)
  case (Cons b bs)
  obtain t where t: "call app b s = (t, False)" "sched_ok n m X E t" "leads n UNIV s t"
    "\<forall>c. fragment (comps t c) = fragment (comps s c)"
    using call_good [OF assms(1) Cons.prems(1), of b] Cons.prems(2) by auto
  obtain u where u: "call_all app bs t = (u, False)" "sched_ok n m X E u" "leads n UNIV t u"
    "\<forall>c. fragment (comps u c) = fragment (comps t c)"
    using Cons.IH [OF t(2)] Cons.prems(2) by auto
  show ?case using t u leads_trans [OF t(3) u(3)] by simp
qed (simp add: leads_refl)

lemma leads_render [simp]: "leads n D s (t\<lparr>render_callbacks := bs\<rparr>) = leads n D s t"
  by (simp add: leads_def live_count_def)

lemma leads_on_comp:
  assumes "\<And>k. fragment (f k) = fragment k"
  shows "leads n D s (on_comp c f s)"
proof -
  have "{d. d < n \<and> fragment (comps (on_comp c f s) d)} = {d. d < n \<and> fragment (comps s d)}"
    by (auto simp: on_comp_def assms)
  then show ?thesis by (simp add: leads_def live_count_def) (simp add: on_comp_def)
qed

lemma good_destroyed:
  "sched_ok n m X E s \<Longrightarrow> sched_ok n m X E (on_comp c (\<lambda>k. k\<lparr>fragment := False, ctx := f\<rparr>) s)"
  by (auto simp: sched_ok_def marks_ok_def callbacks_ok_def waiting_def comp_ok_def on_comp_def)

lemma live_count_destroyed:
  assumes "c < n" and "fragment (comps s c)"
  shows "live_count n (on_comp c (\<lambda>k. k\<lparr>fragment := False, ctx := f\<rparr>) s) < live_count n s"
  unfolding live_count_def
  by (rule psubset_card_mono) (use assms in \<open>auto simp: on_comp_def split: if_splits\<close>)

lemma destroy_good:
  assumes "calm_code n m w app" and "sched_ok n m X E s" and "d < n"
  shows "\<exists>t. destroy_component app d s = (t, False) \<and> sched_ok n m X E t \<and> leads n {} s t"
proof (cases "fragment (comps s d)")
  case True
  let ?f = "after_update (comps s d)"
  have bs: "set (render_callbacks s) \<subseteq> {..<m}" using assms(2) by (simp add: sched_ok_def callbacks_ok_def)
  then obtain t where t: "call_all app (filter (\<lambda>b. b \<in> set ?f) (render_callbacks s)) s = (t, False)"
    "sched_ok n m X E t" "leads n UNIV s t" "\<forall>c. fragment (comps t c) = fragment (comps s c)"
    using call_all_good [OF assms(1,2), of "filter (\<lambda>b. b \<in> set ?f) (render_callbacks s)"] by auto
  let ?t = "t\<lparr>render_callbacks := filter (\<lambda>b. b \<notin> set ?f) (render_callbacks s)\<rparr>"
  have "sched_ok n m X E ?t" by (rule good_render [OF t(2)]) (use bs in auto)
  from run_acts_good [OF this, of "on_destroy app d (views_of ?t)" UNIV] assms(1)
  obtain u where u: "run_acts (on_destroy app d (views_of ?t)) ?t = (u, False)" "sched_ok n m X E u"
    "leads n UNIV ?t u" "\<forall>c. fragment (comps u c) = fragment (comps ?t c)"
    by (auto simp: calm_code_def)
  let ?u = "on_comp d (\<lambda>k. k\<lparr>fragment := False, ctx := (\<lambda>i. Undef)\<rparr>) u"
  have "leads n UNIV s ?t" using t(3) by simp
  from leads_trans [OF this u(3)] have su: "leads n UNIV s u" .
  have "live_count n ?u < live_count n u"
    by (rule live_count_destroyed [OF assms(3)]) (use True t(4) u(4) in simp)
  then have "leads n {} s ?u" using su by (auto simp: leads_def on_comp_def)
  moreover have "destroy_component app d s = (?u, False)"
    using True t(1) u(1) by (simp add: destroy_component_def flush_render_callbacks_def Let_def)
  ultimately show ?thesis using good_destroyed [OF u(2)] by blast
qed (simp add: destroy_component_def assms(2) leads_refl)

lemma good_show:
  assumes "sched_ok n m X E s"
  shows "sched_ok n m X (E - {(c, i)}) (on_comp c (\<lambda>k. k\<lparr>shown := (shown k)(i := ctx k i)\<rparr>) s)"
  using assms by (auto simp: sched_ok_def marks_ok_def callbacks_ok_def waiting_def comp_ok_def on_comp_def marked_def)

lemma run_paint_good:
  assumes "calm_code n m w app" and "sched_ok n m {} E s" and "\<forall>p \<in> set ps. calm_paint n m c p"
  shows "\<exists>t. run_paint app c ps s = (t, False) \<and> sched_ok n m {} (E - {(c, i) | i. Show i \<in> set ps}) t \<and>
    leads n {c<..} s t"
  using assms(2,3)
proof (induction ps arbitrary: s E)
  case (Cons p ps)
  have step: "\<exists>t. run_paint app c ps s' = (t, False) \<and>
      sched_ok n m {} (E' - {(c, i) | i. Show i \<in> set ps}) t \<and> leads n {c<..} s t"
    if "sched_ok n m {} E' s'" and "leads n {c<..} s s'" for s' E'
    using Cons.IH [OF that(1)] Cons.prems(2) leads_trans [OF that(2)] by auto
  show ?case
  proof (cases p)
    case (Do a)
    then have a: "calm_act n m a" "downward c a" using Cons.prems(2) by (auto simp: calm_paint_def)
    have "leads n {c<..} s (do_act a s)"
      by (rule leads_do_act [OF Cons.prems(1) a(1)]) (use a(2) in \<open>auto simp: downward_def\<close>)
    with step [OF good_do_act [OF Cons.prems(1) a(1)]] show ?thesis
      using a(1) by (auto simp: Do calm_act_def)
  next
    case (Show i)
    let ?s = "on_comp c (\<lambda>k. k\<lparr>shown := (shown k)(i := ctx k i)\<rparr>) s"
    have "leads n {c<..} s ?s" by (simp add: leads_on_comp)
    moreover have "E - {(c, i)} - {(c, i) | i. Show i \<in> set ps} = E - {(c, i) | i. Show i \<in> set (p # ps)}"
      by (auto simp: Show)
    ultimately show ?thesis using step [OF good_show [OF Cons.prems(1), of c i]] by (simp add: Show)
  next
    case (Destroy d)
    have "d < n" using Cons.prems(2) by (simp add: Destroy calm_paint_def)
    then obtain t where t: "destroy_component app d s = (t, False)" "sched_ok n m {} E t" "leads n {} s t"
      using destroy_good [OF assms(1) Cons.prems(1)] by blast
    with step [OF t(2) leads_mono [OF t(3)]] show ?thesis by (simp add: Destroy)
  qed
qed (simp add: leads_refl)

section \<open>The loops end\<close>

text \<open>Variables beyond the last, which do not matter.\<close>

definition beyond :: "nat \<Rightarrow> (nat \<times> nat) set" where
  "beyond w = {(c, i). w \<le> i}"

abbreviation settled_marks :: "nat \<Rightarrow> nat \<Rightarrow> nat \<Rightarrow> scheduler \<Rightarrow> bool" where
  "settled_marks n m w \<equiv> sched_ok n m {} (beyond w)"

lemma good_reset:
  assumes "sched_ok n m {c} E s" and "c \<notin> set (waiting s)"
  shows "sched_ok n m {} (E \<union> {(c, i) | i. bit_of (dirty (comps s c)) i}) (on_comp c (\<lambda>k. k\<lparr>dirty := clean\<rparr>) s)"
  using assms
  by (auto simp: sched_ok_def marks_ok_def callbacks_ok_def waiting_def comp_ok_def on_comp_def marked_def
      clean_def is_clean_def)

lemma good_smaller: "sched_ok n m X E s \<Longrightarrow> E \<subseteq> E' \<Longrightarrow> sched_ok n m X E' s"
  by (fastforce simp: sched_ok_def marks_ok_def comp_ok_def)

lemma update_good:
  assumes "calm_code n m w app" and "fragment (comps s c)" and "sched_ok n m {c} (beyond w) s" and "c \<notin> set (waiting s)"
  shows "\<exists>t. update_component app c s = (t, False) \<and> settled_marks n m w t \<and> leads n {c<..} s t"
proof -
  have "\<exists>t. run_acts (reactive app c (views_of s) (dirty (comps s c))) s = (t, False) \<and> sched_ok n m {c} (beyond w) t \<and>
      leads n {c<..} s t \<and> (\<forall>d. fragment (comps t d) = fragment (comps s d))"
    by (rule run_acts_good [OF assms(3)]) (use assms(1) in \<open>fastforce simp: calm_code_def downward_def\<close>)+
  then obtain t where t: "run_acts (reactive app c (views_of s) (dirty (comps s c))) s = (t, False)"
    "sched_ok n m {c} (beyond w) t" "leads n {c<..} s t" "\<forall>d. fragment (comps t d) = fragment (comps s d)"
    by blast
  have "live_count n t = live_count n s" using t(4) by (simp add: live_count_def)
  with t(3) assms(3,4) have c: "c \<notin> set (waiting t)"
    by (auto simp: leads_def waiting_def sched_ok_def marks_ok_def)
  let ?k = "dirty (comps t c)" and ?t = "on_comp c (\<lambda>k. k\<lparr>dirty := clean\<rparr>) t"
  let ?E = "beyond w \<union> {(c, i) | i. bit_of ?k i}" and ?ps = "paint app c (views_of ?t) ?k"
  have "\<forall>p \<in> set ?ps. calm_paint n m c p" using assms(1) by (simp add: calm_code_def)
  then obtain u where u: "run_paint app c ?ps ?t = (u, False)"
    "sched_ok n m {} (?E - {(c, i) | i. Show i \<in> set ?ps}) u" "leads n {c<..} ?t u"
    using run_paint_good [OF assms(1) good_reset [OF t(2) c]] by blast
  have "?E - {(c, i) | i. Show i \<in> set ?ps} \<subseteq> beyond w"
    using assms(1) by (auto simp: calm_code_def beyond_def)
  then have "settled_marks n m w u" by (rule good_smaller [OF u(2)])
  moreover from this have "settled_marks n m w (u\<lparr>render_callbacks := render_callbacks u @ after_update (comps u c)\<rparr>)"
    by (intro good_render) (auto simp: sched_ok_def callbacks_ok_def)
  moreover have "leads n {c<..} t ?t" by (rule leads_on_comp) simp
  then have "leads n {c<..} s u" using leads_trans [OF t(3)] leads_trans [OF _ u(3)] by blast
  ultimately show ?thesis using assms(2) t(1) u(1) by (simp add: update_component_def Let_def)
qed

definition queue_weight :: "nat \<Rightarrow> scheduler \<Rightarrow> nat multiset" where
  "queue_weight n s = image_mset (\<lambda>c. n - c) (mset (waiting s))"

definition flush_order :: "nat \<Rightarrow> (scheduler \<times> scheduler) set" where
  "flush_order n = inv_image (less_than <*lex*> mult less_than) (\<lambda>s. (live_count n s, queue_weight n s))"

lemma wf_flush_order: "wf (flush_order n)"
  by (simp add: flush_order_def wf_lex_prod wf_mult)

lemma update_next:
  assumes "calm_code n m w app" and "settled_marks n m w s" and "flushidx s < length (dirty_components s)"
  defines "c \<equiv> dirty_components s ! flushidx s"
  shows "\<exists>t. update_component app c (s\<lparr>flushidx := flushidx s + 1\<rparr>) = (t, False) \<and> settled_marks n m w t \<and>
    (t, s) \<in> flush_order n \<and> live_count n t \<le> live_count n s \<and>
    binding_callbacks t = binding_callbacks s \<and> seen_callbacks t = seen_callbacks s"
proof -
  let ?s = "s\<lparr>flushidx := flushidx s + 1\<rparr>"
  have w: "waiting s = c # waiting ?s" using assms(3) by (simp add: waiting_def c_def Cons_nth_drop_Suc)
  have ok: "distinct (waiting s)" "set (waiting s) \<subseteq> {..<n}" "\<And>d. comp_ok (waiting s) {} (beyond w) d (comps s d)"
    and cb: "callbacks_ok m s" using assms(2) by (simp_all add: sched_ok_def marks_ok_def)
  have cn: "c \<notin> set (waiting ?s)" "c < n" using ok(1,2) by (simp_all add: w)
  have fi: "flushidx ?s \<le> length (dirty_components ?s)" using assms(3) by simp
  have part: "distinct (waiting ?s)" "set (waiting ?s) \<subseteq> {..<n}" using ok(1,2) by (simp_all add: w)
  have lc: "live_count n (s\<lparr>flushidx := k\<rparr>) = live_count n s" for k by (simp add: live_count_def)
  have "\<exists>t. update_component app c ?s = (t, False) \<and> settled_marks n m w t \<and> leads n {c<..} ?s t"
  proof (cases "fragment (comps s c)")
    case True
    have "comp_ok (waiting ?s) {c} (beyond w) d (comps ?s d)" for d
      using ok(3) [of d] by (auto simp: comp_ok_def w)
    then have "sched_ok n m {c} (beyond w) ?s"
      using fi part cb by (simp add: sched_ok_def marks_ok_def callbacks_ok_def)
    from update_good [OF assms(1) _ this cn(1)] True show ?thesis by simp
  next
    case False
    have "comp_ok (waiting ?s) {} (beyond w) d (comps ?s d)" for d
      using ok(3) [of d] False by (cases "d = c") (auto simp: comp_ok_def w)
    then have "settled_marks n m w ?s" using fi part cb by (simp add: sched_ok_def marks_ok_def callbacks_ok_def)
    with False show ?thesis by (simp add: update_component_def leads_refl)
  qed
  then obtain t q where t: "update_component app c ?s = (t, False)" "settled_marks n m w t" "leads n {c<..} ?s t"
    and q: "dirty_components t = dirty_components s @ q" "live_count n t < live_count n s \<or> set q \<subseteq> {c<..}"
    by (auto simp: leads_def lc)
  have "waiting t = waiting ?s @ q" using t(3) q(1) assms(3) by (simp add: waiting_def leads_def)
  have "(t, s) \<in> flush_order n"
  proof (cases "live_count n t < live_count n s")
    case False
    let ?I = "image_mset (\<lambda>d. n - d) (mset (waiting ?s))" and ?K = "image_mset (\<lambda>d. n - d) (mset q)"
    have "\<forall>k \<in># ?K. \<exists>j \<in># {#n - c#}. (k, j) \<in> less_than" using q(2) False cn(2) by fastforce
    then have "(?I + ?K, ?I + {#n - c#}) \<in> mult less_than" by (intro one_step_implies_mult) auto
    moreover have "live_count n t = live_count n s" using False t(3) lc by (simp add: leads_def)
    ultimately show ?thesis by (simp add: flush_order_def queue_weight_def w \<open>waiting t = waiting ?s @ q\<close>)
  qed (simp add: flush_order_def)
  then show ?thesis using t lc by (auto simp: leads_def)
qed

lemma component_loop_good:
  assumes "calm_code n m w app" and "settled_marks n m w s"
  shows "\<exists>t. component_loop app s = Some (t, False) \<and> settled_marks n m w t \<and> dirty_components t = [] \<and>
    flushidx t = 0 \<and> binding_callbacks t = binding_callbacks s \<and> seen_callbacks t = seen_callbacks s"
  using assms(2)
proof (induction s rule: wf_induct_rule [OF wf_flush_order [of n]])
  case (1 s)
  show ?case
  proof (cases "flushidx s < length (dirty_components s)")
    case True
    let ?c = "dirty_components s ! flushidx s"
    obtain t where t: "update_component app ?c (s\<lparr>flushidx := flushidx s + 1\<rparr>) = (t, False)"
      "settled_marks n m w t" "(t, s) \<in> flush_order n"
      "binding_callbacks t = binding_callbacks s" "seen_callbacks t = seen_callbacks s"
      using update_next [OF assms(1) 1(2) True] by blast
    with 1(1) [OF t(3,2)] True show ?thesis by (simp add: component_loop.simps [of app s])
  next
    case False
    let ?s = "s\<lparr>dirty_components := [], flushidx := 0\<rparr>"
    have "waiting s = []" "waiting ?s = []" using False by (simp_all add: waiting_def)
    then have "settled_marks n m w ?s" using 1(2) by (simp add: sched_ok_def marks_ok_def callbacks_ok_def)
    then show ?thesis using False by (simp add: component_loop.simps [of app s])
  qed
qed

lemma binding_loop_good:
  assumes "calm_code n m w app" and "settled_marks n m w s" and "flushidx s = 0"
  shows "\<exists>t. binding_loop app s = Some (t, False) \<and> settled_marks n m w t \<and> flushidx t = 0 \<and>
    binding_callbacks t = [] \<and> seen_callbacks t = seen_callbacks s \<and>
    (binding_callbacks s = [] \<longrightarrow> t = s)"
  using assms(2,3)
proof (induction "length (binding_callbacks s)" arbitrary: s)
  case (Suc k)
  let ?b = "last (binding_callbacks s)"
  let ?s = "s\<lparr>binding_callbacks := butlast (binding_callbacks s)\<rparr>"
  have ne: "binding_callbacks s \<noteq> []" using Suc.hyps(2) by auto
  have bs: "set (binding_callbacks s) \<subseteq> {..<m}" using Suc.prems by (simp add: sched_ok_def callbacks_ok_def)
  then have "settled_marks n m w ?s" by (intro good_binding [OF Suc.prems(1)]) (auto dest: in_set_butlastD)
  moreover have "?b < m" using bs last_in_set [OF ne] by auto
  ultimately obtain t where t: "call app ?b ?s = (t, False)" "settled_marks n m w t" "leads n UNIV ?s t"
    using call_good [OF assms(1)] by blast
  have f: "k = length (binding_callbacks t)" "flushidx t = 0" "seen_callbacks t = seen_callbacks s"
    using t(3) Suc.hyps(2) Suc.prems(2) by (simp_all add: leads_def)
  with Suc.hyps(1) [OF f(1) t(2) f(2)] t(1) ne show ?case by (auto simp: binding_loop.simps [of app s])
qed (simp add: binding_loop.simps)

definition unseen :: "nat \<Rightarrow> scheduler \<Rightarrow> nat" where
  "unseen m s = card ({..<m} - set (seen_callbacks s))"

lemma unseen_mono: "set (seen_callbacks s) \<subseteq> set (seen_callbacks t) \<Longrightarrow> unseen m t \<le> unseen m s"
  by (auto simp: unseen_def intro!: card_mono)

lemma unseen_called:
  "b < m \<Longrightarrow> b \<notin> set (seen_callbacks s) \<Longrightarrow> unseen m (s\<lparr>seen_callbacks := b # seen_callbacks s\<rparr>) < unseen m s"
  unfolding unseen_def by (rule psubset_card_mono) auto

lemma render_loop_good:
  assumes "calm_code n m w app" and "settled_marks n m w s" and "flushidx s = 0"
  shows "\<exists>t. render_loop app e s = Some (t, False) \<and> settled_marks n m w t \<and> flushidx t = 0 \<and>
    binding_callbacks t = binding_callbacks s \<and> unseen m t \<le> unseen m s \<and>
    (dirty_components t = dirty_components s \<or> unseen m t < unseen m s)"
  using assms(2,3)
proof (induction "(unseen m s, length (render_callbacks s) - e)" arbitrary: s e
    rule: wf_induct_rule [OF wf_lex_prod [OF wf_less_than wf_less_than]])
  case 1
  let ?b = "render_callbacks s ! e"
  let ?s = "s\<lparr>seen_callbacks := ?b # seen_callbacks s\<rparr>"
  consider (stop) "\<not> e < length (render_callbacks s)"
    | (skip) "e < length (render_callbacks s)" "?b \<in> set (seen_callbacks s)"
    | (run) "e < length (render_callbacks s)" "?b \<notin> set (seen_callbacks s)" by blast
  then show ?case
  proof cases
    case stop
    have "settled_marks n m w (s\<lparr>render_callbacks := []\<rparr>)" by (rule good_render [OF 1(2)]) simp
    then show ?thesis using stop 1(3) by (simp add: render_loop.simps [of app e s] unseen_def)
  next
    case skip
    have "((unseen m s, length (render_callbacks s) - (e + 1)), unseen m s, length (render_callbacks s) - e)
        \<in> less_than <*lex*> less_than" using skip by simp
    from 1(1) [OF this 1(2,3)] skip show ?thesis by (simp add: render_loop.simps [of app e s])
  next
    case run
    have b: "?b < m" using run 1(2) nth_mem by (fastforce simp: sched_ok_def callbacks_ok_def)
    have "settled_marks n m w ?s" using 1(2) by simp
    then obtain t where t: "call app ?b ?s = (t, False)" "settled_marks n m w t" "leads n UNIV ?s t"
      using call_good [OF assms(1) _ b] by blast
    have f: "flushidx t = 0" "binding_callbacks t = binding_callbacks s"
      using t(3) 1(3) by (simp_all add: leads_def)
    have "unseen m t = unseen m ?s" using t(3) by (simp add: leads_def unseen_def)
    then have less: "unseen m t < unseen m s" using unseen_called [OF b run(2)] by simp
    have "((unseen m t, length (render_callbacks t) - (e + 1)), unseen m s, length (render_callbacks s) - e)
        \<in> less_than <*lex*> less_than" using less by simp
    from 1(1) [OF this t(2) f(1)] less run t(1) f(2) show ?thesis
      by (auto simp: render_loop.simps [of app e s])
  qed
qed

lemma and_then_False [simp]: "and_then (Some (s, False)) f = f s"
  by (simp add: and_then_def)

lemma flush_round_good:
  assumes "calm_code n m w app" and "settled_marks n m w s"
  shows "\<exists>t. flush_round app s = Some (t, False) \<and> settled_marks n m w t \<and> flushidx t = 0 \<and>
    binding_callbacks t = [] \<and> unseen m t \<le> unseen m s \<and>
    (dirty_components t = [] \<or> binding_callbacks s \<noteq> [] \<or> unseen m t < unseen m s)"
proof -
  obtain t where t: "component_loop app s = Some (t, False)" "settled_marks n m w t" "dirty_components t = []"
    "flushidx t = 0" "binding_callbacks t = binding_callbacks s" "seen_callbacks t = seen_callbacks s"
    using component_loop_good [OF assms] by blast
  obtain u where u: "binding_loop app t = Some (u, False)" "settled_marks n m w u" "flushidx u = 0"
    "binding_callbacks u = []" "seen_callbacks u = seen_callbacks t" "binding_callbacks t = [] \<longrightarrow> u = t"
    using binding_loop_good [OF assms(1) t(2,4)] by blast
  obtain v where v: "render_loop app 0 u = Some (v, False)" "settled_marks n m w v" "flushidx v = 0"
    "binding_callbacks v = binding_callbacks u" "unseen m v \<le> unseen m u"
    "dirty_components v = dirty_components u \<or> unseen m v < unseen m u"
    using render_loop_good [OF assms(1) u(2,3), of 0] by blast
  have "unseen m u = unseen m s" using t(6) u(5) by (simp add: unseen_def)
  then have "dirty_components v = [] \<or> binding_callbacks s \<noteq> [] \<or> unseen m v < unseen m s"
    using v(6) u(6) t(3,5) by auto
  with \<open>unseen m u = unseen m s\<close> t(1) u(1,4) v show ?thesis by (simp add: flush_round_def)
qed

lemma flush_rounds_good:
  assumes "calm_code n m w app" and "settled_marks n m w s"
  shows "\<exists>t. flush_rounds app s = Some (t, False) \<and> settled_marks n m w t \<and> flushidx t = 0 \<and>
    dirty_components t = []"
  using assms(2)
proof (induction "if binding_callbacks s = [] then unseen m s else Suc (unseen m s)" arbitrary: s
    rule: less_induct)
  case less
  obtain t where t: "flush_round app s = Some (t, False)" "settled_marks n m w t" "flushidx t = 0"
    "binding_callbacks t = []" "unseen m t \<le> unseen m s"
    "dirty_components t = [] \<or> binding_callbacks s \<noteq> [] \<or> unseen m t < unseen m s"
    using flush_round_good [OF assms(1) less.prems] by blast
  show ?case
  proof (cases "dirty_components t = []")
    case True
    with t show ?thesis by (simp add: flush_rounds.simps [of app s])
  next
    case False
    with t(4-6) have "(if binding_callbacks t = [] then unseen m t else Suc (unseen m t)) <
      (if binding_callbacks s = [] then unseen m s else Suc (unseen m s))" by auto
    from less.hyps [OF this t(2)] False t(1) show ?thesis by (simp add: flush_rounds.simps [of app s])
  qed
qed

lemma flush_loop_good:
  assumes "calm_code n m w app" and "settled_marks n m w s"
  shows "\<exists>t. flush_loop app s = Some (t, False) \<and> settled_marks n m w t \<and> flushidx t = flushidx s \<and>
    dirty_components t = dirty_components s"
  using assms(2)
proof (induction "length (flush_callbacks s)" arbitrary: s)
  case (Suc k)
  let ?b = "last (flush_callbacks s)"
  let ?s = "s\<lparr>flush_callbacks := butlast (flush_callbacks s)\<rparr>"
  have ne: "flush_callbacks s \<noteq> []" using Suc.hyps(2) by auto
  have bs: "set (flush_callbacks s) \<subseteq> {m..}" using Suc.prems by (simp add: sched_ok_def callbacks_ok_def)
  then have sched_ok: "settled_marks n m w ?s" by (intro good_flush [OF Suc.prems]) (auto dest: in_set_butlastD)
  have "m \<le> ?b" using bs last_in_set [OF ne] by auto
  then have "call app ?b ?s = (?s, False)" using assms(1) by (simp add: call_def calm_code_def)
  moreover have "k = length (flush_callbacks ?s)" using Suc.hyps(2) by simp
  ultimately show ?case using Suc.hyps(1) [OF _ sched_ok] ne by (simp add: flush_loop.simps [of app s])
qed (simp add: flush_loop.simps)

text \<open>Every component that exists shows its variables.\<close>

definition page_current :: "nat \<Rightarrow> scheduler \<Rightarrow> bool" where
  "page_current w s \<longleftrightarrow> (\<forall>c. fragment (comps s c) \<longrightarrow> (\<forall>i < w. shown (comps s c) i = ctx (comps s c) i))"

lemma page_current_idle:
  assumes "settled_marks n m w s" and "dirty_components s = []"
  shows "page_current w s"
  using assms by (fastforce simp: page_current_def sched_ok_def marks_ok_def comp_ok_def waiting_def marked_def beyond_def)

text \<open>Between events: what is marked will be flushed.\<close>

definition page_ok :: "nat \<Rightarrow> nat \<Rightarrow> nat \<Rightarrow> scheduler \<Rightarrow> bool" where
  "page_ok n m w s \<longleftrightarrow>
     settled_marks n m w s \<and> flushidx s = 0 \<and>
     (dirty_components s \<noteq> [] \<longrightarrow> update_scheduled s) \<and> (update_scheduled s \<longrightarrow> 0 < microtasks s)"

lemma flush_good:
  assumes "calm_code n m w app" and "settled_marks n m w s" and "flushidx s = 0"
  shows "\<exists>t. flush_updates app s = Some (t, False) \<and> page_ok n m w t \<and> page_current w t"
proof -
  obtain t where t: "flush_rounds app s = Some (t, False)" "settled_marks n m w t" "flushidx t = 0"
    "dirty_components t = []" using flush_rounds_good [OF assms(1,2)] by blast
  obtain u where u: "flush_loop app t = Some (u, False)" "settled_marks n m w u" "flushidx u = flushidx t"
    "dirty_components u = dirty_components t" using flush_loop_good [OF assms(1) t(2)] by blast
  let ?u = "u\<lparr>update_scheduled := False, seen_callbacks := []\<rparr>"
  have "settled_marks n m w ?u" "dirty_components ?u = []" "flushidx ?u = 0" using t u by simp_all
  then have "page_ok n m w ?u" "page_current w ?u" by (simp_all add: page_ok_def page_current_idle)
  moreover have "flush_updates app s = Some (?u, False)" using assms(3) t(1) u(1) by (simp add: flush_updates_def)
  ultimately show ?thesis by blast
qed

lemma microtask_good:
  assumes "calm_code n m w app" and "page_ok n m w s"
  shows "\<exists>t. microtask app s = Some (t, False) \<and> page_ok n m w t \<and> page_current w t"
proof (cases "microtasks s = 0")
  case True
  with assms(2) have "dirty_components s = []" by (auto simp: page_ok_def)
  with assms(2) True show ?thesis by (auto simp: microtask_def page_ok_def intro: page_current_idle)
next
  case False
  have "settled_marks n m w (s\<lparr>microtasks := microtasks s - 1\<rparr>)" using assms(2) by (simp add: page_ok_def)
  from flush_good [OF assms(1) this] assms(2) False show ?thesis by (simp add: microtask_def page_ok_def)
qed

lemma page_ok_invalidate:
  assumes "page_ok n m w s" and "c < n"
  shows "page_ok n m w (invalidate c i v s)"
proof -
  have "settled_marks n m w (invalidate c i v s)"
    using good_do_act [of n m "{}" "beyond w" s "Invalidate c i v"] assms by (simp add: page_ok_def calm_act_def)
  moreover have "update_scheduled (invalidate c i v s) \<longrightarrow> 0 < microtasks (invalidate c i v s)"
    "dirty_components (invalidate c i v s) \<noteq> [] \<longrightarrow> update_scheduled (invalidate c i v s)"
    using assms(1) by (auto simp: page_ok_def invalidate_def make_dirty_def on_comp_def schedule_update_def Let_def)
  ultimately show ?thesis using assms(1) by (simp add: page_ok_def)
qed

definition in_page :: "nat \<Rightarrow> loop_event \<Rightarrow> bool" where
  "in_page n e = (case e of Assign c i v \<Rightarrow> c < n | Microtask \<Rightarrow> True)"

lemma page_run_ok:
  assumes "calm_code n m w app" and "page_ok n m w s" and "list_all (in_page n) es"
  shows "\<exists>t. loop_run app s es = Some t \<and> page_ok n m w t"
  using assms(2,3)
proof (induction es arbitrary: s)
  case (Cons e es)
  have "\<exists>t. loop_step app s e = Some t \<and> page_ok n m w t"
  proof (cases e)
    case (Assign c i v)
    with Cons.prems show ?thesis by (simp add: in_page_def page_ok_invalidate)
  next
    case Microtask
    with microtask_good [OF assms(1) Cons.prems(1)] show ?thesis by auto
  qed
  with Cons show ?case by auto
qed simp

section \<open>The page shows the state\<close>

text \<open>Mounted components: nothing is marked, and bindings and callbacks of the mounting wait.\<close>

definition mounted :: "(nat \<Rightarrow> component) \<Rightarrow> nat list \<Rightarrow> nat list \<Rightarrow> scheduler" where
  "mounted ks bs rs =
     \<lparr>comps = ks, dirty_components = [], flushidx = 0, update_scheduled = False, microtasks = 0,
      binding_callbacks = bs, render_callbacks = rs, flush_callbacks = [], seen_callbacks = []\<rparr>"

definition fresh_component :: "nat \<Rightarrow> component \<Rightarrow> bool" where
  "fresh_component m k \<longleftrightarrow> dirty k = clean \<and> shown k = ctx k \<and> set (after_update k) \<subseteq> {..<m}"

lemma mounted_good:
  assumes "\<And>c. fresh_component m (ks c)" and "set bs \<union> set rs \<subseteq> {..<m}"
  shows "settled_marks n m w (mounted ks bs rs)"
  using assms
  by (auto simp: fresh_component_def mounted_def sched_ok_def marks_ok_def callbacks_ok_def comp_ok_def waiting_def
      clean_def is_clean_def)

text \<open>
  Claim C13: for components of the ordinary shape the first flush returns and shows every variable;
  after any assignments and microtasks the next microtask returns as well and leaves every
  component that exists showing its variables, and without a pending microtask they are shown
  already.
\<close>

theorem page_shows_state:
  assumes "calm_code n m w app" and "\<And>c. fresh_component m (ks c)" and "set bs \<union> set rs \<subseteq> {..<m}"
    and "list_all (in_page n) es"
  shows "\<exists>s\<^sub>0 s t. flush_updates app (mounted ks bs rs) = Some (s\<^sub>0, False) \<and> page_current w s\<^sub>0 \<and>
    loop_run app s\<^sub>0 es = Some s \<and> microtask app s = Some (t, False) \<and> page_current w t \<and>
    (microtasks s = 0 \<longrightarrow> page_current w s)"
proof -
  have "flushidx (mounted ks bs rs) = 0" by (simp add: mounted_def)
  moreover have "settled_marks n m w (mounted ks bs rs)" using assms(2,3) by (rule mounted_good)
  ultimately obtain s\<^sub>0 where s\<^sub>0: "flush_updates app (mounted ks bs rs) = Some (s\<^sub>0, False)" "page_ok n m w s\<^sub>0" "page_current w s\<^sub>0"
    using flush_good [OF assms(1)] by blast
  obtain s where s: "loop_run app s\<^sub>0 es = Some s" "page_ok n m w s"
    using page_run_ok [OF assms(1) s\<^sub>0(2) assms(4)] by blast
  have "microtasks s = 0 \<longrightarrow> page_current w s"
    using s(2) by (auto simp: page_ok_def intro: page_current_idle)
  moreover obtain t where "microtask app s = Some (t, False)" "page_current w t"
    using microtask_good [OF assms(1) s(2)] by blast
  ultimately show ?thesis using s\<^sub>0 s by (intro exI [of _ s\<^sub>0] exI [of _ s] exI [of _ t]) simp
qed

text \<open>
  A component whose callback after each update assigns a new object, as the two menus of the
  interface do: each flush calls it once.
\<close>

definition menu_code :: code where
  "menu_code =
     \<lparr>reactive = \<lambda>c vs k. [], paint = \<lambda>c vs k. map Show (filter (bit_of k) [0, 1]),
      callback = \<lambda>b vs. if b = 0 then [Invalidate 0 1 (Obj [])] else [], on_destroy = \<lambda>c vs. []\<rparr>"

definition menu_component :: component where
  "menu_component = \<lparr>ctx = (\<lambda>i. Null), dirty = clean, fragment = True, after_update = [0], shown = (\<lambda>i. Null)\<rparr>"

theorem page_shows_state_witness:
  "\<exists>s\<^sub>0 s t. flush_updates menu_code (mounted (\<lambda>c. menu_component) [] [0]) = Some (s\<^sub>0, False) \<and> page_current 2 s\<^sub>0 \<and>
    loop_run menu_code s\<^sub>0 [Assign 0 0 (Num 1), Microtask] = Some s \<and>
    microtask menu_code s = Some (t, False) \<and> page_current 2 t \<and> (microtasks s = 0 \<longrightarrow> page_current 2 s)"
proof (rule page_shows_state)
  have "{i. i < (2 :: nat)} = {0, 1}" by auto
  then show "calm_code 1 1 2 menu_code"
    by (auto simp: calm_code_def menu_code_def calm_act_def calm_paint_def less_2_cases_iff)
qed (simp_all add: fresh_component_def menu_component_def in_page_def)

end
