(* ===== verification/Pages.thy ===== *)
theory Pages
  imports App_Routes Svelte_Flush_Correct
begin

text \<open>
  Components whose behaviour is decided by the scheduler: the box of the filtering certificate
  (\<open>ui/src/components/connectedCertificateComposed.svelte\<close>), whose painting can fail, and the
  menu at the side (\<open>ui/src/components/sidenavmenu.svelte\<close>), which assigns a new array after
  every update.
\<close>

declare js_Cons [simp del]

section \<open>Certificate box\<close>

record certificate_view =
  edit_label :: string
  details :: "(jsval \<times> jsval) option"
  edit_boxes :: "string list"

text \<open>The markup: \<open>info\<close> is tested against null only.\<close>

definition composed_view :: "jsval \<Rightarrow> bool \<Rightarrow> js_exn + certificate_view" where
  "composed_view info editMode =
     (let label = (if editMode then ''View'' else ''Edit'');
          boxes = (if editMode then [''capem'', ''keypem''] else [])
      in if info = Null then Inr \<lparr>edit_label = label, details = None, edit_boxes = boxes\<rparr>
         else bind_exn (prop_of info (js ''name''))
                (\<lambda>name. bind_exn (prop_of info (js ''expiry''))
                  (\<lambda>expiry. Inr \<lparr>edit_label = label, details = Some (name, expiry), edit_boxes = boxes\<rparr>)))"

text \<open>The variables are \<open>info\<close>, 0, and \<open>editMode\<close>, 1; an exception of the markup is one of painting.\<close>

definition certificate_paint :: "nat \<Rightarrow> views \<Rightarrow> mask \<Rightarrow> paint_act list" where
  "certificate_paint c vs k =
     (case composed_view (vs c 0) (truthy_val (vs c 1)) of
        Inl err \<Rightarrow> [Do Raise]
      | Inr v \<Rightarrow> map Show (filter (bit_of k) [0, 1]))"

definition certificate_mount :: "ui \<Rightarrow> ui" where
  "certificate_mount u = ui_call (doCall (js ''/certificate/info'') (js ''get'') (Obj []) []) u"

text \<open>What the settled call assigns, if anything.\<close>

definition certificate_settled :: "nat \<Rightarrow> reply \<Rightarrow> ui \<Rightarrow> ui \<times> loop_event list" where
  "certificate_settled c r u =
     (case ui_settle doCall_settled r u of
        (u, Inl err) \<Rightarrow> (u, [])
      | (u, Inr v) \<Rightarrow> (u, [Assign c 0 v]))"

definition edit_click :: "nat \<Rightarrow> views \<Rightarrow> loop_event" where
  "edit_click c vs = Assign c 1 (JBool (\<not> truthy_val (vs c 1)))"

definition composed_box :: "code \<Rightarrow> nat \<Rightarrow> bool" where
  "composed_box app c \<longleftrightarrow>
     (\<forall>vs k. reactive app c vs k = [] \<and> paint app c vs k = certificate_paint c vs k)"

lemma composed_view_fails: "(\<exists>err. composed_view info e = Inl err) \<longleftrightarrow> info = Undef"
  by (cases info) (simp_all add: composed_view_def Let_def)

definition idle_page :: "scheduler \<Rightarrow> bool" where
  "idle_page s \<longleftrightarrow>
     dirty_components s = [] \<and> flushidx s = 0 \<and> \<not> update_scheduled s \<and> microtasks s = 0"

lemma assign_idle:
  assumes "idle_page s" and "dirty (comps s c) = clean" and "safe_not_equal (ctx (comps s c) i) v"
  shows "dirty_components (invalidate c i v s) = [c]" and "update_scheduled (invalidate c i v s)"
    and "microtasks (invalidate c i v s) = 1" and "flushidx (invalidate c i v s) = 0"
  using assms
  by (simp_all add: idle_page_def invalidate_def make_dirty_def on_comp_def schedule_update_def clean_def
      is_clean_def Let_def)

lemma failing_paint:
  assumes "dirty_components s = [c]" and "flushidx s = 0" and "fragment (comps s c)"
    and "\<And>vs k. reactive app c vs k = []"
    and "\<And>vs k. vs c = ctx (comps s c) \<Longrightarrow> paint app c vs k = [Do Raise]"
  shows "\<exists>t. flush_updates app s = Some (t, True) \<and> (\<forall>d. shown (comps t d) = shown (comps s d))"
proof -
  have p: "paint app c (views_of (on_comp c (\<lambda>k. k\<lparr>dirty := clean\<rparr>) (s\<lparr>flushidx := Suc 0\<rparr>))) k = [Do Raise]" for k
    by (rule assms(5)) (simp add: views_of_def on_comp_def)
  show ?thesis
    by (simp add: flush_updates_def flush_rounds.simps flush_round_def component_loop.simps update_component_def
        and_then_def Let_def assms(1-4) p)
      (simp add: on_comp_def)
qed

text \<open>A flush that raises leaves the page as it was for good.\<close>

lemma frozen_page:
  assumes "update_scheduled s'" and "microtasks s' = 1" and "flush_updates app (s'\<lparr>microtasks := 0\<rparr>) = Some (t, True)"
    and "\<forall>d. shown (comps t d) = shown (comps s d)"
  shows "\<exists>t. microtask app s' = Some (t, True) \<and>
    (\<forall>es. \<exists>z. loop_run app t es = Some z \<and> (\<forall>d. shown (comps z d) = shown (comps s d)))"
proof -
  have "stuck (s'\<lparr>microtasks := 0\<rparr>)" using assms(1) by (simp add: stuck_def)
  with assms(3) have "stuck t" by (rule stuck_flush_raised)
  then have "\<forall>es. \<exists>z. loop_run app t es = Some z \<and> (\<forall>d. shown (comps z d) = shown (comps s d))"
    using stuck_page_run assms(4) by metis
  moreover have "microtask app s' = Some (t, True)" using assms(2,3) by (simp add: microtask_def)
  ultimately show ?thesis by blast
qed

text \<open>
  Claim C18: when the server answers the request for the certificate with a status other than 200 and
  401, the box is assigned \<open>undefined\<close>, painting it raises, and the whole page is frozen: no
  component ever shows anything else than before the reply, whatever happens later.
\<close>

theorem certificate_error_freezes:
  assumes "composed_box app c" and "idle_page s" and "fragment (comps s c)" and "dirty (comps s c) = clean"
    and "ctx (comps s c) 0 = Null" and "st \<noteq> 200" and "st \<noteq> 401"
  shows "\<exists>s' t. loop_run app s (snd (certificate_settled c (Reply st b) u)) = Some s' \<and>
    microtask app s' = Some (t, True) \<and>
    (\<forall>es. \<exists>z. loop_run app t es = Some z \<and> (\<forall>d. shown (comps z d) = shown (comps s d)))"
proof -
  let ?s = "invalidate c 0 Undef s"
  have ne: "safe_not_equal (ctx (comps s c) 0) Undef" by (simp add: assms(5) safe_not_equal_def)
  note i = assign_idle [OF assms(2,4) ne]
  have box: "reactive app c vs k = []" "paint app c vs k = certificate_paint c vs k" for vs k
    using assms(1) by (simp_all add: composed_box_def)
  have undef: "ctx (comps ?s c) 0 = Undef" by (simp add: invalidate_comps [OF ne])
  have "composed_view Undef e = Inl TypeError" for e by (simp add: composed_view_def Let_def)
  with undef have raises: "paint app c vs k = [Do Raise]" if "vs c = ctx (comps ?s c)" for vs k
    using that by (simp add: box certificate_paint_def)
  have "\<exists>t. flush_updates app (?s\<lparr>microtasks := 0\<rparr>) = Some (t, True) \<and>
      (\<forall>d. shown (comps t d) = shown (comps (?s\<lparr>microtasks := 0\<rparr>) d))"
  proof (rule failing_paint [of _ c])
    show "dirty_components (?s\<lparr>microtasks := 0\<rparr>) = [c]" "flushidx (?s\<lparr>microtasks := 0\<rparr>) = 0"
      "fragment (comps (?s\<lparr>microtasks := 0\<rparr>) c)" using i assms(3) by simp_all
    show "reactive app c vs k = []" for vs k by (rule box(1))
    show "paint app c vs k = [Do Raise]" if "vs c = ctx (comps (?s\<lparr>microtasks := 0\<rparr>) c)" for vs k
      using raises that by simp
  qed
  then obtain t where t: "flush_updates app (?s\<lparr>microtasks := 0\<rparr>) = Some (t, True)"
    "\<forall>d. shown (comps t d) = shown (comps s d)" by auto
  have "snd (certificate_settled c (Reply st b) u) = [Assign c 0 Undef]"
    using assms(6,7) by (simp add: certificate_settled_def ui_settle_def doCall_settled_def)
  with frozen_page [OF i(2,3) t] show ?thesis by simp
qed

definition settings_code :: code where
  "settings_code =
     \<lparr>reactive = \<lambda>c vs k. [], paint = certificate_paint, callback = \<lambda>b vs. [], on_destroy = \<lambda>c vs. []\<rparr>"

definition settings_component :: component where
  "settings_component =
     \<lparr>ctx = (\<lambda>i. if i = 0 then Null else JBool False), dirty = clean, fragment = True, after_update = [],
      shown = (\<lambda>i. if i = 0 then Null else JBool False)\<rparr>"

theorem certificate_error_freezes_witness:
  "\<exists>s' t. loop_run settings_code (mounted (\<lambda>c. settings_component) [] [])
       (snd (certificate_settled 0 (Reply 500 None) (ui_init Map.empty))) = Some s' \<and>
     microtask settings_code s' = Some (t, True) \<and>
     (\<forall>es. \<exists>z. loop_run settings_code t es = Some z \<and>
        (\<forall>d. shown (comps z d) = shown (comps (mounted (\<lambda>c. settings_component) [] []) d)))"
  by (rule certificate_error_freezes)
    (simp_all add: composed_box_def settings_code_def idle_page_def mounted_def settings_component_def)

section \<open>Side menu\<close>

fun item_value :: "menu_item \<Rightarrow> jsval" where
  "item_value (MenuLink t h) =
     Obj [(js ''type'', Str (js ''link'')), (js ''text'', Str (js t)), (js ''href'', Str (js h))]"
| "item_value (MenuGroup t items) =
     Obj [(js ''type'', Str (js ''menu'')), (js ''text'', Str (js t)), (js ''children'', Arr (map item_value items))]"

definition menu_value :: "jsval \<Rightarrow> jsval" where
  "menu_value logged = Arr (map item_value (menuItemsToRender logged))"

text \<open>The value of the store: an object with the client.\<close>

definition store_value :: "bool \<Rightarrow> jsval" where
  "store_value b = Obj [(js ''api'', Obj [(js ''loggedIn'', JBool b)])]"

definition logged_of :: "jsval \<Rightarrow> jsval" where
  "logged_of v = (case bind_exn (prop_of v (js ''api'')) (\<lambda>a. prop_of a (js ''loggedIn'')) of
     Inr b \<Rightarrow> b | Inl err \<Rightarrow> Undef)"

text \<open>The variables are \<open>menuItemsToRender\<close>, 0, \<open>loggedIn\<close>, 1, and the value of the store, 2.\<close>

definition sidenav_code :: code where
  "sidenav_code =
     \<lparr>reactive = \<lambda>c vs k. if c = 0 \<and> bit_of k 2 then [Invalidate 0 1 (logged_of (vs 0 2))] else [],
      paint = \<lambda>c vs k. if bit_of k 0 then [Show 0] else [],
      callback = \<lambda>b vs. if b = 0 then [Invalidate 0 0 (menu_value (vs 0 1))] else [],
      on_destroy = \<lambda>c vs. []\<rparr>"

text \<open>The component as it is created: all items are shown first.\<close>

definition sidenav :: "bool \<Rightarrow> nat \<Rightarrow> component" where
  "sidenav b c =
     (let vs = (\<lambda>i. if i = 0 then menu_value (JBool True) else if i = 1 then JBool b
                  else if i = 2 then store_value b else Undef)
      in \<lparr>ctx = vs, dirty = clean, fragment = (c = 0), after_update = [0], shown = vs\<rparr>)"

lemma logged_of_store [simp]: "logged_of (store_value b) = JBool b"
  by (simp add: logged_of_def store_value_def get_prop_def)

lemma sidenav_calm: "calm_code 1 1 1 sidenav_code"
  by (auto simp: calm_code_def sidenav_code_def calm_act_def calm_paint_def downward_def)

lemma array_changes: "safe_not_equal a (Arr xs)"
  by (cases a) (simp_all add: safe_not_equal_def)

lemma menu_changes: "safe_not_equal a (menu_value l)"
  by (simp add: menu_value_def array_changes)

text \<open>The variables after an update: \<open>loggedIn\<close> follows the store where that is marked.\<close>

definition updated_ctx :: "component \<Rightarrow> nat \<Rightarrow> jsval" where
  "updated_ctx k = (if bit_of (dirty k) 2 then (ctx k)(1 := logged_of (ctx k 2)) else ctx k)"

lemma sidenav_update:
  assumes "fragment (comps s 0)" and "\<not> is_clean (dirty (comps s 0))" and "after_update (comps s 0) = [0]"
  shows "\<exists>sh. update_component sidenav_code 0 s =
    (s\<lparr>comps := (comps s)(0 := (comps s 0)\<lparr>ctx := updated_ctx (comps s 0), dirty := clean, shown := sh\<rparr>),
       render_callbacks := render_callbacks s @ [0]\<rparr>, False)"
proof -
  let ?k = "comps s 0"
  let ?as = "if bit_of (dirty ?k) 2 then [Invalidate 0 1 (logged_of (ctx ?k 2))] else []"
  obtain m where m: "run_acts ?as s = (s\<lparr>comps := (comps s)(0 := ?k\<lparr>ctx := updated_ctx ?k, dirty := m\<rparr>)\<rparr>, False)"
  proof (cases "bit_of (dirty ?k) 2 \<and> safe_not_equal (ctx ?k 1) (logged_of (ctx ?k 2))")
    case True
    then have "run_acts ?as s = (s\<lparr>comps := (comps s)(0 := ?k\<lparr>ctx := updated_ctx ?k, dirty := with_bit 1 (dirty ?k)\<rparr>)\<rparr>, False)"
      using assms(2) by (simp add: invalidate_def make_dirty_def on_comp_def updated_ctx_def Let_def)
    then show ?thesis by (rule that)
  next
    case False
    then have "run_acts ?as s = (s, False)" by (auto simp: invalidate_same)
    moreover have "updated_ctx ?k = ctx ?k" using False by (auto simp: updated_ctx_def fun_eq_iff dest!: safe_equal)
    ultimately have "run_acts ?as s = (s\<lparr>comps := (comps s)(0 := ?k\<lparr>ctx := updated_ctx ?k, dirty := dirty ?k\<rparr>)\<rparr>, False)"
      by simp
    then show ?thesis by (rule that)
  qed
  have r: "reactive sidenav_code 0 (views_of s) (dirty ?k) = ?as" by (simp add: sidenav_code_def views_of_def)
  let ?sh = "if bit_of m 0 then (shown ?k)(0 := updated_ctx ?k 0) else shown ?k"
  show ?thesis
    using assms(1,3)
    by (intro exI [of _ ?sh], simp add: update_component_def r m Let_def on_comp_def)
      (simp add: sidenav_code_def on_comp_def)
qed

text \<open>The lists of callbacks, and a component that shows the menu of the session or waits.\<close>

definition sidenav_lists :: "scheduler \<Rightarrow> bool" where
  "sidenav_lists s \<longleftrightarrow>
     flushidx s = 0 \<and> binding_callbacks s = [] \<and> flush_callbacks s = [] \<and>
     fragment (comps s 0) \<and> after_update (comps s 0) = [0]"

definition current_menu :: "component \<Rightarrow> bool" where
  "current_menu k \<longleftrightarrow> ctx k 0 = menu_value (ctx k 1) \<and> ctx k 1 = logged_of (ctx k 2)"

text \<open>The round after the callback: the callback is not called again.\<close>

lemma sidenav_last_round:
  assumes "sidenav_lists s" and "dirty_components s = [0]" and "\<not> is_clean (dirty (comps s 0))"
    and "render_callbacks s = []" and "0 \<in> set (seen_callbacks s)" and "current_menu (comps s 0)"
  shows "\<exists>t. flush_rounds sidenav_code s = Some (t, False) \<and> sidenav_lists t \<and> dirty_components t = [] \<and>
    dirty (comps t 0) = clean \<and> render_callbacks t = [] \<and> current_menu (comps t 0) \<and>
    ctx (comps t 0) 2 = ctx (comps s 0) 2"
proof -
  let ?s = "s\<lparr>flushidx := Suc 0\<rparr>"
  have f: "fragment (comps ?s 0)" "\<not> is_clean (dirty (comps ?s 0))" "after_update (comps ?s 0) = [0]"
    using assms(1,3) by (simp_all add: sidenav_lists_def)
  obtain sh where u: "update_component sidenav_code 0 ?s =
    (?s\<lparr>comps := (comps ?s)(0 := (comps ?s 0)\<lparr>ctx := updated_ctx (comps ?s 0), dirty := clean, shown := sh\<rparr>),
       render_callbacks := render_callbacks ?s @ [0]\<rparr>, False)"
    using sidenav_update [OF f] by blast
  have "updated_ctx (comps s 0) = ctx (comps s 0)"
    using assms(6) by (auto simp: updated_ctx_def current_menu_def fun_eq_iff)
  with u assms show ?thesis
    by (simp add: flush_rounds.simps [of _ s] flush_round_def component_loop.simps binding_loop.simps
        render_loop.simps and_then_def sidenav_lists_def current_menu_def)
qed

text \<open>From the callback on.\<close>

lemma sidenav_callback_round:
  assumes "sidenav_lists s" and "dirty_components s = []" and "dirty (comps s 0) = clean"
    and "render_callbacks s = [0]" and "seen_callbacks s = []" and "ctx (comps s 0) 1 = logged_of (ctx (comps s 0) 2)"
  shows "\<exists>t. render_loop sidenav_code 0 s = Some (t, False) \<and> sidenav_lists t \<and> dirty_components t = [0] \<and>
    \<not> is_clean (dirty (comps t 0)) \<and> render_callbacks t = [] \<and> 0 \<in> set (seen_callbacks t) \<and>
    current_menu (comps t 0) \<and> ctx (comps t 0) 2 = ctx (comps s 0) 2"
proof -
  let ?s = "s\<lparr>seen_callbacks := [0]\<rparr>"
  let ?v = "menu_value (ctx (comps s 0) 1)"
  let ?t = "invalidate 0 0 ?v ?s"
  have ne: "safe_not_equal (ctx (comps ?s 0) 0) ?v" by (rule menu_changes)
  have "\<not> is_clean (with_bit 0 (\<lambda>j. 0))" by (rule not_clean) (simp add: bit_31_with_bit)
  then have c: "\<not> is_clean (dirty (comps ?t 0))" "ctx (comps ?t 0) = (ctx (comps s 0))(0 := ?v)"
    unfolding invalidate_comps [OF ne] using assms(3) by (simp_all add: clean_def is_clean_def)
  have q: "dirty_components ?t = [0]"
    unfolding invalidate_queue [OF ne] using assms(2,3) by (simp add: clean_def is_clean_def)
  have "call sidenav_code 0 ?s = (?t, False)"
    by (simp add: call_def sidenav_code_def views_of_def)
  then have "render_loop sidenav_code 0 s = Some (?t\<lparr>render_callbacks := []\<rparr>, False)"
    using assms(4,5) by (simp add: render_loop.simps)
  with assms c q show ?thesis by (simp add: sidenav_lists_def current_menu_def)
qed

text \<open>Between microtasks: the menu of the session, or the store is marked.\<close>

definition sidenav_idle :: "scheduler \<Rightarrow> bool" where
  "sidenav_idle s \<longleftrightarrow>
     sidenav_lists s \<and> render_callbacks s = [] \<and> seen_callbacks s = [] \<and>
     (if dirty_components s = [] then dirty (comps s 0) = clean \<and> current_menu (comps s 0)
      else dirty_components s = [0] \<and> \<not> is_clean (dirty (comps s 0)) \<and> bit_of (dirty (comps s 0)) 2 \<and>
        \<not> bit (dirty (comps s 0) 0) 31)"

lemma sidenav_flush:
  assumes "flushidx s = 0" and "component_loop sidenav_code s = Some (u, False)"
    and "sidenav_lists u" and "dirty_components u = []" and "dirty (comps u 0) = clean"
    and "render_callbacks u = [0]" and "seen_callbacks u = []" and "ctx (comps u 0) 1 = logged_of (ctx (comps u 0) 2)"
  shows "\<exists>t. flush_updates sidenav_code s = Some (t, False) \<and> sidenav_idle t \<and> dirty_components t = [] \<and>
    ctx (comps t 0) 2 = ctx (comps u 0) 2"
proof -
  obtain v where v: "render_loop sidenav_code 0 u = Some (v, False)" "sidenav_lists v" "dirty_components v = [0]"
    "\<not> is_clean (dirty (comps v 0))" "render_callbacks v = []" "0 \<in> set (seen_callbacks v)"
    "current_menu (comps v 0)" "ctx (comps v 0) 2 = ctx (comps u 0) 2"
    using sidenav_callback_round [OF assms(3-8)] by blast
  obtain x where x: "flush_rounds sidenav_code v = Some (x, False)" "sidenav_lists x" "dirty_components x = []"
    "dirty (comps x 0) = clean" "render_callbacks x = []" "current_menu (comps x 0)"
    "ctx (comps x 0) 2 = ctx (comps v 0) 2"
    using sidenav_last_round [OF v(2-7)] by blast
  have "binding_loop sidenav_code u = Some (u, False)"
    using assms(3) by (simp add: binding_loop.simps sidenav_lists_def)
  then have "flush_round sidenav_code s = Some (v, False)" using assms(2) v(1) by (simp add: flush_round_def)
  then have "flush_rounds sidenav_code s = Some (x, False)"
    using v(3) x(1) by (simp add: flush_rounds.simps [of _ s])
  moreover have "flush_loop sidenav_code x = Some (x, False)"
    using x(2) by (simp add: flush_loop.simps sidenav_lists_def)
  ultimately have "flush_updates sidenav_code s = Some (x\<lparr>update_scheduled := False, seen_callbacks := []\<rparr>, False)"
    using assms(1) by (simp add: flush_updates_def)
  with x v(8) show ?thesis by (simp add: sidenav_idle_def sidenav_lists_def)
qed

lemma sidenav_pending_flush:
  assumes "sidenav_idle s" and "dirty_components s \<noteq> []"
  shows "\<exists>t. flush_updates sidenav_code s = Some (t, False) \<and> sidenav_idle t \<and> dirty_components t = [] \<and>
    ctx (comps t 0) 2 = ctx (comps s 0) 2"
proof -
  have s: "dirty_components s = [0]" "sidenav_lists s" "render_callbacks s = []" "seen_callbacks s = []"
    "bit_of (dirty (comps s 0)) 2"
    using assms by (auto simp: sidenav_idle_def split: if_splits)
  let ?s = "s\<lparr>flushidx := Suc 0\<rparr>"
  have f: "fragment (comps ?s 0)" "\<not> is_clean (dirty (comps ?s 0))" "after_update (comps ?s 0) = [0]"
    using assms by (simp_all add: sidenav_idle_def sidenav_lists_def)
  obtain sh where u: "update_component sidenav_code 0 ?s =
    (?s\<lparr>comps := (comps ?s)(0 := (comps ?s 0)\<lparr>ctx := updated_ctx (comps ?s 0), dirty := clean, shown := sh\<rparr>),
       render_callbacks := render_callbacks ?s @ [0]\<rparr>, False)"
    using sidenav_update [OF f] by blast
  let ?u = "s\<lparr>comps := (comps s)(0 := (comps s 0)\<lparr>ctx := updated_ctx (comps s 0), dirty := clean, shown := sh\<rparr>),
      render_callbacks := [0], dirty_components := [], flushidx := 0\<rparr>"
  have c: "updated_ctx (comps s 0) = (ctx (comps s 0))(1 := logged_of (ctx (comps s 0) 2))"
    using s(5) by (simp add: updated_ctx_def)
  have "\<exists>t. flush_updates sidenav_code s = Some (t, False) \<and> sidenav_idle t \<and> dirty_components t = [] \<and>
    ctx (comps t 0) 2 = ctx (comps ?u 0) 2"
  proof (rule sidenav_flush)
    show "flushidx s = 0" using s(2) by (simp add: sidenav_lists_def)
    then show "component_loop sidenav_code s = Some (?u, False)"
      using s u by (simp add: component_loop.simps)
  qed (use s in \<open>simp_all add: sidenav_lists_def c\<close>)
  then show ?thesis by (simp add: c)
qed

lemma sidenav_publish:
  assumes "sidenav_idle s"
  shows "sidenav_idle (invalidate 0 2 (store_value b) s)"
    and "ctx (comps (invalidate 0 2 (store_value b) s) 0) 2 = store_value b"
proof -
  let ?k = "comps s 0"
  have ne: "safe_not_equal (ctx ?k 2) (store_value b)"
    by (cases "ctx ?k 2") (simp_all add: safe_not_equal_def store_value_def)
  let ?m = "if is_clean (dirty ?k) then (\<lambda>j. 0) else dirty ?k"
  have "\<not> bit (?m 0) 31" using assms by (auto simp: sidenav_idle_def clean_def is_clean_def split: if_splits)
  then have "\<not> bit (with_bit 2 ?m 0) 31" using bit_31_with_bit by blast
  then have "\<not> is_clean (with_bit 2 ?m)" "bit_of (with_bit 2 ?m) 2" "\<not> bit (with_bit 2 ?m 0) 31"
    using not_clean bit_of_with_bit by blast+
  moreover have "dirty_components (invalidate 0 2 (store_value b) s) = [0]"
    unfolding invalidate_queue [OF ne] using assms
    by (auto simp: sidenav_idle_def clean_def is_clean_def split: if_splits)
  ultimately show "sidenav_idle (invalidate 0 2 (store_value b) s)"
    using assms by (simp add: sidenav_idle_def sidenav_lists_def) (simp add: invalidate_comps [OF ne])
  show "ctx (comps (invalidate 0 2 (store_value b) s) 0) 2 = store_value b"
    by (simp add: invalidate_comps [OF ne])
qed

definition publication :: "bool option \<Rightarrow> loop_event" where
  "publication e = (case e of Some b \<Rightarrow> Assign 0 2 (store_value b) | None \<Rightarrow> Microtask)"

definition published_last :: "bool \<Rightarrow> bool option list \<Rightarrow> bool" where
  "published_last b es = foldl (\<lambda>a e. case e of Some b \<Rightarrow> b | None \<Rightarrow> a) b es"

text \<open>What holds of the menu between events when the store was last published with \<open>b\<close>.\<close>

definition sidenav_ok :: "bool \<Rightarrow> scheduler \<Rightarrow> bool" where
  "sidenav_ok b s \<longleftrightarrow> page_ok 1 1 1 s \<and> sidenav_idle s \<and> ctx (comps s 0) 2 = store_value b"

lemma sidenav_shown:
  assumes "sidenav_ok b s" and "page_current 1 s" and "dirty_components s = []"
  shows "shown (comps s 0) 0 = menu_value (JBool b)"
  using assms by (simp add: sidenav_ok_def sidenav_idle_def sidenav_lists_def page_current_def current_menu_def)

lemma sidenav_microtask:
  assumes "sidenav_ok b s"
  shows "\<exists>t. microtask sidenav_code s = Some (t, False) \<and> sidenav_ok b t \<and>
    shown (comps t 0) 0 = menu_value (JBool b)"
proof -
  obtain t where t: "microtask sidenav_code s = Some (t, False)" "page_ok 1 1 1 t" "page_current 1 t"
    using microtask_good [OF sidenav_calm] assms by (auto simp: sidenav_ok_def)
  have "sidenav_idle t \<and> dirty_components t = [] \<and> ctx (comps t 0) 2 = store_value b"
  proof (cases "microtasks s = 0")
    case True
    then have "t = s" and "dirty_components s = []"
      using t(1) assms by (auto simp: microtask_def sidenav_ok_def page_ok_def)
    with assms show ?thesis by (simp add: sidenav_ok_def)
  next
    case False
    let ?s = "s\<lparr>microtasks := microtasks s - 1\<rparr>"
    have f: "flush_updates sidenav_code ?s = Some (t, False)" using t(1) False by (simp add: microtask_def)
    have i: "sidenav_idle ?s" using assms by (simp add: sidenav_ok_def sidenav_idle_def sidenav_lists_def)
    show ?thesis
    proof (cases "dirty_components s = []")
      case True
      with i f have "t = ?s\<lparr>dirty_components := [], flushidx := 0, render_callbacks := [],
          update_scheduled := False, seen_callbacks := []\<rparr>"
        by (simp add: flush_updates_def flush_rounds.simps flush_round_def component_loop.simps binding_loop.simps
            render_loop.simps flush_loop.simps sidenav_idle_def sidenav_lists_def)
      with assms True show ?thesis by (simp add: sidenav_ok_def sidenav_idle_def sidenav_lists_def)
    next
      case False
      then have "dirty_components ?s \<noteq> []" by simp
      from sidenav_pending_flush [OF i this] f assms show ?thesis by (auto simp: sidenav_ok_def)
    qed
  qed
  then have "sidenav_ok b t" using t(2) by (simp add: sidenav_ok_def)
  with t \<open>sidenav_idle t \<and> _\<close> sidenav_shown show ?thesis by blast
qed

lemma sidenav_run:
  assumes "sidenav_ok b s"
  shows "\<exists>t. loop_run sidenav_code s (map publication es) = Some t \<and> sidenav_ok (published_last b es) t"
  using assms
proof (induction es arbitrary: b s)
  case (Cons e es)
  have "\<exists>t. loop_step sidenav_code s (publication e) = Some t \<and> sidenav_ok (published_last b [e]) t"
  proof (cases e)
    case None
    with sidenav_microtask [OF Cons.prems] show ?thesis by (auto simp: publication_def published_last_def)
  next
    case (Some a)
    with Cons.prems sidenav_publish [of s a] page_ok_invalidate [of 1 1 1 s 0 2 "store_value a"] show ?thesis
      by (simp add: publication_def published_last_def sidenav_ok_def)
  qed
  then obtain t where t: "loop_step sidenav_code s (publication e) = Some t" "sidenav_ok (published_last b [e]) t"
    by blast
  moreover have "published_last (published_last b [e]) es = published_last b (e # es)"
    by (simp add: published_last_def)
  ultimately show ?case using Cons.IH [OF t(2)] by simp
qed (simp add: published_last_def)

lemma sidenav_mount:
  "\<exists>s. flush_updates sidenav_code (mounted (sidenav b) [] [0]) = Some (s, False) \<and> sidenav_ok b s \<and>
     shown (comps s 0) 0 = menu_value (JBool b)"
proof -
  let ?s = "mounted (sidenav b) [] [0]"
  have l: "sidenav_lists ?s" by (simp add: sidenav_lists_def mounted_def sidenav_def Let_def)
  have "component_loop sidenav_code ?s = Some (?s, False)" by (simp add: component_loop.simps mounted_def)
  then have "\<exists>t. flush_updates sidenav_code ?s = Some (t, False) \<and> sidenav_idle t \<and> dirty_components t = [] \<and>
      ctx (comps t 0) 2 = ctx (comps ?s 0) 2"
    using l by (intro sidenav_flush) (simp_all add: mounted_def sidenav_def Let_def)
  then obtain t where t: "flush_updates sidenav_code ?s = Some (t, False)" "sidenav_idle t" "dirty_components t = []"
    "ctx (comps t 0) 2 = store_value b" by (auto simp: mounted_def sidenav_def Let_def)
  have "settled_marks 1 1 1 ?s"
    by (rule mounted_good) (simp_all add: fresh_component_def sidenav_def Let_def)
  from flush_good [OF sidenav_calm this] t(1) have "page_ok 1 1 1 t" "page_current 1 t"
    by (auto simp: mounted_def)
  with t have "sidenav_ok b t" by (simp add: sidenav_ok_def)
  with t sidenav_shown [OF this \<open>page_current 1 t\<close>] show ?thesis by blast
qed

text \<open>
  Claim C17: the side menu, run by the scheduler, implements the menu of the session: created with
  all items, it shows the items of the state of the session after its first flush; after any
  publications of the store and any microtasks the next microtask returns and shows all items if the
  store was last published with a signed-in user and none otherwise, although the component assigns a
  new array after every update.
\<close>

theorem side_menu_follows_session:
  "\<exists>s\<^sub>0 s t. flush_updates sidenav_code (mounted (sidenav b) [] [0]) = Some (s\<^sub>0, False) \<and>
     shown (comps s\<^sub>0 0) 0 = menu_value (JBool b) \<and>
     loop_run sidenav_code s\<^sub>0 (map publication es) = Some s \<and>
     microtask sidenav_code s = Some (t, False) \<and>
     shown (comps t 0) 0 = Arr (map item_value (if published_last b es then menuItems else []))"
proof -
  obtain s\<^sub>0 where s\<^sub>0: "flush_updates sidenav_code (mounted (sidenav b) [] [0]) = Some (s\<^sub>0, False)" "sidenav_ok b s\<^sub>0"
    "shown (comps s\<^sub>0 0) 0 = menu_value (JBool b)"
    using sidenav_mount by blast
  obtain s where s: "loop_run sidenav_code s\<^sub>0 (map publication es) = Some s" "sidenav_ok (published_last b es) s"
    using sidenav_run [OF s\<^sub>0(2)] by blast
  obtain t where t: "microtask sidenav_code s = Some (t, False)"
    "shown (comps t 0) 0 = menu_value (JBool (published_last b es))"
    using sidenav_microtask [OF s(2)] by blast
  then have "shown (comps t 0) 0 = Arr (map item_value (if published_last b es then menuItems else []))"
    by (simp add: menu_value_def menuItemsToRender_def)
  with s\<^sub>0 s t show ?thesis by blast
qed

end
