(* ===== verification/Spec2Isabelle.thy ===== *)
theory Spec2Isabelle
  imports Rbi_Media Rbi_Control Icu_Skeleton_Correct I18n_Correct App_Session Dns_Records Dns_Lists
    Settings_Inputs Users Rules Filter_Table Toasts Log_Texts Formatters I18n_Options Svelte_Each
    Svelte_Derived Svelte_Spread Svelte_Transition Svelte_Instance Route_Pages_Correct Start_Page Pages
begin

text \<open>
  A model of the JavaScript side of the TLS-terminating proxy with remote browser isolation, and
  proofs about it. All paths are under \<open>src/Gatesentry/\<close>.

  \<^bold>\<open>The program.\<close> Two programs run in a browser. The extension of the isolated browser
  (\<open>rbi/rbi-chrome/ext/\<close>) watches camera, microphone and speech recognition of a page and
  reports their use to the host over a WebSocket. The administration interface (\<open>ui/src/\<close>,
  compiled with its libraries to \<open>ui/dist/fs/bundle.js\<close>) lets an administrator sign in and
  edit filters, DNS records, lists, users, rules and settings of the proxy, over its JSON interface.
  It uses a client-side router and a library for translations, which parses messages in the ICU
  syntax; both are modelled from the bundle.

  \<^bold>\<open>Foundations.\<close> \<open>JS_Prelude\<close> has strings as lists of 16-bit code units, the run of a
  machine over a list of events and the locale \<open>event_machine\<close> of invariants.
  \<open>JS_Value\<close> has the values of JavaScript with coercions as the code uses them, and
  \<open>JSON_Text\<close> the text form of values, written and read, with the round trip. \<open>JS_Double\<close> has the
  rounding of quotients to 53 significant bits, with the error it makes.

  \<^bold>\<open>Remote browser.\<close> \<open>Rbi_Media\<close> is \<open>inject.js\<close>: a record of the variables of the
  script, a step per browser event or timer, and time in milliseconds. The host knows that the
  camera is on while a capture is in flight, messages alternate, and the microphone is reported off
  after 30 seconds of silence, no sooner and eventually. \<open>Rbi_Control\<close> is \<open>content.js\<close>: messages
  go out in order, once each, and the queue can always be emptied by the network alone.

  \<^bold>\<open>Messages and translations.\<close> \<open>Icu_Chars\<close>, \<open>Icu_Skeleton\<close>, \<open>Icu_Parser\<close> and
  \<open>Icu_Format\<close> are lines 25119--27312 of the bundle; \<open>Icu_Skeleton_Correct\<close> and
  \<open>Icu_Parser_Correct\<close> hold their theorems: the parser returns on every message, its trees are
  well formed, quoted texts come back, and formatting a parsed message has only the errors that are
  named. The parser is a family of functions with fuel, one unit for each nested call; the
  theorem on totality shows that two units for each code unit of the message and two more are
  enough. \<open>Deepmerge\<close>, \<open>I18n\<close> and \<open>I18n_Correct\<close> are the dictionaries and the
  locale machinery: lookup with its cache, loading in any order of replies, and formatting by id;
  \<open>I18n_Options\<close> has the options and the warning for a missing message.
  \<open>Formatters\<close> has the caches of number, date and time formatters as instances of one contract of
  memoization: for options without undefined values, what is cached is what would be made anew.

  \<^bold>\<open>Administration interface.\<close> \<open>Api_Client\<close> is the client of the server and its store,
  \<open>Notifications\<close> the messages, \<open>Ui_Base\<close> what every component shares: the store, the calls it
  has sent and the notices it has shown. A component is a record of its variables and the calls it
  awaits; its step function takes a click, an input or the settlement of one of those calls, so
  a list of events is one interleaving of the user with the network. \<open>Numbered_Rows\<close> is the
  contract of a table whose rows are numbered by position, interpreted for notifications, filter
  entries and DNS records. \<open>Filter_Editor\<close>, \<open>Dns_Records\<close>, \<open>Dns_Lists\<close>,
  \<open>Settings_Inputs\<close>, \<open>Users\<close>, \<open>Rules\<close> and \<open>Activity\<close> are the components: what is saved
  loads back, edits change one row, one timer polls the logs; and where the code does otherwise,
  exactly how.

  \<^bold>\<open>Lists on the page.\<close> \<open>Data_Table\<close> is the table widget with its search box, from the bundle:
  clicks on a header sort stably and a search loses no row. \<open>Filter_Table\<close> puts the rows of the filter
  editor into that table and says which cells the table keeps for them. \<open>Log_Texts\<close> has the relative
  times and the shortened addresses of the log viewer: exact up to weeks, and for months and years up to
  the rounding of doubles. \<open>Start_Page\<close> is the header
  with the version and the start page with its dialogs. \<open>Toasts\<close> is the list of notifications on the
  page, whose components go by position and carry a timer each: what closing one takes off the page.

  \<^bold>\<open>Runtime.\<close> The compiled components run on the runtime of Svelte, of which the bundle has the code.
  \<open>Svelte_Each\<close> is the update of a keyed list: the children end in the order of the items and blocks
  whose key stays are kept. \<open>Svelte_Store\<close> is the writable store: when callbacks set
  only later stores, delivery ends and subscribers know the current value. \<open>Svelte_Derived\<close> is a store computed from others, which is current when nothing
  is outstanding, and \<open>Svelte_Spread\<close> the update of spread properties, with the value of every
  property. \<open>Svelte_Flush\<close> is the scheduler, with masks of 32-bit words and the loops of a
  flush as partial functions into an option; what components do is a list of actions for each of
  their variables' values. \<open>Svelte_Flush_Correct\<close> shows that a flush returns for components of the
  ordinary shape and that the page then shows the variables; the loops end by a lexicographic order on
  the components that exist, the multiset of waiting components and the callbacks not yet called.
  After an exception the page is frozen. \<open>Svelte_Transition\<close> has transitions with pending programs and
  groups of outros, on the button of the header whose panel slides: whatever is clicked in between, the
  panel ends shown or removed. \<open>Svelte_Instance\<close> has contexts, the listeners of components and the masks
  of slots, with the variables that a full mask leaves out.

  \<^bold>\<open>Navigation.\<close> \<open>Router\<close> is the router of the bundle, with an inductive definition of
  matching that the loop over segments implements; a location that cannot be decoded stops its
  updates, which never happens to the routes of the application. \<open>Route_Pages\<close> are the components of
  routes with their await blocks, and \<open>Route_Pages_Correct\<close> shows that the page is that of the location,
  whatever order promises of components settle in. \<open>App_Shell\<close> is \<open>App.svelte\<close> and the login page,
  with an event for an update of the page that raises, after which neither the router nor a reactive
  block runs again. \<open>App_Routes\<close> evaluates the table of routes and the menu. \<open>App_Session\<close> says which
  page is active: until an update raises, the login page exactly while the user is signed out, except
  that a move in the history while signed out opens the page of its address; and a click on a link of
  the menu opens its page. \<open>Pages\<close> runs components on the scheduler: the side menu follows the session,
  and an error reply for the certificate freezes the application.

  \<^bold>\<open>Arguments of the model.\<close> The replies of the server, the loaders of dictionaries, the
  formatters of \<open>Intl\<close>, the locale database, the functions that load the component of a route, the test for an IPv4 address, the collation of texts,
  their lower case and the chart library are arguments, since their code is not in the repository or
  belongs to the browser. Numbers are integers; the quotients of the relative times are rounded as doubles are.
  Of the collation only that it is a consistent comparison is used.

  \<^bold>\<open>Not modelled.\<close> The Go server and proxy, the C++ client, the camera relay and the scripts
  are in other languages. In the bundle, the widgets of Carbon other than the table, its search
  box, the toast and the button of the header, and lodash other than \<open>truncate\<close>, are third-party code without a part in the logic above; lines
  27630 on are an older build of the sources under \<open>ui/src/\<close>. Of the runtime, derived
  stores whose function gets a setter (no call in the bundle passes one), the text of style rules and
  the creation of components during a flush are left out, so what is on the page after a failed
  navigation is not described; and of the router its use without a document, relative addresses and
  the escapes that a browser writes. Pages that are only markup are left out.
\<close>

end
